(* ===== verification/Prelude.thy ===== *)
theory Prelude
  imports Main "HOL-Library.More_List"
begin

text \<open>
  Shared ground of the development: the Python values and string operations the modelled
  code uses (\<open>str.strip\<close>, \<open>str.lower\<close>, \<open>str.find\<close>, \<open>int(s)\<close>, truthiness), generic lemmas on
  lists, and two interfaces the components instantiate: a system of steps with an
  invariant, and a pool of slots with a capacity.

  Two kinds of string are used. Identifiers, environment values and configuration are
  \<open>string\<close>s (their characters are ASCII). Natural-language text (utterances, replies, text
  to be spoken) is a list of Unicode code points, because the code counts and compares
  code points and tests them against CJK ranges.
\<close>

section \<open>Text as code points, and Python's string operations\<close>

type_synonym ustr = "nat list"

definition u :: "string \<Rightarrow> ustr" where
  "u s = map of_char s"

text \<open>\<open>str.isspace\<close> of one code point, as CPython's Unicode tables have it.\<close>

definition py_isspace :: "nat \<Rightarrow> bool" where
  "py_isspace c \<longleftrightarrow> (9 \<le> c \<and> c \<le> 13) \<or> (28 \<le> c \<and> c \<le> 32) \<or> c = 133 \<or> c = 160 \<or> c = 5760 \<or>
     (8192 \<le> c \<and> c \<le> 8202) \<or> c = 8232 \<or> c = 8233 \<or> c = 8239 \<or> c = 8287 \<or> c = 12288"

definition lstrip_by :: "('a \<Rightarrow> bool) \<Rightarrow> 'a list \<Rightarrow> 'a list" where
  "lstrip_by P xs = dropWhile P xs"

definition strip_by :: "('a \<Rightarrow> bool) \<Rightarrow> 'a list \<Rightarrow> 'a list" where
  "strip_by P xs = strip_while P (dropWhile P xs)"

abbreviation ustrip :: "ustr \<Rightarrow> ustr" where
  "ustrip \<equiv> strip_by py_isspace"

abbreviation ulstrip :: "ustr \<Rightarrow> ustr" where
  "ulstrip \<equiv> lstrip_by py_isspace"

definition sspace :: "char \<Rightarrow> bool" where
  "sspace c = py_isspace (of_char c)"

abbreviation sstrip :: "string \<Rightarrow> string" where
  "sstrip \<equiv> strip_by sspace"

definition lower_char :: "char \<Rightarrow> char" where
  "lower_char c = (let n = (of_char c :: nat) in if 65 \<le> n \<and> n \<le> 90 then char_of (n + 32) else c)"

definition py_lower :: "string \<Rightarrow> string" where
  "py_lower s = map lower_char s"

definition upper_char :: "char \<Rightarrow> char" where
  "upper_char c = (let n = (of_char c :: nat) in if 97 \<le> n \<and> n \<le> 122 then char_of (n - 32) else c)"

definition py_upper :: "string \<Rightarrow> string" where
  "py_upper s = map upper_char s"

definition starts_with :: "'a list \<Rightarrow> 'a list \<Rightarrow> bool" where
  "starts_with p s \<longleftrightarrow> take (length p) s = p"

definition ends_with :: "'a list \<Rightarrow> 'a list \<Rightarrow> bool" where
  "ends_with p s \<longleftrightarrow> starts_with (rev p) (rev s)"

fun contains :: "'a list \<Rightarrow> 'a list \<Rightarrow> bool" where
  "contains p [] \<longleftrightarrow> p = []"
| "contains p (x # xs) \<longleftrightarrow> starts_with p (x # xs) \<or> contains p xs"

text \<open>\<open>s.split(sep)\<close> for a one-character separator.\<close>

fun split_on :: "'a \<Rightarrow> 'a list \<Rightarrow> 'a list list" where
  "split_on c [] = [[]]"
| "split_on c (x # xs) =
     (if x = c then [] # split_on c xs
      else (case split_on c xs of [] \<Rightarrow> [[x]] | w # ws \<Rightarrow> (x # w) # ws))"

text \<open>\<open>lower()\<close>, on text that is compared with ASCII words only.\<close>

definition ascii_lower :: "ustr \<Rightarrow> ustr" where
  "ascii_lower t = map (\<lambda>x. if 65 \<le> x \<and> x \<le> 90 then x + 32 else x) t"

section \<open>Integers and their decimal text\<close>

fun digit_char :: "nat \<Rightarrow> char" where
  "digit_char d = char_of (48 + d)"

fun nat_str :: "nat \<Rightarrow> string" where
  "nat_str n = (if n < 10 then [digit_char n] else nat_str (n div 10) @ [digit_char (n mod 10)])"

declare nat_str.simps [simp del]

definition int_str :: "int \<Rightarrow> string" where
  "int_str i = (if i < 0 then CHR ''-'' # nat_str (nat (- i)) else nat_str (nat i))"

definition digit_val :: "char \<Rightarrow> nat option" where
  "digit_val c = (let n = (of_char c :: nat) in if 48 \<le> n \<and> n \<le> 57 then Some (n - 48) else None)"

text \<open>
  The digits of a Python integer literal: at least one digit, single underscores allowed
  between digits. The flag says that the previous character was a digit.
\<close>

fun digits_val :: "bool \<Rightarrow> nat \<Rightarrow> string \<Rightarrow> nat option" where
  "digits_val prev acc [] = (if prev then Some acc else None)"
| "digits_val prev acc (c # cs) =
     (case digit_val c of
        Some d \<Rightarrow> digits_val True (10 * acc + d) cs
      | None \<Rightarrow> if c = CHR ''_'' \<and> prev then digits_val False acc cs else None)"

text \<open>\<open>int(s)\<close> of a string: \<open>None\<close> stands for the ValueError.\<close>

definition py_int :: "string \<Rightarrow> int option" where
  "py_int s =
     (case sstrip s of
        [] \<Rightarrow> None
      | c # cs \<Rightarrow>
          if c = CHR ''-'' then map_option (\<lambda>n. - int n) (digits_val False 0 cs)
          else if c = CHR ''+'' then map_option int (digits_val False 0 cs)
          else map_option int (digits_val False 0 (c # cs)))"

section \<open>Scalar Python values\<close>

datatype pyval = PNone | PBool bool | PInt int | PStr string

fun truthy :: "pyval \<Rightarrow> bool" where
  "truthy PNone = False"
| "truthy (PBool b) = b"
| "truthy (PInt i) = (i \<noteq> 0)"
| "truthy (PStr s) = (s \<noteq> [])"

fun py_str :: "pyval \<Rightarrow> string" where
  "py_str PNone = ''None''"
| "py_str (PBool b) = (if b then ''True'' else ''False'')"
| "py_str (PInt i) = int_str i"
| "py_str (PStr s) = s"

text \<open>\<open>str(v or '''')\<close>.\<close>

definition str_or_empty :: "pyval \<Rightarrow> string" where
  "str_or_empty v = (if truthy v then py_str v else [])"

text \<open>\<open>d.get(k)\<close> with the default \<open>None\<close>, for a dict kept as an association list.\<close>

definition dget :: "('k \<times> pyval) list \<Rightarrow> 'k \<Rightarrow> pyval" where
  "dget d k = (case map_of d k of None \<Rightarrow> PNone | Some v \<Rightarrow> v)"

section \<open>Lemmas on stripping and splitting\<close>

lemma filter_not_dropWhile [simp]: "filter (\<lambda>x. \<not> P x) (dropWhile P xs) = filter (\<lambda>x. \<not> P x) xs"
  by (induction xs) auto

lemma filter_not_strip_while [simp]: "filter (\<lambda>x. \<not> P x) (strip_while P xs) = filter (\<lambda>x. \<not> P x) xs"
  by (simp add: strip_while_def flip: rev_filter)

lemma filter_not_strip [simp]: "filter (\<lambda>x. \<not> P x) (strip_by P xs) = filter (\<lambda>x. \<not> P x) xs"
  by (simp add: strip_by_def)

lemma filter_not_lstrip [simp]: "filter (\<lambda>x. \<not> P x) (lstrip_by P xs) = filter (\<lambda>x. \<not> P x) xs"
  by (simp add: lstrip_by_def)

lemma length_strip_by: "length (strip_by P xs) \<le> length xs"
proof -
  have "length (dropWhile P (rev (dropWhile P xs))) \<le> length (dropWhile P xs)"
    by (metis length_dropWhile_le length_rev)
  then show ?thesis
    using length_dropWhile_le [of P xs] by (simp add: strip_by_def strip_while_def)
qed

lemma length_lstrip_by: "length (lstrip_by P xs) \<le> length xs"
  by (simp add: lstrip_by_def length_dropWhile_le)

lemma strip_by_Nil_iff: "strip_by P xs = [] \<longleftrightarrow> (\<forall>x \<in> set xs. P x)"
  by (simp add: strip_by_def strip_while_def dropWhile_eq_Nil_conv)
     (metis dropWhile_eq_Nil_conv set_dropWhileD hd_dropWhile list.set_sel(1))

lemma strip_by_append_not:
  "\<not> P x \<Longrightarrow> length (strip_by P (x # xs)) \<ge> 1"
  by (metis Suc_leI One_nat_def length_greater_0_conv list.set_intros(1) strip_by_Nil_iff)

lemma starts_with_Nil [simp]: "starts_with [] s"
  by (simp add: starts_with_def)

lemma contains_Nil [simp]: "contains [] s"
  by (cases s) auto

lemma lower_char_idem [simp]: "lower_char (lower_char c) = lower_char c"
  by (auto simp: lower_char_def Let_def)

lemma py_lower_idem [simp]: "py_lower (py_lower s) = py_lower s"
  by (simp add: py_lower_def)

lemma py_lower_Nil_iff [simp]: "py_lower s = [] \<longleftrightarrow> s = []"
  by (simp add: py_lower_def)

section \<open>Reading back the decimal text of an integer\<close>

lemma digit_val_char [simp]: "d < 10 \<Longrightarrow> digit_val (digit_char d) = Some d"
  by (simp add: digit_val_def)

lemma digits_val_snoc:
  "digits_val prev acc cs = Some m \<Longrightarrow> d < 10 \<Longrightarrow> digits_val prev acc (cs @ [digit_char d]) = Some (10 * m + d)"
  by (induction prev acc cs rule: digits_val.induct) (auto simp del: digit_char.simps split: option.splits if_splits)

lemma digits_val_nat_str: "digits_val False 0 (nat_str n) = Some n"
proof (induction n rule: nat_str.induct)
  case (1 n)
  show ?case
  proof (cases "n < 10")
    case True
    then show ?thesis by (simp add: nat_str.simps [of n] del: digit_char.simps)
  next
    case False
    then show ?thesis using digits_val_snoc [OF 1 [OF False], of "n mod 10"] by (simp add: nat_str.simps [of n] del: digit_char.simps)
  qed
qed

definition is_digit :: "char \<Rightarrow> bool" where
  "is_digit c = (digit_val c \<noteq> None)"

lemma nat_str_digits: "\<forall>c \<in> set (nat_str n). is_digit c"
proof (induction n rule: nat_str.induct)
  case (1 n)
  show ?case using 1 by (cases "n < 10") (auto simp: is_digit_def nat_str.simps [of n] simp del: digit_char.simps)
qed

lemma nat_str_nonempty [simp]: "nat_str n \<noteq> []"
  by (simp add: nat_str.simps [of n])

lemma digit_not_space: "is_digit c \<Longrightarrow> \<not> sspace c"
  by (auto simp: is_digit_def digit_val_def sspace_def py_isspace_def Let_def split: if_splits)

lemma digit_not_sign [simp]: "\<not> is_digit (CHR ''-'')" "\<not> is_digit (CHR ''+'')"
  by (simp_all add: is_digit_def digit_val_def)

lemma dropWhile_id: "\<forall>x \<in> set xs. \<not> P x \<Longrightarrow> dropWhile P xs = xs"
  by (cases xs) auto

lemma strip_by_id: "\<forall>x \<in> set xs. \<not> P x \<Longrightarrow> strip_by P xs = xs"
  by (simp add: strip_by_def strip_while_def dropWhile_id)

lemma py_int_int_str [simp]: "py_int (int_str i) = Some i"
proof (cases "i < 0")
  case True
  have "\<forall>c \<in> set (CHR ''-'' # nat_str (nat (- i))). \<not> sspace c"
    using nat_str_digits digit_not_space by (auto simp: sspace_def py_isspace_def)
  then show ?thesis using True by (simp add: py_int_def int_str_def strip_by_id digits_val_nat_str)
next
  case False
  have "sstrip (nat_str (nat i)) = nat_str (nat i)" using nat_str_digits digit_not_space by (blast intro: strip_by_id)
  moreover obtain c cs where n: "nat_str (nat i) = c # cs" by (cases "nat_str (nat i)") simp_all
  moreover have "is_digit c" using nat_str_digits [of "nat i"] n by simp
  then have "c \<noteq> CHR ''-''" "c \<noteq> CHR ''+''" by auto
  ultimately show ?thesis using False digits_val_nat_str [of "nat i"] by (simp add: py_int_def int_str_def)
qed

lemma int_str_inject [simp]: "int_str i = int_str j \<longleftrightarrow> i = j"
  using py_int_int_str by (metis option.inject)

section \<open>Removing an element by position\<close>

definition drop_nth :: "nat \<Rightarrow> 'a list \<Rightarrow> 'a list" where
  "drop_nth i xs = take i xs @ drop (Suc i) xs"

lemma set_drop_nth: "set (drop_nth i xs) \<subseteq> set xs"
  unfolding drop_nth_def by (auto dest: in_set_takeD in_set_dropD)

lemma length_drop_nth: "i < length xs \<Longrightarrow> Suc (length (drop_nth i xs)) = length xs"
  by (simp add: drop_nth_def)

lemma drop_nth_split:
  assumes "i < length xs"
  obtains ys zs where "xs = ys @ xs ! i # zs" "drop_nth i xs = ys @ zs" "length ys = i"
  using assms id_take_nth_drop [OF assms] by (auto simp: drop_nth_def)

lemma list_update_split:
  assumes "i < length xs"
  obtains ys zs where "xs = ys @ xs ! i # zs" "xs[i := x] = ys @ x # zs" "drop_nth i xs = ys @ zs"
  using assms id_take_nth_drop [OF assms] upd_conv_take_nth_drop [OF assms] by (auto simp: drop_nth_def)

section \<open>Systems of steps with an invariant\<close>

text \<open>
  Every stateful component offers its operations as one function from an event and a
  state to the next state. What each event keeps, every sequence of events keeps; a
  measure no event lowers is monotone along every sequence.
\<close>

locale step_system =
  fixes step :: "'e \<Rightarrow> 's \<Rightarrow> 's" and inv :: "'s \<Rightarrow> bool"
  assumes step_inv: "inv s \<Longrightarrow> inv (step e s)"
begin

lemma run_inv: "inv s \<Longrightarrow> inv (fold step es s)"
  by (induction es arbitrary: s) (auto intro: step_inv)

lemma run_rel:
  assumes refl: "\<And>s. R s s"
    and trans: "\<And>a b c. R a b \<Longrightarrow> R b c \<Longrightarrow> R a c"
    and one: "\<And>e s. inv s \<Longrightarrow> R s (step e s)"
    and start: "inv s"
  shows "R s (fold step es s)"
  using start
proof (induction es arbitrary: s)
  case Nil
  then show ?case by (simp add: refl)
next
  case (Cons e es)
  have "R s (step e s)" using Cons.prems by (rule one)
  moreover have "R (step e s) (fold step es (step e s))"
    using Cons.prems by (blast intro: Cons.IH step_inv)
  ultimately show ?case by (auto intro: trans)
qed

end

section \<open>Pools of slots\<close>

text \<open>
  The contract of an admission gate: \<open>take_slot\<close> hands out a fresh slot or refuses,
  \<open>give_slot\<close> returns one, and refusal happens exactly at capacity.
\<close>

locale slot_pool =
  fixes take_slot :: "'s \<Rightarrow> ('t \<times> 's) option"
    and give_slot :: "'t \<Rightarrow> 's \<Rightarrow> 's"
    and held :: "'s \<Rightarrow> 't set"
    and capacity :: "'s \<Rightarrow> nat"
    and pool_inv :: "'s \<Rightarrow> bool"
  assumes held_finite: "pool_inv s \<Longrightarrow> finite (held s)"
    and take_None_iff: "pool_inv s \<Longrightarrow> take_slot s = None \<longleftrightarrow> capacity s \<le> card (held s)"
    and take_fresh: "pool_inv s \<Longrightarrow> take_slot s = Some (t, s') \<Longrightarrow> t \<notin> held s"
    and take_held: "pool_inv s \<Longrightarrow> take_slot s = Some (t, s') \<Longrightarrow> held s' = insert t (held s)"
    and take_frame: "pool_inv s \<Longrightarrow> take_slot s = Some (t, s') \<Longrightarrow> capacity s' = capacity s \<and> pool_inv s'"
    and give_held: "pool_inv s \<Longrightarrow> held (give_slot t s) = held s - {t}"
    and give_frame: "pool_inv s \<Longrightarrow> capacity (give_slot t s) = capacity s \<and> pool_inv (give_slot t s)"
begin

definition within :: "'s \<Rightarrow> bool" where
  "within s \<longleftrightarrow> pool_inv s \<and> card (held s) \<le> capacity s"

lemma take_within: "within s \<Longrightarrow> take_slot s = Some (t, s') \<Longrightarrow> within s'"
  using take_None_iff [of s] take_fresh [of s t s'] take_held [of s t s'] take_frame [of s t s']
    held_finite [of s]
  by (auto simp: within_def)

lemma give_within:
  assumes "within s"
  shows "within (give_slot t s)"
proof -
  have "card (held s - {t}) \<le> card (held s)"
    by (rule card_Diff1_le)
  then show ?thesis
    using assms give_held [of s t] give_frame [of s t] by (simp add: within_def)
qed

lemma give_idem: "pool_inv s \<Longrightarrow> held (give_slot t (give_slot t s)) = held (give_slot t s)"
  by (simp add: give_held give_frame)

lemma take_give: "pool_inv s \<Longrightarrow> take_slot s = Some (t, s') \<Longrightarrow> held (give_slot t s') = held s"
  using take_fresh [of s t s'] take_held [of s t s'] take_frame [of s t s']
  by (auto simp: give_held)

lemma give_frees:
  assumes "within s" and "t \<in> held s" and "0 < capacity s"
  shows "take_slot (give_slot t s) \<noteq> None"
proof -
  have "card (held s - {t}) < card (held s)"
    using assms held_finite [of s] card_Diff1_less [of "held s" t] by (simp add: within_def)
  then show ?thesis
    using assms take_None_iff [of "give_slot t s"] give_held [of s t] give_frame [of s t]
    by (auto simp: within_def)
qed

end

end
