(* ===== verification/Capability.thy ===== *)
theory Capability
  imports Prelude
begin

text \<open>
  The concurrency-capability resolver: \<open>app/core/concurrency_capability.py\<close> (the descriptor a
  backend class publishes) and \<open>app/core/capability_resolver.py\<close> (how the descriptors, the
  profile and the environment give the session ceiling, the coordinator mode and the TTS
  executor's size). A profile is a JSON object: its scalar fields, its \<open>env\<close> block and the
  \<open>model_id\<close>s of \<open>required_engines\<close>. Backend classes are imported lazily by name; the
  registry is a parameter that says for each name whether the import succeeds and what
  \<open>concurrency_capability(profile)\<close> returns (\<open>None\<close>: it raised).
\<close>

section \<open>Data\<close>

record profile =
  p_top :: "(string \<times> pyval) list"
  p_env :: "(string \<times> pyval) list"
  p_engines :: "pyval list"

definition empty_profile :: profile where
  "empty_profile = \<lparr>p_top = [], p_env = [], p_engines = []\<rparr>"

type_synonym environ = "string \<Rightarrow> string option"

definition env_get :: "environ \<Rightarrow> string \<Rightarrow> string" where
  "env_get env k = (case env k of None \<Rightarrow> [] | Some v \<Rightarrow> v)"

record concurrency_capability =
  supports_parallel :: bool
  max_concurrent :: "int option"
  is_stateful :: bool
  requires_exclusive_device :: bool
  scaling_mode :: string
  vram_mb_per_slot :: "int option"

definition default_capability :: concurrency_capability where
  "default_capability = \<lparr>supports_parallel = False, max_concurrent = Some 1, is_stateful = True,
     requires_exclusive_device = True, scaling_mode = ''single_runtime_multiplex'',
     vram_mb_per_slot = None\<rparr>"

datatype backend_class = Importable "profile \<Rightarrow> concurrency_capability option" | ImportFails

type_synonym registry = "string \<Rightarrow> backend_class option"

datatype config_error = NotAnInteger string pyval | NotPositive string int

datatype clamp_warning =
    ClampEnv int int string
  | ClampProfile int int string
  | ClampExecutor string int int

section \<open>Target defaults\<close>

definition target_defaults :: "string \<Rightarrow> int option" where
  "target_defaults = map_of [(''orin-nx'', 2), (''orin-nano'', 1), (''rk'', 1), (''desktop'', 4)]"

definition unknown_default :: int where
  "unknown_default = 1"

definition target_default :: "string \<Rightarrow> int" where
  "target_default t = (case target_defaults t of None \<Rightarrow> unknown_default | Some n \<Rightarrow> n)"

definition infer_target :: "environ \<Rightarrow> profile \<Rightarrow> string" where
  "infer_target os_env profile =
     (let name = py_lower (str_or_empty (dget (p_top profile) ''name''));
          rk_block = str_or_empty (dget (p_env profile) ''RK_PLATFORM'');
          rk_platform = py_lower (if rk_block \<noteq> [] then rk_block else env_get os_env ''RK_PLATFORM'');
          lm_block = str_or_empty (dget (p_env profile) ''LANGUAGE_MODE'');
          lang_mode = py_lower (if lm_block \<noteq> [] then lm_block else env_get os_env ''LANGUAGE_MODE'')
      in if contains ''orin-nx'' name \<or> contains ''orin_nx'' name then ''orin-nx''
         else if contains ''orin-nano'' name \<or> contains ''orin_nano'' name then ''orin-nano''
         else if contains ''rk'' name \<or> contains ''rockchip'' name \<or> contains ''radxa'' name then ''rk''
         else if contains ''desktop'' name \<or> contains ''ci'' name then ''desktop''
         else if rk_platform \<noteq> [] then ''rk''
         else if lang_mode = ''rk'' then ''rk''
         else ''unknown'')"

section \<open>Backend classes and their capability\<close>

definition resolve_backend_class :: "profile \<Rightarrow> string \<Rightarrow> registry \<Rightarrow> backend_class option" where
  "resolve_backend_class profile key reg =
     (case dget (p_top profile) key of
        PStr spec \<Rightarrow>
          if spec = [] then None
          else (case reg spec of
                  None \<Rightarrow> None
                | Some ImportFails \<Rightarrow> None
                | Some (Importable f) \<Rightarrow> Some (Importable f))
      | _ \<Rightarrow> None)"

definition capability_for :: "backend_class option \<Rightarrow> profile \<Rightarrow> concurrency_capability" where
  "capability_for cls profile =
     (case cls of
        Some (Importable f) \<Rightarrow> (case f profile of None \<Rightarrow> default_capability | Some c \<Rightarrow> c)
      | _ \<Rightarrow> default_capability)"

definition aggregate_ceiling ::
  "concurrency_capability \<Rightarrow> concurrency_capability \<Rightarrow> int option \<times> string" where
  "aggregate_ceiling asr_cap tts_cap =
     (case (max_concurrent asr_cap, max_concurrent tts_cap) of
        (None, None) \<Rightarrow> (None, ''asr=inf,tts=inf'')
      | (None, Some t) \<Rightarrow> (Some t, ''asr=inf,tts='' @ int_str t)
      | (Some a, None) \<Rightarrow> (Some a, ''asr='' @ int_str a @ '',tts=inf'')
      | (Some a, Some t) \<Rightarrow> (Some (min a t), ''asr='' @ int_str a @ '',tts='' @ int_str t))"

definition parallel_ok :: "concurrency_capability \<Rightarrow> bool" where
  "parallel_ok cap =
     (if \<not> supports_parallel cap then False
      else (case max_concurrent cap of None \<Rightarrow> True | Some n \<Rightarrow> n > 1))"

section \<open>Overrides\<close>

definition parse_positive_int :: "pyval \<Rightarrow> string \<Rightarrow> config_error + int option" where
  "parse_positive_int v label =
     (let positive = (\<lambda>n. if n \<le> 0 then Inl (NotPositive label n) else Inr (Some n)) in
      case v of
        PNone \<Rightarrow> Inr None
      | PInt n \<Rightarrow> positive n
      | _ \<Rightarrow> (if sstrip (py_str v) = [] then Inr None
              else (case py_int (sstrip (py_str v)) of
                      None \<Rightarrow> Inl (NotAnInteger label v)
                    | Some n \<Rightarrow> positive n)))"

definition env_val :: "environ \<Rightarrow> string \<Rightarrow> pyval" where
  "env_val env k = (case env k of None \<Rightarrow> PNone | Some s \<Rightarrow> PStr s)"

text \<open>The environment variable that sizes the executor, with its value, if one applies.\<close>

fun backend_env_choice :: "(string \<times> string) list \<Rightarrow> string \<Rightarrow> environ \<Rightarrow> (string \<times> string) option" where
  "backend_env_choice [] name env = None"
| "backend_env_choice ((suffix, env_name) # rest) name env =
     (if contains suffix name \<and> env_get env env_name \<noteq> []
      then Some (env_name, env_get env env_name)
      else backend_env_choice rest name env)"

definition executor_env_table :: "(string \<times> string) list" where
  "executor_env_table =
     [(''kokoro'', ''OVS_TTS_STREAM_MAX_WORKERS_KOKORO''),
      (''matcha'', ''OVS_TTS_STREAM_MAX_WORKERS_MATCHA''),
      (''qwen3'', ''OVS_TTS_STREAM_MAX_WORKERS_QWEN3''),
      (''moss'', ''OVS_TTS_STREAM_MAX_WORKERS_MOSS'')]"

definition executor_env_choice :: "string \<Rightarrow> environ \<Rightarrow> (string \<times> string) option" where
  "executor_env_choice name env =
     (case backend_env_choice executor_env_table name env of
        Some c \<Rightarrow> Some c
      | None \<Rightarrow> if env_get env ''OVS_TTS_STREAM_MAX_WORKERS'' \<noteq> []
               then Some (''OVS_TTS_STREAM_MAX_WORKERS'', env_get env ''OVS_TTS_STREAM_MAX_WORKERS'')
               else None)"

definition resolve_executor_max_workers ::
  "concurrency_capability \<Rightarrow> string \<Rightarrow> environ \<Rightarrow> int \<times> clamp_warning option" where
  "resolve_executor_max_workers tts_cap tts_backend_name env =
     (case executor_env_choice (py_lower tts_backend_name) env of
        Some (env_used, env_str) \<Rightarrow>
          (let n = (case py_int env_str of None \<Rightarrow> 2 | Some n \<Rightarrow> n) in
           case max_concurrent tts_cap of
             None \<Rightarrow> (max 1 n, None)
           | Some m \<Rightarrow> if n > m then (max 1 m, Some (ClampExecutor env_used n m)) else (max 1 n, None))
      | None \<Rightarrow>
          (case max_concurrent tts_cap of
             Some m \<Rightarrow> (max 1 m, None)
           | None \<Rightarrow> (2, None)))"

section \<open>The resolver\<close>

record resolved_capability =
  session_ceiling :: "int option"
  executor_max_workers :: int
  coordinator_mode :: string
  ceiling_source :: string
  asr_cap :: concurrency_capability
  tts_cap :: concurrency_capability
  clamp_warnings :: "clamp_warning list"

definition declares_backends :: "profile \<Rightarrow> bool" where
  "declares_backends profile \<longleftrightarrow>
     truthy (dget (p_top profile) ''asr_backend'') \<or> truthy (dget (p_top profile) ''tts_backend'')"

text \<open>The ceiling before overrides: the backends' own, or the target's default.\<close>

definition backend_ceiling ::
  "environ \<Rightarrow> profile \<Rightarrow> concurrency_capability \<Rightarrow> concurrency_capability \<Rightarrow> int option \<times> string" where
  "backend_ceiling os_env profile acap tcap =
     (if declares_backends profile then aggregate_ceiling acap tcap
      else (let target = infer_target os_env profile
            in (Some (target_default target), ''target_default='' @ target)))"

definition clamp_session ::
  "environ \<Rightarrow> profile \<Rightarrow> int option \<times> string \<Rightarrow> int option \<Rightarrow> int option \<Rightarrow> int option \<times> clamp_warning list" where
  "clamp_session os_env profile cs env_session profile_session =
     (let (ceiling, source) = cs in
      case env_session of
        Some n \<Rightarrow>
          (case ceiling of
             Some c \<Rightarrow> if n > c then (Some c, [ClampEnv n c source]) else (Some n, [])
           | None \<Rightarrow> (Some n, []))
      | None \<Rightarrow>
          (case profile_session of
             Some n \<Rightarrow>
               (case ceiling of
                  Some c \<Rightarrow> if n > c then (Some c, [ClampProfile n c source]) else (Some n, [])
                | None \<Rightarrow> (Some n, []))
           | None \<Rightarrow>
               (case ceiling of
                  None \<Rightarrow> (Some (target_default (infer_target os_env profile)), [])
                | Some c \<Rightarrow> (Some c, []))))"

definition requested_mode :: "(string \<times> pyval) list option \<Rightarrow> string" where
  "requested_mode policy =
     (case policy of
        None \<Rightarrow> ''concurrent''
      | Some pol \<Rightarrow> (case map_of pol ''mode'' of None \<Rightarrow> ''concurrent'' | Some v \<Rightarrow> py_str v))"

definition mode_of ::
  "string \<Rightarrow> bool \<Rightarrow> concurrency_capability \<Rightarrow> concurrency_capability \<Rightarrow> string" where
  "mode_of requested declared acap tcap =
     (if requested = ''exclusive'' then ''exclusive''
      else if requested = ''concurrent'' \<and> declared \<and> \<not> (parallel_ok acap \<and> parallel_ok tcap)
      then ''serialized''
      else requested)"

definition tts_declared :: "profile \<Rightarrow> registry \<Rightarrow> bool" where
  "tts_declared profile tts_reg =
     (case dget (p_top profile) ''tts_backend'' of PStr s \<Rightarrow> tts_reg s \<noteq> None | _ \<Rightarrow> False)"

definition uncapped :: concurrency_capability where
  "uncapped = default_capability\<lparr>max_concurrent := None\<rparr>"

definition resolve ::
  "environ \<Rightarrow> registry \<Rightarrow> registry \<Rightarrow> profile \<Rightarrow> (string \<times> pyval) list option \<Rightarrow> environ option \<Rightarrow> string
    \<Rightarrow> config_error + resolved_capability" where
  "resolve os_env asr_reg tts_reg profile policy env tts_backend_name =
     (let env_map = (case env of None \<Rightarrow> os_env | Some e \<Rightarrow> e);
          acap = capability_for (resolve_backend_class profile ''asr_backend'' asr_reg) profile;
          tcap = capability_for (resolve_backend_class profile ''tts_backend'' tts_reg) profile;
          cs = backend_ceiling os_env profile acap tcap in
      case parse_positive_int (env_val env_map ''OVS_MAX_CONCURRENT_SESSIONS'') ''OVS_MAX_CONCURRENT_SESSIONS'' of
        Inl e \<Rightarrow> Inl e
      | Inr env_session \<Rightarrow>
         (case parse_positive_int (dget (p_top profile) ''max_concurrent_sessions'') ''profile.max_concurrent_sessions'' of
            Inl e \<Rightarrow> Inl e
          | Inr profile_session \<Rightarrow>
              (let (ceiling, warns) = clamp_session os_env profile cs env_session profile_session;
                   exec_cap = (if tts_declared profile tts_reg then tcap else uncapped);
                   (workers, exec_warn) = resolve_executor_max_workers exec_cap tts_backend_name env_map
               in Inr \<lparr>session_ceiling = ceiling,
                       executor_max_workers = workers,
                       coordinator_mode = mode_of (requested_mode policy) (declares_backends profile) acap tcap,
                       ceiling_source = snd cs,
                       asr_cap = acap,
                       tts_cap = tcap,
                       clamp_warnings = warns @ (case exec_warn of None \<Rightarrow> [] | Some w \<Rightarrow> [w])\<rparr>)))"

definition resolve_executor_for_tts ::
  "environ \<Rightarrow> registry \<Rightarrow> profile \<Rightarrow> string \<Rightarrow> environ option \<Rightarrow> int \<times> string option \<times> string" where
  "resolve_executor_for_tts os_env tts_reg profile tts_backend_name env =
     (let env_map = (case env of None \<Rightarrow> os_env | Some e \<Rightarrow> e);
          name = py_lower tts_backend_name;
          declared = tts_declared profile tts_reg;
          cap = (if declared then capability_for (resolve_backend_class profile ''tts_backend'' tts_reg) profile
                 else uncapped);
          workers = fst (resolve_executor_max_workers cap name env_map);
          source = (case executor_env_choice name env_map of
                      Some (env_used, _) \<Rightarrow> env_used
                    | None \<Rightarrow> if declared \<and> max_concurrent cap \<noteq> None then ''concurrency_capability''
                             else ''default'')
      in (workers, if name = [] then None else Some name, source))"

section \<open>Facts\<close>

named_theorems capability_defs

declare resolve_def [capability_defs] clamp_session_def [capability_defs]
  backend_ceiling_def [capability_defs] mode_of_def [capability_defs]

text \<open>What the resolver returns, field by field, once both overrides parse.\<close>

lemma resolve_Inr:
  assumes "resolve os_env asr_reg tts_reg profile policy env name = Inr r"
  obtains es ps where
    "parse_positive_int (env_val (case env of None \<Rightarrow> os_env | Some e \<Rightarrow> e) ''OVS_MAX_CONCURRENT_SESSIONS'')
       ''OVS_MAX_CONCURRENT_SESSIONS'' = Inr es"
    "parse_positive_int (dget (p_top profile) ''max_concurrent_sessions'')
       ''profile.max_concurrent_sessions'' = Inr ps"
    "asr_cap r = capability_for (resolve_backend_class profile ''asr_backend'' asr_reg) profile"
    "tts_cap r = capability_for (resolve_backend_class profile ''tts_backend'' tts_reg) profile"
    "session_ceiling r = fst (clamp_session os_env profile (backend_ceiling os_env profile (asr_cap r) (tts_cap r)) es ps)"
    "coordinator_mode r = mode_of (requested_mode policy) (declares_backends profile) (asr_cap r) (tts_cap r)"
    "executor_max_workers r = fst (resolve_executor_max_workers
       (if tts_declared profile tts_reg then tts_cap r else uncapped) name
       (case env of None \<Rightarrow> os_env | Some e \<Rightarrow> e))"
  using assms that
  by (auto simp: resolve_def Let_def case_prod_beta split: sum.splits)

lemma parse_positive_int_pos: "parse_positive_int v label = Inr (Some n) \<Longrightarrow> 0 < n"
  by (auto simp: parse_positive_int_def Let_def split: pyval.splits option.splits if_splits)

lemma target_default_pos: "0 < target_default t"
  by (auto simp: target_default_def target_defaults_def unknown_default_def
      split: option.splits if_splits)

lemma clamp_session_cases:
  assumes "\<And>n. es = Some n \<Longrightarrow> 0 < n" and "\<And>n. ps = Some n \<Longrightarrow> 0 < n"
  shows "\<exists>n. fst (clamp_session os_env profile cs es ps) = Some n \<and>
           (\<forall>c. fst cs = Some c \<longrightarrow> n \<le> c \<and> (0 < c \<longrightarrow> 0 < n)) \<and> (fst cs = None \<longrightarrow> 0 < n)"
  using assms target_default_pos
  by (cases cs; cases es; cases ps; cases "fst cs") (auto simp: clamp_session_def)

lemma executor_workers_pos: "1 \<le> fst (resolve_executor_max_workers c name env)"
  by (auto simp: resolve_executor_max_workers_def Let_def split: option.splits)

lemma executor_workers_le:
  "max_concurrent c = Some m \<Longrightarrow> fst (resolve_executor_max_workers c name env) \<le> max 1 m"
  by (auto simp: resolve_executor_max_workers_def Let_def split: option.splits)

lemma executor_workers_lower:
  "resolve_executor_max_workers c (py_lower name) env = resolve_executor_max_workers c name env"
  by (simp add: resolve_executor_max_workers_def)

section \<open>Properties\<close>

text \<open>
  The resolved session ceiling is always a number (the documented \<open>None\<close> never
  happens); it never exceeds the ceiling the backends (or the target table) allow, so
  overrides can only lower it, and it is positive whenever that ceiling is positive or absent.
\<close>
theorem session_ceiling_clamped:
  assumes "resolve os_env asr_reg tts_reg profile policy env name = Inr r"
  shows "\<exists>n. session_ceiling r = Some n \<and>
      (\<forall>c. fst (backend_ceiling os_env profile (asr_cap r) (tts_cap r)) = Some c \<longrightarrow> n \<le> c \<and> (0 < c \<longrightarrow> 0 < n)) \<and>
      (fst (backend_ceiling os_env profile (asr_cap r) (tts_cap r)) = None \<longrightarrow> 0 < n)"
proof -
  from assms obtain es ps where
    "session_ceiling r = fst (clamp_session os_env profile (backend_ceiling os_env profile (asr_cap r) (tts_cap r)) es ps)"
    and "\<And>n. es = Some n \<Longrightarrow> 0 < n" and "\<And>n. ps = Some n \<Longrightarrow> 0 < n"
    by (elim resolve_Inr) (auto dest: parse_positive_int_pos)
  then show ?thesis
    using clamp_session_cases [of es ps] by simp
qed

text \<open>A Jetson profile used by the witnesses: Paraformer ASR (no cap) and a two-slot TTS.\<close>

definition demo_asr :: registry where
  "demo_asr = [''jetson.paraformer_trt'' \<mapsto> Importable (\<lambda>_. Some
     (default_capability\<lparr>supports_parallel := True, max_concurrent := None\<rparr>))]"

definition demo_tts :: registry where
  "demo_tts = [''jetson.matcha_trt'' \<mapsto> Importable (\<lambda>_. Some
     (default_capability\<lparr>supports_parallel := True, max_concurrent := Some 2\<rparr>))]"

definition demo_profile :: profile where
  "demo_profile = \<lparr>p_top = [(''name'', PStr ''jetson-zh-en''), (''asr_backend'', PStr ''jetson.paraformer_trt''),
     (''tts_backend'', PStr ''jetson.matcha_trt'')], p_env = [], p_engines = []\<rparr>"

definition demo_env :: environ where
  "demo_env = [''OVS_MAX_CONCURRENT_SESSIONS'' \<mapsto> ''5'']"

definition demo_resolved :: "config_error + resolved_capability" where
  "demo_resolved = resolve demo_env demo_asr demo_tts demo_profile None None ''matcha''"

lemmas demo_defs = demo_resolved_def demo_env_def demo_asr_def demo_tts_def demo_profile_def
  resolve_def Let_def resolve_backend_class_def capability_for_def dget_def backend_ceiling_def declares_backends_def
  aggregate_ceiling_def parse_positive_int_def env_val_def py_int_def strip_by_def sspace_def py_isspace_def
  digit_val_def clamp_session_def mode_of_def requested_mode_def parallel_ok_def tts_declared_def
  resolve_executor_max_workers_def executor_env_choice_def executor_env_table_def env_get_def default_capability_def
  strip_while_def py_lower_def lower_char_def starts_with_def

lemma demo_resolved_eq:
  "\<exists>r. demo_resolved = Inr r \<and> session_ceiling r = Some 2 \<and> coordinator_mode r = ''concurrent'' \<and>
     executor_max_workers r = 2"
proof -
  have "case demo_resolved of Inl _ \<Rightarrow> False
    | Inr r \<Rightarrow> session_ceiling r = Some 2 \<and> coordinator_mode r = ''concurrent'' \<and> executor_max_workers r = 2"
    by (simp add: demo_defs)
  then show ?thesis by (auto split: sum.splits)
qed

theorem session_ceiling_clamped_witness:
  "\<exists>r. demo_resolved = Inr r \<and> session_ceiling r = Some 2 \<and> (\<exists>n. session_ceiling r = Some n \<and>
      (\<forall>c. fst (backend_ceiling demo_env demo_profile (asr_cap r) (tts_cap r)) = Some c \<longrightarrow> n \<le> c))"
proof -
  obtain r where r: "demo_resolved = Inr r" "session_ceiling r = Some 2"
    using demo_resolved_eq by blast
  from session_ceiling_clamped [OF r(1) [unfolded demo_resolved_def]] r show ?thesis by blast
qed

text \<open>
  The coordinator mode is the requested one, except that \<open>concurrent\<close> may be downgraded to
  \<open>serialized\<close>; it is \<open>concurrent\<close> with declared backends only if both backends can serve
  more than one request in parallel.
\<close>
theorem coordinator_only_downgrades:
  assumes "resolve os_env asr_reg tts_reg profile policy env name = Inr r"
  shows "(coordinator_mode r = requested_mode policy \<or>
          requested_mode policy = ''concurrent'' \<and> coordinator_mode r = ''serialized'') \<and>
         (coordinator_mode r = ''concurrent'' \<and> declares_backends profile \<longrightarrow>
          parallel_ok (asr_cap r) \<and> parallel_ok (tts_cap r))"
  using assms by (elim resolve_Inr) (auto simp: mode_of_def split: if_splits)

theorem coordinator_only_downgrades_witness:
  "\<exists>r. demo_resolved = Inr r \<and> coordinator_mode r = ''concurrent'' \<and> parallel_ok (asr_cap r)"
proof -
  obtain r where r: "demo_resolved = Inr r" "coordinator_mode r = ''concurrent''"
    using demo_resolved_eq by blast
  have "declares_backends demo_profile" by code_simp
  with coordinator_only_downgrades [OF r(1) [unfolded demo_resolved_def]] r show ?thesis by blast
qed

text \<open>
  The executor size the resolver reports and the one \<open>resolve_executor_for_tts\<close> computes on
  its own are equal, at least one, and within the declared TTS backend's capability.
\<close>
theorem executor_views_agree:
  assumes "resolve os_env asr_reg tts_reg profile policy env name = Inr r"
  shows "fst (resolve_executor_for_tts os_env tts_reg profile name env) = executor_max_workers r \<and>
         1 \<le> executor_max_workers r \<and>
         (\<forall>m. tts_declared profile tts_reg \<and> max_concurrent (tts_cap r) = Some m \<longrightarrow>
              executor_max_workers r \<le> max 1 m)"
  using assms
  by (elim resolve_Inr)
     (simp add: resolve_executor_for_tts_def Let_def executor_workers_lower executor_workers_pos
        executor_workers_le)

theorem executor_views_agree_witness:
  "\<exists>r. demo_resolved = Inr r \<and> executor_max_workers r = 2 \<and>
     fst (resolve_executor_for_tts demo_env demo_tts demo_profile ''matcha'' None) = 2"
proof -
  obtain r where r: "demo_resolved = Inr r" "executor_max_workers r = 2"
    using demo_resolved_eq by blast
  from executor_views_agree [OF r(1) [unfolded demo_resolved_def]] r show ?thesis by force
qed

end
