(* ===== verification/Coordinator.thy ===== *)
theory Coordinator
  imports Capability
begin

text \<open>
  The backend execution coordinator, \<open>app/core/coordinator.py\<close>: the effective mode and the
  \<open>acquire\<close> context manager. One critical section of the shared asyncio lock is one step; a
  task that finds the lock taken stays queued (its step changes nothing). \<open>resident\<close> records
  which backend the bodies run so far have loaded and \<open>unload()\<close> has not dropped.
\<close>

section \<open>Data\<close>


text \<open>What the registered getter of a slot gives: no getter, no backend, a backend without
  \<open>unload\<close>, one whose \<open>unload()\<close> works, one whose \<open>unload()\<close> raises.\<close>

datatype getter = Unregistered | ReturnsNone | WithoutUnload | Unloads | UnloadRaises






section \<open>The acquire context manager\<close>







section \<open>Mutual exclusion\<close>











section \<open>Property\<close>



end
