(* ===== verification/Asr_Session.thy ===== *)
theory Asr_Session
  imports Prelude
begin

text \<open>
  The per-utterance ASR session manager, \<open>app/core/asr_session_manager.py\<close>. The manager's
  coroutines interleave at their lock boundaries, so the unit of the model is the critical
  section: a call that releases the lock around the backend call (\<open>accept_audio\<close>,
  \<open>finalize_with_status\<close>, \<open>mark_error\<close>) is a begin step and an end step, with what it captured in between kept as a
  pending call. Backend calls answer through an oracle: \<open>create_stream\<close> raises or gives a
  fresh stream, a cancel is acknowledged, times out or raises. Cancellation of the awaiting
  task itself is not modelled.
\<close>

section \<open>Data\<close>

datatype session_state = IDLE | ACTIVE | FINALIZING | CANCELLING | ERROR_REBUILD

text \<open>An exception: the name of its class and of its base classes, nearest first.\<close>

type_synonym exc = "string list"

definition worker_error_names :: "string list" where
  "worker_error_names =
     [''NoActiveSessionError'', ''SessionAlreadyActiveError'', ''WorkerExitError'', ''WorkerProtocolError'']"

definition is_worker_protocol_error :: "exc \<Rightarrow> bool" where
  "is_worker_protocol_error e = list_ex (\<lambda>c. c \<in> set worker_error_names) e"

text \<open>The outcome of the k-th \<open>create_stream\<close> of a critical section: \<open>None\<close> is success.\<close>

type_synonym create_oracle = "nat \<Rightarrow> exc option"

datatype cancel_outcome = Acked | TimedOut | Raised exc

record manager =
  m_state :: session_state
  m_stream :: "nat option"
  m_generation :: nat
  m_last_error :: "exc option"
  m_recovering :: bool
  m_next_stream :: nat
  m_closed :: "nat list"
  m_creates :: nat
  m_restarts :: nat
  m_slept_ms :: nat

definition new_manager :: manager where
  "new_manager = \<lparr>m_state = IDLE, m_stream = None, m_generation = 0, m_last_error = None,
     m_recovering = False, m_next_stream = 0, m_closed = [], m_creates = 0, m_restarts = 0, m_slept_ms = 0\<rparr>"

section \<open>Helpers\<close>

definition safe_close_stream :: "nat option \<Rightarrow> manager \<Rightarrow> manager" where
  "safe_close_stream st m = (case st of None \<Rightarrow> m | Some i \<Rightarrow> m\<lparr>m_closed := i # m_closed m\<rparr>)"

text \<open>\<open>backend.restart_worker()\<close>: absent, or run with any exception swallowed.\<close>

definition maybe_restart_worker :: "bool \<Rightarrow> manager \<Rightarrow> manager" where
  "maybe_restart_worker has_restart m = (if has_restart then m\<lparr>m_restarts := m_restarts m + 1\<rparr> else m)"

definition create_stream :: "exc option \<Rightarrow> manager \<Rightarrow> (exc + nat) \<times> manager" where
  "create_stream outcome m =
     (case outcome of
        Some e \<Rightarrow> (Inl e, m\<lparr>m_creates := m_creates m + 1\<rparr>)
      | None \<Rightarrow> (Inr (m_next_stream m),
                 m\<lparr>m_creates := m_creates m + 1, m_next_stream := m_next_stream m + 1\<rparr>))"

definition rebuild_backoff_ms :: "nat list" where
  "rebuild_backoff_ms = [50, 150, 400]"

section \<open>Recovery\<close>

fun rebuild_attempts :: "nat list \<Rightarrow> nat \<Rightarrow> create_oracle \<Rightarrow> manager \<Rightarrow> bool \<times> manager" where
  "rebuild_attempts [] k orc m = (False, m)"
| "rebuild_attempts (delay # ds) k orc m =
     (case create_stream (orc k) (m\<lparr>m_slept_ms := m_slept_ms m + delay\<rparr>) of
        (Inr st, m1) \<Rightarrow> (True, m1\<lparr>m_stream := Some st, m_state := ACTIVE\<rparr>)
      | (Inl e, m1) \<Rightarrow> rebuild_attempts ds (k + 1) orc (m1\<lparr>m_last_error := Some e\<rparr>))"

definition do_rebuild :: "bool \<Rightarrow> create_oracle \<Rightarrow> manager \<Rightarrow> manager" where
  "do_rebuild has_restart orc m =
     (case rebuild_attempts rebuild_backoff_ms 0 orc m of
        (True, m1) \<Rightarrow> m1
      | (False, m1) \<Rightarrow>
          (let m2 = maybe_restart_worker has_restart m1 in
           case create_stream (orc (length rebuild_backoff_ms)) m2 of
             (Inr st, m3) \<Rightarrow> m3\<lparr>m_stream := Some st, m_state := ACTIVE\<rparr>
           | (Inl e, m3) \<Rightarrow> (safe_close_stream (m_stream m3) m3)\<lparr>m_stream := None, m_state := IDLE\<rparr>))"

definition handle_error :: "bool \<Rightarrow> exc \<Rightarrow> create_oracle \<Rightarrow> manager \<Rightarrow> manager" where
  "handle_error has_restart e orc m =
     (let m0 = m\<lparr>m_last_error := Some e\<rparr> in
      if m_recovering m0 then m0
      else (let m1 = (safe_close_stream (m_stream m0) (m0\<lparr>m_recovering := True\<rparr>))
                       \<lparr>m_stream := None, m_state := ERROR_REBUILD\<rparr>
            in (do_rebuild has_restart orc m1)\<lparr>m_recovering := False\<rparr>))"

section \<open>Cancellation\<close>

definition inner_cancel :: "bool \<Rightarrow> cancel_outcome \<Rightarrow> manager \<Rightarrow> manager" where
  "inner_cancel has_restart outcome m =
     (if m_state m = IDLE then m
      else (let m1 = m\<lparr>m_state := CANCELLING, m_stream := None\<rparr> in
            case m_stream m of
              None \<Rightarrow> m1\<lparr>m_state := IDLE\<rparr>
            | Some st \<Rightarrow>
                (let m2 = (case outcome of
                             Acked \<Rightarrow> m1
                           | TimedOut \<Rightarrow> maybe_restart_worker has_restart m1
                           | Raised e \<Rightarrow> if is_worker_protocol_error e
                                         then maybe_restart_worker has_restart m1 else m1)
                 in (safe_close_stream (Some st) m2)\<lparr>m_state := IDLE\<rparr>)))"

section \<open>The public operations, one definition per critical section\<close>

text \<open>\<open>None\<close> is \<open>ASRSessionUnavailable\<close>.\<close>

definition on_speech_start :: "bool \<Rightarrow> cancel_outcome \<Rightarrow> create_oracle \<Rightarrow> manager \<Rightarrow> nat option \<times> manager" where
  "on_speech_start has_restart outcome orc m =
     (let m1 = (if m_state m \<in> {ACTIVE, FINALIZING} then inner_cancel has_restart outcome m else m);
          m2 = m1\<lparr>m_generation := m_generation m1 + 1\<rparr> in
      case create_stream (orc 0) m2 of
        (Inr st, m3) \<Rightarrow> (Some (m_generation m3), m3\<lparr>m_stream := Some st, m_state := ACTIVE\<rparr>)
      | (Inl e, m3) \<Rightarrow>
          (let m4 = handle_error has_restart e (\<lambda>k. orc (k + 1)) m3 in
           if m_stream m4 = None then (None, m4\<lparr>m_state := IDLE\<rparr>)
           else (Some (m_generation m4), m4\<lparr>m_state := ACTIVE\<rparr>)))"

text \<open>First section of \<open>accept_audio\<close>: the stream to push at, if the call goes on.\<close>

definition accept_begin :: "bool \<Rightarrow> create_oracle \<Rightarrow> manager \<Rightarrow> nat option \<times> manager" where
  "accept_begin has_restart orc m =
     (if m_state m \<noteq> ACTIVE then (None, m)
      else (case m_stream m of
              Some st \<Rightarrow> (Some st, m)
            | None \<Rightarrow>
                (case create_stream (orc 0) m of
                   (Inr st, m1) \<Rightarrow> (Some st, m1\<lparr>m_stream := Some st\<rparr>)
                 | (Inl e, m1) \<Rightarrow> (None, handle_error has_restart e (\<lambda>k. orc (k + 1)) m1))))"

text \<open>After \<open>accept_waveform\<close>: only a raise takes the lock again.\<close>

definition accept_end :: "bool \<Rightarrow> exc option \<Rightarrow> create_oracle \<Rightarrow> manager \<Rightarrow> manager" where
  "accept_end has_restart result orc m =
     (case result of None \<Rightarrow> m | Some e \<Rightarrow> handle_error has_restart e orc m)"

text \<open>First section of \<open>finalize_with_status\<close>: the captured generation and stream, or the
  immediate \<open>(generation, '''', False, None)\<close>.\<close>

definition finalize_begin :: "manager \<Rightarrow> (nat + nat \<times> nat option) \<times> manager" where
  "finalize_begin m =
     (if m_state m \<noteq> ACTIVE then (Inl (m_generation m), m)
      else (Inr (m_generation m, m_stream m), m\<lparr>m_state := FINALIZING\<rparr>))"

record final_result =
  f_generation :: nat
  f_text :: ustr
  f_accepted :: bool
  f_language :: "string option"

definition discarded :: "nat \<Rightarrow> final_result" where
  "discarded g = \<lparr>f_generation = g, f_text = [], f_accepted = False, f_language = None\<rparr>"

text \<open>Second section of \<open>finalize_with_status\<close>, after \<open>stream.finalize()\<close> answered.\<close>

definition finalize_end ::
  "bool \<Rightarrow> nat \<Rightarrow> nat option \<Rightarrow> exc + (ustr \<times> string option) \<Rightarrow> create_oracle \<Rightarrow> manager \<Rightarrow> final_result \<times> manager" where
  "finalize_end has_restart g st raw orc m =
     (case st of
        None \<Rightarrow> (discarded g, m\<lparr>m_state := IDLE\<rparr>)
      | Some _ \<Rightarrow>
         (case raw of
            Inl e \<Rightarrow> (discarded g, handle_error has_restart e orc m)
          | Inr (final_text, detected_language) \<Rightarrow>
              if m_state m \<noteq> FINALIZING then (discarded g, m)
              else if m_generation m \<noteq> g then (discarded g, m)
              else (\<lparr>f_generation = g, f_text = final_text, f_accepted = True, f_language = detected_language\<rparr>,
                    (safe_close_stream (m_stream m) m)\<lparr>m_stream := None, m_state := IDLE\<rparr>)))"

definition cancel :: "bool \<Rightarrow> cancel_outcome \<Rightarrow> manager \<Rightarrow> manager" where
  "cancel has_restart outcome m = inner_cancel has_restart outcome m"

text \<open>\<open>get_partial_for_generation\<close>: the generation, and the partial of the active stream.\<close>

definition get_partial_for_generation ::
  "(nat \<Rightarrow> exc + (ustr \<times> bool)) \<Rightarrow> manager \<Rightarrow> nat \<times> ustr \<times> bool" where
  "get_partial_for_generation backend m =
     (case m_stream m of
        None \<Rightarrow> (m_generation m, [], False)
      | Some st \<Rightarrow>
          if m_state m \<noteq> ACTIVE then (m_generation m, [], False)
          else (case backend st of
                  Inl _ \<Rightarrow> (m_generation m, [], False)
                | Inr (partial, is_endpoint) \<Rightarrow> (m_generation m, partial, is_endpoint)))"

section \<open>The connection: interleaved calls\<close>

text \<open>
  \<open>c_finals\<close> and \<open>c_accepts\<close> are the calls between their two sections, \<open>c_recovery\<close> the
  recovery future of \<open>_async_mark_error\<close> with the error of the call that owns it (calls that
  find it set wait for it and return). \<open>c_emitted\<close> logs the accepted finals, newest first,
  each with the stream whose \<open>finalize()\<close> produced the text.
\<close>

record connection =
  c_mgr :: manager
  c_finals :: "(nat \<times> nat option) list"
  c_accepts :: "nat list"
  c_recovery :: "exc option"
  c_emitted :: "(nat \<times> nat option) list"

definition new_connection :: connection where
  "new_connection = \<lparr>c_mgr = new_manager, c_finals = [], c_accepts = [], c_recovery = None, c_emitted = []\<rparr>"

datatype asr_event =
    SpeechStart cancel_outcome create_oracle
  | AcceptBegin create_oracle
  | AcceptEnd nat "exc option" create_oracle
  | FinalizeBegin
  | FinalizeEnd nat "exc + (ustr \<times> string option)" create_oracle
  | Cancel cancel_outcome
  | MarkErrorBegin exc
  | MarkErrorEnd create_oracle

fun asr_step :: "bool \<Rightarrow> asr_event \<Rightarrow> connection \<Rightarrow> connection" where
  "asr_step r (SpeechStart outcome orc) c = c\<lparr>c_mgr := snd (on_speech_start r outcome orc (c_mgr c))\<rparr>"
| "asr_step r (AcceptBegin orc) c =
     (case accept_begin r orc (c_mgr c) of
        (None, m) \<Rightarrow> c\<lparr>c_mgr := m\<rparr>
      | (Some st, m) \<Rightarrow> c\<lparr>c_mgr := m, c_accepts := c_accepts c @ [st]\<rparr>)"
| "asr_step r (AcceptEnd i result orc) c =
     (if i < length (c_accepts c)
      then c\<lparr>c_mgr := accept_end r result orc (c_mgr c), c_accepts := drop_nth i (c_accepts c)\<rparr>
      else c)"
| "asr_step r FinalizeBegin c =
     (case finalize_begin (c_mgr c) of
        (Inl _, m) \<Rightarrow> c\<lparr>c_mgr := m\<rparr>
      | (Inr p, m) \<Rightarrow> c\<lparr>c_mgr := m, c_finals := c_finals c @ [p]\<rparr>)"
| "asr_step r (FinalizeEnd i raw orc) c =
     (if i < length (c_finals c)
      then (let (g, st) = c_finals c ! i; (res, m) = finalize_end r g st raw orc (c_mgr c)
            in c\<lparr>c_mgr := m, c_finals := drop_nth i (c_finals c),
                 c_emitted := (if f_accepted res then (g, st) # c_emitted c else c_emitted c)\<rparr>)
      else c)"
| "asr_step r (Cancel outcome) c = c\<lparr>c_mgr := cancel r outcome (c_mgr c)\<rparr>"
| "asr_step r (MarkErrorBegin e) c =
     c\<lparr>c_mgr := (c_mgr c)\<lparr>m_last_error := Some e\<rparr>,
       c_recovery := (case c_recovery c of None \<Rightarrow> Some e | Some e' \<Rightarrow> Some e')\<rparr>"
| "asr_step r (MarkErrorEnd orc) c =
     (case c_recovery c of
        None \<Rightarrow> c
      | Some e \<Rightarrow> c\<lparr>c_mgr := handle_error r e orc (c_mgr c), c_recovery := None\<rparr>)"

section \<open>The rebuild ladder\<close>

lemma create_stream_simps:
  "create_stream None m = (Inr (m_next_stream m),
     m\<lparr>m_creates := m_creates m + 1, m_next_stream := m_next_stream m + 1\<rparr>)"
  "create_stream (Some e) m = (Inl e, m\<lparr>m_creates := m_creates m + 1\<rparr>)"
  by (simp_all add: create_stream_def)

lemma safe_close_fields [simp]:
  "m_state (safe_close_stream st m) = m_state m"
  "m_stream (safe_close_stream st m) = m_stream m"
  "m_generation (safe_close_stream st m) = m_generation m"
  "m_recovering (safe_close_stream st m) = m_recovering m"
  "m_next_stream (safe_close_stream st m) = m_next_stream m"
  "m_creates (safe_close_stream st m) = m_creates m"
  "m_restarts (safe_close_stream st m) = m_restarts m"
  "m_slept_ms (safe_close_stream st m) = m_slept_ms m"
  by (simp_all add: safe_close_stream_def split: option.split)

lemma restart_fields [simp]:
  "m_state (maybe_restart_worker r m) = m_state m"
  "m_stream (maybe_restart_worker r m) = m_stream m"
  "m_generation (maybe_restart_worker r m) = m_generation m"
  "m_recovering (maybe_restart_worker r m) = m_recovering m"
  "m_next_stream (maybe_restart_worker r m) = m_next_stream m"
  "m_creates (maybe_restart_worker r m) = m_creates m"
  "m_slept_ms (maybe_restart_worker r m) = m_slept_ms m"
  "m_restarts (maybe_restart_worker r m) = m_restarts m + of_bool r"
  by (simp_all add: maybe_restart_worker_def)

text \<open>The first create of the ladder that succeeds, among its four.\<close>

definition first_success :: "create_oracle \<Rightarrow> nat option" where
  "first_success orc = (if orc 0 = None then Some 0 else if orc 1 = None then Some 1
     else if orc 2 = None then Some 2 else if orc 3 = None then Some 3 else None)"

lemma rebuild_cases:
  fixes orc :: create_oracle
  obtains "orc 0 = None" | e0 where "orc 0 = Some e0" "orc 1 = None"
  | e0 e1 where "orc 0 = Some e0" "orc 1 = Some e1" "orc 2 = None"
  | e0 e1 e2 where "orc 0 = Some e0" "orc 1 = Some e1" "orc 2 = Some e2" "orc 3 = None"
  | e0 e1 e2 e3 where "orc 0 = Some e0" "orc 1 = Some e1" "orc 2 = Some e2" "orc 3 = Some e3"
  by (metis not_Some_eq)

lemmas rebuild_defs = do_rebuild_def rebuild_backoff_ms_def create_stream_simps first_success_def Let_def
  eval_nat_numeral

lemma do_rebuild_spec:
  assumes "m_stream m = None"
  shows "let m' = do_rebuild r orc m in
     m_generation m' = m_generation m \<and> m_recovering m' = m_recovering m \<and>
     (case first_success orc of
        None \<Rightarrow> m_state m' = IDLE \<and> m_stream m' = None \<and> m_next_stream m' = m_next_stream m
          \<and> m_creates m' = m_creates m + 4 \<and> m_restarts m' = m_restarts m + of_bool r \<and> m_slept_ms m' = m_slept_ms m + 600
      | Some k \<Rightarrow> m_state m' = ACTIVE \<and> m_stream m' = Some (m_next_stream m) \<and> m_next_stream m' = m_next_stream m + 1
          \<and> m_creates m' = m_creates m + (k + 1) \<and> m_restarts m' = m_restarts m + of_bool (r \<and> k = 3)
          \<and> m_slept_ms m' = m_slept_ms m + sum_list (take (k + 1) rebuild_backoff_ms))"
  using assms by (cases rule: rebuild_cases [of orc]) (simp_all add: rebuild_defs)

lemma handle_error_spec:
  assumes "\<not> m_recovering m"
  shows "let m' = handle_error r e orc m in
     m_generation m' = m_generation m \<and> \<not> m_recovering m' \<and>
     (case first_success orc of
        None \<Rightarrow> m_state m' = IDLE \<and> m_stream m' = None \<and> m_next_stream m' = m_next_stream m
          \<and> m_creates m' = m_creates m + 4 \<and> m_restarts m' = m_restarts m + of_bool r \<and> m_slept_ms m' = m_slept_ms m + 600
      | Some k \<Rightarrow> m_state m' = ACTIVE \<and> m_stream m' = Some (m_next_stream m) \<and> m_next_stream m' = m_next_stream m + 1
          \<and> m_creates m' = m_creates m + (k + 1) \<and> m_restarts m' = m_restarts m + of_bool (r \<and> k = 3)
          \<and> m_slept_ms m' = m_slept_ms m + sum_list (take (k + 1) rebuild_backoff_ms))"
proof -
  let ?m1 = "(safe_close_stream (m_stream m) (m\<lparr>m_last_error := Some e, m_recovering := True\<rparr>))
                       \<lparr>m_stream := None, m_state := ERROR_REBUILD\<rparr>"
  obtain q where q: "q = do_rebuild r orc ?m1" by blast
  have "handle_error r e orc m = q\<lparr>m_recovering := False\<rparr>"
    using assms by (simp add: handle_error_def Let_def q)
  then show ?thesis
    using do_rebuild_spec [of ?m1 r orc, folded q] by (cases "first_success orc") (simp_all add: Let_def)
qed

lemma first_success_less: "first_success orc = Some k \<Longrightarrow> k < 4"
  by (auto simp: first_success_def split: if_splits)

section \<open>Well-formedness\<close>

definition manager_ok :: "manager \<Rightarrow> bool" where
  "manager_ok m = (\<not> m_recovering m \<and>
     (case m_state m of
        IDLE \<Rightarrow> m_stream m = None
      | ACTIVE \<Rightarrow> (\<exists>i < m_next_stream m. m_stream m = Some i)
      | FINALIZING \<Rightarrow> (\<exists>i < m_next_stream m. m_stream m = Some i)
      | _ \<Rightarrow> False))"

lemma manager_ok_new: "manager_ok new_manager"
  by (simp add: manager_ok_def new_manager_def)

lemma manager_ok_last_error [simp]: "manager_ok (m\<lparr>m_last_error := e\<rparr>) = manager_ok m"
  by (cases "m_state m") (simp_all add: manager_ok_def)

lemma handle_error_ok:
  assumes "\<not> m_recovering m"
  shows "manager_ok (handle_error r e orc m)" "m_generation (handle_error r e orc m) = m_generation m"
    "m_next_stream m \<le> m_next_stream (handle_error r e orc m)"
    "m_state (handle_error r e orc m) = ACTIVE \<or> m_state (handle_error r e orc m) = IDLE"
  using handle_error_spec [OF assms, of r e orc]
  by (auto simp: Let_def manager_ok_def split: option.splits)

lemma inner_cancel_ok:
  assumes "manager_ok m"
  shows "manager_ok (inner_cancel r out m)" "m_state (inner_cancel r out m) = IDLE"
    "m_generation (inner_cancel r out m) = m_generation m"
    "m_stream (inner_cancel r out m) = None"
    "m_next_stream (inner_cancel r out m) = m_next_stream m"
  using assms
  by (auto simp: inner_cancel_def Let_def manager_ok_def
      split: session_state.splits option.splits cancel_outcome.splits)

lemma on_speech_start_spec:
  assumes "manager_ok m"
  shows "let (g, m') = on_speech_start r out orc m in
     manager_ok m' \<and> m_generation m' = m_generation m + 1 \<and> m_next_stream m \<le> m_next_stream m' \<and>
     (case g of
        None \<Rightarrow> m_state m' = IDLE \<and> m_stream m' = None
      | Some n \<Rightarrow> n = m_generation m' \<and> m_state m' = ACTIVE \<and> (\<exists>i \<ge> m_next_stream m. m_stream m' = Some i))
     \<and> (g = None \<longleftrightarrow> orc 0 \<noteq> None \<and> first_success (\<lambda>k. orc (k + 1)) = None)"
proof -
  define m1 where "m1 = (if m_state m \<in> {ACTIVE, FINALIZING} then inner_cancel r out m else m)"
  define m2 where "m2 = m1\<lparr>m_generation := m_generation m1 + 1\<rparr>"
  have m1: "manager_ok m1" "m_stream m1 = None" "m_state m1 = IDLE" "m_generation m1 = m_generation m"
    "m_next_stream m1 = m_next_stream m"
    using assms inner_cancel_ok [OF assms, of r out]
    by (auto simp: m1_def manager_ok_def split: session_state.splits)
  have eq: "on_speech_start r out orc m = (case create_stream (orc 0) m2 of
        (Inr st, m3) \<Rightarrow> (Some (m_generation m3), m3\<lparr>m_stream := Some st, m_state := ACTIVE\<rparr>)
      | (Inl e, m3) \<Rightarrow>
          (let m4 = handle_error r e (\<lambda>k. orc (k + 1)) m3 in
           if m_stream m4 = None then (None, m4\<lparr>m_state := IDLE\<rparr>)
           else (Some (m_generation m4), m4\<lparr>m_state := ACTIVE\<rparr>)))"
    unfolding on_speech_start_def m2_def m1_def Let_def by (rule refl)
  have m2: "\<not> m_recovering m2" "m_stream m2 = None" "m_state m2 = IDLE" "m_generation m2 = m_generation m + 1"
    "m_next_stream m2 = m_next_stream m"
    using m1 by (simp_all add: m2_def manager_ok_def)
  show ?thesis
  proof (cases "orc 0")
    case None
    then show ?thesis
      unfolding eq using m2 by (simp add: create_stream_simps manager_ok_def)
  next
    case (Some e)
    let ?m3 = "m2\<lparr>m_creates := m_creates m2 + 1\<rparr>"
    obtain q where q: "q = handle_error r e (\<lambda>k. orc (k + 1)) ?m3" by blast
    have r: "\<not> m_recovering ?m3" using m2 by simp
    have eq2: "on_speech_start r out orc m =
        (if m_stream q = None then (None, q\<lparr>m_state := IDLE\<rparr>) else (Some (m_generation q), q\<lparr>m_state := ACTIVE\<rparr>))"
      unfolding eq Some create_stream_simps q by (simp add: Let_def)
    show ?thesis
      unfolding eq2 using Some m2 handle_error_spec [OF r, of r e "\<lambda>k. orc (k + 1)", folded q]
      by (cases "first_success (\<lambda>k. orc (k + 1))")
         (simp_all add: Let_def manager_ok_def)
  qed
qed

lemma accept_begin_ok:
  assumes "manager_ok m"
  shows "accept_begin r orc m = (if m_state m = ACTIVE then m_stream m else None, m)"
  using assms by (auto simp: accept_begin_def manager_ok_def split: option.splits)

lemma accept_end_ok:
  assumes "manager_ok m"
  shows "manager_ok (accept_end r res orc m)" "m_generation (accept_end r res orc m) = m_generation m"
  using assms handle_error_ok by (auto simp: accept_end_def manager_ok_def split: option.splits)

lemma finalize_begin_ok:
  assumes "manager_ok m"
  shows "manager_ok (snd (finalize_begin m))" "m_generation (snd (finalize_begin m)) = m_generation m"
    "fst (finalize_begin m) = Inr p \<Longrightarrow>
       m_state m = ACTIVE \<and> p = (m_generation m, m_stream m) \<and> m_stream m \<noteq> None
       \<and> snd (finalize_begin m) = m\<lparr>m_state := FINALIZING\<rparr>"
  using assms by (cases "m_state m"; auto simp: finalize_begin_def manager_ok_def)+

lemma finalize_end_ok:
  assumes "manager_ok m" "st \<noteq> None"
  shows "manager_ok (snd (finalize_end r g st raw orc m))"
    "m_generation (snd (finalize_end r g st raw orc m)) = m_generation m"
    "f_accepted (fst (finalize_end r g st raw orc m)) \<longleftrightarrow>
       (\<exists>a. raw = Inr a) \<and> m_state m = FINALIZING \<and> m_generation m = g"
proof -
  have r: "\<not> m_recovering m" using assms(1) by (simp add: manager_ok_def)
  note h = handle_error_ok(1,2) [OF r, of r _ orc]
  obtain i where i: "st = Some i" using assms(2) by blast
  have "manager_ok (snd (finalize_end r g st raw orc m)) \<and>
    m_generation (snd (finalize_end r g st raw orc m)) = m_generation m \<and>
    (f_accepted (fst (finalize_end r g st raw orc m)) \<longleftrightarrow>
       (\<exists>a. raw = Inr a) \<and> m_state m = FINALIZING \<and> m_generation m = g)"
  proof (cases raw)
    case (Inl e)
    then show ?thesis using h by (simp add: finalize_end_def discarded_def i)
  next
    case (Inr a)
    then show ?thesis using assms(1) r
      by (cases a) (simp add: finalize_end_def discarded_def i, simp add: manager_ok_def)
  qed
  then show "manager_ok (snd (finalize_end r g st raw orc m))"
    "m_generation (snd (finalize_end r g st raw orc m)) = m_generation m"
    "f_accepted (fst (finalize_end r g st raw orc m)) \<longleftrightarrow>
       (\<exists>a. raw = Inr a) \<and> m_state m = FINALIZING \<and> m_generation m = g" by blast+
qed

lemma finalize_end_accepted:
  assumes "f_accepted (fst (finalize_end r g st raw orc m))"
  shows "m_state (snd (finalize_end r g st raw orc m)) = IDLE"
    "\<exists>txt lang. raw = Inr (txt, lang) \<and> fst (finalize_end r g st raw orc m) =
       \<lparr>f_generation = g, f_text = txt, f_accepted = True, f_language = lang\<rparr>"
  using assms by (auto simp: finalize_end_def discarded_def split: option.splits sum.splits prod.splits if_splits)

lemma finalize_end_not_accepted:
  assumes "\<not> f_accepted (fst (finalize_end r g (Some i) (Inr a) orc m))"
  shows "snd (finalize_end r g (Some i) (Inr a) orc m) = m"
  using assms by (auto simp: finalize_end_def discarded_def split: prod.splits if_splits)

definition connection_ok :: "connection \<Rightarrow> bool" where
  "connection_ok c = (manager_ok (c_mgr c) \<and>
     (\<forall>(g, st) \<in> set (c_finals c). g \<le> m_generation (c_mgr c) \<and> st \<noteq> None) \<and>
     (\<forall>(g, st) \<in> set (c_emitted c). g \<le> m_generation (c_mgr c)) \<and>
     sorted_wrt (\<ge>) (map fst (c_emitted c)))"

lemma connection_ok_new: "connection_ok new_connection"
  by (simp add: connection_ok_def new_connection_def manager_ok_new)

lemma connection_ok_mgr:
  assumes "connection_ok c" "manager_ok m" "m_generation (c_mgr c) \<le> m_generation m"
    "c_mgr c' = m" "c_finals c' = c_finals c" "c_emitted c' = c_emitted c"
  shows "connection_ok c'"
  using assms unfolding connection_ok_def by (auto 0 3 intro: order_trans)

lemma asr_step_FinalizeEnd:
  assumes "i < length (c_finals c)" "c_finals c ! i = (g, st)"
  shows "asr_step r (FinalizeEnd i raw orc) c =
     c\<lparr>c_mgr := snd (finalize_end r g st raw orc (c_mgr c)), c_finals := drop_nth i (c_finals c),
       c_emitted := (if f_accepted (fst (finalize_end r g st raw orc (c_mgr c)))
                     then (g, st) # c_emitted c else c_emitted c)\<rparr>"
  using assms by (simp add: Let_def split: prod.splits)

lemma asr_step_ok:
  assumes "connection_ok c"
  shows "connection_ok (asr_step r ev c)"
proof -
  have m: "manager_ok (c_mgr c)" using assms by (simp add: connection_ok_def)
  show ?thesis
  proof (cases ev)
    case (SpeechStart out orc)
    show ?thesis
      using on_speech_start_spec [OF m, of r out orc]
      by (intro connection_ok_mgr [OF assms, of "snd (on_speech_start r out orc (c_mgr c))"])
        (auto simp: SpeechStart Let_def split: prod.splits)
  next
    case (AcceptBegin orc)
    show ?thesis
      by (intro connection_ok_mgr [OF assms m])
        (auto simp: AcceptBegin accept_begin_ok [OF m] split: option.splits)
  next
    case (AcceptEnd i res orc)
    show ?thesis
      using accept_end_ok [OF m, of r res orc] assms
      by (cases "i < length (c_accepts c)")
        (auto simp: AcceptEnd intro!: connection_ok_mgr [OF assms, of "accept_end r res orc (c_mgr c)"])
  next
    case FinalizeBegin
    show ?thesis
    proof (cases "m_state (c_mgr c) = ACTIVE")
      case True
      then show ?thesis
        using assms by (auto simp: FinalizeBegin finalize_begin_def connection_ok_def manager_ok_def)
    qed (simp add: FinalizeBegin finalize_begin_def assms)
  next
    case (FinalizeEnd i raw orc)
    show ?thesis
    proof (cases "i < length (c_finals c)")
      case True
      obtain g st where gs: "c_finals c ! i = (g, st)" by fastforce
      have "(g, st) \<in> set (c_finals c)" using True gs by (metis nth_mem)
      then have st: "st \<noteq> None" using assms by (auto simp: connection_ok_def)
      show ?thesis
        unfolding FinalizeEnd asr_step_FinalizeEnd [OF True gs] connection_ok_def
        using finalize_end_ok [OF m st, of r g raw orc] assms set_drop_nth [of i "c_finals c"]
        by (auto simp: connection_ok_def)
    qed (simp add: FinalizeEnd assms)
  next
    case (Cancel out)
    show ?thesis
      using inner_cancel_ok [OF m, of r out]
      by (auto simp: Cancel cancel_def intro!: connection_ok_mgr [OF assms])
  next
    case (MarkErrorBegin e)
    show ?thesis
      using m by (intro connection_ok_mgr [OF assms, of "(c_mgr c)\<lparr>m_last_error := Some e\<rparr>"])
        (auto simp: MarkErrorBegin)
  next
    case (MarkErrorEnd orc)
    show ?thesis
    proof (cases "c_recovery c")
      case (Some e)
      have r: "\<not> m_recovering (c_mgr c)" using m by (simp add: manager_ok_def)
      show ?thesis
        using Some handle_error_ok [OF r, of r e orc]
        by (intro connection_ok_mgr [OF assms, of "handle_error r e orc (c_mgr c)"]) (auto simp: MarkErrorEnd)
    qed (simp add: MarkErrorEnd assms)
  qed
qed

interpretation asr_steps: step_system "asr_step r" connection_ok for r
  by unfold_locales (rule asr_step_ok)

section \<open>Runs without recovery\<close>

text \<open>No backend call fails: no section enters \<open>_handle_error_locked\<close>.\<close>

fun healthy :: "asr_event \<Rightarrow> bool" where
  "healthy (SpeechStart out orc) = (orc 0 = None)"
| "healthy (AcceptEnd i res orc) = (res = None)"
| "healthy (FinalizeEnd i raw orc) = (case raw of Inl _ \<Rightarrow> False | Inr _ \<Rightarrow> True)"
| "healthy (MarkErrorBegin e) = False"
| "healthy (MarkErrorEnd orc) = False"
| "healthy _ = True"

definition settled :: "connection \<Rightarrow> bool" where
  "settled c = (connection_ok c \<and> c_recovery c = None \<and>
     (\<forall>(g, st) \<in> set (c_finals c). g = m_generation (c_mgr c) \<longrightarrow>
        m_state (c_mgr c) \<noteq> ACTIVE \<and> (m_state (c_mgr c) = FINALIZING \<longrightarrow> st = m_stream (c_mgr c))) \<and>
     (m_state (c_mgr c) \<noteq> IDLE \<longrightarrow> (\<forall>(g, st) \<in> set (c_emitted c). g < m_generation (c_mgr c))) \<and>
     sorted_wrt (>) (map fst (c_emitted c)))"

lemma settled_new: "settled new_connection"
  by (simp add: settled_def connection_ok_new) (simp add: new_connection_def)

text \<open>A section that only moves the manager to idle, or to active under a new generation.\<close>

lemma settled_idle:
  assumes "settled c" "m_state m = IDLE" "m_generation m = m_generation (c_mgr c)" "connection_ok (c\<lparr>c_mgr := m\<rparr>)"
  shows "settled (c\<lparr>c_mgr := m\<rparr>)"
  using assms by (auto simp: settled_def)

lemma settled_active:
  assumes "settled c" "m_generation m = Suc (m_generation (c_mgr c))" "connection_ok (c\<lparr>c_mgr := m\<rparr>)"
  shows "settled (c\<lparr>c_mgr := m\<rparr>)"
proof -
  have "\<forall>(g, st) \<in> set (c_emitted c). g < m_generation m" "\<forall>(g, st) \<in> set (c_finals c). g \<noteq> m_generation m"
    using assms(1,2) unfolding settled_def connection_ok_def by auto
  then show ?thesis using assms unfolding settled_def by auto
qed

lemma finalize_end_settled:
  assumes "settled c" "i < length (c_finals c)" "c_finals c ! i = (g, st)"
  shows "settled (asr_step r (FinalizeEnd i (Inr a) orc) c)"
proof -
  let ?r = "finalize_end r g st (Inr a) orc (c_mgr c)"
  have ok: "connection_ok (asr_step r (FinalizeEnd i (Inr a) orc) c)"
    using assms(1) by (intro asr_step_ok) (simp add: settled_def)
  have mem: "(g, st) \<in> set (c_finals c)" using assms(2,3) by (metis nth_mem)
  have cok: "connection_ok c" using assms(1) by (simp add: settled_def)
  have st: "st \<noteq> None" using mem cok by (auto simp: connection_ok_def)
  have m: "manager_ok (c_mgr c)" using cok by (simp add: connection_ok_def)
  note sub = set_drop_nth [of i "c_finals c"]
  show ?thesis
  proof (cases "f_accepted (fst ?r)")
    case True
    have s: "m_state (c_mgr c) = FINALIZING" "g = m_generation (c_mgr c)"
      using finalize_end_ok(3) [OF m st, of r g "Inr a" orc] True by auto
    have old: "\<forall>(g', st') \<in> set (c_emitted c). g' < g"
      using assms(1) s by (auto simp: settled_def)
    show ?thesis
      using ok old sub finalize_end_accepted(1) [OF True] assms(1)
      unfolding asr_step_FinalizeEnd [OF assms(2,3)] by (auto simp: settled_def True)
  next
    case False
    obtain k where "st = Some k" using st by blast
    then have "snd ?r = c_mgr c"
      using finalize_end_not_accepted [of r g k a orc "c_mgr c"] False by simp
    then show ?thesis
      using ok sub assms(1) unfolding asr_step_FinalizeEnd [OF assms(2,3)]
      by (auto simp: settled_def False)
  qed
qed

lemma settled_step:
  assumes "settled c" "healthy ev"
  shows "settled (asr_step r ev c)"
proof -
  have cok: "connection_ok c" using assms(1) by (simp add: settled_def)
  have m: "manager_ok (c_mgr c)" using cok by (simp add: connection_ok_def)
  note ok = asr_step_ok [OF cok, of r ev]
  show ?thesis
  proof (cases ev)
    case (SpeechStart out orc)
    have "m_generation (snd (on_speech_start r out orc (c_mgr c))) = Suc (m_generation (c_mgr c))"
      using on_speech_start_spec [OF m, of r out orc] by (auto simp: Let_def split: prod.splits)
    then show ?thesis using settled_active [OF assms(1)] ok by (simp add: SpeechStart)
  next
    case (AcceptBegin orc)
    then show ?thesis
      using assms(1) ok accept_begin_ok [OF m] by (auto simp: settled_def split: option.splits)
  next
    case (AcceptEnd i res orc)
    then show ?thesis
      using assms ok by (auto simp: settled_def accept_end_def)
  next
    case FinalizeBegin
    then show ?thesis
      using assms(1) ok by (auto simp: settled_def finalize_begin_def)
  next
    case (FinalizeEnd i raw orc)
    obtain a where "raw = Inr a" using assms(2) FinalizeEnd by (auto split: sum.splits)
    then show ?thesis
      using FinalizeEnd finalize_end_settled [OF assms(1)] assms(1)
      by (cases "i < length (c_finals c)"; cases "c_finals c ! i") auto
  next
    case (Cancel out)
    then show ?thesis
      using settled_idle [OF assms(1)] inner_cancel_ok [OF m, of r out] ok by (simp add: cancel_def)
  qed (use assms in simp_all)
qed

lemma settled_run:
  assumes "settled c" "\<forall>ev \<in> set es. healthy ev"
  shows "settled (fold (asr_step r) es c)"
  using assms by (induction es arbitrary: c) (simp_all add: settled_step)

section \<open>Properties\<close>

text \<open>
  C7: whatever the interleaving of the calls of a connection and whatever the backend answers,
  between two critical sections the manager is never left cancelling, rebuilding or with the
  recovery flag set; it holds a stream exactly when it is active or finalizing; every accepted
  final carries a generation already issued, and accepted generations never go backwards.
\<close>

theorem asr_manager_consistent:
  "let c = fold (asr_step r) es new_connection; m = c_mgr c in
     m_state m \<in> {IDLE, ACTIVE, FINALIZING} \<and> \<not> m_recovering m \<and>
     (m_stream m = None \<longleftrightarrow> m_state m = IDLE) \<and>
     (\<forall>(g, st) \<in> set (c_emitted c). g \<le> m_generation m) \<and>
     sorted_wrt (\<ge>) (map fst (c_emitted c))"
proof -
  obtain c where c: "c = fold (asr_step r) es new_connection" by blast
  have ok: "connection_ok c" unfolding c by (rule asr_steps.run_inv [OF connection_ok_new])
  then have "manager_ok (c_mgr c)" by (simp add: connection_ok_def)
  then show ?thesis
    using ok by (cases "m_state (c_mgr c)") (auto simp: Let_def connection_ok_def manager_ok_def simp flip: c)
qed

theorem asr_manager_consistent_witness:
  "let es = [SpeechStart Acked (\<lambda>_. None), FinalizeBegin, FinalizeEnd 0 (Inr (u ''hi'', None)) (\<lambda>_. None)];
       c = fold (asr_step True) es new_connection
   in (\<forall>(g, st) \<in> set (c_emitted c). g \<le> m_generation (c_mgr c)) \<and> c_emitted c = [(1, Some 0)]"
proof -
  let ?es = "[SpeechStart Acked (\<lambda>_. None), FinalizeBegin, FinalizeEnd 0 (Inr (u ''hi'', None)) (\<lambda>_. None)]"
  have "c_emitted (fold (asr_step True) ?es new_connection) = [(1, Some 0)]"
    by (simp add: new_connection_def new_manager_def on_speech_start_def create_stream_simps Let_def
        finalize_begin_def finalize_end_def)
  then show ?thesis
    using asr_manager_consistent [of True ?es] by (simp only: Let_def) simp
qed

text \<open>
  C3: while no backend call fails, each generation has at most one accepted final, however
  speech starts, cancels, finalizes and audio pushes interleave: a finalize that was cancelled
  or overtaken by a new speech start is discarded, so a late transcript never clobbers a newer
  one (the accepted generations strictly increase).
\<close>

theorem asr_one_final_per_generation:
  assumes "\<forall>ev \<in> set es. healthy ev"
  shows "sorted_wrt (>) (map fst (c_emitted (fold (asr_step r) es new_connection)))"
  using settled_run [OF settled_new assms] by (simp add: settled_def)

theorem asr_one_final_per_generation_witness:
  "let es = [SpeechStart Acked (\<lambda>_. None), FinalizeBegin, SpeechStart Acked (\<lambda>_. None),
        FinalizeBegin, FinalizeEnd 0 (Inr (u ''old'', None)) (\<lambda>_. None),
        FinalizeEnd 0 (Inr (u ''new'', None)) (\<lambda>_. None)];
       c = fold (asr_step True) es new_connection
   in sorted_wrt (>) (map fst (c_emitted c)) \<and> c_emitted c = [(2, Some 1)]"
proof -
  let ?es = "[SpeechStart Acked (\<lambda>_. None), FinalizeBegin, SpeechStart Acked (\<lambda>_. None),
        FinalizeBegin, FinalizeEnd 0 (Inr (u ''old'', None)) (\<lambda>_. None),
        FinalizeEnd 0 (Inr (u ''new'', None)) (\<lambda>_. None)]"
  have h: "\<forall>ev \<in> set ?es. healthy ev" by simp
  have "c_emitted (fold (asr_step True) ?es new_connection) = [(2, Some 1)]"
    by (simp add: new_connection_def new_manager_def on_speech_start_def create_stream_simps Let_def
        finalize_begin_def finalize_end_def inner_cancel_def safe_close_stream_def discarded_def drop_nth_def)
  then show ?thesis
    using asr_one_final_per_generation [OF h, of True] by (simp only: Let_def)
qed

text \<open>
  \<open>on_speech_start\<close> always ends: it either returns the next generation with the manager
  active on a stream created in this call, or raises \<open>ASRSessionUnavailable\<close> with the
  manager idle and no stream. It raises exactly when the direct create, the three backoff
  attempts and the create after the worker restart all fail, that is after 5 creates, one
  rebuild restart and 600 ms of sleep, and it never costs more than that.
\<close>

theorem asr_speech_start_outcome:
  assumes "manager_ok m" "m_state m = IDLE"
  shows "let (g, m') = on_speech_start r out orc m in
     (case g of
        Some n \<Rightarrow> n = m_generation m + 1 \<and> m_generation m' = n \<and> m_state m' = ACTIVE
          \<and> (\<exists>i \<ge> m_next_stream m. m_stream m' = Some i)
      | None \<Rightarrow> m_state m' = IDLE \<and> m_stream m' = None \<and> m_creates m' = m_creates m + 5
          \<and> m_slept_ms m' = m_slept_ms m + 600)
     \<and> (g = None \<longleftrightarrow> (\<forall>k < 5. orc k \<noteq> None))
     \<and> m_creates m' \<le> m_creates m + 5 \<and> m_restarts m' \<le> m_restarts m + 1 \<and> m_slept_ms m' \<le> m_slept_ms m + 600"
proof -
  have five: "(\<forall>k < (5::nat). orc k \<noteq> None) \<longleftrightarrow> orc 0 \<noteq> None \<and> first_success (\<lambda>k. orc (k + 1)) = None"
    by (auto simp: first_success_def eval_nat_numeral less_Suc_eq)
  have m: "m_stream m = None" "\<not> m_recovering m" using assms by (simp_all add: manager_ok_def)
  show ?thesis
  proof (cases "orc 0")
    case None
    then show ?thesis
      using assms m five by (simp add: on_speech_start_def create_stream_simps Let_def)
  next
    case (Some e)
    let ?m3 = "m\<lparr>m_generation := m_generation m + 1, m_creates := m_creates m + 1\<rparr>"
    obtain q where q: "q = handle_error r e (\<lambda>k. orc (k + 1)) ?m3" by blast
    have r: "\<not> m_recovering ?m3" using m by simp
    have eq: "on_speech_start r out orc m =
        (if m_stream q = None then (None, q\<lparr>m_state := IDLE\<rparr>) else (Some (m_generation q), q\<lparr>m_state := ACTIVE\<rparr>))"
      using assms(2) by (simp add: on_speech_start_def Some create_stream_simps Let_def q)
    show ?thesis
    proof (cases "first_success (\<lambda>k. orc (k + 1))")
      case None
      then show ?thesis
        unfolding eq five using Some handle_error_spec [OF r, of r e "\<lambda>k. orc (k + 1)", folded q] by (simp add: Let_def)
    next
      case (Some k)
      have "k < 4" using Some by (rule first_success_less)
      then have "k = 0 \<or> k = 1 \<or> k = 2 \<or> k = 3" by arith
      then show ?thesis
        unfolding eq five
        using Some handle_error_spec [OF r, of r e "\<lambda>k. orc (k + 1)", folded q]
        by (auto simp add: Let_def rebuild_backoff_ms_def)
    qed
  qed
qed

theorem asr_speech_start_outcome_witness:
  "let (g, m') = on_speech_start True Acked (\<lambda>k. if k < 4 then Some [''WorkerExitError''] else None) new_manager in
     g = Some 1 \<and> m_state m' = ACTIVE \<and> m_creates m' \<le> 5 \<and> m_restarts m' = 1"
proof -
  let ?orc = "\<lambda>k::nat. if k < 4 then Some [''WorkerExitError''] else None"
  have "m_state new_manager = IDLE" by (simp add: new_manager_def)
  note * = asr_speech_start_outcome [OF manager_ok_new this, of True Acked ?orc]
  have "m_restarts (snd (on_speech_start True Acked ?orc new_manager)) = 1"
    "fst (on_speech_start True Acked ?orc new_manager) = Some 1"
    by (simp_all add: new_manager_def on_speech_start_def handle_error_def rebuild_defs maybe_restart_worker_def
        safe_close_stream_def)
  then show ?thesis
    using * by (auto simp: Let_def new_manager_def split: prod.splits)
qed

text \<open>
  With a rebuild in between, the generation check does not separate two finalizes. The
  manager rebuilds into \<open>ACTIVE\<close> without issuing a generation, so after an error reported
  while generation 1 is finalizing, a second finalize runs under the same generation; the
  transcript of the old, already closed stream 0 is then accepted and that of the live stream
  1 is discarded.
\<close>

theorem asr_stale_final_after_rebuild:
  "let es = [SpeechStart Acked (\<lambda>_. None), FinalizeBegin,
        MarkErrorBegin [''WorkerExitError''], MarkErrorEnd (\<lambda>_. None), FinalizeBegin,
        FinalizeEnd 0 (Inr (u ''stale'', None)) (\<lambda>_. None), FinalizeEnd 0 (Inr (u ''live'', None)) (\<lambda>_. None)];
       c = fold (asr_step True) es new_connection
   in c_emitted c = [(1, Some 0)] \<and> c_finals c = [] \<and> 0 \<in> set (m_closed (c_mgr c)) \<and> m_generation (c_mgr c) = 1"
  by (simp add: new_connection_def new_manager_def on_speech_start_def create_stream_simps Let_def
        finalize_begin_def finalize_end_def handle_error_def rebuild_defs
        safe_close_stream_def discarded_def drop_nth_def)
end
