(* ===== verification/Tts_Text.thy ===== *)
theory Tts_Text
  imports Prelude
begin

text \<open>
  Cutting a token stream into pieces to be spoken, \<open>app/core/v2v.py\<close>: the language
  normalisation, \<open>SentenceBuffer\<close> (pysbd path and regex fallback) and
  \<open>LowLatencyTTSBuffer\<close>. A generator method is modelled by the list of everything it
  yields and the state it leaves. pysbd is a third-party package: its \<open>segment\<close> function is
  the field \<open>sb_seg\<close>, absent when the regex path is used. The locale \<open>chunker\<close> is what the
  callers rely on: pushing tokens and closing loses no visible character.
\<close>

section \<open>Language normalisation\<close>

definition pysbd_langs :: "string list" where
  "pysbd_langs =
     [''am'', ''ar'', ''bg'', ''da'', ''de'', ''el'', ''en'', ''es'', ''fa'', ''fr'',
      ''hi'', ''hy'', ''it'', ''ja'', ''kk'', ''mr'', ''my'', ''nl'', ''pl'', ''ru'', ''ur'', ''zh'']"

definition lang_aliases :: "(string \<times> string) list" where
  "lang_aliases =
     [(''english'', ''en''), (''chinese'', ''zh''), (''japanese'', ''ja''),
      (''korean'', ''ko''), (''spanish'', ''es''), (''french'', ''fr''),
      (''german'', ''de''), (''italian'', ''it''), (''portuguese'', ''pt''),
      (''russian'', ''ru''), (''arabic'', ''ar''), (''hindi'', ''hi''),
      (''dutch'', ''nl''), (''polish'', ''pl''), (''greek'', ''el''),
      (''burmese'', ''my''), (''marathi'', ''mr'')]"

definition normalize_lang :: "string option \<Rightarrow> string option" where
  "normalize_lang lang =
     (case lang of
        None \<Rightarrow> None
      | Some l \<Rightarrow>
          if l = [] then None
          else (let lc = py_lower (sstrip l);
                    code = (case map_of lang_aliases lc of None \<Rightarrow> lc | Some c \<Rightarrow> c)
                in if code \<in> set pysbd_langs then Some code else None))"

section \<open>Code points\<close>

definition contains_cjk :: "ustr \<Rightarrow> bool" where
  "contains_cjk text = list_ex (\<lambda>cp. (19968 \<le> cp \<and> cp \<le> 40959) \<or> (12352 \<le> cp \<and> cp \<le> 12543)
      \<or> (44032 \<le> cp \<and> cp \<le> 55215)) text"

text \<open>The visible (non-space) part of a text: what conservation is about.\<close>

definition visible :: "ustr \<Rightarrow> ustr" where
  "visible t = filter (\<lambda>c. \<not> py_isspace c) t"

section \<open>The sentence buffer\<close>

record sentence_buffer =
  sb_min_chars :: int
  sb_max_buffer :: int
  sb_buf :: ustr
  sb_seg :: "(ustr \<Rightarrow> ustr list) option"

text \<open>\<open>__post_init__\<close>: \<open>pysbd\<close> is the constructor of segmenters when the package is installed;
  it may fail for a language.\<close>

definition new_sentence_buffer ::
  "(string \<Rightarrow> (ustr \<Rightarrow> ustr list) option) option \<Rightarrow> string option \<Rightarrow> int \<Rightarrow> int \<Rightarrow> sentence_buffer" where
  "new_sentence_buffer pysbd language mn mx =
     \<lparr>sb_min_chars = mn, sb_max_buffer = mx, sb_buf = [],
      sb_seg = (case (pysbd, normalize_lang language) of
                  (Some segmenter, Some code) \<Rightarrow> segmenter code
                | _ \<Rightarrow> None)\<rparr>"

text \<open>The regex \<open>[CJK terminators and newline]+ | [!?.](?=\s|$)\<close>: the end of the leftmost match.\<close>

definition cjk_terminator :: "nat \<Rightarrow> bool" where
  "cjk_terminator c = (c \<in> {12290, 65281, 65311, 65307, 10})"

fun sentence_end :: "ustr \<Rightarrow> nat option" where
  "sentence_end [] = None"
| "sentence_end (c # cs) =
     (if cjk_terminator c then Some (Suc (length (takeWhile cjk_terminator cs)))
      else if c \<in> {33, 63, 46} \<and> (case cs of [] \<Rightarrow> True | d # _ \<Rightarrow> py_isspace d) then Some 1
      else map_option Suc (sentence_end cs))"

lemma sentence_end_bounds: "sentence_end t = Some n \<Longrightarrow> 0 < n \<and> n \<le> length t"
proof (induction t arbitrary: n rule: sentence_end.induct)
  case (2 c cs)
  then show ?case using length_takeWhile_le [of cjk_terminator cs] by (auto split: if_splits)
qed simp

function extract_next_sentence_regex :: "nat \<Rightarrow> sentence_buffer \<Rightarrow> ustr option \<times> sentence_buffer" where
  "extract_next_sentence_regex pos b =
     (case sentence_end (drop pos (sb_buf b)) of
        None \<Rightarrow>
          if int (length (sb_buf b)) \<ge> sb_max_buffer b
          then (let out = ustrip (sb_buf b) in (if out = [] then None else Some out, b\<lparr>sb_buf := []\<rparr>))
          else (None, b)
      | Some n \<Rightarrow>
          (let end = pos + n; prefix = ustrip (take end (sb_buf b)) in
           if int (length prefix) \<ge> sb_min_chars b
           then (Some prefix, b\<lparr>sb_buf := drop end (sb_buf b)\<rparr>)
           else extract_next_sentence_regex end b))"
  by pat_completeness auto
termination
proof (relation "measure (\<lambda>(pos, b). length (sb_buf b) - pos)", goal_cases)
  case (2 pos b n)
  then show ?case using sentence_end_bounds [of "drop pos (sb_buf b)" n] by auto
qed simp

declare extract_next_sentence_regex.simps [simp del]

lemma extract_shrinks:
  "extract_next_sentence_regex pos b = (Some s, b') \<Longrightarrow> length (sb_buf b') < length (sb_buf b)"
proof (induction pos b rule: extract_next_sentence_regex.induct)
  case (1 pos b)
  show ?case
  proof (cases "sentence_end (drop pos (sb_buf b))")
    case None
    then have "b' = b\<lparr>sb_buf := []\<rparr>" "sb_buf b \<noteq> []"
      using 1(2) by (auto simp: extract_next_sentence_regex.simps [of pos b] Let_def strip_by_def split: if_splits)
    then show ?thesis by simp
  next
    case (Some n)
    then show ?thesis
      using 1 sentence_end_bounds [OF Some] by (auto simp: extract_next_sentence_regex.simps [of pos b] Let_def split: if_splits)
  qed
qed

function emit_regex :: "sentence_buffer \<Rightarrow> ustr list \<times> sentence_buffer" where
  "emit_regex b =
     (case extract_next_sentence_regex 0 b of
        (None, b1) \<Rightarrow> ([], b1)
      | (Some sentence, b1) \<Rightarrow> (let (rest, b2) = emit_regex b1 in (sentence # rest, b2)))"
  by pat_completeness auto
termination
  by (relation "measure (length \<circ> sb_buf)") (auto dest: extract_shrinks [OF sym])

declare emit_regex.simps [simp del]

definition emit_pysbd :: "(ustr \<Rightarrow> ustr list) \<Rightarrow> sentence_buffer \<Rightarrow> ustr list \<times> sentence_buffer" where
  "emit_pysbd seg b =
     (let sentences = seg (sb_buf b) in
      if length sentences > 1
      then (filter (\<lambda>s. int (length s) \<ge> sb_min_chars b) (map ustrip (butlast sentences)),
            b\<lparr>sb_buf := last sentences\<rparr>)
      else if int (length (sb_buf b)) \<ge> sb_max_buffer b
      then (let out = ustrip (sb_buf b) in (if out = [] then [] else [out], b\<lparr>sb_buf := []\<rparr>))
      else ([], b))"

definition sentence_add :: "sentence_buffer \<Rightarrow> ustr \<Rightarrow> ustr list \<times> sentence_buffer" where
  "sentence_add b chunk =
     (if chunk = [] then ([], b)
      else (let b1 = b\<lparr>sb_buf := sb_buf b @ chunk\<rparr> in
            case sb_seg b of Some seg \<Rightarrow> emit_pysbd seg b1 | None \<Rightarrow> emit_regex b1))"

definition sentence_flush :: "sentence_buffer \<Rightarrow> ustr list \<times> sentence_buffer" where
  "sentence_flush b =
     (let leftover = ustrip (sb_buf b) in (if leftover = [] then [] else [leftover], b\<lparr>sb_buf := []\<rparr>))"

definition sentence_is_empty :: "sentence_buffer \<Rightarrow> bool" where
  "sentence_is_empty b = (ustrip (sb_buf b) = [])"

definition using_pysbd :: "sentence_buffer \<Rightarrow> bool" where
  "using_pysbd b = (sb_seg b \<noteq> None)"

section \<open>The low-latency buffer\<close>

record low_latency =
  ll_language :: string
  ll_min :: int
  ll_target :: int
  ll_max :: int
  ll_buf :: ustr

definition cjk_languages :: "string list" where
  "cjk_languages = [''zh'', ''chinese'', ''ja'', ''japanese'', ''ko'', ''korean'']"

definition env_int :: "(string \<rightharpoonup> string) \<Rightarrow> string \<Rightarrow> string \<Rightarrow> int option" where
  "env_int environ name dflt = py_int (case environ name of None \<Rightarrow> dflt | Some v \<Rightarrow> v)"

text \<open>The clamping at the end of \<open>__post_init__\<close>.\<close>

definition clamp_thresholds :: "string \<Rightarrow> int \<Rightarrow> int \<Rightarrow> int \<Rightarrow> low_latency" where
  "clamp_thresholds lang mn target mx =
     (let min1 = max 2 mn; target1 = max min1 target; max1 = max target1 mx
      in \<lparr>ll_language = lang, ll_min = min1, ll_target = target1, ll_max = max1, ll_buf = []\<rparr>)"

text \<open>\<open>__post_init__\<close>; \<open>None\<close> is the ValueError of \<open>int(os.environ.get(...))\<close>.\<close>

definition new_low_latency ::
  "(string \<rightharpoonup> string) \<Rightarrow> string option \<Rightarrow> int option \<Rightarrow> int option \<Rightarrow> int option \<Rightarrow> low_latency option" where
  "new_low_latency environ language mn target mx =
     (let lang = (case language of None \<Rightarrow> [] | Some l \<Rightarrow> l);
          cjk = py_lower (sstrip lang) \<in> set cjk_languages;
          prefix = (if cjk then ''OVS_TTS_LOW_LATENCY_CJK'' else ''OVS_TTS_LOW_LATENCY_LATIN'')
      in case (env_int environ (prefix @ ''_MIN_CHARS'') (if cjk then ''15'' else ''24''),
               env_int environ (prefix @ ''_TARGET_CHARS'') (if cjk then ''24'' else ''48''),
               env_int environ (prefix @ ''_MAX_CHARS'') (if cjk then ''40'' else ''80'')) of
           (Some default_min, Some default_target, Some default_max) \<Rightarrow>
             Some (clamp_thresholds lang (case mn of None \<Rightarrow> default_min | Some i \<Rightarrow> i)
               (case target of None \<Rightarrow> default_target | Some i \<Rightarrow> i)
               (case mx of None \<Rightarrow> default_max | Some i \<Rightarrow> i))
         | _ \<Rightarrow> None)"

text \<open>\<open>str.find\<close> and \<open>str.rfind\<close> of one character, -1 when absent.\<close>

fun ufind :: "nat \<Rightarrow> ustr \<Rightarrow> int" where
  "ufind c [] = -1"
| "ufind c (x # xs) = (if x = c then 0 else if ufind c xs < 0 then -1 else ufind c xs + 1)"

fun urfind :: "nat \<Rightarrow> ustr \<Rightarrow> int" where
  "urfind c [] = -1"
| "urfind c (x # xs) = (if urfind c xs \<ge> 0 then urfind c xs + 1 else if x = c then 0 else -1)"

definition first_break_index :: "ustr \<Rightarrow> nat list \<Rightarrow> int" where
  "first_break_index text chars =
     (let found = filter (\<lambda>i. i \<ge> 0) (map (\<lambda>ch. ufind ch text) chars)
      in if found = [] then -1 else Min (set found))"

definition last_break_index :: "ustr \<Rightarrow> nat list \<Rightarrow> int \<Rightarrow> int" where
  "last_break_index text chars lim =
     (let found = filter (\<lambda>i. i \<ge> 0) (map (\<lambda>ch. urfind ch (take (nat lim) text)) chars)
      in if found = [] then -1 else Max (set found))"

definition hard_breaks :: "nat list" where
  "hard_breaks = [12290, 65281, 65311, 33, 63, 65307, 59, 10]"

definition cjk_soft_breaks :: "nat list" where
  "cjk_soft_breaks = [65292, 44, 12289, 65306, 58]"

definition latin_soft_breaks :: "nat list" where
  "latin_soft_breaks = [44, 59, 58]"

text \<open>\<open>for idx in range(i, low, -1)\<close>: the first space from the right, counted down from i.\<close>

fun last_space_from :: "ustr \<Rightarrow> int \<Rightarrow> nat \<Rightarrow> int option" where
  "last_space_from w low 0 = None"
| "last_space_from w low (Suc idx) =
     (if int idx \<le> low then None
      else if py_isspace (w ! idx) then Some (int idx)
      else last_space_from w low idx)"

definition choose_length_cut :: "bool \<Rightarrow> low_latency \<Rightarrow> int" where
  "choose_length_cut is_cjk b =
     (let lim = min (int (length (ll_buf b))) (ll_max b) in
      if is_cjk
      then (let soft_idx = last_break_index (ll_buf b) cjk_soft_breaks lim
            in if soft_idx \<ge> ll_min b - 1 then soft_idx + 1 else lim)
      else (let window = take (nat lim) (ll_buf b) in
            case last_space_from window (ll_min b - 2) (length window) of
              Some idx \<Rightarrow> idx + 1
            | None \<Rightarrow> min (int (length (ll_buf b))) (ll_target b)))"

definition take_chunk :: "int \<Rightarrow> low_latency \<Rightarrow> ustr option \<times> low_latency" where
  "take_chunk end b =
     (let out = ustrip (take (nat end) (ll_buf b))
      in (if out = [] then None else Some out, b\<lparr>ll_buf := ulstrip (drop (nat end) (ll_buf b))\<rparr>))"

definition chunk_is_cjk :: "low_latency \<Rightarrow> bool" where
  "chunk_is_cjk b = (contains_cjk (ll_buf b) \<or> py_lower (ll_language b) \<in> set cjk_languages)"

text \<open>\<open>_next_chunk\<close> from the break search on, the buffer being stripped and not empty.\<close>

definition cut_position :: "low_latency \<Rightarrow> int option" where
  "cut_position b =
     (let is_cjk = chunk_is_cjk b;
          hard_idx = first_break_index (ll_buf b) hard_breaks;
          soft_idx = last_break_index (ll_buf b) (if is_cjk then cjk_soft_breaks else latin_soft_breaks)
                       (int (length (ll_buf b)));
          len = int (length (ustrip (ll_buf b)))
      in if hard_idx \<ge> 0 \<and> length (ustrip (take (nat (hard_idx + 1)) (ll_buf b))) \<ge> 2 then Some (hard_idx + 1)
         else if soft_idx \<ge> 0 \<and> int (length (ustrip (take (nat (soft_idx + 1)) (ll_buf b)))) \<ge> ll_min b
         then Some (soft_idx + 1)
         else if soft_idx \<ge> 0 \<and> len \<ge> ll_target b then Some (int (length (ll_buf b)))
         else if len < (if is_cjk then ll_max b else ll_target b) then None
         else if choose_length_cut is_cjk b \<le> 0 then None
         else Some (choose_length_cut is_cjk b))"

definition next_chunk :: "bool \<Rightarrow> low_latency \<Rightarrow> ustr option \<times> low_latency" where
  "next_chunk final b0 =
     (let b = b0\<lparr>ll_buf := ulstrip (ll_buf b0)\<rparr> in
      if ll_buf b = [] then (None, b)
      else if final
      then (let out = ustrip (ll_buf b) in (if out = [] then None else Some out, b\<lparr>ll_buf := []\<rparr>))
      else (case cut_position b of None \<Rightarrow> (None, b) | Some end \<Rightarrow> take_chunk end b))"

lemma ufind_bounds: "-1 \<le> ufind c t \<and> ufind c t < int (length t)"
  by (induction t) auto

lemma urfind_bounds: "-1 \<le> urfind c t \<and> urfind c t < int (length t)"
  by (induction t) auto

lemma Min_or_in:
  fixes found :: "int list"
  shows "found \<noteq> [] \<Longrightarrow> Min (set found) \<in> set found" "found \<noteq> [] \<Longrightarrow> Max (set found) \<in> set found"
  by (intro Min_in Max_in; simp)+

lemma first_break_in: "first_break_index t chars \<in> insert (-1) ((\<lambda>ch. ufind ch t) ` set chars)"
  using Min_or_in(1) [of "filter (\<lambda>i. i \<ge> 0) (map (\<lambda>ch. ufind ch t) chars)"]
  by (auto simp: first_break_index_def Let_def)

lemma last_break_in: "last_break_index t chars lim \<in> insert (-1) ((\<lambda>ch. urfind ch (take (nat lim) t)) ` set chars)"
  using Min_or_in(2) [of "filter (\<lambda>i. i \<ge> 0) (map (\<lambda>ch. urfind ch (take (nat lim) t)) chars)"]
  by (auto simp: last_break_index_def Let_def)

lemma first_break_bounds: "-1 \<le> first_break_index t chars \<and> first_break_index t chars < max 1 (int (length t))"
proof -
  have "-1 \<le> ufind ch t \<and> ufind ch t < max 1 (int (length t))" for ch
    using ufind_bounds [of ch t] by linarith
  then show ?thesis using first_break_in [of t chars] by auto
qed

lemma last_break_bounds:
  assumes "0 < lim" "lim \<le> int (length t)"
  shows "-1 \<le> last_break_index t chars lim \<and> last_break_index t chars lim < lim"
  using last_break_in [of t chars lim] urfind_bounds [of _ "take (nat lim) t"] assms by auto

lemma last_space_bounds: "last_space_from w low n = Some i \<Longrightarrow> low < i \<and> i < int n"
  by (induction w low n rule: last_space_from.induct) (auto split: if_splits)

definition thresholds_ok :: "low_latency \<Rightarrow> bool" where
  "thresholds_ok b = (2 \<le> ll_min b \<and> ll_min b \<le> ll_target b \<and> ll_target b \<le> ll_max b)"

lemma choose_length_cut_bounds:
  assumes "thresholds_ok b" "ll_buf b \<noteq> []"
  shows "0 < choose_length_cut cjk b \<and> choose_length_cut cjk b \<le> min (int (length (ll_buf b))) (ll_max b)"
proof -
  define lim where "lim = min (int (length (ll_buf b))) (ll_max b)"
  have lim: "0 < lim" "lim \<le> int (length (ll_buf b))" using assms by (auto simp: thresholds_ok_def lim_def)
  define w where "w = take (nat lim) (ll_buf b)"
  have len: "int (length w) = lim" using lim by (simp add: w_def)
  have t: "2 \<le> ll_min b" "ll_min b \<le> ll_target b" "ll_target b \<le> ll_max b" "0 < int (length (ll_buf b))"
    using assms by (simp_all add: thresholds_ok_def)
  show ?thesis
  proof (cases cjk)
    case True
    then show ?thesis
      using last_break_bounds [OF lim, of cjk_soft_breaks] lim(1) t(1)
      by (simp add: choose_length_cut_def Let_def flip: lim_def)
  next
    case False
    then have eq: "choose_length_cut cjk b =
       (case last_space_from w (ll_min b - 2) (length w) of
          Some idx \<Rightarrow> idx + 1 | None \<Rightarrow> min (int (length (ll_buf b))) (ll_target b))"
      unfolding choose_length_cut_def Let_def lim_def w_def by simp
    show ?thesis
    proof (cases "last_space_from w (ll_min b - 2) (length w)")
      case None
      then show ?thesis using t by (auto simp: eq)
    next
      case (Some i)
      then show ?thesis using last_space_bounds [OF Some] len t(1) unfolding eq lim_def by simp
    qed
  qed
qed

lemma cut_position_bounds:
  assumes "thresholds_ok b" "ll_buf b \<noteq> []" "cut_position b = Some e"
  shows "0 < e \<and> e \<le> int (length (ll_buf b))"
proof -
  have len: "0 < int (length (ll_buf b))" using assms(2) by simp
  obtain h where h: "h = first_break_index (ll_buf b) hard_breaks" by blast
  obtain s where s: "s = last_break_index (ll_buf b)
     (if chunk_is_cjk b then cjk_soft_breaks else latin_soft_breaks) (int (length (ll_buf b)))" by blast
  obtain k where k: "k = choose_length_cut (chunk_is_cjk b) b" by blast
  have "h < int (length (ll_buf b))" "s < int (length (ll_buf b))" "k \<le> int (length (ll_buf b))"
    using first_break_bounds [of "ll_buf b" hard_breaks] last_break_bounds [OF len order_refl] len
      choose_length_cut_bounds [OF assms(1,2), of "chunk_is_cjk b"] unfolding h s k by auto
  then show ?thesis
    using assms(3) len unfolding cut_position_def Let_def h [symmetric] s [symmetric] k [symmetric]
    by (auto split: if_split_asm)
qed

lemma visible_strip [simp]: "visible (ustrip t) = visible t" "visible (ulstrip t) = visible t"
  by (simp_all add: visible_def)

lemma visible_append [simp]: "visible (s @ t) = visible s @ visible t"
  by (simp add: visible_def)

lemma visible_Nil [simp]: "visible [] = []"
  by (simp add: visible_def)

lemma visible_empty_iff: "ustrip t = [] \<longleftrightarrow> visible t = []"
  by (simp add: strip_by_Nil_iff visible_def filter_empty_conv)

lemma lstrip_hd: "lstrip_by P t \<noteq> [] \<Longrightarrow> \<not> P (hd (lstrip_by P t))"
  by (simp add: lstrip_by_def hd_dropWhile)

lemma lstrip_idem [simp]: "lstrip_by P (lstrip_by P t) = lstrip_by P t"
  by (simp add: lstrip_by_def)

lemma take_chunk_spec:
  assumes "ll_buf b \<noteq> []" "\<not> py_isspace (hd (ll_buf b))" "0 < e" "e \<le> int (length (ll_buf b))"
  shows "\<exists>s. s \<noteq> [] \<and> take_chunk e b = (Some s, b\<lparr>ll_buf := ulstrip (drop (nat e) (ll_buf b))\<rparr>)
     \<and> visible (ll_buf b) = visible s @ visible (drop (nat e) (ll_buf b))
     \<and> int (length s) \<le> e \<and> length (ulstrip (drop (nat e) (ll_buf b))) < length (ll_buf b)"
proof -
  let ?s = "ustrip (take (nat e) (ll_buf b))"
  obtain c cs where c: "ll_buf b = c # cs" using assms(1) by (cases "ll_buf b") auto
  obtain k where k: "nat e = Suc k" using assms(3) by (cases "nat e") auto
  have s: "?s \<noteq> []" using assms(2) c k by (simp add: strip_by_Nil_iff)
  have "visible (ll_buf b) = visible (take (nat e) (ll_buf b)) @ visible (drop (nat e) (ll_buf b))"
    by (metis append_take_drop_id visible_append)
  moreover have "int (length ?s) \<le> e"
    using length_strip_by [of py_isspace "take (nat e) (ll_buf b)"] assms(3,4) by (simp add: min_absorb2)
  moreover have "length (ulstrip (drop (nat e) (ll_buf b))) < length (ll_buf b)"
    using length_lstrip_by [of py_isspace "drop (nat e) (ll_buf b)"] c k by simp
  ultimately show ?thesis using s by (auto simp: take_chunk_def Let_def)
qed

lemma next_chunk_spec:
  assumes "thresholds_ok b"
  shows "let (out, b') = next_chunk final b in
     visible (ll_buf b) = visible (case out of None \<Rightarrow> [] | Some s \<Rightarrow> s) @ visible (ll_buf b') \<and>
     thresholds_ok b' \<and> ll_max b' = ll_max b \<and>
     (case out of
        Some s \<Rightarrow> s \<noteq> [] \<and> length (ll_buf b') < length (ll_buf b)
      | None \<Rightarrow> ll_buf b' = [] \<or> (\<not> final \<and> cut_position b' = None))
     \<and> (final \<longrightarrow> ll_buf b' = [])"
proof -
  define b1 where "b1 = b\<lparr>ll_buf := ulstrip (ll_buf b)\<rparr>"
  have ok: "thresholds_ok b1" using assms by (simp add: thresholds_ok_def b1_def)
  have vis: "visible (ll_buf b1) = visible (ll_buf b)" by (simp add: b1_def)
  have len: "length (ll_buf b1) \<le> length (ll_buf b)" by (simp add: b1_def length_lstrip_by)
  have mx: "ll_max b1 = ll_max b" by (simp add: b1_def)
  have eq: "next_chunk final b =
     (if ll_buf b1 = [] then (None, b1)
      else if final
      then (if ustrip (ll_buf b1) = [] then None else Some (ustrip (ll_buf b1)), b1\<lparr>ll_buf := []\<rparr>)
      else (case cut_position b1 of None \<Rightarrow> (None, b1) | Some end \<Rightarrow> take_chunk end b1))"
    unfolding next_chunk_def Let_def b1_def ..
  consider "ll_buf b1 = []" | (fin) "ll_buf b1 \<noteq> []" final | (wait) "ll_buf b1 \<noteq> []" "\<not> final" "cut_position b1 = None"
    | (cut) e where "ll_buf b1 \<noteq> []" "\<not> final" "cut_position b1 = Some e"
    by blast
  then show ?thesis
  proof cases
    case 1
    then show ?thesis using ok vis mx by (simp add: eq)
  next
    case fin
    then have "0 < length (ll_buf b)" using len by (cases "ll_buf b1") auto
    then show ?thesis
      unfolding eq using fin ok vis mx visible_empty_iff [of "ll_buf b1"]
      by (cases "ustrip (ll_buf b1) = []") (simp_all add: thresholds_ok_def)
  next
    case wait
    then show ?thesis unfolding eq using ok vis mx by simp
  next
    case cut
    have "\<not> py_isspace (hd (ll_buf b1))" using cut(1) lstrip_hd unfolding b1_def by fastforce
    from take_chunk_spec [OF cut(1) this] cut_position_bounds [OF ok cut(1,3)]
    obtain s where "s \<noteq> []" "take_chunk e b1 = (Some s, b1\<lparr>ll_buf := ulstrip (drop (nat e) (ll_buf b1))\<rparr>)"
      "visible (ll_buf b1) = visible s @ visible (drop (nat e) (ll_buf b1))"
      "length (ulstrip (drop (nat e) (ll_buf b1))) < length (ll_buf b1)" by blast
    then show ?thesis
      unfolding eq using cut ok vis mx len by (simp add: thresholds_ok_def)
  qed
qed

lemma cut_position_pos: "cut_position b = Some e \<Longrightarrow> ll_buf b \<noteq> [] \<Longrightarrow> 0 < e"
  unfolding cut_position_def Let_def by (auto split: if_split_asm)

lemma next_chunk_shrinks:
  assumes "next_chunk final b = (Some s, b')"
  shows "length (ll_buf b') < length (ll_buf b)"
proof -
  obtain t where t: "t = ulstrip (ll_buf b)" by blast
  have "t \<noteq> []" using assms by (auto simp: next_chunk_def Let_def t)
  then have len: "0 < length t" "length t \<le> length (ll_buf b)" using length_lstrip_by [of py_isspace] by (simp_all add: t)
  show ?thesis
  proof (cases final)
    case True
    then have "ll_buf b' = []" using assms \<open>t \<noteq> []\<close> by (auto simp: next_chunk_def Let_def t)
    then show ?thesis using len by (metis le_less_trans length_greater_0_conv list.size(3) not_less_zero order_le_less)
  next
    case False
    then obtain e where e: "cut_position (b\<lparr>ll_buf := t\<rparr>) = Some e" "take_chunk e (b\<lparr>ll_buf := t\<rparr>) = (Some s, b')"
      using assms \<open>t \<noteq> []\<close> by (auto simp: next_chunk_def Let_def t split: option.splits)
    have "0 < e" using cut_position_pos [OF e(1)] \<open>t \<noteq> []\<close> by simp
    moreover have "ll_buf b' = ulstrip (drop (nat e) t)" using e(2) by (auto simp: take_chunk_def Let_def)
    moreover have "length t - nat e < length t" using len(1) \<open>0 < e\<close> by (intro diff_less) auto
    ultimately show ?thesis
      using len(2) length_lstrip_by [of py_isspace "drop (nat e) t"] by (simp only: length_drop)
  qed
qed

function emit_ready :: "bool \<Rightarrow> low_latency \<Rightarrow> ustr list \<times> low_latency" where
  "emit_ready final b =
     (case next_chunk final b of
        (None, b1) \<Rightarrow> ([], b1)
      | (Some part, b1) \<Rightarrow> (let (rest, b2) = emit_ready final b1 in (part # rest, b2)))"
  by pat_completeness auto
termination
  by (relation "measure (\<lambda>(_, b). length (ll_buf b))") (auto dest: next_chunk_shrinks [OF sym])

declare emit_ready.simps [simp del]

definition low_latency_add :: "low_latency \<Rightarrow> ustr \<Rightarrow> ustr list \<times> low_latency" where
  "low_latency_add b chunk =
     (if chunk = [] then ([], b) else emit_ready False (b\<lparr>ll_buf := ll_buf b @ chunk\<rparr>))"

definition low_latency_flush :: "low_latency \<Rightarrow> ustr list \<times> low_latency" where
  "low_latency_flush b = emit_ready True b"

definition low_latency_is_empty :: "low_latency \<Rightarrow> bool" where
  "low_latency_is_empty b = (ustrip (ll_buf b) = [])"

section \<open>What every chunk keeps\<close>

lemma emit_ready_spec:
  assumes "thresholds_ok b"
  shows "let (parts, b') = emit_ready final b in
     visible (concat parts) @ visible (ll_buf b') = visible (ll_buf b) \<and> thresholds_ok b' \<and> ll_max b' = ll_max b \<and>
     (\<forall>s \<in> set parts. s \<noteq> []) \<and> (ll_buf b' = [] \<or> (\<not> final \<and> cut_position b' = None))"
  using assms
proof (induction final b rule: emit_ready.induct)
  case (1 final b)
  note spec = next_chunk_spec [OF 1(2), of final]
  obtain out b1 where nb: "next_chunk final b = (out, b1)" by fastforce
  show ?case
  proof (cases out)
    case None
    then show ?thesis using spec nb by (subst emit_ready.simps) (auto simp: Let_def)
  next
    case (Some s)
    obtain rest b2 where er: "emit_ready final b1 = (rest, b2)" by fastforce
    have ok: "thresholds_ok b1" using spec nb by (simp add: Let_def)
    have "emit_ready final b = (s # rest, b2)"
      by (subst emit_ready.simps) (simp add: nb Some er)
    then show ?thesis
      using 1(1) [OF nb [symmetric] Some ok] spec nb Some er by (auto simp: Let_def)
  qed
qed

lemma extract_spec:
  "extract_next_sentence_regex pos b = (out, b') \<Longrightarrow>
     visible (sb_buf b) = visible (case out of None \<Rightarrow> [] | Some s \<Rightarrow> s) @ visible (sb_buf b')
     \<and> sb_seg b' = sb_seg b \<and> sb_min_chars b' = sb_min_chars b \<and> sb_max_buffer b' = sb_max_buffer b
     \<and> (out = None \<longrightarrow> sb_buf b' = [] \<or> int (length (sb_buf b')) < sb_max_buffer b)"
proof (induction pos b rule: extract_next_sentence_regex.induct)
  case (1 pos b)
  show ?case
  proof (cases "sentence_end (drop pos (sb_buf b))")
    case None
    then show ?thesis
      using 1(2) visible_empty_iff [of "sb_buf b"] visible_strip(1) [of "sb_buf b"]
      by (auto simp: extract_next_sentence_regex.simps [of pos b] Let_def split: if_splits)
  next
    case (Some n)
    have "visible (sb_buf b) = visible (ustrip (take (pos + n) (sb_buf b))) @ visible (drop (pos + n) (sb_buf b))"
      by (metis append_take_drop_id visible_append visible_strip(1))
    then show ?thesis
      using 1 Some by (auto simp: extract_next_sentence_regex.simps [of pos b] Let_def split: if_splits)
  qed
qed

lemma emit_regex_spec:
  "let (parts, b') = emit_regex b in
     visible (concat parts) @ visible (sb_buf b') = visible (sb_buf b) \<and> sb_seg b' = sb_seg b \<and>
     sb_max_buffer b' = sb_max_buffer b \<and> (sb_buf b' = [] \<or> int (length (sb_buf b')) < sb_max_buffer b)"
proof (induction b rule: emit_regex.induct)
  case (1 b)
  obtain out b1 where nb: "extract_next_sentence_regex 0 b = (out, b1)" by fastforce
  note spec = extract_spec [OF nb]
  show ?case
  proof (cases out)
    case None
    then show ?thesis using spec nb by (subst emit_regex.simps) auto
  next
    case (Some s)
    obtain rest b2 where er: "emit_regex b1 = (rest, b2)" by fastforce
    have "emit_regex b = (s # rest, b2)"
      by (subst emit_regex.simps) (simp add: nb Some er)
    then show ?thesis
      using 1 [OF nb [symmetric] Some] spec Some er by auto
  qed
qed

section \<open>The contract of the callers: nothing visible is lost\<close>

text \<open>
  The relay of \<open>app/main.py\<close> pushes the LLM tokens with \<open>add\<close> and ends with \<open>flush\<close>. What it
  needs of a buffer: both operations move visible text from the pending buffer to the
  output, in order, and flushing leaves nothing.
\<close>

text \<open>The relay: every token pushed, then the flush.\<close>

fun push_all :: "('b \<Rightarrow> ustr \<Rightarrow> ustr list \<times> 'b) \<Rightarrow> 'b \<Rightarrow> ustr list \<Rightarrow> ustr list \<times> 'b" where
  "push_all push b [] = ([], b)"
| "push_all push b (t # ts) =
     (let (parts, b1) = push b t; (rest, b2) = push_all push b1 ts in (parts @ rest, b2))"

definition speak :: "('b \<Rightarrow> ustr \<Rightarrow> ustr list \<times> 'b) \<Rightarrow> ('b \<Rightarrow> ustr list \<times> 'b) \<Rightarrow> 'b \<Rightarrow> ustr list \<Rightarrow> ustr list" where
  "speak push finish b ts = (let (parts, b1) = push_all push b ts in parts @ fst (finish b1))"

locale chunker =
  fixes push :: "'b \<Rightarrow> ustr \<Rightarrow> ustr list \<times> 'b"
    and finish :: "'b \<Rightarrow> ustr list \<times> 'b"
    and pending :: "'b \<Rightarrow> ustr"
    and good :: "'b \<Rightarrow> bool"
  assumes push_visible: "good b \<Longrightarrow> push b t = (parts, b') \<Longrightarrow>
        visible (concat parts) @ visible (pending b') = visible (pending b @ t) \<and> good b'"
    and finish_visible: "good b \<Longrightarrow> finish b = (parts, b') \<Longrightarrow>
        visible (concat parts) = visible (pending b) \<and> pending b' = []"
begin

lemma push_all_visible:
  "good b \<Longrightarrow> push_all push b ts = (parts, b') \<Longrightarrow>
     visible (concat parts) @ visible (pending b') = visible (pending b) @ visible (concat ts) \<and> good b'"
proof (induction ts arbitrary: b parts)
  case (Cons t ts)
  obtain p1 b1 where p1: "push b t = (p1, b1)" by fastforce
  obtain p2 where p2: "push_all push b1 ts = (p2, b')" "parts = p1 @ p2"
    using Cons.prems(2) p1 by (auto split: prod.splits)
  have 1: "visible (concat p1) @ visible (pending b1) = visible (pending b) @ visible t" "good b1"
    using push_visible [OF Cons.prems(1) p1] by simp_all
  have "visible (concat p2) @ visible (pending b') = visible (pending b1) @ visible (concat ts)" "good b'"
    using Cons.IH [OF 1(2) p2(1)] by simp_all
  then show ?case using 1 p2(2) by simp
qed simp

lemma speak_visible:
  assumes "good b" "pending b = []"
  shows "visible (concat (speak push finish b ts)) = visible (concat ts)"
proof -
  obtain parts b1 where p: "push_all push b ts = (parts, b1)" by fastforce
  obtain last b2 where f: "finish b1 = (last, b2)" by fastforce
  have "good b1" using push_all_visible [OF assms(1) p] by simp
  then show ?thesis
    using push_all_visible [OF assms(1) p] finish_visible [OF _ f] assms(2) p f by (simp add: speak_def)
qed

end

lemma low_latency_push:
  assumes "thresholds_ok b" "low_latency_add b t = (parts, b')"
  shows "visible (concat parts) @ visible (ll_buf b') = visible (ll_buf b @ t) \<and> thresholds_ok b'"
proof (cases "t = []")
  case False
  then show ?thesis
    using emit_ready_spec [of "b\<lparr>ll_buf := ll_buf b @ t\<rparr>" False] assms
    by (auto simp: low_latency_add_def thresholds_ok_def)
qed (use assms in \<open>auto simp: low_latency_add_def\<close>)

lemma low_latency_finish:
  assumes "thresholds_ok b" "low_latency_flush b = (parts, b')"
  shows "visible (concat parts) = visible (ll_buf b) \<and> ll_buf b' = []"
  using emit_ready_spec [OF assms(1), of True] assms(2) by (auto simp: low_latency_flush_def)

lemma sentence_regex_push:
  assumes "sb_seg b = None" "sentence_add b t = (parts, b')"
  shows "visible (concat parts) @ visible (sb_buf b') = visible (sb_buf b @ t) \<and> sb_seg b' = None"
proof (cases "t = []")
  case False
  then show ?thesis
    using emit_regex_spec [of "b\<lparr>sb_buf := sb_buf b @ t\<rparr>"] assms by (auto simp: sentence_add_def)
qed (use assms in \<open>auto simp: sentence_add_def\<close>)

lemma sentence_finish:
  assumes "sentence_flush b = (parts, b')"
  shows "visible (concat parts) = visible (sb_buf b) \<and> sb_buf b' = []"
  using assms visible_empty_iff [of "sb_buf b"] by (auto simp: sentence_flush_def Let_def split: if_splits)

interpretation low: chunker low_latency_add low_latency_flush ll_buf thresholds_ok
  by unfold_locales (simp_all add: low_latency_push low_latency_finish)

interpretation sentences: chunker sentence_add sentence_flush sb_buf "\<lambda>b. sb_seg b = None"
  by unfold_locales (auto simp: sentence_regex_push dest: sentence_finish)

section \<open>Properties\<close>

lemma new_low_latency_ok:
  "new_low_latency environ language mn target mx = Some b \<Longrightarrow> thresholds_ok b \<and> ll_buf b = []"
proof -
  assume "new_low_latency environ language mn target mx = Some b"
  then obtain lang m t x where "b = clamp_thresholds lang m t x"
    unfolding new_low_latency_def Let_def by (auto split: option.split_asm)
  then show ?thesis by (simp add: clamp_thresholds_def thresholds_ok_def Let_def)
qed

text \<open>
  C37: whatever thresholds the environment and the caller set, and however the LLM splits its
  reply into tokens, the pieces the low-latency buffer hands to the TTS engine, flush
  included, contain exactly the visible characters of the reply in order; and between two
  pushes the text held back is shorter than the maximum chunk length.
\<close>

theorem low_latency_speaks_everything:
  assumes "new_low_latency environ language mn target mx = Some b"
  shows "visible (concat (speak low_latency_add low_latency_flush b ts)) = visible (concat ts)
     \<and> int (length (ustrip (ll_buf (snd (push_all low_latency_add b ts))))) < ll_max b"
proof -
  have held: "int (length (ustrip (ll_buf b'))) < ll_max b'"
    if "ll_buf b' = [] \<or> cut_position b' = None" "thresholds_ok b'" for b' :: low_latency
  proof (cases "ll_buf b' = []")
    case False
    then show ?thesis
      using that choose_length_cut_bounds [OF that(2) False, of "chunk_is_cjk b'"]
      by (auto simp: cut_position_def Let_def thresholds_ok_def split: if_split_asm)
  qed (use that in \<open>simp add: thresholds_ok_def strip_by_def\<close>)
  have "int (length (ustrip (ll_buf (snd (push_all low_latency_add b ts))))) < ll_max b"
    if "thresholds_ok b" "int (length (ustrip (ll_buf b))) < ll_max b" for b
    using that
  proof (induction ts arbitrary: b)
    case (Cons t ts)
    obtain parts b1 where a: "low_latency_add b t = (parts, b1)" by fastforce
    have b1: "thresholds_ok b1 \<and> ll_max b1 = ll_max b \<and> int (length (ustrip (ll_buf b1))) < ll_max b1"
    proof (cases "t = []")
      case True
      then show ?thesis using a Cons.prems by (auto simp: low_latency_add_def)
    next
      case False
      then show ?thesis
        using emit_ready_spec [of "b\<lparr>ll_buf := ll_buf b @ t\<rparr>" False] a Cons.prems(1) held [of b1]
        by (auto simp: low_latency_add_def thresholds_ok_def)
    qed
    then show ?case using Cons.IH [of b1] a by (auto split: prod.splits)
  qed simp
  moreover have "thresholds_ok b" "ll_buf b = []" using new_low_latency_ok [OF assms] by simp_all
  ultimately show ?thesis
    using low.speak_visible [of b ts] by (simp add: thresholds_ok_def strip_by_def)
qed

theorem low_latency_speaks_everything_witness:
  "\<exists>b. new_low_latency Map.empty (Some ''en'') (Some 5) (Some 8) (Some 12) = Some b \<and>
     visible (concat (speak low_latency_add low_latency_flush b [u ''Hello wo'', u ''rld. Bye''])) = visible (u ''Hello world. Bye'')"
proof -
  obtain b where b: "new_low_latency Map.empty (Some ''en'') (Some 5) (Some 8) (Some 12) = Some b"
    by (simp add: new_low_latency_def cjk_languages_def env_int_def py_int_def strip_by_def strip_while_def sspace_def
        py_isspace_def digit_val_def py_lower_def lower_char_def)
  then show ?thesis
    using low_latency_speaks_everything [OF b, of "[u ''Hello wo'', u ''rld. Bye'']"] by (simp add: u_def)
qed

text \<open>
  Without pysbd the sentence buffer loses nothing either: fragments too short to be a
  sentence are merged into the next one, and the sentences yielded over a whole reply plus
  the flush are the visible text of the reply in order. After a push the buffer is empty or
  shorter than \<open>max_buffer\<close>, so a reply without punctuation cannot grow it without bound.
\<close>

theorem sentence_regex_speaks_everything:
  "let b = new_sentence_buffer None language mn mx in
     visible (concat (speak sentence_add sentence_flush b ts)) = visible (concat ts)
     \<and> (let rest = sb_buf (snd (push_all sentence_add b ts)) in rest = [] \<or> int (length rest) < mx)"
proof -
  obtain b where b: "b = new_sentence_buffer None language mn mx" by blast
  have held: "sb_buf (snd (push_all sentence_add b ts)) = [] \<or> int (length (sb_buf (snd (push_all sentence_add b ts)))) < sb_max_buffer b"
    if "sb_seg b = None" "sb_buf b = [] \<or> int (length (sb_buf b)) < sb_max_buffer b" for b
    using that
  proof (induction ts arbitrary: b)
    case (Cons t ts)
    obtain parts b1 where a: "sentence_add b t = (parts, b1)" by fastforce
    have b1: "sb_seg b1 = None \<and> sb_max_buffer b1 = sb_max_buffer b \<and>
        (sb_buf b1 = [] \<or> int (length (sb_buf b1)) < sb_max_buffer b)"
    proof (cases "t = []")
      case False
      then show ?thesis
        using emit_regex_spec [of "b\<lparr>sb_buf := sb_buf b @ t\<rparr>"] a Cons.prems(1) by (auto simp: sentence_add_def)
    qed (use a Cons.prems in \<open>auto simp: sentence_add_def\<close>)
    then show ?case using Cons.IH [of b1] a by (auto split: prod.splits)
  qed simp
  have "sb_seg b = None" "sb_buf b = []" "sb_max_buffer b = mx" by (simp_all add: b new_sentence_buffer_def)
  then show ?thesis
    using sentences.speak_visible [of b ts] held [of b] by (simp add: Let_def flip: b)
qed
end
