(* ===== verification/Worker_IO.thy ===== *)
theory Worker_IO
  imports Prelude "HOL-Library.AList"
begin

text \<open>
  The subprocess multiplexer \<open>app/core/worker_io.py\<close>: N requests share one stdin, one stdout
  and a semaphore. Caller threads, the reader thread and \<open>close\<close> interleave at their locks,
  so each event of the model is one critical section: taking the semaphore, registering the
  queue, writing stdin, receiving from the queue, leaving (the \<open>finally\<close> block), writing a
  cancel, the two halves of \<open>close\<close>, and what the reader does per stdout line and at EOF.
  An event of the worker is the request id it names and its kind; a write may raise (its
  boolean is False), as a pipe to a dead process does.
\<close>

section \<open>State\<close>

type_synonym wio_queue = "(string \<times> string) list"

datatype phase = Holding | Registered nat | Streaming nat | Yielded nat string

record call =
  k_async :: bool
  k_rid :: string
  k_payload_id :: "string option"
  k_phase :: phase

datatype wio_line = RequestLine string | CancelLine string

datatype outcome = Completed | ValueErr | KeyErr | ExitErr | TimeoutErr | QueueEmpty | WriteErr | Abandoned

record wio =
  w_capacity :: nat
  w_sem :: nat
  w_orphans :: nat
  w_lost :: nat
  w_inflight :: "(string \<times> nat) list"
  w_queues :: "nat \<Rightarrow> wio_queue"
  w_next_queue :: nat
  w_closed :: bool
  w_calls :: "call list"
  w_stdin :: "wio_line list"
  w_pending_cancels :: "string list"
  w_cancel_count :: nat
  w_ended :: "(string \<times> outcome) list"
  w_yielded :: "(string \<times> string \<times> string) list"

text \<open>\<open>threading.Semaphore(max(1, int(concurrency)))\<close>.\<close>

definition new_wio :: "int \<Rightarrow> wio" where
  "new_wio concurrency =
     (let n = nat (max 1 concurrency) in
      \<lparr>w_capacity = n, w_sem = n, w_orphans = 0, w_lost = 0, w_inflight = [], w_queues = (\<lambda>_. []),
       w_next_queue = 0, w_closed = False, w_calls = [], w_stdin = [], w_pending_cancels = [],
       w_cancel_count = 0, w_ended = [], w_yielded = []\<rparr>)"

definition worker_exit :: "string \<times> string" where
  "worker_exit = ([], ''_worker_exit'')"

definition terminal :: "string \<Rightarrow> bool" where
  "terminal kind = (kind \<in> {''done'', ''cancelled''})"

section \<open>The parts of a request\<close>

text \<open>Leaving a call that had registered: pop the id, give the slot back, and on the async
  path a cancel for the worker unless the request ended naturally.\<close>

definition leave :: "nat \<Rightarrow> bool \<Rightarrow> outcome \<Rightarrow> wio \<Rightarrow> wio" where
  "leave i finished_naturally out s =
     (let c = w_calls s ! i in
      s\<lparr>w_inflight := AList.delete (k_rid c) (w_inflight s), w_sem := w_sem s + 1,
        w_calls := drop_nth i (w_calls s), w_ended := (k_rid c, out) # w_ended s,
        w_pending_cancels :=
          (if k_async c \<and> \<not> finished_naturally then w_pending_cancels s @ [k_rid c] else w_pending_cancels s)\<rparr>)"

text \<open>Leaving before anything was registered: only the slot is given back.\<close>

definition leave_unregistered :: "nat \<Rightarrow> outcome \<Rightarrow> wio \<Rightarrow> wio" where
  "leave_unregistered i out s =
     s\<lparr>w_sem := w_sem s + 1, w_calls := drop_nth i (w_calls s), w_ended := (k_rid (w_calls s ! i), out) # w_ended s\<rparr>"

definition set_phase :: "nat \<Rightarrow> phase \<Rightarrow> wio \<Rightarrow> wio" where
  "set_phase i ph s = s\<lparr>w_calls := (w_calls s)[i := (w_calls s ! i)\<lparr>k_phase := ph\<rparr>]\<rparr>"

text \<open>Up to the semaphore: the async call checks its payload's id before it waits.\<close>

definition send_request_enter :: "string \<Rightarrow> string option \<Rightarrow> wio \<Rightarrow> wio" where
  "send_request_enter rid payload_id s =
     (if (case payload_id of None \<Rightarrow> rid | Some p \<Rightarrow> p) \<noteq> rid then s\<lparr>w_ended := (rid, ValueErr) # w_ended s\<rparr>
      else if w_sem s = 0 then s
      else s\<lparr>w_sem := w_sem s - 1,
             w_calls := w_calls s @ [\<lparr>k_async = True, k_rid = rid, k_payload_id = Some rid, k_phase = Holding\<rparr>]\<rparr>)"

definition request_enter :: "string \<Rightarrow> bool \<Rightarrow> wio \<Rightarrow> wio" where
  "request_enter rid has_id s =
     (if w_sem s = 0 then s
      else s\<lparr>w_sem := w_sem s - 1,
             w_calls := w_calls s @ [\<lparr>k_async = False, k_rid = rid,
               k_payload_id = (if has_id then Some rid else None), k_phase = Holding\<rparr>]\<rparr>)"

text \<open>The closed check and the registration of the queue.\<close>

definition register :: "nat \<Rightarrow> wio \<Rightarrow> wio" where
  "register i s =
     (if w_closed s then leave_unregistered i ExitErr s
      else (case k_payload_id (w_calls s ! i) of
              None \<Rightarrow> leave_unregistered i KeyErr s
            | Some rid \<Rightarrow>
                set_phase i (Registered (w_next_queue s))
                  (s\<lparr>w_queues := (w_queues s)(w_next_queue s := []), w_next_queue := w_next_queue s + 1,
                     w_inflight := AList.update rid (w_next_queue s) (w_inflight s)\<rparr>)))"

text \<open>Under \<open>_stdin_lock\<close>: the flag again, then the line.\<close>

definition write_request :: "nat \<Rightarrow> nat \<Rightarrow> bool \<Rightarrow> wio \<Rightarrow> wio" where
  "write_request i q write_ok s =
     (if w_closed s then leave i False ExitErr s
      else if \<not> write_ok then leave i False WriteErr s
      else set_phase i (Streaming q) (s\<lparr>w_stdin := w_stdin s @ [RequestLine (k_rid (w_calls s ! i))]\<rparr>))"

text \<open>\<open>q.get(timeout=60)\<close>: the next event, or the timeout when there is none.\<close>

definition receive :: "nat \<Rightarrow> nat \<Rightarrow> wio \<Rightarrow> wio" where
  "receive i q s =
     (case w_queues s q of
        [] \<Rightarrow> leave i False (if k_async (w_calls s ! i) then TimeoutErr else QueueEmpty) s
      | (rid, kind) # rest \<Rightarrow>
          (let s1 = s\<lparr>w_queues := (w_queues s)(q := rest)\<rparr> in
           if kind = ''_worker_exit'' then leave i False ExitErr s1
           else set_phase i (Yielded q kind) (s1\<lparr>w_yielded := (k_rid (w_calls s ! i), rid, kind) # w_yielded s\<rparr>)))"

text \<open>The consumer asks for the next event, or drops the generator.\<close>

definition resume :: "nat \<Rightarrow> nat \<Rightarrow> string \<Rightarrow> wio \<Rightarrow> wio" where
  "resume i q kind s = (if terminal kind then leave i True Completed s else set_phase i (Streaming q) s)"

definition abandon :: "nat \<Rightarrow> wio \<Rightarrow> wio" where
  "abandon i s = leave i False Abandoned s"

section \<open>Cancel, close and the reader\<close>

definition cancel_write :: "string \<Rightarrow> bool \<Rightarrow> wio \<Rightarrow> wio" where
  "cancel_write rid write_ok s =
     (let s1 = s\<lparr>w_cancel_count := w_cancel_count s + 1\<rparr> in
      if w_closed s \<or> \<not> write_ok then s1 else s1\<lparr>w_stdin := w_stdin s @ [CancelLine rid]\<rparr>)"

definition wake_all :: "wio \<Rightarrow> wio" where
  "wake_all s =
     s\<lparr>w_queues := (\<lambda>q. if q \<in> set (map snd (w_inflight s)) then w_queues s q @ [worker_exit] else w_queues s q),
       w_inflight := []\<rparr>"

definition reader_line :: "string option \<Rightarrow> string option \<Rightarrow> string \<Rightarrow> wio \<Rightarrow> wio" where
  "reader_line request_id id_field kind s =
     (let rid = (case request_id of Some r \<Rightarrow> if r \<noteq> [] then Some r else id_field | None \<Rightarrow> id_field) in
      case rid of
        None \<Rightarrow> s
      | Some r \<Rightarrow> if r = [] then s
         else (case map_of (w_inflight s) r of
                 None \<Rightarrow> s
               | Some q \<Rightarrow> s\<lparr>w_queues := (w_queues s)(q := w_queues s q @ [(r, kind)])\<rparr>))"

section \<open>Interleavings\<close>

datatype wio_event =
    SendEnter string "string option"
  | RequestEnter string bool
  | LateAcquire
  | OrphanAcquire
  | OrphanRelease
  | Register nat
  | Write nat bool
  | Receive nat
  | Resume nat
  | Abandon nat
  | PendingCancel bool
  | CancelCall string bool
  | CloseFlag
  | CloseWake
  | ReaderLine "string option" "string option" string
  | ReaderExit

text \<open>
  The asynchronous call waits for the semaphore in an executor thread. What a cancelled task
  leaves behind depends on the wrapper future it was waiting on. When the thread's result is
  already in the future, the future can no longer be cancelled: the permit is held
  (\<open>OrphanAcquire\<close>) until the done-callback reads the result and releases it
  (\<open>OrphanRelease\<close>). When it is not, cancelling the task cancels the future; the thread
  cannot be interrupted and still takes a permit, but the done-callback reads a cancelled
  future, swallows the \<open>CancelledError\<close> and releases nothing (\<open>LateAcquire\<close>).
\<close>

fun wio_step :: "wio_event \<Rightarrow> wio \<Rightarrow> wio" where
  "wio_step (SendEnter rid p) s = send_request_enter rid p s"
| "wio_step (RequestEnter rid b) s = request_enter rid b s"
| "wio_step LateAcquire s = (if w_sem s = 0 then s else s\<lparr>w_sem := w_sem s - 1, w_lost := w_lost s + 1\<rparr>)"
| "wio_step OrphanAcquire s = (if w_sem s = 0 then s else s\<lparr>w_sem := w_sem s - 1, w_orphans := w_orphans s + 1\<rparr>)"
| "wio_step OrphanRelease s = (if w_orphans s = 0 then s else s\<lparr>w_sem := w_sem s + 1, w_orphans := w_orphans s - 1\<rparr>)"
| "wio_step (Register i) s =
     (if i < length (w_calls s) \<and> k_phase (w_calls s ! i) = Holding then register i s else s)"
| "wio_step (Write i ok) s =
     (if i < length (w_calls s)
      then (case k_phase (w_calls s ! i) of Registered q \<Rightarrow> write_request i q ok s | _ \<Rightarrow> s) else s)"
| "wio_step (Receive i) s =
     (if i < length (w_calls s)
      then (case k_phase (w_calls s ! i) of Streaming q \<Rightarrow> receive i q s | _ \<Rightarrow> s) else s)"
| "wio_step (Resume i) s =
     (if i < length (w_calls s)
      then (case k_phase (w_calls s ! i) of Yielded q kind \<Rightarrow> resume i q kind s | _ \<Rightarrow> s) else s)"
| "wio_step (Abandon i) s =
     (if i < length (w_calls s)
      then (case k_phase (w_calls s ! i) of Yielded q kind \<Rightarrow> abandon i s
            | Streaming q \<Rightarrow> if k_async (w_calls s ! i) then abandon i s else s | _ \<Rightarrow> s) else s)"
| "wio_step (PendingCancel ok) s =
     (case w_pending_cancels s of [] \<Rightarrow> s | rid # rest \<Rightarrow> cancel_write rid ok (s\<lparr>w_pending_cancels := rest\<rparr>))"
| "wio_step (CancelCall rid ok) s = cancel_write rid ok s"
| "wio_step CloseFlag s = s\<lparr>w_closed := True\<rparr>"
| "wio_step CloseWake s = (if w_closed s then wake_all s else s)"
| "wio_step (ReaderLine a b kind) s = reader_line a b kind s"
| "wio_step ReaderExit s = wake_all s"

section \<open>Slots\<close>

definition slots_ok :: "wio \<Rightarrow> bool" where
  "slots_ok s = (w_sem s + length (w_calls s) + w_orphans s + w_lost s = w_capacity s)"

named_theorems wio_defs

declare leave_def [wio_defs] leave_unregistered_def [wio_defs] set_phase_def [wio_defs]
  send_request_enter_def [wio_defs] request_enter_def [wio_defs] register_def [wio_defs]
  write_request_def [wio_defs] receive_def [wio_defs] resume_def [wio_defs] abandon_def [wio_defs]
  cancel_write_def [wio_defs] wake_all_def [wio_defs] reader_line_def [wio_defs]

lemma slots_ok_new: "slots_ok (new_wio n)"
  by (simp add: slots_ok_def new_wio_def Let_def)

lemma leave_slots:
  assumes "slots_ok s" "i < length (w_calls s)"
  shows "slots_ok (leave i nat_end out s)" "slots_ok (leave_unregistered i out s)"
  using assms length_drop_nth [OF assms(2)] by (simp_all add: slots_ok_def wio_defs Let_def)

lemma slots_ok_step:
  assumes "slots_ok s"
  shows "slots_ok (wio_step ev s)"
proof -
  have keep: "slots_ok s'"
    if "w_sem s' = w_sem s" "length (w_calls s') = length (w_calls s)" "w_orphans s' = w_orphans s"
      "w_lost s' = w_lost s" "w_capacity s' = w_capacity s" for s'
    using assms that by (simp add: slots_ok_def)
  show ?thesis
  proof (cases ev)
    case (Register i)
    then show ?thesis
      using assms leave_slots [OF assms, of i]
      by (auto simp: register_def set_phase_def Let_def intro!: keep split: option.splits)
  next
    case (Write i ok)
    then show ?thesis
      using assms leave_slots [OF assms, of i]
      by (auto simp: write_request_def set_phase_def Let_def intro!: keep split: phase.splits)
  next
    case (Receive i)
    show ?thesis
    proof (cases "i < length (w_calls s)")
      case True
      have "slots_ok (receive i q s)" for q
      proof (cases "w_queues s q")
        case Nil
        then show ?thesis using leave_slots(1) [OF assms True] by (simp add: receive_def)
      next
        case (Cons e rest)
        have "slots_ok (s\<lparr>w_queues := (w_queues s)(q := rest)\<rparr>)" by (rule keep) simp_all
        then have "slots_ok (leave i False ExitErr (s\<lparr>w_queues := (w_queues s)(q := rest)\<rparr>))"
          using True by (intro leave_slots(1)) simp_all
        then show ?thesis using Cons
          by (cases e) (auto simp: receive_def set_phase_def Let_def intro!: keep)
      qed
      then show ?thesis using Receive assms by (auto split: phase.split)
    qed (use Receive assms in simp)
  next
    case (Resume i)
    then show ?thesis
      using assms leave_slots [OF assms, of i]
      by (auto simp: resume_def set_phase_def Let_def intro!: keep split: phase.splits)
  next
    case (Abandon i)
    then show ?thesis
      using assms leave_slots [OF assms, of i] by (auto simp: abandon_def split: phase.splits)
  next
    case (PendingCancel ok)
    then show ?thesis using assms by (auto simp: cancel_write_def Let_def intro!: keep split: list.splits)
  next
    case (ReaderLine a b kind)
    then show ?thesis
      using assms by (auto simp: reader_line_def Let_def intro!: keep split: option.splits)
  qed (use assms in \<open>auto simp: wio_defs slots_ok_def Let_def\<close>)
qed

interpretation wio_slots: step_system wio_step slots_ok
  by unfold_locales (rule slots_ok_step)

lemma wio_step_capacity [simp]: "w_capacity (wio_step ev s) = w_capacity s"
  by (cases ev) (auto simp: wio_defs Let_def split: option.splits phase.splits list.splits prod.splits)

lemma wio_run_capacity [simp]: "w_capacity (fold wio_step es s) = w_capacity s"
  by (induction es arbitrary: s) simp_all

text \<open>Only a wait cancelled too early loses a permit, and only one; nothing gives it back.\<close>

lemma wio_step_lost:
  "w_lost (wio_step ev s) = (if ev = LateAcquire \<and> w_sem s \<noteq> 0 then w_lost s + 1 else w_lost s)"
  by (cases ev) (auto simp: wio_defs Let_def split: option.splits phase.splits list.splits prod.splits)

lemma wio_run_lost:
  "w_lost s \<le> w_lost (fold wio_step es s) \<and>
   w_lost (fold wio_step es s) \<le> w_lost s + count_list es LateAcquire"
proof (induction es arbitrary: s)
  case (Cons ev es)
  show ?case using Cons.IH [of "wio_step ev s"] wio_step_lost [of ev s] by (auto simp del: wio_step.simps split: if_splits)
qed simp

section \<open>After close\<close>

lemma closed_step:
  assumes "w_closed s"
  shows "w_closed (wio_step ev s) \<and> w_stdin (wio_step ev s) = w_stdin s"
  using assms
  by (cases ev) (auto simp: wio_defs Let_def split: option.splits phase.splits list.splits prod.splits)

lemma closed_run:
  assumes "w_closed s"
  shows "w_closed (fold wio_step es s) \<and> w_stdin (fold wio_step es s) = w_stdin s"
  using assms by (induction es arbitrary: s) (auto simp: closed_step simp del: wio_step.simps)

section \<open>Routing\<close>

text \<open>
  The routing invariant is about the shape of the calls: their id, the id their payload
  carries and their queue. Every registered call is either in the in-flight table under its
  own queue or already has the exit sentinel; queues are not shared; an in-flight queue
  belongs to the request of that id, so it only holds events of that request.
\<close>

type_synonym shape = "string \<times> string option \<times> nat option"

fun phase_queue :: "phase \<Rightarrow> nat option" where
  "phase_queue Holding = None"
| "phase_queue (Registered q) = Some q"
| "phase_queue (Streaming q) = Some q"
| "phase_queue (Yielded q kind) = Some q"

definition shape_of :: "call \<Rightarrow> shape" where
  "shape_of c = (k_rid c, k_payload_id c, phase_queue (k_phase c))"

definition entry_ok :: "(string \<rightharpoonup> nat) \<Rightarrow> (nat \<Rightarrow> wio_queue) \<Rightarrow> nat \<Rightarrow> shape \<Rightarrow> bool" where
  "entry_ok M Q n x = (case x of (r, p, qo) \<Rightarrow>
     (p = None \<or> p = Some r) \<and>
     (case qo of None \<Rightarrow> True
      | Some q \<Rightarrow> q < n \<and> (M r = Some q \<or> worker_exit \<in> set (Q q)) \<and> (\<forall>e \<in> set (Q q). fst e = r \<or> e = worker_exit)))"

definition unshared :: "shape set \<Rightarrow> bool" where
  "unshared S = (\<forall>r p r' p' q. (r, p, Some q) \<in> S \<longrightarrow> (r', p', Some q) \<in> S \<longrightarrow> r = r')"

definition table_ok :: "shape set \<Rightarrow> (string \<rightharpoonup> nat) \<Rightarrow> nat \<Rightarrow> bool" where
  "table_ok S M n = (\<forall>r q. M r = Some q \<longrightarrow> q < n \<and> (\<forall>r' p'. (r', p', Some q) \<in> S \<longrightarrow> r' = r))"

definition routed_on ::
  "shape list \<Rightarrow> (string \<rightharpoonup> nat) \<Rightarrow> (nat \<Rightarrow> wio_queue) \<Rightarrow> nat \<Rightarrow> (string \<times> string \<times> string) list \<Rightarrow> bool" where
  "routed_on L M Q n Y =
     (distinct (map fst L) \<and> (\<forall>x \<in> set L. entry_ok M Q n x) \<and> unshared (set L) \<and> table_ok (set L) M n \<and>
      (\<forall>(c, r, k) \<in> set Y. c = r))"

definition routed :: "wio \<Rightarrow> bool" where
  "routed s = routed_on (map shape_of (w_calls s)) (map_of (w_inflight s)) (w_queues s) (w_next_queue s) (w_yielded s)"

lemma routed_new: "routed (new_wio n)"
  by (simp add: routed_def routed_on_def new_wio_def Let_def unshared_def table_ok_def)

lemma entry_okD:
  "entry_ok M Q n (r, p, Some q) \<Longrightarrow> q < n"
  "entry_ok M Q n (r, p, Some q) \<Longrightarrow> e \<in> set (Q q) \<Longrightarrow> fst e = r \<or> e = worker_exit"
  by (auto simp: entry_ok_def)

lemma entry_ok_change:
  assumes "entry_ok M Q n (r, p, qo)" "n \<le> n'"
    and "\<And>q. qo = Some q \<Longrightarrow> q < n \<Longrightarrow> M r = Some q \<or> worker_exit \<in> set (Q q) \<Longrightarrow>
           (M' r = Some q \<or> worker_exit \<in> set (Q' q)) \<and> (\<forall>e \<in> set (Q' q). e \<in> set (Q q) \<or> fst e = r \<or> e = worker_exit)"
  shows "entry_ok M' Q' n' (r, p, qo)"
proof (cases qo)
  case (Some q)
  then have "q < n" "p = None \<or> p = Some r" "M r = Some q \<or> worker_exit \<in> set (Q q)"
    "\<forall>e \<in> set (Q q). fst e = r \<or> e = worker_exit"
    using assms(1) by (simp_all add: entry_ok_def)
  moreover note assms(3) [OF Some this(1,3)]
  ultimately show ?thesis using Some assms(2) unfolding entry_ok_def by auto
qed (use assms(1) in \<open>simp add: entry_ok_def\<close>)

lemma unshared_mono: "unshared S \<Longrightarrow> S' \<subseteq> S \<Longrightarrow> unshared S'"
  unfolding unshared_def by blast

lemma table_ok_mono: "table_ok S M n \<Longrightarrow> S' \<subseteq> S \<Longrightarrow> M' \<subseteq>\<^sub>m M \<Longrightarrow> table_ok S' M' n"
  unfolding table_ok_def map_le_def by (metis domI subsetD)

lemma routed_on_drop:
  assumes "routed_on (A @ (r, p, qo) # B) M Q n Y"
  shows "routed_on (A @ B) (M(r := None)) Q n Y"
proof -
  have "\<forall>x \<in> set (A @ B). fst x \<noteq> r" "\<forall>x \<in> set (A @ B). entry_ok M Q n x"
    using assms by (auto simp: routed_on_def)
  then have x: "r' \<noteq> r" "entry_ok M Q n (r', p', qo)" if "(r', p', qo) \<in> set (A @ B)" for r' p' qo
    using that by (metis fst_conv)+
  have "entry_ok (M(r := None)) Q n (r', p', qo)" if "(r', p', qo) \<in> set (A @ B)" for r' p' qo
    by (rule entry_ok_change [OF x(2) [OF that]]) (use x(1) [OF that] in simp_all)
  then have "\<forall>x \<in> set (A @ B). entry_ok (M(r := None)) Q n x" by auto
  moreover have "unshared (set (A @ B))" "table_ok (set (A @ B)) (M(r := None)) n"
    using assms unfolding routed_on_def
    by (auto elim!: unshared_mono table_ok_mono simp: map_le_def)
  ultimately show ?thesis using assms by (simp add: routed_on_def)
qed

lemma routed_on_add:
  assumes "routed_on L M Q n Y" "r \<notin> fst ` set L" "p = None \<or> p = Some r"
  shows "routed_on (L @ [(r, p, None)]) M Q n Y"
proof -
  have "unshared (set (L @ [(r, p, None)]))" "table_ok (set (L @ [(r, p, None)])) M n"
    using assms(1) by (simp_all add: routed_on_def unshared_def table_ok_def)
  then show ?thesis using assms by (auto simp: routed_on_def entry_ok_def)
qed

lemma routed_on_register:
  assumes "routed_on (A @ (r, p, None) # B) M Q n Y"
  shows "routed_on (A @ (r, p, Some n) # B) (M(r \<mapsto> n)) (Q(n := [])) (Suc n) Y"
proof -
  have other: "\<forall>x \<in> set A \<union> set B. fst x \<noteq> r \<and> entry_ok M Q n x" and p: "p = None \<or> p = Some r"
    using assms by (auto simp: routed_on_def entry_ok_def)
  have low: "q < n" if "(r', p', Some q) \<in> set A \<union> set B" for r' p' q
    using other that entry_okD(1) by blast
  have "entry_ok (M(r \<mapsto> n)) (Q(n := [])) (Suc n) (r', p', qo)" if "(r', p', qo) \<in> set A \<union> set B" for r' p' qo
    by (rule entry_ok_change [where M = M and Q = Q and n = n]) (use other that in force)+
  then have "\<forall>x \<in> set A \<union> set B. entry_ok (M(r \<mapsto> n)) (Q(n := [])) (Suc n) x" by auto
  then have 1: "\<forall>x \<in> set (A @ (r, p, Some n) # B). entry_ok (M(r \<mapsto> n)) (Q(n := [])) (Suc n) x"
    using p by (auto simp: entry_ok_def)
  have "unshared (set A \<union> set B)"
    using assms by (auto simp: routed_on_def elim: unshared_mono)
  then have 2: "unshared (set (A @ (r, p, Some n) # B))"
    using low unfolding unshared_def by (auto; blast)
  have t: "table_ok (set (A @ (r, p, None) # B)) M n" using assms by (simp add: routed_on_def)
  have 3: "table_ok (set (A @ (r, p, Some n) # B)) (M(r \<mapsto> n)) (Suc n)"
    unfolding table_ok_def
  proof (intro allI impI, goal_cases)
    case (1 r' q)
    show ?case
    proof (cases "r' = r")
      case True
      then have "q = n" using 1 by simp
      then show ?thesis using low True by auto
    next
      case False
      then have "M r' = Some q" using 1 by simp
      then have "q < n" "\<forall>r'' p'. (r'', p', Some q) \<in> set A \<union> set B \<longrightarrow> r'' = r'"
        using t unfolding table_ok_def by auto
      then show ?thesis by auto
    qed
  qed
  show ?thesis using 1 2 3 assms by (simp add: routed_on_def)
qed

lemma routed_on_queues:
  assumes "routed_on L M Q n Y" "\<And>x. x \<in> set L \<Longrightarrow> entry_ok M' Q' n x" "M' \<subseteq>\<^sub>m M" "\<forall>(c, r, k) \<in> set Y'. c = r"
  shows "routed_on L M' Q' n Y'"
  using assms table_ok_mono [of "set L" M n "set L" M'] unfolding routed_on_def by blast

lemma routed_on_deliver:
  assumes "routed_on L M Q n Y" "M r = Some q"
  shows "routed_on L M (Q(q := Q q @ [(r, k)])) n Y"
proof (rule routed_on_queues [OF assms(1)])
  fix x assume x: "x \<in> set L"
  obtain r' p' qo where s: "x = (r', p', qo)" by (cases x)
  have "qo = Some q \<Longrightarrow> r' = r" using assms x unfolding s routed_on_def table_ok_def by blast
  moreover have "entry_ok M Q n x" using assms x by (simp add: routed_on_def)
  ultimately show "entry_ok M (Q(q := Q q @ [(r, k)])) n x"
    unfolding s by (elim entry_ok_change) auto
qed (use assms in \<open>auto simp: routed_on_def\<close>)

lemma routed_on_wake:
  assumes "routed_on L M Q n Y" "\<And>r q. M r = Some q \<Longrightarrow> q \<in> W"
  shows "routed_on L Map.empty (\<lambda>q. if q \<in> W then Q q @ [worker_exit] else Q q) n Y"
proof (rule routed_on_queues [OF assms(1)])
  fix x assume x: "x \<in> set L"
  obtain r' p' qo where s: "x = (r', p', qo)" by (cases x)
  have "entry_ok M Q n x" using assms x by (simp add: routed_on_def)
  then show "entry_ok Map.empty (\<lambda>q. if q \<in> W then Q q @ [worker_exit] else Q q) n x"
    using assms(2) unfolding s by (elim entry_ok_change) auto
qed (use assms in \<open>auto simp: routed_on_def\<close>)

lemma routed_on_pop:
  assumes "routed_on L M Q n Y" "(r, p, Some q) \<in> set L" "Q q = e # rest" "snd e \<noteq> ''_worker_exit''"
  shows "routed_on L M (Q(q := rest)) n ((r, fst e, snd e) # Y)"
proof (rule routed_on_queues [OF assms(1)])
  have ok: "entry_ok M Q n x" if "x \<in> set L" for x using assms that by (simp add: routed_on_def)
  have e: "e \<noteq> worker_exit" using assms(4) by (auto simp: worker_exit_def)
  show "entry_ok M (Q(q := rest)) n x" if "x \<in> set L" for x
    using ok [OF that] assms(3) e by (cases x) (auto elim!: entry_ok_change split: if_splits)
  show "\<forall>(c, r', k) \<in> set ((r, fst e, snd e) # Y). c = r'"
    using entry_okD(2) [OF ok [OF assms(2)], of e] assms e by (auto simp: routed_on_def)
qed simp

section \<open>Every step keeps the routing\<close>

lemma map_shape_drop:
  assumes "i < length (w_calls s)"
  obtains A B where "map shape_of (w_calls s) = A @ shape_of (w_calls s ! i) # B"
    "map shape_of (drop_nth i (w_calls s)) = A @ B"
proof (rule drop_nth_split [OF assms])
  fix ys zs
  assume 1: "w_calls s = ys @ w_calls s ! i # zs" and 2: "drop_nth i (w_calls s) = ys @ zs"
  show thesis
  proof (rule that)
    show "map shape_of (w_calls s) = map shape_of ys @ shape_of (w_calls s ! i) # map shape_of zs"
      by (subst 1) simp
    show "map shape_of (drop_nth i (w_calls s)) = map shape_of ys @ map shape_of zs"
      by (simp add: 2)
  qed
qed

lemma map_shape_update:
  assumes "i < length (w_calls s)"
  obtains A B where "map shape_of (w_calls s) = A @ shape_of (w_calls s ! i) # B"
    "map shape_of ((w_calls s)[i := c]) = A @ shape_of c # B"
proof (rule list_update_split [OF assms, of c])
  fix ys zs
  assume 1: "w_calls s = ys @ w_calls s ! i # zs" and 2: "(w_calls s)[i := c] = ys @ c # zs"
  show thesis
  proof (rule that)
    show "map shape_of (w_calls s) = map shape_of ys @ shape_of (w_calls s ! i) # map shape_of zs"
      by (subst 1) simp
    show "map shape_of ((w_calls s)[i := c]) = map shape_of ys @ shape_of c # map shape_of zs"
      by (simp add: 2)
  qed
qed

lemma leave_routed:
  assumes "routed s" "i < length (w_calls s)"
  shows "routed (leave i b out s)"
proof -
  obtain A B where AB: "map shape_of (w_calls s) = A @ shape_of (w_calls s ! i) # B"
    "map shape_of (drop_nth i (w_calls s)) = A @ B"
    using map_shape_drop [OF assms(2)] .
  obtain r p qo where sh: "shape_of (w_calls s ! i) = (r, p, qo)" by (cases "shape_of (w_calls s ! i)")
  then have "r = k_rid (w_calls s ! i)" by (simp add: shape_of_def)
  then show ?thesis
    using assms(1) routed_on_drop [of A r p qo B] unfolding routed_def AB(1) sh
    by (simp add: leave_def Let_def AB(2) delete_conv')
qed

lemma leave_unregistered_routed:
  assumes "routed s" "i < length (w_calls s)" "k_phase (w_calls s ! i) = Holding"
  shows "routed (leave_unregistered i out s)"
proof -
  obtain A B where AB: "map shape_of (w_calls s) = A @ shape_of (w_calls s ! i) # B"
    "map shape_of (drop_nth i (w_calls s)) = A @ B"
    using map_shape_drop [OF assms(2)] .
  obtain r p where sh: "shape_of (w_calls s ! i) = (r, p, None)"
    using assms(3) by (simp add: shape_of_def)
  have "routed_on (A @ B) (map_of (w_inflight s)) (w_queues s) (w_next_queue s) (w_yielded s)"
    using assms(1) unfolding routed_def AB(1) sh routed_on_def
    by (auto elim!: unshared_mono table_ok_mono)
  then show ?thesis by (simp add: routed_def leave_unregistered_def AB(2))
qed

lemma set_phase_routed:
  assumes "routed s" "i < length (w_calls s)" "phase_queue ph = phase_queue (k_phase (w_calls s ! i))"
  shows "routed (set_phase i ph s)"
proof -
  have "shape_of ((w_calls s ! i)\<lparr>k_phase := ph\<rparr>) = shape_of (w_calls s ! i)"
    using assms(3) by (simp add: shape_of_def)
  then have "map shape_of ((w_calls s)[i := (w_calls s ! i)\<lparr>k_phase := ph\<rparr>]) = map shape_of (w_calls s)"
    using map_shape_update [OF assms(2), of "(w_calls s ! i)\<lparr>k_phase := ph\<rparr>"] by metis
  then show ?thesis using assms(1) by (simp add: routed_def set_phase_def)
qed

lemma register_routed:
  assumes "routed s" "i < length (w_calls s)" "k_phase (w_calls s ! i) = Holding"
  shows "routed (register i s)"
proof (cases "\<not> w_closed s \<and> k_payload_id (w_calls s ! i) \<noteq> None")
  case True
  let ?c = "w_calls s ! i"
  let ?c' = "?c\<lparr>k_phase := Registered (w_next_queue s)\<rparr>"
  obtain A B where AB: "map shape_of (w_calls s) = A @ shape_of ?c # B"
    "map shape_of ((w_calls s)[i := ?c']) = A @ shape_of ?c' # B"
    using map_shape_update [OF assms(2)] .
  obtain p where p: "k_payload_id ?c = Some p" using True by blast
  have sh: "shape_of ?c = (k_rid ?c, Some p, None)" "shape_of ?c' = (k_rid ?c, Some p, Some (w_next_queue s))"
    using assms(3) p by (simp_all add: shape_of_def)
  have "entry_ok (map_of (w_inflight s)) (w_queues s) (w_next_queue s) (shape_of ?c)"
    using assms(1) unfolding routed_def routed_on_def AB(1) by simp
  then have rid: "k_rid ?c = p" by (simp add: sh entry_ok_def)
  show ?thesis
    using routed_on_register [of A p "Some p" B] assms(1) True
    by (simp add: routed_def register_def set_phase_def p AB sh rid update_conv')
next
  case False
  then show ?thesis
    using assms by (auto simp: register_def leave_unregistered_routed split: option.split)
qed

lemma receive_routed:
  assumes "routed s" "i < length (w_calls s)" "k_phase (w_calls s ! i) = Streaming q"
  shows "routed (receive i q s)"
proof (cases "w_queues s q")
  case Nil
  then show ?thesis using leave_routed [OF assms(1,2)] by (simp add: receive_def)
next
  case (Cons e rest)
  let ?c = "w_calls s ! i"
  let ?s1 = "s\<lparr>w_queues := (w_queues s)(q := rest)\<rparr>"
  have sh: "(k_rid ?c, k_payload_id ?c, Some q) \<in> set (map shape_of (w_calls s))"
    using assms(2,3) nth_mem [OF assms(2)] by (force simp: shape_of_def image_iff)
  show ?thesis
  proof (cases "snd e = ''_worker_exit''")
    case False
    let ?s2 = "?s1\<lparr>w_yielded := (k_rid ?c, fst e, snd e) # w_yielded s\<rparr>"
    have "routed ?s2"
      using routed_on_pop [where Q = "w_queues s", OF _ sh Cons False] assms(1) by (simp add: routed_def)
    then have "routed (set_phase i (Yielded q (snd e)) ?s2)"
      using assms(2,3) by (intro set_phase_routed) simp_all
    then show ?thesis using Cons False by (cases e) (simp add: receive_def)
  next
    case True
    \<comment> \<open>the call that takes the sentinel leaves, so only the others matter\<close>
    obtain A B where AB: "map shape_of (w_calls s) = A @ shape_of ?c # B"
      "map shape_of (drop_nth i (w_calls s)) = A @ B"
      using map_shape_drop [OF assms(2)] .
    have shc: "shape_of ?c = (k_rid ?c, k_payload_id ?c, Some q)" using assms(3) by (simp add: shape_of_def)
    have full: "routed_on (A @ (k_rid ?c, k_payload_id ?c, Some q) # B) (map_of (w_inflight s)) (w_queues s)
        (w_next_queue s) (w_yielded s)"
      using assms(1) by (simp add: routed_def AB(1) shc)
    have rest_ok: "routed_on (A @ B) ((map_of (w_inflight s))(k_rid ?c := None)) (w_queues s) (w_next_queue s) (w_yielded s)"
      by (rule routed_on_drop [OF full])
    have other: "qo \<noteq> Some q" if "(r, p, qo) \<in> set (A @ B)" for r p qo
    proof
      assume "qo = Some q"
      then have "r = k_rid ?c"
        using full that unfolding routed_on_def unshared_def by (simp, blast)
      moreover have "k_rid ?c \<notin> fst ` set (A @ B)" using full by (auto simp: routed_on_def)
      ultimately show False using that by force
    qed
    have "routed_on (A @ B) ((map_of (w_inflight s))(k_rid ?c := None)) ((w_queues s)(q := rest)) (w_next_queue s) (w_yielded s)"
    proof (rule routed_on_queues [OF rest_ok])
      fix x assume x: "x \<in> set (A @ B)"
      then have "entry_ok ((map_of (w_inflight s))(k_rid ?c := None)) (w_queues s) (w_next_queue s) x"
        using rest_ok by (simp add: routed_on_def)
      then show "entry_ok ((map_of (w_inflight s))(k_rid ?c := None)) ((w_queues s)(q := rest)) (w_next_queue s) x"
      proof (cases x)
        case (fields r p qo)
        then have "qo \<noteq> Some q" using x other by simp
        then show ?thesis
          using \<open>entry_ok _ _ _ x\<close> unfolding fields by (elim entry_ok_change) auto
      qed
    qed (use rest_ok in \<open>auto simp: routed_on_def\<close>)
    then show ?thesis
      using Cons True by (cases e) (simp add: receive_def leave_def routed_def Let_def AB(2) delete_conv')
  qed
qed

lemma wake_all_routed:
  assumes "routed s"
  shows "routed (wake_all s)"
proof -
  have "q \<in> set (map snd (w_inflight s))" if "map_of (w_inflight s) r = Some q" for r q
    using map_of_SomeD [OF that] by force
  then show ?thesis
    using routed_on_wake [OF assms [unfolded routed_def], of "set (map snd (w_inflight s))"]
    by (simp add: routed_def wake_all_def)
qed

lemma reader_line_routed:
  assumes "routed s"
  shows "routed (reader_line a b kind s)"
  using assms routed_on_deliver [OF assms [unfolded routed_def], where k = kind]
  by (auto simp: reader_line_def Let_def routed_def split: option.split)

lemma frame_routed:
  assumes "routed s" "w_calls s' = w_calls s" "w_inflight s' = w_inflight s" "w_queues s' = w_queues s"
    "w_next_queue s' = w_next_queue s" "w_yielded s' = w_yielded s"
  shows "routed s'"
  using assms by (simp add: routed_def)

text \<open>The request id an event brings in, and those it may still use.\<close>

fun event_rid :: "wio_event \<Rightarrow> string list" where
  "event_rid (SendEnter rid p) = [rid]"
| "event_rid (RequestEnter rid b) = [rid]"
| "event_rid _ = []"

definition live_rids :: "wio \<Rightarrow> string set" where
  "live_rids s = k_rid ` set (w_calls s)"

lemma enter_routed:
  assumes "routed s" "rid \<notin> live_rids s"
  shows "routed (send_request_enter rid p s)" "routed (request_enter rid b s)"
proof -
  have "rid \<notin> fst ` set (map shape_of (w_calls s))" using assms(2) by (force simp: live_rids_def shape_of_def)
  then have "routed_on (map shape_of (w_calls s) @ [(rid, p, None)]) (map_of (w_inflight s)) (w_queues s)
      (w_next_queue s) (w_yielded s)" if "p = None \<or> p = Some rid" for p
    using assms(1) that by (intro routed_on_add) (simp_all add: routed_def)
  note new = this [of None] this [of "Some rid"]
  show "routed (send_request_enter rid p s)"
  proof (cases "(case p of None \<Rightarrow> rid | Some x \<Rightarrow> x) \<noteq> rid \<or> w_sem s = 0")
    case True
    then show ?thesis using frame_routed [OF assms(1)] by (auto simp: send_request_enter_def)
  next
    case False
    then have "\<not> (case p of None \<Rightarrow> rid | Some x \<Rightarrow> x) \<noteq> rid" "w_sem s \<noteq> 0" by simp_all
    then show ?thesis using new by (simp add: send_request_enter_def routed_def shape_of_def)
  qed
  show "routed (request_enter rid b s)"
    using assms(1) new by (simp add: request_enter_def routed_def shape_of_def)
qed

lemma step_routed:
  assumes "routed s" "set (event_rid ev) \<inter> live_rids s = {}"
  shows "routed (wio_step ev s)"
proof (cases ev)
  case (Write i ok)
  have "routed (write_request i q ok s)" if "i < length (w_calls s)" "k_phase (w_calls s ! i) = Registered q" for q
  proof -
    have "routed (set_phase i (Streaming q) (s\<lparr>w_stdin := w_stdin s @ [RequestLine (k_rid (w_calls s ! i))]\<rparr>))"
      using that by (intro set_phase_routed frame_routed [OF assms(1)]) simp_all
    then show ?thesis using that leave_routed [OF assms(1)] by (simp add: write_request_def)
  qed
  then show ?thesis using Write assms(1) by (auto split: phase.split)
next
  case (Resume i)
  have "routed (resume i q kind s)" if "i < length (w_calls s)" "k_phase (w_calls s ! i) = Yielded q kind" for q kind
    using that leave_routed [OF assms(1)] set_phase_routed [OF assms(1), of i "Streaming q"]
    by (simp add: resume_def)
  then show ?thesis using Resume assms(1) by (auto split: phase.split)
next
  case (PendingCancel ok)
  then show ?thesis
    using assms(1) frame_routed [OF assms(1)] by (auto simp: cancel_write_def Let_def split: list.split)
next
  case (CancelCall rid ok)
  then show ?thesis
    using assms(1) frame_routed [OF assms(1)] by (simp add: cancel_write_def Let_def)
qed (use assms enter_routed register_routed receive_routed leave_routed wake_all_routed reader_line_routed
      frame_routed [OF assms(1)] in \<open>auto simp: abandon_def split: phase.split\<close>)

lemma live_rids_step: "live_rids (wio_step ev s) \<subseteq> live_rids s \<union> set (event_rid ev)"
  by (cases ev)
     (auto simp: wio_defs live_rids_def Let_def
        dest!: subsetD [OF set_drop_nth] subsetD [OF set_update_subset_insert]
        intro!: imageI [OF nth_mem] split: option.splits phase.splits list.splits prod.splits if_splits)

lemma run_routed:
  assumes "routed s" "distinct (concat (map event_rid es))" "set (concat (map event_rid es)) \<inter> live_rids s = {}"
  shows "routed (fold wio_step es s)"
  using assms
proof (induction es arbitrary: s)
  case (Cons ev es)
  have "routed (wio_step ev s)" using Cons.prems by (intro step_routed) auto
  moreover have "set (concat (map event_rid es)) \<inter> live_rids (wio_step ev s) = {}"
    using live_rids_step [of ev s] Cons.prems(2,3) by auto
  ultimately show ?case using Cons.IH [of "wio_step ev s"] Cons.prems(2) by (simp del: wio_step.simps)
qed simp

lemma wake_all_closed: "wake_all (s\<lparr>w_closed := True\<rparr>) = (wake_all s)\<lparr>w_closed := True\<rparr>"
  by (simp add: wake_all_def cong: if_cong)

section \<open>Properties\<close>

text \<open>
  C34: in every interleaving of requests, raises, timeouts, dropped generators, cancelled
  tasks, close and worker death, the free permits, the requests inside, the permits a
  done-callback is about to give back and the permits lost add up to the configured
  concurrency (at least 1), so at most that many requests are in flight. A permit is lost
  only to a task cancelled while its executor thread was still blocked on the semaphore, at
  most one each; without such a cancellation, once the requests have left and the callbacks
  have run, every permit is back.
\<close>

theorem wio_semaphore_balanced:
  "let s = fold wio_step es (new_wio n) in
     w_sem s + length (w_calls s) + w_orphans s + w_lost s = nat (max 1 n) \<and>
     w_lost s \<le> count_list es LateAcquire"
proof -
  have "slots_ok (fold wio_step es (new_wio n))"
    by (rule wio_slots.run_inv [OF slots_ok_new])
  moreover have "w_lost (fold wio_step es (new_wio n)) \<le> count_list es LateAcquire"
    using wio_run_lost [of "new_wio n" es] by (simp add: new_wio_def Let_def)
  ultimately show ?thesis by (simp add: slots_ok_def Let_def) (simp add: new_wio_def Let_def)
qed

text \<open>
  The comment at the acquire says the late token goes back to the pool. It does not: a worker
  with one slot whose waiting task is cancelled once never serves another request, although
  nothing is in flight.
\<close>

lemma no_permit_for_ever:
  assumes "slots_ok s" "w_capacity s \<le> w_lost s"
  shows "w_calls (fold wio_step es s) = [] \<and> w_sem (fold wio_step es s) = 0"
proof -
  have "slots_ok (fold wio_step es s)" by (rule wio_slots.run_inv [OF assms(1)])
  then have "length (w_calls (fold wio_step es s)) = 0" "w_sem (fold wio_step es s) = 0"
    using wio_run_lost [of s es] assms(2) unfolding slots_ok_def wio_run_capacity by linarith+
  then show ?thesis by simp
qed

lemma late_acquire_loses_the_slot:
  "let s = fold wio_step ([RequestEnter ''a'' True, Register 0, Write 0 True,
         ReaderLine (Some ''a'') None ''done'', Receive 0, Resume 0, LateAcquire] @ es) (new_wio 1)
   in w_calls s = [] \<and> w_sem s = 0"
proof -
  define s where "s = fold wio_step [RequestEnter ''a'' True, Register 0, Write 0 True,
         ReaderLine (Some ''a'') None ''done'', Receive 0, Resume 0, LateAcquire] (new_wio 1)"
  have "slots_ok s" unfolding s_def by (rule wio_slots.run_inv [OF slots_ok_new])
  moreover have "w_capacity s \<le> w_lost s"
    unfolding s_def by (simp add: new_wio_def wio_defs terminal_def drop_nth_def Let_def)
  ultimately show ?thesis
    using no_permit_for_ever [of s es] by (simp add: Let_def s_def del: wio_step.simps)
qed

text \<open>
  Nothing is written to the worker's stdin after \<open>close\<close> set its flag, neither a request
  nor a cancel, whatever was waiting for the semaphore or between its two closed checks at
  that moment.
\<close>

theorem wio_silent_after_close:
  "w_stdin (fold wio_step (es1 @ CloseFlag # es2) (new_wio n)) = w_stdin (fold wio_step es1 (new_wio n))"
  using closed_run [of "(fold wio_step es1 (new_wio n))\<lparr>w_closed := True\<rparr>" es2] by simp

text \<open>
  C33: with request ids that are not reused, every event a consumer receives names its own
  request, however the worker interleaves its streams; and when the reader sees EOF every
  registered request has the exit sentinel in its queue, so none of them waits for the
  60 second timeout. The same holds for the waking half of \<open>close\<close>.
\<close>

theorem wio_demultiplexes:
  assumes "distinct (concat (map event_rid es))"
  shows "let s = fold wio_step es (new_wio n) in
     (\<forall>(rid, event_rid, kind) \<in> set (w_yielded s). rid = event_rid) \<and>
     (\<forall>c \<in> set (w_calls (fold wio_step [CloseFlag, CloseWake] s)). \<forall>q. phase_queue (k_phase c) = Some q \<longrightarrow>
        worker_exit \<in> set (w_queues (fold wio_step [CloseFlag, CloseWake] s) q)) \<and>
     (\<forall>c \<in> set (w_calls (wio_step ReaderExit s)). \<forall>q. phase_queue (k_phase c) = Some q \<longrightarrow>
        worker_exit \<in> set (w_queues (wio_step ReaderExit s) q))"
proof -
  obtain s where s: "s = fold wio_step es (new_wio n)" by blast
  have r: "routed s"
    unfolding s by (rule run_routed [OF routed_new assms]) (simp add: live_rids_def new_wio_def Let_def)
  have woken: "worker_exit \<in> set (w_queues (wake_all s) q)"
    if "c \<in> set (w_calls (wake_all s))" "phase_queue (k_phase c) = Some q" for c q
  proof -
    have "shape_of c \<in> set (map shape_of (w_calls (wake_all s)))" using that(1) by simp
    then have "entry_ok (map_of (w_inflight (wake_all s))) (w_queues (wake_all s)) (w_next_queue (wake_all s)) (shape_of c)"
      using wake_all_routed [OF r] unfolding routed_def routed_on_def by blast
    then show ?thesis using that(2) by (simp add: entry_ok_def shape_of_def wake_all_def)
  qed
  show ?thesis
    using r woken wake_all_closed [of s] unfolding Let_def s [symmetric]
    by (auto simp: routed_def routed_on_def)
qed

theorem wio_demultiplexes_witness:
  "let s = fold wio_step [SendEnter ''a'' None, RequestEnter ''b'' True, Register 0, Register 1, Write 1 True,
         Write 0 True, ReaderLine (Some ''b'') None ''chunk'', Receive 1] (new_wio 2)
   in (\<forall>(rid, event_rid, kind) \<in> set (w_yielded s). rid = event_rid) \<and> w_yielded s = [(''b'', ''b'', ''chunk'')]
      \<and> length (w_calls s) = 2"
proof -
  let ?es = "[SendEnter ''a'' None, RequestEnter ''b'' True, Register 0, Register 1, Write 1 True,
         Write 0 True, ReaderLine (Some ''b'') None ''chunk'', Receive 1]"
  have d: "distinct (concat (map event_rid ?es))" by simp
  have "w_yielded (fold wio_step ?es (new_wio 2)) = [(''b'', ''b'', ''chunk'')]"
    "length (w_calls (fold wio_step ?es (new_wio 2))) = 2"
    by (simp_all add: new_wio_def wio_defs Let_def)
  then show ?thesis using wio_demultiplexes [OF d, of 2] unfolding Let_def by blast
qed

text \<open>
  The sentinel covers only requests registered before the reader left. The reader does
  not set the closed flag, so a synchronous request that starts after the worker's EOF, and
  whose write the pipe still accepts, is registered with no reader to wake it: it ends by the
  60 second timeout, and with \<open>queue.Empty\<close> rather than \<open>WorkerExitError\<close>.
\<close>

theorem wio_request_after_exit_times_out:
  "let s = fold wio_step [ReaderExit, RequestEnter ''a'' True, Register 0, Write 0 True, Receive 0] (new_wio 1)
   in w_ended s = [(''a'', QueueEmpty)] \<and> w_stdin s = [RequestLine ''a''] \<and> \<not> w_closed s"
  by (simp add: new_wio_def wio_defs Let_def)

text \<open>Two live requests with one id: the first to leave takes the other off the table, so the
  other is not woken at EOF.\<close>

lemma wio_duplicate_id_starves:
  "let s = fold wio_step [RequestEnter ''a'' True, RequestEnter ''a'' True, Register 0, Register 1, Write 0 True,
         Write 1 True, Receive 0, ReaderExit] (new_wio 2)
   in map k_phase (w_calls s) = [Streaming 1] \<and> w_queues s 1 = []"
  by (simp add: new_wio_def wio_defs Let_def drop_nth_def)

end
