(* ===== verification/Profile_Loader.thy ===== *)
theory Profile_Loader
  imports Capability "HOL-Library.AList"
begin

text \<open>
  Deploy-time selection: \<open>app/core/profile_selector.py\<close> (device tier and preset table) and
  \<open>app/core/profile_loader.py\<close> (which profile is applied, how its \<open>env\<close> block is expanded
  and reconciled with the process environment, and the artifact pre-flight). The file system
  is a parameter: \<open>files\<close> gives a file's text ("" when unreadable), \<open>path_exists\<close> whether a
  path exists, \<open>load\<close> the parsed JSON of a profile reference with its path's stem. Python
  dicts whose order matters are association lists updated with \<open>AList.update\<close>, which like a
  dict keeps the place of an existing key and appends a new one.
\<close>

section \<open>Device tier and preset\<close>

definition is_digit :: "char \<Rightarrow> bool" where
  "is_digit c = (digit_val c \<noteq> None)"

text \<open>\<open>MemTotal:\s+(\d+)\s*kB\<close> matched at the start of the text.\<close>

definition match_mem_total :: "string \<Rightarrow> nat option" where
  "match_mem_total s =
     (if starts_with ''MemTotal:'' s
      then (let r = drop 9 s; r1 = dropWhile sspace r; ds = takeWhile is_digit r1;
                r2 = dropWhile sspace (dropWhile is_digit r1)
            in if length r1 < length r \<and> ds \<noteq> [] \<and> starts_with ''kB'' r2 then digits_val False 0 ds else None)
      else None)"

fun scan_mem_total :: "bool \<Rightarrow> string \<Rightarrow> nat option" where
  "scan_mem_total line_start [] = None"
| "scan_mem_total line_start (c # cs) =
     (case (if line_start then match_mem_total (c # cs) else None) of
        Some n \<Rightarrow> Some n
      | None \<Rightarrow> scan_mem_total (c = CHR 0x0A) cs)"

text \<open>\<open>_detect_total_ram_gb\<close>, in KiB so that the comparisons stay exact.\<close>

definition detect_total_ram_kib :: "(string \<Rightarrow> string) \<Rightarrow> nat" where
  "detect_total_ram_kib files =
     (case scan_mem_total True (files ''/proc/meminfo'') of None \<Rightarrow> 0 | Some n \<Rightarrow> n)"

definition gib :: nat where
  "gib = 1024 * 1024"

definition detect_jetson_tier :: "(string \<Rightarrow> string) \<Rightarrow> (string \<Rightarrow> bool) \<Rightarrow> string option" where
  "detect_jetson_tier files path_exists =
     (if \<not> path_exists ''/etc/nv_tegra_release'' then None
      else (let model = sstrip (strip_by (\<lambda>c. c = CHR 0x00) (files ''/proc/device-tree/model''));
                ram = detect_total_ram_kib files
            in if contains ''AGX'' (py_upper model) \<or> ram \<ge> 24 * gib then Some ''jetson-orin-agx''
               else if contains ''NX'' (py_upper model) \<or> ram \<ge> 12 * gib then Some ''jetson-orin-nx''
               else Some ''jetson-orin-nano''))"

text \<open>The value after the first colon of a line (\<open>partition\<close>), "" without a colon.\<close>

definition after_colon :: "string \<Rightarrow> string" where
  "after_colon line = drop 1 (dropWhile (\<lambda>c. c \<noteq> CHR '':'') line)"

definition detect_rk_tier :: "(string \<Rightarrow> string) \<Rightarrow> string option" where
  "detect_rk_tier files =
     (let model = py_lower (files ''/proc/device-tree/model'');
          compat = py_lower (files ''/proc/device-tree/compatible'');
          cpuinfo_hw = (if model = [] \<and> compat = []
             then concat (map (\<lambda>line. if starts_with ''hardware'' (py_lower line) \<or> starts_with ''model'' (py_lower line)
                    then '' '' @ py_lower (sstrip (after_colon line)) else [])
                  (split_on (CHR 0x0A) (files ''/proc/cpuinfo'')))
             else []);
          haystack = model @ '' '' @ compat @ '' '' @ cpuinfo_hw
      in if contains ''rk3588'' haystack then Some ''rk3588''
         else if contains ''rk3576'' haystack then Some ''rk3576''
         else None)"

definition detect_device_tier :: "environ \<Rightarrow> (string \<Rightarrow> string) \<Rightarrow> (string \<Rightarrow> bool) \<Rightarrow> string" where
  "detect_device_tier env files path_exists =
     (if env_get env ''OVS_DEVICE_TIER'' \<noteq> [] then env_get env ''OVS_DEVICE_TIER''
      else (case detect_jetson_tier files path_exists of
              Some tier \<Rightarrow> tier
            | None \<Rightarrow> (case detect_rk_tier files of Some tier \<Rightarrow> tier | None \<Rightarrow> ''unknown'')))"

definition preset_table :: "((string \<times> string) \<times> string) list" where
  "preset_table =
     [((''jetson-orin-nano'', ''voice_clone''), ''jetson-multilang-highperf''),
      ((''jetson-orin-nx'', ''voice_clone''), ''jetson-multilang-highperf-nx''),
      ((''jetson-orin-agx'', ''voice_clone''), ''jetson-multilang-highperf-nx''),
      ((''jetson-orin-nano'', ''multilang''), ''jetson-qwen3asr-matcha''),
      ((''jetson-orin-nx'', ''multilang''), ''jetson-qwen3asr-matcha-nx''),
      ((''jetson-orin-agx'', ''multilang''), ''jetson-qwen3asr-matcha-nx''),
      ((''jetson-orin-nano'', ''lite_zh_en''), ''jetson-zh-en''),
      ((''jetson-orin-nx'', ''lite_zh_en''), ''jetson-zh-en''),
      ((''jetson-orin-agx'', ''lite_zh_en''), ''jetson-zh-en''),
      ((''rk3576'', ''multilang''), ''rk3576-multilang''),
      ((''rk3588'', ''multilang''), ''rk3588-multilang'')]"

text \<open>\<open>None\<close> is \<open>UnsupportedPreset\<close>.\<close>

definition resolve_profile_name :: "string \<Rightarrow> string \<Rightarrow> string option" where
  "resolve_profile_name preset device_tier = map_of preset_table (device_tier, preset)"

section \<open>Which profile\<close>

definition operator_prefixes :: "string list" where
  "operator_prefixes =
     [''OVS_'', ''LANGUAGE_MODE'', ''MODEL_DIR'', ''ASR_'', ''TTS_'', ''EDGE_LLM_'',
      ''QWEN3_'', ''KOKORO_'', ''MATCHA_'', ''RK_'', ''RKLLM_'', ''SHERPA_'',
      ''STREAMING_'', ''VOCOS_'', ''HF_'', ''CUDA_'', ''TRT_'', ''NVIDIA_'']"

definition snapshot_operator_keys :: "environ \<Rightarrow> string \<Rightarrow> bool" where
  "snapshot_operator_keys env k =
     (list_ex (\<lambda>p. starts_with p k) operator_prefixes \<and> (case env k of None \<Rightarrow> False | Some v \<Rightarrow> v \<noteq> []))"

definition critical_keys :: "string list" where
  "critical_keys = [''LANGUAGE_MODE'', ''ASR_BACKEND'', ''TTS_BACKEND'']"

text \<open>\<open>_env(*names)\<close>: the first non-empty value.\<close>

fun first_env :: "environ \<Rightarrow> string list \<Rightarrow> string option" where
  "first_env env [] = None"
| "first_env env (n # ns) =
     (case env n of Some v \<Rightarrow> if v \<noteq> [] then Some v else first_env env ns | None \<Rightarrow> first_env env ns)"

datatype load_error = UnsupportedPreset string | LoadFailed string | OperatorConflict string string "string option"

text \<open>The reference to load: \<open>Inr None\<close> is no profile at all.\<close>

definition select_profile_ref :: "environ \<Rightarrow> string \<Rightarrow> load_error + string option" where
  "select_profile_ref env device_tier =
     (case first_env env [''OVS_PROFILE_JSON'', ''OVS_PROFILE'', ''OVS_PROFILE_DEFAULT''] of
        Some ref \<Rightarrow> Inr (Some ref)
      | None \<Rightarrow>
          (let language_mode = sstrip (env_get env ''LANGUAGE_MODE'') in
           if language_mode = ''zh_en'' then Inr (Some ''jetson-zh-en'')
           else if language_mode = ''multilanguage'' then Inr (Some ''jetson-multilang-highperf'')
           else (case first_env env [''OVS_PRESET''] of
                   None \<Rightarrow> Inr None
                 | Some preset \<Rightarrow>
                     (case resolve_profile_name preset device_tier of
                        None \<Rightarrow> Inl (UnsupportedPreset preset)
                      | Some name \<Rightarrow> Inr (Some name)))))"

definition derive_tts_model_id :: "profile \<Rightarrow> string option" where
  "derive_tts_model_id p =
     (if truthy (dget (p_top p) ''tts_model_id'') then Some (py_str (dget (p_top p) ''tts_model_id''))
      else map_option py_str
        (List.find (\<lambda>mid. list_ex (\<lambda>k. contains k (py_lower (py_str mid))) [''kokoro'', ''matcha'', ''qwen3'', ''piper''])
           (p_engines p)))"

section \<open>Expansion\<close>

definition id_start :: "char \<Rightarrow> bool" where
  "id_start c = (let n = (of_char c :: nat) in n = 95 \<or> (65 \<le> n \<and> n \<le> 90) \<or> (97 \<le> n \<and> n \<le> 122))"

definition id_char :: "char \<Rightarrow> bool" where
  "id_char c = (id_start c \<or> is_digit c)"

text \<open>The identifier at the start of a text, "" when there is none.\<close>

definition ident_prefix :: "string \<Rightarrow> string" where
  "ident_prefix s = (case s of c # _ \<Rightarrow> if id_start c then takeWhile id_char s else [] | [] \<Rightarrow> [])"

lemma length_ident_prefix: "length (ident_prefix s) \<le> length s"
  by (auto simp: ident_prefix_def length_takeWhile_le split: list.split)

text \<open>\<open>string.Template(value).safe_substitute\<close>: dollar-dollar, a named or braced variable
  (kept as written when unknown), a lone dollar.\<close>

function safe_substitute :: "(string \<rightharpoonup> string) \<Rightarrow> string \<Rightarrow> string" where
  "safe_substitute env [] = []"
| "safe_substitute env (c # cs) =
     (if c \<noteq> CHR ''$'' then c # safe_substitute env cs
      else if starts_with ''$'' cs then CHR ''$'' # safe_substitute env (drop 1 cs)
      else if starts_with ''{'' cs \<and> ident_prefix (drop 1 cs) \<noteq> []
              \<and> starts_with ''}'' (drop (length (ident_prefix (drop 1 cs))) (drop 1 cs))
      then (let name = ident_prefix (drop 1 cs) in
            (case env name of Some v \<Rightarrow> v | None \<Rightarrow> ''${'' @ name @ ''}'')
            @ safe_substitute env (drop (length name + 2) cs))
      else (let name = ident_prefix cs in
            if name = [] then CHR ''$'' # safe_substitute env cs
            else (case env name of Some v \<Rightarrow> v | None \<Rightarrow> CHR ''$'' # name)
                 @ safe_substitute env (drop (length name) cs)))"
  by pat_completeness auto
termination
  by (relation "measure (\<lambda>(_, s). length s)") (auto simp: Let_def)

declare safe_substitute.simps(2) [simp del]

definition profile_strings :: "(string \<times> pyval) list \<Rightarrow> string \<Rightarrow> string option" where
  "profile_strings block k = (case map_of block k of Some (PStr v) \<Rightarrow> Some v | _ \<Rightarrow> None)"

definition expand_with_profile_env :: "environ \<Rightarrow> (string \<times> pyval) list \<Rightarrow> string \<Rightarrow> string" where
  "expand_with_profile_env env block value =
     safe_substitute (\<lambda>k. case profile_strings block k of Some v \<Rightarrow> Some v | None \<Rightarrow> env k) value"

section \<open>Applying a profile\<close>

record loader =
  l_env :: environ
  l_operator :: "string \<Rightarrow> bool"
  l_applied :: "string list"
  l_current :: profile

definition import_loader :: "environ \<Rightarrow> loader" where
  "import_loader env = \<lparr>l_env = env, l_operator = snapshot_operator_keys env, l_applied = [], l_current = empty_profile\<rparr>"

definition update_all :: "('k \<times> 'v) list \<Rightarrow> ('k \<times> 'v) list \<Rightarrow> ('k \<times> 'v) list" where
  "update_all news d = fold (\<lambda>(k, v). AList.update k v) news d"

definition profile_name :: "profile \<Rightarrow> string \<Rightarrow> string" where
  "profile_name p stem = (case map_of (p_top p) ''name'' of None \<Rightarrow> stem | Some v \<Rightarrow> py_str v)"

text \<open>The environment the profile asks for: expanded block, derived keys, overrides.\<close>

definition desired_env :: "environ \<Rightarrow> profile \<Rightarrow> string \<Rightarrow> (string \<times> pyval) list \<Rightarrow> (string \<times> string) list" where
  "desired_env env p stem overrides =
     (let new_env = map (\<lambda>(k, v). (k, expand_with_profile_env env (p_env p) (py_str v))) (p_env p);
          derived = (''OVS_PROFILE_NAME'', profile_name p stem)
            # (case derive_tts_model_id p of None \<Rightarrow> [] | Some m \<Rightarrow> [(''OVS_TTS_MODEL_ID'', m)])
      in update_all (map (\<lambda>(k, v). (k, py_str v)) overrides) (update_all derived (update_all new_env [])))"

definition clear_stale :: "loader \<Rightarrow> string list \<Rightarrow> environ" where
  "clear_stale s new_keys =
     (\<lambda>k. if k \<in> set (l_applied s) \<and> k \<notin> set new_keys \<and> \<not> l_operator s k then None else l_env s k)"

text \<open>Step 2: the first critical operator key that disagrees stops the loop with the writes
  done so far.\<close>

fun write_env :: "(string \<Rightarrow> bool) \<Rightarrow> (string \<times> string) list \<Rightarrow> environ \<Rightarrow> load_error option \<times> environ" where
  "write_env op [] env = (None, env)"
| "write_env op ((k, v) # kvs) env =
     (if op k
      then (if env k \<noteq> Some v \<and> k \<in> set critical_keys then (Some (OperatorConflict k v (env k)), env)
            else write_env op kvs env)
      else write_env op kvs (env(k \<mapsto> v)))"

definition reconcile :: "profile \<Rightarrow> string \<Rightarrow> (string \<times> pyval) list \<Rightarrow> loader \<Rightarrow> (load_error + profile) \<times> loader" where
  "reconcile p stem overrides s =
     (let merged = desired_env (l_env s) p stem overrides;
          new_keys = map fst merged
      in case write_env (l_operator s) merged (clear_stale s new_keys) of
           (Some e, env2) \<Rightarrow> (Inl e, s\<lparr>l_env := env2\<rparr>)
         | (None, env2) \<Rightarrow>
             (Inr p, s\<lparr>l_env := env2, l_applied := filter (\<lambda>k. \<not> l_operator s k) new_keys, l_current := p\<rparr>))"

definition chosen_ref :: "string \<Rightarrow> string option \<Rightarrow> loader \<Rightarrow> load_error + string option" where
  "chosen_ref device_tier profile_ref s =
     (case profile_ref of
        Some r \<Rightarrow> if r \<noteq> [] then Inr (Some r) else select_profile_ref (l_env s) device_tier
      | None \<Rightarrow> select_profile_ref (l_env s) device_tier)"

definition apply_profile ::
  "(string \<Rightarrow> (profile \<times> string) option) \<Rightarrow> string \<Rightarrow> string option \<Rightarrow> (string \<times> pyval) list \<Rightarrow> loader
    \<Rightarrow> (load_error + profile) \<times> loader" where
  "apply_profile load device_tier profile_ref overrides s =
     (case chosen_ref device_tier profile_ref s of
        Inl e \<Rightarrow> (Inl e, s)
      | Inr None \<Rightarrow> (Inr empty_profile, s)
      | Inr (Some ref) \<Rightarrow>
         (case load ref of
            None \<Rightarrow> (Inl (LoadFailed ref), s)
          | Some (p, stem) \<Rightarrow> reconcile p stem overrides s))"

definition apply_profile_from_env ::
  "(string \<Rightarrow> (profile \<times> string) option) \<Rightarrow> string \<Rightarrow> loader \<Rightarrow> (load_error + profile) \<times> loader" where
  "apply_profile_from_env load device_tier s = apply_profile load device_tier None [] s"

text \<open>\<open>get_max_concurrent_sessions\<close>: the outer option is the ValueError.\<close>

definition get_max_concurrent_sessions :: "loader \<Rightarrow> int option option" where
  "get_max_concurrent_sessions s =
     (let positive = (\<lambda>n. if n \<le> 0 then None else Some (Some n)) in
      case dget (p_top (l_current s)) ''max_concurrent_sessions'' of
        PNone \<Rightarrow> Some None
      | PInt n \<Rightarrow> positive n
      | PBool b \<Rightarrow> positive (if b then 1 else 0)
      | PStr raw \<Rightarrow> (case py_int raw of None \<Rightarrow> None | Some n \<Rightarrow> positive n))"

section \<open>Artifact pre-flight\<close>

definition path_like_suffixes :: "string list" where
  "path_like_suffixes =
     [''_DIR'', ''_ENGINE'', ''_PATH'', ''_BIN'', ''_MANIFEST'', ''_SETTINGS'', ''_FILTERS'', ''_JSON'',
      ''_ONNX'', ''_ROOT'', ''_BASE'', ''_VOICES'', ''_TOKENS'', ''_LONG'']"

definition expected_artifact_paths :: "environ \<Rightarrow> profile \<Rightarrow> (string \<times> string) list" where
  "expected_artifact_paths env p =
     List.map_filter (\<lambda>(k, v).
       (case v of
          PStr s \<Rightarrow>
            (let expanded = expand_with_profile_env env (p_env p) s in
             if list_ex (\<lambda>suf. ends_with suf k) path_like_suffixes \<and> starts_with ''/'' expanded
             then Some (k, expanded) else None)
        | _ \<Rightarrow> None)) (p_env p)"

definition find_missing_artifacts :: "environ \<Rightarrow> (string \<Rightarrow> bool) \<Rightarrow> profile \<Rightarrow> (string \<times> string) list" where
  "find_missing_artifacts env path_exists p =
     filter (\<lambda>(k, path). \<not> path_exists path) (expected_artifact_paths env p)"

section \<open>What applying a profile does to the environment\<close>

lemma distinct_update_all:
  "distinct (map fst d) \<Longrightarrow> distinct (map fst (update_all news d))"
  unfolding update_all_def by (induction news arbitrary: d) (auto simp: distinct_update)

lemma distinct_desired_env: "distinct (map fst (desired_env env p stem ov))"
  unfolding desired_env_def Let_def by (intro distinct_update_all) simp

lemma write_env_operator: "op k \<Longrightarrow> snd (write_env op kvs env) k = env k"
  by (induction op kvs env rule: write_env.induct) auto

lemma write_env_ok:
  assumes "write_env op kvs env = (None, env')" "distinct (map fst kvs)"
  shows "env' k = (if op k then env k else case map_of kvs k of Some v \<Rightarrow> Some v | None \<Rightarrow> env k)"
    "(k, v) \<in> set kvs \<Longrightarrow> op k \<Longrightarrow> k \<in> set critical_keys \<Longrightarrow> env k = Some v"
proof -
  have "(env' k = (if op k then env k else case map_of kvs k of Some v \<Rightarrow> Some v | None \<Rightarrow> env k)) \<and>
    ((k, v) \<in> set kvs \<longrightarrow> op k \<longrightarrow> k \<in> set critical_keys \<longrightarrow> env k = Some v)"
    using assms
  proof (induction op kvs env rule: write_env.induct)
    case (2 op k0 v0 kvs env)
    show ?case
    proof (cases "op k0")
      case True
      then have w: "write_env op kvs env = (None, env')" "env k0 = Some v0 \<or> k0 \<notin> set critical_keys"
        using 2(3) by (auto split: if_splits)
      have "\<not> (env k0 \<noteq> Some v0 \<and> k0 \<in> set critical_keys)" using w(2) by blast
      from 2(1) [OF True this w(1)] 2(4) show ?thesis using True w(2) by auto
    next
      case False
      then have w: "write_env op kvs (env(k0 \<mapsto> v0)) = (None, env')" using 2(3) by simp
      have k0: "map_of kvs k0 = None" using 2(4) by (simp add: map_of_eq_None_iff)
      from 2(2) [OF False w] 2(4) show ?thesis using False k0 by (cases "map_of kvs k") (auto split: if_splits)
    qed
  qed simp
  then show "env' k = (if op k then env k else case map_of kvs k of Some v \<Rightarrow> Some v | None \<Rightarrow> env k)"
    "(k, v) \<in> set kvs \<Longrightarrow> op k \<Longrightarrow> k \<in> set critical_keys \<Longrightarrow> env k = Some v" by blast+
qed

lemma reconcile_operator:
  assumes "l_operator s k"
  shows "l_env (snd (reconcile p stem ov s)) k = l_env s k"
proof -
  let ?m = "desired_env (l_env s) p stem ov"
  have "snd (write_env (l_operator s) ?m (clear_stale s (map fst ?m))) k = clear_stale s (map fst ?m) k"
    using assms by (rule write_env_operator)
  also have "\<dots> = l_env s k" using assms by (simp add: clear_stale_def)
  finally show ?thesis
    by (cases "write_env (l_operator s) ?m (clear_stale s (map fst ?m))")
       (auto simp: reconcile_def Let_def split: option.split)
qed

lemma reconcile_keeps_operator: "l_operator (snd (reconcile p stem ov s)) = l_operator s"
  by (auto simp: reconcile_def Let_def split: option.split prod.split)

lemma apply_operator:
  assumes "l_operator s k"
  shows "l_env (snd (apply_profile load tier ref ov s)) k = l_env s k \<and>
    l_operator (snd (apply_profile load tier ref ov s)) = l_operator s"
  using reconcile_operator [OF assms] reconcile_keeps_operator
  by (auto simp: apply_profile_def split: sum.split option.split prod.split)

lemma apply_keeps_operator: "l_operator (snd (apply_profile load tier ref ov s)) = l_operator s"
  using reconcile_keeps_operator by (auto simp: apply_profile_def split: sum.split option.split prod.split)

text \<open>A run of reloads, each with its reference and overrides, whatever each returned.\<close>

definition apply_step ::
  "(string \<Rightarrow> (profile \<times> string) option) \<Rightarrow> string \<Rightarrow> string option \<times> (string \<times> pyval) list \<Rightarrow> loader \<Rightarrow> loader" where
  "apply_step load tier call s = snd (apply_profile load tier (fst call) (snd call) s)"

interpretation reloads: step_system "apply_step load tier"
  "\<lambda>s. l_operator s = l_operator s0 \<and> (\<forall>k. l_operator s0 k \<longrightarrow> l_env s k = l_env s0 k)"
  for load tier s0
proof
  fix s :: loader and call :: "string option \<times> (string \<times> pyval) list"
  assume s: "l_operator s = l_operator s0 \<and> (\<forall>k. l_operator s0 k \<longrightarrow> l_env s k = l_env s0 k)"
  have "l_operator (apply_step load tier call s) = l_operator s"
    by (simp add: apply_step_def apply_keeps_operator)
  then show "l_operator (apply_step load tier call s) = l_operator s0 \<and>
      (\<forall>k. l_operator s0 k \<longrightarrow> l_env (apply_step load tier call s) k = l_env s0 k)"
    using s apply_operator [of s _ load tier "fst call" "snd call"] by (simp add: apply_step_def)
qed

lemma reconcile_ok:
  assumes "reconcile p stem ov s = (Inr p', s')"
  shows "l_env s' k =
     (if l_operator s k then l_env s k
      else case map_of (desired_env (l_env s) p stem ov) k of
             Some v \<Rightarrow> Some v
           | None \<Rightarrow> if k \<in> set (l_applied s) then None else l_env s k)" (is ?env)
    "p' = p" "l_operator s' = l_operator s" "l_current s' = p"
    "l_applied s' = filter (\<lambda>k. \<not> l_operator s k) (map fst (desired_env (l_env s) p stem ov))"
    "(k, v) \<in> set (desired_env (l_env s) p stem ov) \<Longrightarrow> l_operator s k \<Longrightarrow> k \<in> set critical_keys \<Longrightarrow> l_env s k = Some v"
proof -
  obtain m where m: "m = desired_env (l_env s) p stem ov" by blast
  obtain r env2 where w0: "write_env (l_operator s) m (clear_stale s (map fst m)) = (r, env2)" by fastforce
  have e: "(case r of Some e \<Rightarrow> (Inl e, s\<lparr>l_env := env2\<rparr>)
     | None \<Rightarrow> (Inr p, s\<lparr>l_env := env2, l_applied := filter (\<lambda>k. \<not> l_operator s k) (map fst m), l_current := p\<rparr>))
     = (Inr p', s')"
    using assms unfolding reconcile_def Let_def m [symmetric] w0 prod.case by (cases r) (simp only: option.case)+
  then have r: "r = None" by (cases r) simp_all
  have s': "s' = s\<lparr>l_env := env2, l_applied := filter (\<lambda>k. \<not> l_operator s k) (map fst m), l_current := p\<rparr>" "p' = p"
    using e by (auto simp: r)
  have w: "write_env (l_operator s) m (clear_stale s (map fst m)) = (None, env2)" using w0 by (simp only: r)
  have d: "distinct (map fst m)" unfolding m by (rule distinct_desired_env)
  note ok = write_env_ok [OF w d]
  show ?env
  proof (cases "map_of m k")
    case None
    then have "k \<notin> set (map fst m)" by (simp add: map_of_eq_None_iff)
    then show ?thesis using ok(1) [of k] None by (simp add: s' clear_stale_def flip: m)
  next
    case (Some v)
    then show ?thesis using ok(1) [of k] by (simp add: s' clear_stale_def flip: m)
  qed
  show "p' = p" "l_operator s' = l_operator s" "l_current s' = p"
    "l_applied s' = filter (\<lambda>k. \<not> l_operator s k) (map fst (desired_env (l_env s) p stem ov))"
    by (simp_all add: s' flip: m)
  show "(k, v) \<in> set (desired_env (l_env s) p stem ov) \<Longrightarrow> l_operator s k \<Longrightarrow> k \<in> set critical_keys \<Longrightarrow> l_env s k = Some v"
    using ok(2) [of k v] by (auto simp: clear_stale_def simp flip: m split: if_splits)
qed

lemma safe_substitute_literal: "CHR ''$'' \<notin> set s \<Longrightarrow> safe_substitute env s = s"
  by (induction env s rule: safe_substitute.induct) (auto simp: safe_substitute.simps(2))

definition literal_block :: "profile \<Rightarrow> bool" where
  "literal_block p = list_all (\<lambda>(k, v). CHR ''$'' \<notin> set (py_str v)) (p_env p)"

lemma desired_env_literal:
  assumes "literal_block p"
  shows "desired_env env p stem ov = desired_env env' p stem ov"
proof -
  have "map (\<lambda>(k, v). (k, expand_with_profile_env env (p_env p) (py_str v))) (p_env p)
      = map (\<lambda>(k, v). (k, py_str v)) (p_env p)" for env
    using assms by (auto simp: literal_block_def list_all_iff expand_with_profile_env_def safe_substitute_literal)
  then show ?thesis unfolding desired_env_def by (simp only:)
qed

section \<open>Properties\<close>

text \<open>
  C29: keys the operator set before the process started are never overwritten nor cleared,
  through any sequence of profile reloads with any overrides, failed ones included.
\<close>

theorem operator_env_preserved:
  assumes "snapshot_operator_keys env k"
  shows "l_env (fold (apply_step load tier) calls (import_loader env)) k = env k"
proof -
  have "\<forall>k. l_operator (import_loader env) k \<longrightarrow>
      l_env (fold (apply_step load tier) calls (import_loader env)) k = l_env (import_loader env) k"
    using reloads.run_inv [of "import_loader env" "import_loader env" load tier calls] by simp
  then show ?thesis using assms by (simp add: import_loader_def)
qed

text \<open>
  C30: a successful apply establishes exactly the environment the profile asks for: operator
  keys as they were, every other key of the profile (expanded block, derived names,
  overrides) at its value, keys only the previous profile had written gone, all else
  untouched; the bookkeeping lists the keys written; and a critical key the operator owns
  agrees with the profile.
\<close>

theorem apply_profile_reconciles:
  assumes "apply_profile load tier (Some ref) ov s = (Inr p', s')" "ref \<noteq> []" "load ref = Some (p, stem)"
  shows "(\<forall>k. l_env s' k =
     (if l_operator s k then l_env s k
      else case map_of (desired_env (l_env s) p stem ov) k of
             Some v \<Rightarrow> Some v
           | None \<Rightarrow> if k \<in> set (l_applied s) then None else l_env s k)) \<and>
     set (l_applied s') = {k. k \<in> fst ` set (desired_env (l_env s) p stem ov) \<and> \<not> l_operator s k} \<and>
     (\<forall>k \<in> set critical_keys. \<forall>v. map_of (desired_env (l_env s) p stem ov) k = Some v \<longrightarrow> l_env s' k = Some v) \<and>
     p' = p \<and> l_current s' = p"
proof -
  have r: "reconcile p stem ov s = (Inr p', s')"
    using assms by (simp add: apply_profile_def chosen_ref_def)
  note ok = reconcile_ok [OF r]
  have "l_env s' k = Some v" if "k \<in> set critical_keys" "map_of (desired_env (l_env s) p stem ov) k = Some v" for k v
    using that ok(1) [of k] ok(6) [OF map_of_SomeD [OF that(2)] _ that(1)] by auto
  then show ?thesis using ok by auto
qed

text \<open>
  Switching profiles leaves no trace of the first one: if the second profile's values
  contain no variable reference, then applying A and then B gives on every key the
  environment B alone would give, except on keys A overwrote that B does not set and that
  the process had set outside the operator prefixes (those are cleared, not restored).
\<close>

theorem profile_switch_history_free:
  assumes "reconcile pa stem_a ova s = (Inr pa', sa)" "reconcile pb stem_b ovb sa = (Inr pb', sab)"
    and "reconcile pb stem_b ovb s = (Inr pb'', sb)"
    and "l_applied s = []" "literal_block pb"
  shows "l_applied sab = l_applied sb \<and> l_current sab = l_current sb \<and>
     (\<forall>k. l_env sab k = l_env sb k \<or>
        k \<in> set (l_applied sa) \<and> k \<notin> set (l_applied sb) \<and> l_env s k \<noteq> None \<and> l_env sab k = None)"
proof -
  note a = reconcile_ok [OF assms(1)]
  note b = reconcile_ok [OF assms(2)]
  note c = reconcile_ok [OF assms(3)]
  obtain m where m: "m = desired_env (l_env s) pb stem_b ovb" by blast
  have m': "desired_env (l_env sa) pb stem_b ovb = m" unfolding m by (rule desired_env_literal [OF assms(5)])
  have keys: "k \<in> set (l_applied sb) \<longleftrightarrow> map_of m k \<noteq> None \<and> \<not> l_operator s k" for k
    using c(5) by (auto simp: map_of_eq_None_iff simp flip: m)
  have keysa: "k \<in> set (l_applied sa) \<longleftrightarrow> map_of (desired_env (l_env s) pa stem_a ova) k \<noteq> None \<and> \<not> l_operator s k" for k
    using a(5) by (auto simp: map_of_eq_None_iff)
  have "l_env sab k = l_env sb k \<or>
        k \<in> set (l_applied sa) \<and> k \<notin> set (l_applied sb) \<and> l_env s k \<noteq> None \<and> l_env sab k = None" for k
    using a(1) [of k] b(1) [of k] c(1) [of k] keys [of k] keysa [of k] assms(4)
    unfolding m' a(3) m [symmetric] by (cases "l_operator s k"; cases "map_of m k"; auto split: option.splits)
  then show ?thesis using b c a(3) m' by (simp flip: m)
qed

section \<open>Concrete runs\<close>

definition profile_a :: profile where
  "profile_a = \<lparr>p_top = [(''name'', PStr ''a'')], p_env = [(''TTS_ROOT'', PStr ''/a''), (''TTS_BACKEND'', PStr ''kokoro'')],
     p_engines = []\<rparr>"

definition profile_b :: profile where
  "profile_b = \<lparr>p_top = [(''name'', PStr ''b'')], p_env = [(''ASR_DIR'', PStr ''/b'')], p_engines = []\<rparr>"

text \<open>B refers to a variable only A defines.\<close>

definition profile_c :: profile where
  "profile_c = \<lparr>p_top = [(''name'', PStr ''c'')], p_env = [(''TTS_DIR'', PStr ''${TTS_ROOT}/x'')], p_engines = []\<rparr>"

definition demo_load :: "string \<Rightarrow> (profile \<times> string) option" where
  "demo_load ref = map_of [(''a'', (profile_a, ''a'')), (''b'', (profile_b, ''b'')), (''c'', (profile_c, ''c''))] ref"

lemmas loader_run = apply_profile_def chosen_ref_def demo_load_def reconcile_def desired_env_def Let_def
  profile_a_def profile_b_def profile_c_def update_all_def profile_name_def derive_tts_model_id_def dget_def
  expand_with_profile_env_def profile_strings_def safe_substitute.simps(2) starts_with_def ident_prefix_def
  id_start_def id_char_def is_digit_def digit_val_def import_loader_def clear_stale_def critical_keys_def
  snapshot_operator_keys_def operator_prefixes_def empty_profile_def apply_step_def

theorem operator_env_preserved_witness:
  "l_env (fold (apply_step demo_load ''unknown'') [(Some ''a'', []), (Some ''b'', [])]
     (import_loader [''TTS_ROOT'' \<mapsto> ''/mine''])) ''TTS_ROOT'' = Some ''/mine''"
proof -
  have "snapshot_operator_keys [''TTS_ROOT'' \<mapsto> ''/mine''] ''TTS_ROOT''"
    by (simp add: snapshot_operator_keys_def operator_prefixes_def starts_with_def)
  from operator_env_preserved [OF this, of demo_load "''unknown''" "[(Some ''a'', []), (Some ''b'', [])]"]
  show ?thesis by (simp only: fun_upd_same)
qed

theorem apply_profile_reconciles_witness:
  "\<exists>s'. apply_profile demo_load ''unknown'' (Some ''b'') [] (import_loader Map.empty) = (Inr profile_b, s') \<and>
     l_current s' = profile_b \<and> l_env s' ''ASR_DIR'' = Some ''/b''"
proof -
  have "fst (apply_profile demo_load ''unknown'' (Some ''b'') [] (import_loader Map.empty)) = Inr profile_b"
    by (simp add: loader_run)
  then obtain s' where r: "apply_profile demo_load ''unknown'' (Some ''b'') [] (import_loader Map.empty) = (Inr profile_b, s')"
    by (metis prod.collapse)
  have l: "demo_load ''b'' = Some (profile_b, ''b'')" by (simp add: demo_load_def)
  have d: "map_of (desired_env (l_env (import_loader Map.empty)) profile_b ''b'' []) ''ASR_DIR'' = Some ''/b''"
    "\<not> l_operator (import_loader Map.empty) ''ASR_DIR''"
    by (simp_all add: loader_run)
  have "(''b'' :: string) \<noteq> []" by simp
  from apply_profile_reconciles [OF r this l] r d show ?thesis by auto
qed

theorem profile_switch_history_free_witness:
  "\<exists>sa sab sb. reconcile profile_a ''a'' [] (import_loader Map.empty) = (Inr profile_a, sa) \<and>
     reconcile profile_b ''b'' [] sa = (Inr profile_b, sab) \<and> reconcile profile_b ''b'' [] (import_loader Map.empty) = (Inr profile_b, sb) \<and>
     (\<forall>k. l_env sab k = l_env sb k)"
proof -
  let ?s = "import_loader Map.empty"
  let ?sa = "snd (reconcile profile_a ''a'' [] ?s)"
  have a: "fst (reconcile profile_a ''a'' [] ?s) = Inr profile_a"
    "fst (reconcile profile_b ''b'' [] ?s) = Inr profile_b"
    "fst (reconcile profile_b ''b'' [] ?sa) = Inr profile_b"
    by (simp_all add: loader_run)
  then obtain sa sab sb where r: "reconcile profile_a ''a'' [] ?s = (Inr profile_a, sa)"
    "reconcile profile_b ''b'' [] sa = (Inr profile_b, sab)" "reconcile profile_b ''b'' [] ?s = (Inr profile_b, sb)"
    by (metis prod.collapse)
  have l: "l_applied ?s = []" "literal_block profile_b" "\<And>k. l_env ?s k = None"
    by (simp_all add: import_loader_def literal_block_def profile_b_def)
  from profile_switch_history_free [OF r l(1,2)] l(3) have "\<forall>k. l_env sab k = l_env sb k" by auto
  then show ?thesis using r by blast
qed

text \<open>
  Without that condition the switch does leak: values are expanded against the process
  environment before the previous profile's keys are cleared from it. Profile c refers to a
  variable that only profile a defines; applied first it keeps the reference as written,
  applied after a it takes a's value, although that variable is then cleared.
\<close>

theorem stale_profile_value_leaks:
  "l_env (fold (apply_step demo_load ''unknown'') [(Some ''c'', [])] (import_loader Map.empty)) ''TTS_DIR''
     = Some ''${TTS_ROOT}/x'' \<and>
   (let s = fold (apply_step demo_load ''unknown'') [(Some ''a'', []), (Some ''c'', [])] (import_loader Map.empty)
    in l_env s ''TTS_DIR'' = Some ''/a/x'' \<and> l_env s ''TTS_ROOT'' = None)"
  by (simp add: loader_run)

text \<open>
  A reload that stops at a conflicting critical key is not undone: the keys written
  before the conflict stay in the environment without being recorded, so re-applying the
  previous profile, which is how the backend manager rolls back, does not remove them.
\<close>

theorem failed_reload_pollutes:
  "let s0 = import_loader [''TTS_BACKEND'' \<mapsto> ''matcha''];
       s1 = apply_step demo_load ''unknown'' (Some ''b'', []) s0;
       (r, s2) = apply_profile demo_load ''unknown'' (Some ''a'') [] s1;
       s3 = apply_step demo_load ''unknown'' (Some ''b'', []) s2
   in r = Inl (OperatorConflict ''TTS_BACKEND'' ''kokoro'' (Some ''matcha'')) \<and>
      l_env s1 ''TTS_ROOT'' = None \<and> l_env s3 ''TTS_ROOT'' = Some ''/a'' \<and> l_current s3 = profile_b"
  by (simp add: loader_run)
end
