(* ===== verification/Backend_Manager.thy ===== *)
theory Backend_Manager
  imports Profile_Loader
begin

text \<open>
  The owner of one backend kind, \<open>app/core/backend_manager.py\<close>: start, shutdown, request
  gating and the hot reload with its drain and rollback. Its state lock is never held
  across a suspension, so the coroutines interleave only where a reload awaits: while it
  closes the WebSockets and while it drains. The model splits \<open>reload\<close> there. Factory,
  preloader and unloader are arguments of the class; a build carries their outcome. The
  profile loader is the one of Profile_Loader, shared by both managers.
\<close>

section \<open>State\<close>

datatype backend_state = INIT | READY | DRAINING | RELOADING | FAILED

text \<open>A backend instance: its number, whether it supports hot reload, and the profile and the
  environment it was built under.\<close>

record backend =
  bk_id :: nat
  bk_hot :: bool
  bk_profile :: profile
  bk_env :: environ

text \<open>What \<open>reload\<close> keeps in local variables while it awaits.\<close>

record reload_frame =
  rf_ref :: "string option"
  rf_old :: backend
  rf_old_ref :: "string option"
  rf_ws_closed :: bool

record backend_manager =
  bm_name :: string
  bm_state :: backend_state
  bm_current :: "backend option"
  bm_inflight :: "backend list"
  bm_initial_ref :: "string option"
  bm_last_ref :: "string option"
  bm_ws :: "nat list"
  bm_reload :: "reload_frame option"
  bm_next_id :: nat
  bm_unloaded :: "nat list"
  bm_ws_closed :: "nat list"

text \<open>\<open>__init__\<close>; \<open>None\<close> is the ValueError.\<close>

definition new_backend_manager :: "string \<Rightarrow> string option \<Rightarrow> backend_manager option" where
  "new_backend_manager name initial_ref =
     (if name \<notin> {''tts'', ''asr''} then None
      else Some \<lparr>bm_name = name, bm_state = INIT, bm_current = None, bm_inflight = [], bm_initial_ref = initial_ref,
             bm_last_ref = None, bm_ws = [], bm_reload = None, bm_next_id = 0, bm_unloaded = [], bm_ws_closed = []\<rparr>)"

datatype http_error =
    BackendUnavailable backend_state
  | ReloadInProgress
  | BackendNotReady backend_state
  | HotReloadNotSupported
  | InvalidProfile
  | ArtifactsMissing "(string \<times> string) list"
  | ReloadAndRollbackFailed

section \<open>Building and unloading\<close>

text \<open>The outcome of a factory call and of the preload after it, and the new instance's hot
  reload flag.\<close>

record build_outcome =
  bo_factory_ok :: bool
  bo_preload_ok :: bool
  bo_hot :: bool

text \<open>\<open>factory(); preloader(b)\<close>: \<open>Inl\<close> is a raise, with the instance when it was the preload
  that raised.\<close>

definition build :: "build_outcome \<Rightarrow> loader \<Rightarrow> backend_manager \<Rightarrow> (backend option + backend) \<times> backend_manager" where
  "build bo ld m =
     (if \<not> bo_factory_ok bo then (Inl None, m)
      else (let b = \<lparr>bk_id = bm_next_id m, bk_hot = bo_hot bo, bk_profile = l_current ld, bk_env = l_env ld\<rparr>;
                m1 = m\<lparr>bm_next_id := bm_next_id m + 1\<rparr>
            in if bo_preload_ok bo then (Inr b, m1) else (Inl (Some b), m1)))"

text \<open>The unloader runs under \<open>except: log\<close>.\<close>

definition unload :: "backend \<Rightarrow> backend_manager \<Rightarrow> backend_manager" where
  "unload b m = m\<lparr>bm_unloaded := bk_id b # bm_unloaded m\<rparr>"

section \<open>Lifecycle\<close>

datatype start_result = Started | StartedTwice | StartFailed

definition start :: "build_outcome \<Rightarrow> loader \<Rightarrow> backend_manager \<Rightarrow> start_result \<times> backend_manager" where
  "start bo ld m =
     (if bm_state m \<noteq> INIT then (StartedTwice, m)
      else (case build bo ld m of
              (Inl _, m1) \<Rightarrow> (StartFailed, m1\<lparr>bm_state := FAILED\<rparr>)
            | (Inr b, m1) \<Rightarrow>
                (Started, m1\<lparr>bm_current := Some b,
                   bm_last_ref := (if bm_initial_ref m1 \<noteq> None \<and> bm_last_ref m1 = None then bm_initial_ref m1 else bm_last_ref m1),
                   bm_state := READY\<rparr>)))"

definition shutdown :: "backend_manager \<Rightarrow> backend_manager" where
  "shutdown m =
     (let m1 = m\<lparr>bm_state := DRAINING\<rparr>;
          m2 = (case bm_current m1 of None \<Rightarrow> m1 | Some b \<Rightarrow> unload b m1)
      in m2\<lparr>bm_current := None, bm_state := FAILED\<rparr>)"

definition is_ready :: "backend_manager \<Rightarrow> bool" where
  "is_ready m = (bm_state m = READY \<and> bm_current m \<noteq> None)"

definition get_backend_unsafe :: "backend_manager \<Rightarrow> http_error + backend" where
  "get_backend_unsafe m =
     (case bm_current m of
        Some b \<Rightarrow> if bm_state m \<noteq> READY then Inl (BackendUnavailable (bm_state m)) else Inr b
      | None \<Rightarrow> Inl (BackendUnavailable (bm_state m)))"

section \<open>Request gating\<close>

text \<open>Entering and leaving \<open>acquire\<close>. The counter is the length of the list of requests
  inside, each with the backend it was given.\<close>

definition acquire :: "backend_manager \<Rightarrow> (http_error + backend) \<times> backend_manager" where
  "acquire m =
     (case bm_current m of
        Some b \<Rightarrow>
          if bm_state m \<noteq> READY then (Inl (BackendUnavailable (bm_state m)), m)
          else (Inr b, m\<lparr>bm_inflight := bm_inflight m @ [b]\<rparr>)
      | None \<Rightarrow> (Inl (BackendUnavailable (bm_state m)), m))"

definition release_request :: "nat \<Rightarrow> backend_manager \<Rightarrow> backend_manager" where
  "release_request i m = m\<lparr>bm_inflight := drop_nth i (bm_inflight m)\<rparr>"

definition register_ws :: "nat \<Rightarrow> backend_manager \<Rightarrow> backend_manager" where
  "register_ws h m = (if h \<in> set (bm_ws m) then m else m\<lparr>bm_ws := h # bm_ws m\<rparr>)"

definition unregister_ws :: "nat \<Rightarrow> backend_manager \<Rightarrow> backend_manager" where
  "unregister_ws h m = m\<lparr>bm_ws := removeAll h (bm_ws m)\<rparr>"

definition force_close_ws_sessions :: "backend_manager \<Rightarrow> backend_manager" where
  "force_close_ws_sessions m = m\<lparr>bm_ws_closed := bm_ws m @ bm_ws_closed m\<rparr>"

section \<open>Reload\<close>

text \<open>Up to the first await: preconditions, snapshot, validation, then \<open>DRAINING\<close>.\<close>

definition old_profile_ref :: "loader \<Rightarrow> backend_manager \<Rightarrow> string option" where
  "old_profile_ref ld m =
     (case bm_last_ref m of
        Some r \<Rightarrow> if r \<noteq> [] then Some r else
          (case dget (p_top (l_current ld)) ''name'' of PNone \<Rightarrow> None | v \<Rightarrow> Some (py_str v))
      | None \<Rightarrow> (case dget (p_top (l_current ld)) ''name'' of PNone \<Rightarrow> None | v \<Rightarrow> Some (py_str v)))"

definition validate_profile ::
  "(string \<Rightarrow> (profile \<times> string) option) \<Rightarrow> (string \<Rightarrow> bool) \<Rightarrow> string option \<Rightarrow> loader \<Rightarrow> http_error option" where
  "validate_profile load path_exists profile_ref ld =
     (case profile_ref of
        None \<Rightarrow> None
      | Some ref \<Rightarrow>
         (case load ref of
            None \<Rightarrow> Some InvalidProfile
          | Some (p, stem) \<Rightarrow>
             (let missing = find_missing_artifacts (l_env ld) path_exists p in
              if missing \<noteq> [] then Some (ArtifactsMissing missing) else None)))"

definition reload_begin ::
  "(string \<Rightarrow> (profile \<times> string) option) \<Rightarrow> (string \<Rightarrow> bool) \<Rightarrow> string option \<Rightarrow> loader \<Rightarrow> backend_manager
    \<Rightarrow> http_error option \<times> backend_manager" where
  "reload_begin load path_exists profile_ref ld m =
     (if bm_reload m \<noteq> None then (Some ReloadInProgress, m)
      else (case bm_current m of
              None \<Rightarrow> (Some (BackendNotReady (bm_state m)), m)
            | Some old \<Rightarrow>
               (if bm_state m \<noteq> READY then (Some (BackendNotReady (bm_state m)), m)
                else if \<not> bk_hot old then (Some HotReloadNotSupported, m)
                else (case validate_profile load path_exists profile_ref ld of
                        Some e \<Rightarrow> (Some e, m)
                      | None \<Rightarrow>
                          (None, m\<lparr>bm_state := DRAINING,
                             bm_reload := Some \<lparr>rf_ref = profile_ref, rf_old = old,
                               rf_old_ref = old_profile_ref ld m, rf_ws_closed = False\<rparr>\<rparr>)))))"

text \<open>The WebSockets registered at that moment get their close and cancel.\<close>

definition reload_close_ws :: "backend_manager \<Rightarrow> backend_manager" where
  "reload_close_ws m =
     (case bm_reload m of
        None \<Rightarrow> m
      | Some f \<Rightarrow> if rf_ws_closed f then m
          else (force_close_ws_sessions m)\<lparr>bm_reload := Some (f\<lparr>rf_ws_closed := True\<rparr>)\<rparr>)"

text \<open>The build under the new profile (step 5).\<close>

definition swap ::
  "(string \<Rightarrow> (profile \<times> string) option) \<Rightarrow> string \<Rightarrow> string option \<Rightarrow> build_outcome \<Rightarrow> loader \<Rightarrow> backend_manager
    \<Rightarrow> (backend option + backend) \<times> loader \<times> backend_manager" where
  "swap load tier profile_ref bo ld m =
     (case (case profile_ref of
              None \<Rightarrow> (True, ld)
            | Some ref \<Rightarrow> (case apply_profile load tier (Some ref) [] ld of (r, ld1) \<Rightarrow> (case r of Inl _ \<Rightarrow> False | Inr _ \<Rightarrow> True, ld1))) of
        (False, ld1) \<Rightarrow> (Inl None, ld1, m)
      | (True, ld1) \<Rightarrow> (case build bo ld1 m of (r, m1) \<Rightarrow> (r, ld1, m1)))"

datatype reload_result = Reloaded bool | RolledBack | ReloadFailed

definition rollback ::
  "(string \<Rightarrow> (profile \<times> string) option) \<Rightarrow> string \<Rightarrow> reload_frame \<Rightarrow> build_outcome \<Rightarrow> loader \<Rightarrow> backend_manager
    \<Rightarrow> reload_result \<times> loader \<times> backend_manager" where
  "rollback load tier f bo ld m =
     (case swap load tier (if rf_ref f \<noteq> None then rf_old_ref f else None) bo ld m of
        (Inr restored, ld1, m1) \<Rightarrow> (RolledBack, ld1, m1\<lparr>bm_current := Some restored, bm_state := READY\<rparr>)
      | (Inl _, ld1, m1) \<Rightarrow> (ReloadFailed, ld1, m1\<lparr>bm_current := None, bm_state := FAILED\<rparr>))"

text \<open>From the end of the drain to the return, with the outcome of the new build and of the
  rollback's.\<close>

definition reload_finish ::
  "(string \<Rightarrow> (profile \<times> string) option) \<Rightarrow> string \<Rightarrow> bool \<Rightarrow> build_outcome \<Rightarrow> build_outcome \<Rightarrow> reload_frame
    \<Rightarrow> loader \<Rightarrow> backend_manager \<Rightarrow> reload_result \<times> loader \<times> backend_manager" where
  "reload_finish load tier drained o_new o_back f ld m =
     (let m1 = unload (rf_old f) (m\<lparr>bm_state := RELOADING, bm_current := None, bm_reload := None\<rparr>) in
      case swap load tier (rf_ref f) o_new ld m1 of
        (Inr b, ld1, m2) \<Rightarrow>
          (Reloaded drained, ld1,
           m2\<lparr>bm_current := Some b, bm_last_ref := (if rf_ref f \<noteq> None then rf_ref f else bm_last_ref m2), bm_state := READY\<rparr>)
      | (Inl partial, ld1, m2) \<Rightarrow>
          rollback load tier f o_back ld1 (case partial of None \<Rightarrow> m2 | Some b \<Rightarrow> unload b m2))"

section \<open>Interleavings of one manager\<close>

record managed =
  g_mgr :: backend_manager
  g_loader :: loader

datatype manager_event =
    Start build_outcome
  | Shutdown
  | AcquireRequest
  | ReleaseRequest nat
  | RegisterWs nat
  | UnregisterWs nat
  | ReloadCall "string option"
  | ReloadCloseWs
  | DrainDone build_outcome build_outcome
  | DrainTimeout build_outcome build_outcome

text \<open>The end of the drain is enabled when no request is inside, its timeout at any time
  after the WebSockets are closed.\<close>

definition end_drain ::
  "(string \<Rightarrow> (profile \<times> string) option) \<Rightarrow> string \<Rightarrow> bool \<Rightarrow> build_outcome \<Rightarrow> build_outcome \<Rightarrow> managed \<Rightarrow> managed" where
  "end_drain load tier drained o_new o_back s =
     (case bm_reload (g_mgr s) of
        None \<Rightarrow> s
      | Some f \<Rightarrow>
          if \<not> rf_ws_closed f \<or> (drained \<and> bm_inflight (g_mgr s) \<noteq> []) then s
          else (case reload_finish load tier drained o_new o_back f (g_loader s) (g_mgr s) of
                  (_, ld, m) \<Rightarrow> s\<lparr>g_mgr := m, g_loader := ld\<rparr>))"

fun manager_step ::
  "(string \<Rightarrow> (profile \<times> string) option) \<Rightarrow> string \<Rightarrow> (string \<Rightarrow> bool) \<Rightarrow> manager_event \<Rightarrow> managed \<Rightarrow> managed" where
  "manager_step load tier px (Start bo) s = s\<lparr>g_mgr := snd (start bo (g_loader s) (g_mgr s))\<rparr>"
| "manager_step load tier px Shutdown s = s\<lparr>g_mgr := shutdown (g_mgr s)\<rparr>"
| "manager_step load tier px AcquireRequest s = s\<lparr>g_mgr := snd (acquire (g_mgr s))\<rparr>"
| "manager_step load tier px (ReleaseRequest i) s = s\<lparr>g_mgr := release_request i (g_mgr s)\<rparr>"
| "manager_step load tier px (RegisterWs h) s = s\<lparr>g_mgr := register_ws h (g_mgr s)\<rparr>"
| "manager_step load tier px (UnregisterWs h) s = s\<lparr>g_mgr := unregister_ws h (g_mgr s)\<rparr>"
| "manager_step load tier px (ReloadCall ref) s = s\<lparr>g_mgr := snd (reload_begin load px ref (g_loader s) (g_mgr s))\<rparr>"
| "manager_step load tier px ReloadCloseWs s = s\<lparr>g_mgr := reload_close_ws (g_mgr s)\<rparr>"
| "manager_step load tier px (DrainDone o_new o_back) s = end_drain load tier True o_new o_back s"
| "manager_step load tier px (DrainTimeout o_new o_back) s = end_drain load tier False o_new o_back s"

section \<open>Invariant\<close>

text \<open>
  A ready manager serves an instance it built and has not unloaded; a reload under way has
  put the manager out of service; instances are numbered below the next number, and the one
  in service is younger than every unloaded one.
\<close>

definition manager_inv :: "backend_manager \<Rightarrow> bool" where
  "manager_inv m =
     (bm_state m \<noteq> RELOADING \<and>
      (bm_state m = READY \<longrightarrow> bm_current m \<noteq> None \<and> bm_reload m = None) \<and>
      (bm_state m = DRAINING \<longrightarrow> (\<exists>f. bm_reload m = Some f \<and> bm_current m = Some (rf_old f))) \<and>
      (bm_state m = INIT \<or> bm_state m = FAILED \<longrightarrow> bm_current m = None) \<and>
      (bm_state m = INIT \<longrightarrow> bm_reload m = None) \<and>
      (\<forall>b. bm_current m = Some b \<longrightarrow> bk_id b < bm_next_id m \<and> bk_id b \<notin> set (bm_unloaded m)) \<and>
      (\<forall>f. bm_reload m = Some f \<longrightarrow> bk_id (rf_old f) < bm_next_id m) \<and>
      (\<forall>i \<in> set (bm_unloaded m). i < bm_next_id m))"

lemma build_cases:
  obtains "build bo ld m = (Inl None, m)"
  | b where "build bo ld m = (Inl (Some b), m\<lparr>bm_next_id := bm_next_id m + 1\<rparr>)" "bk_id b = bm_next_id m"
  | b where "build bo ld m = (Inr b, m\<lparr>bm_next_id := bm_next_id m + 1\<rparr>)" "bk_id b = bm_next_id m"
      "bk_profile b = l_current ld" "bk_env b = l_env ld"
  by (cases "bo_factory_ok bo"; cases "bo_preload_ok bo") (auto simp: build_def Let_def)

lemma swap_cases:
  obtains ld1 where "swap load tier ref bo ld m = (Inl None, ld1, m)"
  | ld1 b where "swap load tier ref bo ld m = (Inl (Some b), ld1, m\<lparr>bm_next_id := bm_next_id m + 1\<rparr>)" "bk_id b = bm_next_id m"
  | ld1 b where "swap load tier ref bo ld m = (Inr b, ld1, m\<lparr>bm_next_id := bm_next_id m + 1\<rparr>)" "bk_id b = bm_next_id m"
      "bk_profile b = l_current ld1" "bk_env b = l_env ld1"
      "case ref of None \<Rightarrow> ld1 = ld | Some r \<Rightarrow> (\<exists>p. apply_profile load tier (Some r) [] ld = (Inr p, ld1))"
proof -
  have s: "swap load tier ref bo ld m = (Inl None, ld1, m) \<or>
     (\<exists>ld1. (case ref of None \<Rightarrow> ld1 = ld | Some r \<Rightarrow> (\<exists>p. apply_profile load tier (Some r) [] ld = (Inr p, ld1)))
        \<and> swap load tier ref bo ld m = (fst (build bo ld1 m), ld1, snd (build bo ld1 m)))"
    if "ld1 = (case ref of None \<Rightarrow> ld | Some r \<Rightarrow> snd (apply_profile load tier (Some r) [] ld))" for ld1
  proof (cases ref)
    case None
    then show ?thesis by (simp add: swap_def split: prod.split)
  next
    case (Some r)
    then show ?thesis
      using that by (cases "apply_profile load tier (Some r) [] ld"; cases "fst (apply_profile load tier (Some r) [] ld)")
        (simp_all add: swap_def split: prod.split)
  qed
  then consider ld1 where "swap load tier ref bo ld m = (Inl None, ld1, m)"
    | ld1 where "case ref of None \<Rightarrow> ld1 = ld | Some r \<Rightarrow> (\<exists>p. apply_profile load tier (Some r) [] ld = (Inr p, ld1))"
        "swap load tier ref bo ld m = (fst (build bo ld1 m), ld1, snd (build bo ld1 m))" by blast
  then show thesis
  proof cases
    case 1
    then show ?thesis using that(1) by blast
  next
    case (2 ld1)
    show ?thesis
      by (rule build_cases [of bo ld1 m]) (use 2 that in auto)
  qed
qed

text \<open>The loader after an attempt at a reference, successful or not.\<close>

definition attempted :: "(string \<Rightarrow> (profile \<times> string) option) \<Rightarrow> string \<Rightarrow> string option \<Rightarrow> loader \<Rightarrow> loader" where
  "attempted load tier ref ld = (case ref of None \<Rightarrow> ld | Some r \<Rightarrow> snd (apply_profile load tier (Some r) [] ld))"

lemma swap_loader: "fst (snd (swap load tier ref bo ld m)) = attempted load tier ref ld"
  by (auto simp: swap_def attempted_def split: option.split prod.split sum.split)

text \<open>What is left of the invariant once the drain is over and the old instance unloaded.\<close>

definition between_backends :: "backend_manager \<Rightarrow> bool" where
  "between_backends m = (bm_current m = None \<and> bm_reload m = None \<and> bm_state m = RELOADING \<and> (\<forall>i \<in> set (bm_unloaded m). i < bm_next_id m))"

lemma serve_inv:
  assumes "between_backends m" "bk_id b = bm_next_id m"
  shows "manager_inv (m\<lparr>bm_next_id := bm_next_id m + 1, bm_current := Some b, bm_state := READY\<rparr>)"
    "manager_inv (m\<lparr>bm_next_id := bm_next_id m + 1, bm_current := Some b, bm_last_ref := r, bm_state := READY\<rparr>)"
    "manager_inv (m\<lparr>bm_current := None, bm_state := FAILED\<rparr>)"
    "manager_inv (m\<lparr>bm_next_id := bm_next_id m + 1, bm_current := None, bm_state := FAILED\<rparr>)"
    "between_backends (unload b (m\<lparr>bm_next_id := bm_next_id m + 1\<rparr>))"
  using assms by (auto simp: manager_inv_def between_backends_def unload_def)

lemma rollback_inv:
  assumes "between_backends m"
  shows "case rollback load tier f bo ld m of (res, ld', m') \<Rightarrow>
      manager_inv m' \<and> bm_reload m' = None \<and> bm_last_ref m' = bm_last_ref m \<and> bm_inflight m' = bm_inflight m \<and>
      set (bm_unloaded m) \<subseteq> set (bm_unloaded m') \<and>
      ((res = RolledBack \<and> bm_state m' = READY \<and>
         (\<exists>b. bm_current m' = Some b \<and> bm_next_id m \<le> bk_id b \<and> bk_profile b = l_current ld' \<and> bk_env b = l_env ld') \<and>
         (case (if rf_ref f \<noteq> None then rf_old_ref f else None) of None \<Rightarrow> ld' = ld
          | Some r \<Rightarrow> (\<exists>p. apply_profile load tier (Some r) [] ld = (Inr p, ld'))))
       \<or> (res = ReloadFailed \<and> bm_state m' = FAILED \<and> bm_current m' = None))"
proof (rule swap_cases [of load tier "if rf_ref f \<noteq> None then rf_old_ref f else None" bo ld m], goal_cases)
  case (1 ld1)
  then show ?case using serve_inv(3) [OF assms, of "\<lparr>bk_id = bm_next_id m, bk_hot = True, bk_profile = p, bk_env = e\<rparr>" for p e] assms
    by (simp add: rollback_def between_backends_def)
next
  case (2 ld1 b)
  then show ?case using serve_inv(4) [OF assms, of b] assms by (simp add: rollback_def between_backends_def)
next
  case (3 ld1 b)
  then show ?case using serve_inv(1) [OF assms 3(2)] assms by (simp add: rollback_def between_backends_def)
qed

lemma reload_finish_spec:
  assumes "bk_id (rf_old f) < bm_next_id m" "\<forall>i \<in> set (bm_unloaded m). i < bm_next_id m"
    and "reload_finish load tier drained o_new o_back f ld m = (res, ld', m')"
  shows "manager_inv m' \<and> bm_reload m' = None \<and> bm_inflight m' = bm_inflight m \<and> bk_id (rf_old f) \<in> set (bm_unloaded m') \<and>
     (case res of
        Reloaded d \<Rightarrow> d = drained \<and> bm_state m' = READY \<and>
          (\<exists>b. bm_current m' = Some b \<and> bm_next_id m \<le> bk_id b \<and> bk_profile b = l_current ld' \<and> bk_env b = l_env ld') \<and>
          bm_last_ref m' = (if rf_ref f \<noteq> None then rf_ref f else bm_last_ref m) \<and>
          (case rf_ref f of None \<Rightarrow> ld' = ld | Some r \<Rightarrow> (\<exists>p. apply_profile load tier (Some r) [] ld = (Inr p, ld')))
      | RolledBack \<Rightarrow> bm_state m' = READY \<and>
          (\<exists>b. bm_current m' = Some b \<and> bm_next_id m \<le> bk_id b \<and> bk_profile b = l_current ld' \<and> bk_env b = l_env ld') \<and>
          bm_last_ref m' = bm_last_ref m \<and>
          (case (if rf_ref f \<noteq> None then rf_old_ref f else None) of None \<Rightarrow> ld' = attempted load tier (rf_ref f) ld
           | Some r \<Rightarrow> (\<exists>p. apply_profile load tier (Some r) [] (attempted load tier (rf_ref f) ld) = (Inr p, ld')))
      | ReloadFailed \<Rightarrow> bm_state m' = FAILED \<and> bm_current m' = None \<and> bm_last_ref m' = bm_last_ref m)"
proof -
  obtain m1 where m1: "m1 = unload (rf_old f) (m\<lparr>bm_state := RELOADING, bm_current := None, bm_reload := None\<rparr>)" by blast
  have b1: "between_backends m1" "bk_id (rf_old f) \<in> set (bm_unloaded m1)" "bm_next_id m1 = bm_next_id m"
    "bm_inflight m1 = bm_inflight m" "bm_last_ref m1 = bm_last_ref m"
    using assms(1,2) by (auto simp: m1 between_backends_def unload_def)
  have eq: "(case swap load tier (rf_ref f) o_new ld m1 of
        (Inr b, ld1, m2) \<Rightarrow>
          (Reloaded drained, ld1,
           m2\<lparr>bm_current := Some b, bm_last_ref := (if rf_ref f \<noteq> None then rf_ref f else bm_last_ref m2), bm_state := READY\<rparr>)
      | (Inl partial, ld1, m2) \<Rightarrow>
          rollback load tier f o_back ld1 (case partial of None \<Rightarrow> m2 | Some b \<Rightarrow> unload b m2)) = (res, ld', m')"
    using assms(3) unfolding reload_finish_def Let_def m1 .
  show ?thesis
  proof (rule swap_cases [of load tier "rf_ref f" o_new ld m1], goal_cases)
    case (1 ld1)
    have "rollback load tier f o_back ld1 m1 = (res, ld', m')" using eq unfolding 1 by simp
    moreover have "ld1 = attempted load tier (rf_ref f) ld" using swap_loader [of load tier "rf_ref f" o_new ld m1] 1 by simp
    ultimately show ?case
      using rollback_inv [OF b1(1), where load = load and tier = tier and f = f and bo = o_back and ld = ld1] b1 by (auto split: option.splits if_splits; blast)
  next
    case (2 ld1 b)
    let ?m2 = "unload b (m1\<lparr>bm_next_id := bm_next_id m1 + 1\<rparr>)"
    have "rollback load tier f o_back ld1 ?m2 = (res, ld', m')" using eq unfolding 2 by simp
    moreover have "between_backends ?m2" "set (bm_unloaded m1) \<subseteq> set (bm_unloaded ?m2)" "bm_next_id m1 \<le> bm_next_id ?m2"
      "bm_inflight ?m2 = bm_inflight m1" "bm_last_ref ?m2 = bm_last_ref m1"
      using serve_inv(5) [OF b1(1) 2(2)] by (auto simp: unload_def)
    moreover have "ld1 = attempted load tier (rf_ref f) ld" using swap_loader [of load tier "rf_ref f" o_new ld m1] 2 by simp
    ultimately show ?case
      using rollback_inv [where m = ?m2 and load = load and tier = tier and f = f and bo = o_back and ld = ld1] b1 by (auto split: option.splits if_splits; blast)
  next
    case (3 ld1 b)
    have r: "res = Reloaded drained" "ld' = ld1"
      "m' = m1\<lparr>bm_next_id := bm_next_id m1 + 1, bm_current := Some b,
               bm_last_ref := (if rf_ref f \<noteq> None then rf_ref f else bm_last_ref m1), bm_state := READY\<rparr>"
      using eq unfolding 3 by auto
    show ?case
      using serve_inv(2) [OF b1(1) 3(2)] b1 3 unfolding r by (simp add: between_backends_def)
  qed
qed

lemma manager_inv_fields:
  assumes "manager_inv m" "bm_state m' = bm_state m" "bm_current m' = bm_current m" "bm_reload m' = bm_reload m"
    "bm_next_id m' = bm_next_id m" "bm_unloaded m' = bm_unloaded m"
  shows "manager_inv m'"
  using assms by (simp add: manager_inv_def)

lemma start_inv: "manager_inv m \<Longrightarrow> manager_inv (snd (start bo ld m))"
  by (rule build_cases [of bo ld m]) (auto simp: start_def manager_inv_def)

lemma shutdown_inv: "manager_inv m \<Longrightarrow> manager_inv (shutdown m)"
  by (auto simp: shutdown_def Let_def unload_def manager_inv_def split: option.splits)

lemma acquire_inv: "manager_inv m \<Longrightarrow> manager_inv (snd (acquire m))"
  by (auto simp: acquire_def elim: manager_inv_fields split: option.split)

lemma reload_begin_inv: "manager_inv m \<Longrightarrow> manager_inv (snd (reload_begin load px ref ld m))"
  by (auto simp: reload_begin_def manager_inv_def split: option.splits)

lemma close_ws_inv: "manager_inv m \<Longrightarrow> manager_inv (reload_close_ws m)"
  by (auto simp: reload_close_ws_def force_close_ws_sessions_def manager_inv_def split: option.split)

lemma end_drain_inv:
  assumes "manager_inv (g_mgr s)"
  shows "manager_inv (g_mgr (end_drain load tier d o1 o2 s)) \<and>
     bm_inflight (g_mgr (end_drain load tier d o1 o2 s)) = bm_inflight (g_mgr s)"
proof (cases "bm_reload (g_mgr s)")
  case (Some f)
  obtain res ld m where r: "reload_finish load tier d o1 o2 f (g_loader s) (g_mgr s) = (res, ld, m)"
    by (metis prod_cases3)
  have "bk_id (rf_old f) < bm_next_id (g_mgr s)" "\<forall>i \<in> set (bm_unloaded (g_mgr s)). i < bm_next_id (g_mgr s)"
    using assms Some by (simp_all add: manager_inv_def)
  from reload_finish_spec [OF this r] show ?thesis using assms Some r by (simp add: end_drain_def)
qed (use assms in \<open>simp add: end_drain_def\<close>)

lemma manager_step_inv:
  assumes "manager_inv (g_mgr s)"
  shows "manager_inv (g_mgr (manager_step load tier px ev s))"
  using assms start_inv shutdown_inv acquire_inv reload_begin_inv close_ws_inv end_drain_inv
  by (cases ev) (auto simp: release_request_def register_ws_def unregister_ws_def elim: manager_inv_fields)

interpretation managers: step_system "manager_step load tier px" "\<lambda>s. manager_inv (g_mgr s)" for load tier px
  by unfold_locales (rule manager_step_inv)

lemma new_manager_inv: "new_backend_manager name ref = Some m \<Longrightarrow> manager_inv m"
  by (auto simp: new_backend_manager_def manager_inv_def split: if_splits)

text \<open>Requests and unloaded instances, as long as no drain times out.\<close>

fun orderly :: "manager_event \<Rightarrow> bool" where
  "orderly Shutdown = False"
| "orderly (DrainTimeout o1 o2) = False"
| "orderly _ = True"

definition requests_safe :: "managed \<Rightarrow> bool" where
  "requests_safe s = (manager_inv (g_mgr s) \<and> (\<forall>b \<in> set (bm_inflight (g_mgr s)). bk_id b \<notin> set (bm_unloaded (g_mgr s))))"

lemma acquire_safe:
  assumes "manager_inv m" "\<forall>b \<in> set (bm_inflight m). bk_id b \<notin> set (bm_unloaded m)"
  shows "\<forall>b \<in> set (bm_inflight (snd (acquire m))). bk_id b \<notin> set (bm_unloaded (snd (acquire m)))"
  using assms by (auto simp: acquire_def manager_inv_def split: option.split)

lemma start_frame: "bm_inflight (snd (start bo ld m)) = bm_inflight m" "bm_unloaded (snd (start bo ld m)) = bm_unloaded m"
  by (rule build_cases [of bo ld m]; simp add: start_def)+

lemma reload_begin_frame:
  "bm_inflight (snd (reload_begin load px ref ld m)) = bm_inflight m"
  "bm_unloaded (snd (reload_begin load px ref ld m)) = bm_unloaded m"
  by (auto simp: reload_begin_def split: option.split)

lemma close_ws_frame:
  "bm_inflight (reload_close_ws m) = bm_inflight m" "bm_unloaded (reload_close_ws m) = bm_unloaded m"
  by (auto simp: reload_close_ws_def force_close_ws_sessions_def split: option.split)

lemma requests_safe_step:
  assumes "requests_safe s" "orderly ev"
  shows "requests_safe (manager_step load tier px ev s)"
proof -
  have inv: "manager_inv (g_mgr s)" "\<forall>b \<in> set (bm_inflight (g_mgr s)). bk_id b \<notin> set (bm_unloaded (g_mgr s))"
    using assms(1) by (simp_all add: requests_safe_def)
  have inv': "manager_inv (g_mgr (manager_step load tier px ev s))" using inv(1) by (rule manager_step_inv)
  show ?thesis
  proof (cases ev)
    case (DrainDone o1 o2)
    have "bm_inflight (g_mgr (end_drain load tier True o1 o2 s)) = [] \<or> end_drain load tier True o1 o2 s = s"
      using end_drain_inv [OF inv(1), of load tier True o1 o2] by (auto simp: end_drain_def split: option.splits)
    then show ?thesis using inv inv' DrainDone assms(1) by (auto simp: requests_safe_def)
  next
    case (ReleaseRequest i)
    then show ?thesis
      using inv inv' set_drop_nth [of i "bm_inflight (g_mgr s)"] by (auto simp: requests_safe_def release_request_def)
  qed (use inv inv' assms(2) acquire_safe [OF inv] in
       \<open>auto simp: requests_safe_def start_frame reload_begin_frame close_ws_frame register_ws_def unregister_ws_def\<close>)
qed

lemma requests_safe_run:
  assumes "requests_safe s" "\<forall>ev \<in> set es. orderly ev"
  shows "requests_safe (fold (manager_step load tier px) es s)"
  using assms by (induction es arbitrary: s) (simp_all add: requests_safe_step del: manager_step.simps)

section \<open>The shared loader\<close>

definition keeps_operator :: "loader \<Rightarrow> loader \<Rightarrow> bool" where
  "keeps_operator ld ld' = (l_operator ld' = l_operator ld \<and> (\<forall>k. l_operator ld k \<longrightarrow> l_env ld' k = l_env ld k))"

lemma keeps_operator_refl [simp]: "keeps_operator ld ld"
  by (simp add: keeps_operator_def)

lemma keeps_operator_trans: "keeps_operator a b \<Longrightarrow> keeps_operator b c \<Longrightarrow> keeps_operator a c"
  by (simp add: keeps_operator_def)

lemma apply_keeps: "keeps_operator ld (snd (apply_profile load tier ref ov ld))"
  using apply_operator [of ld] apply_keeps_operator by (auto simp: keeps_operator_def)

lemma swap_keeps: "swap load tier ref bo ld m = (r, ld', m') \<Longrightarrow> keeps_operator ld ld'"
  using apply_keeps [of ld load tier ref "[]"]
  by (auto simp: swap_def split: option.splits prod.splits sum.splits bool.splits)

lemma rollback_keeps: "rollback load tier f bo ld m = (r, ld', m') \<Longrightarrow> keeps_operator ld ld'"
  using swap_keeps by (auto simp: rollback_def split: prod.splits sum.splits)

lemma reload_finish_keeps:
  "reload_finish load tier d o1 o2 f ld m = (r, ld', m') \<Longrightarrow> keeps_operator ld ld'"
  unfolding reload_finish_def Let_def
  by (auto split: prod.splits sum.splits dest: swap_keeps rollback_keeps intro: keeps_operator_trans)

lemma end_drain_keeps: "keeps_operator (g_loader s) (g_loader (end_drain load tier d o1 o2 s))"
  by (auto simp: end_drain_def split: option.splits prod.splits dest: reload_finish_keeps)

interpretation managed_loader: step_system "manager_step load tier px" "\<lambda>s. keeps_operator ld0 (g_loader s)"
  for load tier px ld0
proof
  fix s :: managed and ev
  assume "keeps_operator ld0 (g_loader s)"
  then show "keeps_operator ld0 (g_loader (manager_step load tier px ev s))"
    using end_drain_keeps keeps_operator_trans by (cases ev) auto
qed

section \<open>Properties\<close>

definition manage :: "backend_manager \<Rightarrow> loader \<Rightarrow> managed" where
  "manage m ld = \<lparr>g_mgr = m, g_loader = ld\<rparr>"

text \<open>
  C5: in every interleaving of requests, WebSockets, reloads, drains, failures and shutdown,
  the manager is ready exactly with an instance in service that it has not unloaded and with
  no reload under way; out of service (initial, failed) it holds none; and a coroutine never
  observes the reloading state, which starts and ends between two awaits.
\<close>

theorem manager_serves_live_backend:
  assumes "new_backend_manager name ref = Some m0"
  shows "let m = g_mgr (fold (manager_step load tier px) es (manage m0 ld)) in
     bm_state m \<noteq> RELOADING \<and>
     (bm_state m = READY \<longrightarrow> (\<exists>b. bm_current m = Some b \<and> bk_id b \<notin> set (bm_unloaded m)) \<and> bm_reload m = None) \<and>
     (bm_state m \<in> {INIT, FAILED} \<longrightarrow> bm_current m = None) \<and>
     (bm_state m = DRAINING \<longrightarrow> bm_reload m \<noteq> None)"
proof -
  have "manager_inv (g_mgr (manage m0 ld))" using new_manager_inv [OF assms] by (simp add: manage_def)
  then have "manager_inv (g_mgr (fold (manager_step load tier px) es (manage m0 ld)))"
    by (rule managers.run_inv)
  then show ?thesis by (auto simp: Let_def manager_inv_def)
qed

text \<open>
  While no drain times out and nobody shuts the manager down, a request never works on
  an unloaded backend: the instance a request was given stays loaded until it leaves, across
  any number of reloads and rollbacks.
\<close>

theorem no_request_on_unloaded_backend:
  assumes "new_backend_manager name ref = Some m0" "\<forall>ev \<in> set es. orderly ev"
  shows "let m = g_mgr (fold (manager_step load tier px) es (manage m0 ld)) in
     \<forall>b \<in> set (bm_inflight m). bk_id b \<notin> set (bm_unloaded m)"
proof -
  have "bm_inflight m0 = []" using assms(1) by (auto simp: new_backend_manager_def split: if_splits)
  then have "requests_safe (manage m0 ld)"
    using new_manager_inv [OF assms(1)] by (simp add: requests_safe_def manage_def)
  from requests_safe_run [OF this assms(2), of load tier px] show ?thesis
    by (simp add: requests_safe_def Let_def)
qed


text \<open>
  No reload, rollback or failure ever changes an environment key the operator owns.
\<close>

theorem reload_keeps_operator_env:
  assumes "snapshot_operator_keys env k"
  shows "l_env (g_loader (fold (manager_step load tier px) es (manage m (import_loader env)))) k = env k"
proof -
  have "keeps_operator (import_loader env) (g_loader (fold (manager_step load tier px) es (manage m (import_loader env))))"
    by (rule managed_loader.run_inv) (simp add: manage_def)
  then show ?thesis using assms by (simp add: keeps_operator_def import_loader_def)
qed

section \<open>Concrete runs\<close>

definition good_build :: build_outcome where
  "good_build = \<lparr>bo_factory_ok = True, bo_preload_ok = True, bo_hot = True\<rparr>"

definition bad_preload :: build_outcome where
  "bad_preload = \<lparr>bo_factory_ok = True, bo_preload_ok = False, bo_hot = True\<rparr>"

definition demo_manager :: backend_manager where
  "demo_manager = \<lparr>bm_name = ''tts'', bm_state = INIT, bm_current = None, bm_inflight = [], bm_initial_ref = None,
     bm_last_ref = None, bm_ws = [], bm_reload = None, bm_next_id = 0, bm_unloaded = [], bm_ws_closed = []\<rparr>"

lemma demo_manager_new: "new_backend_manager ''tts'' None = Some demo_manager"
  by (simp add: new_backend_manager_def demo_manager_def)

definition demo_reload :: "manager_event list" where
  "demo_reload = [Start good_build, AcquireRequest, ReloadCall None, ReloadCloseWs, DrainDone good_build good_build,
     ReleaseRequest 0, DrainDone good_build good_build]"

lemmas manager_run = demo_reload_def demo_manager_def manage_def good_build_def bad_preload_def start_def build_def Let_def
  acquire_def reload_begin_def validate_profile_def reload_close_ws_def force_close_ws_sessions_def end_drain_def
  reload_finish_def swap_def unload_def rollback_def release_request_def old_profile_ref_def drop_nth_def

lemma demo_reload_run:
  "let m = g_mgr (fold (manager_step demo_load ''unknown'' (\<lambda>_. True)) demo_reload (manage demo_manager ld)) in
     bm_state m = READY \<and> bm_unloaded m = [0] \<and> map_option bk_id (bm_current m) = Some 1 \<and> bm_inflight m = []"
  by (simp add: manager_run)

theorem manager_serves_live_backend_witness:
  "let m = g_mgr (fold (manager_step demo_load ''unknown'' (\<lambda>_. True)) demo_reload (manage demo_manager (import_loader Map.empty)))
   in bm_state m = READY \<and> (\<exists>b. bm_current m = Some b \<and> bk_id b \<notin> set (bm_unloaded m))"
  using manager_serves_live_backend [OF demo_manager_new, of demo_load "''unknown''" "\<lambda>_. True" demo_reload "import_loader Map.empty"]
    demo_reload_run [of "import_loader Map.empty"]
  unfolding Let_def by blast

theorem no_request_on_unloaded_backend_witness:
  "let m = g_mgr (fold (manager_step demo_load ''unknown'' (\<lambda>_. True)) (demo_reload @ [AcquireRequest])
       (manage demo_manager (import_loader Map.empty)))
   in \<forall>b \<in> set (bm_inflight m). bk_id b \<notin> set (bm_unloaded m)"
proof -
  have "\<forall>ev \<in> set (demo_reload @ [AcquireRequest]). orderly ev" by (simp add: demo_reload_def)
  from no_request_on_unloaded_backend [OF demo_manager_new this, of demo_load "''unknown''" "\<lambda>_. True" "import_loader Map.empty"]
  show ?thesis .
qed

theorem reload_keeps_operator_env_witness:
  "l_env (g_loader (fold (manager_step demo_load ''unknown'' (\<lambda>_. True)) demo_reload
     (manage demo_manager (import_loader [''TTS_ROOT'' \<mapsto> ''/mine''])))) ''TTS_ROOT'' = Some ''/mine''"
proof -
  have "snapshot_operator_keys [''TTS_ROOT'' \<mapsto> ''/mine''] ''TTS_ROOT''"
    by (simp add: snapshot_operator_keys_def operator_prefixes_def starts_with_def)
  from reload_keeps_operator_env [OF this, of demo_load "''unknown''" "\<lambda>_. True" demo_reload demo_manager]
  show ?thesis by (simp only: fun_upd_same)
qed

definition demo_draining :: backend_manager where
  "demo_draining = g_mgr (fold (manager_step demo_load ''unknown'' (\<lambda>_. True))
     [Start good_build, ReloadCall (Some ''b''), ReloadCloseWs] (manage demo_manager (import_loader Map.empty)))"

text \<open>The frame of the reload to profile b at that point.\<close>

definition demo_frame :: reload_frame where
  "demo_frame = \<lparr>rf_ref = Some ''b'', rf_old = \<lparr>bk_id = 0, bk_hot = True, bk_profile = empty_profile, bk_env = Map.empty\<rparr>,
     rf_old_ref = None, rf_ws_closed = True\<rparr>"



text \<open>
  A rollback without a remembered reference does not restore anything. When the process
  started without a profile and the first reload fails after its profile was applied, the
  manager reports "rolled back" and is ready, but on a backend built under the profile that
  just failed, whose environment stays applied.
\<close>

theorem rollback_without_reference_keeps_new_profile:
  "let (res, ld', m') = reload_finish demo_load ''unknown'' True bad_preload good_build demo_frame
       (import_loader Map.empty) demo_draining
   in res = RolledBack \<and> bm_state m' = READY \<and> map_option bk_profile (bm_current m') = Some profile_b \<and>
      l_current ld' = profile_b"
proof -
  have "fst (reconcile profile_b ''b'' [] (import_loader Map.empty)) = Inr profile_b" by (simp add: loader_run)
  then obtain ldb where r: "reconcile profile_b ''b'' [] (import_loader Map.empty) = (Inr profile_b, ldb)" by (metis prod.collapse)
  then have "apply_profile demo_load ''unknown'' (Some ''b'') [] (import_loader Map.empty) = (Inr profile_b, ldb)"
    by (simp add: apply_profile_def chosen_ref_def demo_load_def)
  then show ?thesis
    using reconcile_ok(4) [OF r]
    by (simp add: reload_finish_def swap_def demo_frame_def build_def good_build_def bad_preload_def Let_def rollback_def unload_def)
qed

end
