(* ===== verification/Gpu_Watchdog.thy ===== *)
theory Gpu_Watchdog
  imports Prelude Capability
begin

text \<open>
  The GPU health watchdog, \<open>app/core/gpu_watchdog.py\<close>: platform detection, the probe of each
  platform, the hysteresis that turns probe results into the cached health, and the task
  around it. The host is a record of observations (paths, programs on PATH, what a probe
  command does, what the optional CUDA bindings answer).
\<close>

section \<open>The host\<close>

datatype command_result = CmdTimeout | CmdNotFound | CmdCrashed | CmdExit int

text \<open>A device-count query of an optional binding: import or call raises, or a count.\<close>

datatype device_query = QueryRaises | DeviceCount nat

record host =
  h_env :: environ
  h_exists :: "string \<Rightarrow> bool"
  h_which :: "string \<Rightarrow> bool"
  h_run :: "string list \<Rightarrow> command_result"
  h_read :: "string \<Rightarrow> string option"
  h_devfreq :: "string list"
  h_pycuda :: device_query
  h_nvml :: device_query

definition run_command :: "host \<Rightarrow> string list \<Rightarrow> bool \<times> string" where
  "run_command h cmd =
     (case h_run h cmd of
        CmdTimeout \<Rightarrow> (False, ''probe_timeout'')
      | CmdNotFound \<Rightarrow> (False, ''probe_unavailable'')
      | CmdCrashed \<Rightarrow> (False, ''probe_failed'')
      | CmdExit code \<Rightarrow> if code \<noteq> 0 then (False, ''probe_failed'') else (True, ''ok''))"

text \<open>Seconds as a parsed number in milliseconds: \<open>to_float\<close> is \<open>float(raw)\<close>.\<close>

definition parse_interval :: "(string \<Rightarrow> int option) \<Rightarrow> environ \<Rightarrow> int" where
  "parse_interval to_float env =
     (case env ''OVS_GPU_WATCHDOG_INTERVAL_S'' of
        None \<Rightarrow> 5000
      | Some raw \<Rightarrow>
          if sstrip raw = [] then 5000
          else (case to_float raw of
                  None \<Rightarrow> 5000
                | Some v \<Rightarrow> if v < 1000 then 1000 else v))"

section \<open>Platform and probes\<close>

definition env_word :: "host \<Rightarrow> string \<Rightarrow> string" where
  "env_word h k = py_lower (sstrip (env_get (h_env h) k))"

definition detect_platform :: "host \<Rightarrow> string" where
  "detect_platform h =
     (if env_word h ''LANGUAGE_MODE'' = ''rk'' \<or> starts_with ''rk'' (env_word h ''RK_PLATFORM'')
         \<or> starts_with ''rk'' (env_word h ''ASR_PLATFORM'') then ''rk''
      else if h_exists h ''/sys/class/devfreq'' \<and> h_exists h ''/sys/kernel/debug/rknpu'' then ''rk''
      else if h_exists h ''/etc/nv_tegra_release'' then ''jetson''
      else if h_which h ''tegrastats'' then ''jetson''
      else if h_which h ''hailortcli'' then ''hailo''
      else if h_which h ''nvidia-smi'' then ''desktop_cuda''
      else ''cpu_only'')"

definition check_jetson :: "host \<Rightarrow> bool \<times> string" where
  "check_jetson h =
     (let (ok, reason) = (if h_which h ''tegrastats'' then run_command h [''tegrastats'', ''--interval'', ''1000'']
                          else (False, []))
      in if h_which h ''tegrastats'' \<and> (reason = ''probe_timeout'' \<or> ok) then (True, ''ok'')
         else if h_which h ''nvidia-smi'' then run_command h [''nvidia-smi'', ''-L'']
         else (case h_pycuda h of
                 DeviceCount n \<Rightarrow> if n > 0 then (True, ''ok'') else (False, ''probe_unavailable'')
               | QueryRaises \<Rightarrow> (False, ''probe_unavailable'')))"

text \<open>\<open>raw.lstrip(\<close>minus\<open>).isdigit()\<close>.\<close>

definition is_frequency :: "string \<Rightarrow> bool" where
  "is_frequency raw = (let d = dropWhile (\<lambda>c. c = CHR ''-'') raw in d \<noteq> [] \<and> list_all (\<lambda>c. digit_val c \<noteq> None) d)"

definition check_rk :: "host \<Rightarrow> bool \<times> string" where
  "check_rk h =
     (let load = (if h_exists h ''/sys/kernel/debug/rknpu/load'' then h_read h ''/sys/kernel/debug/rknpu/load'' else None)
      in if (case load of Some content \<Rightarrow> sstrip content \<noteq> [] | None \<Rightarrow> False) then (True, ''ok'')
         else if h_exists h ''/sys/class/devfreq''
              \<and> list_ex (\<lambda>entry. let cur = entry @ ''/cur_freq'' in h_exists h cur
                    \<and> (case h_read h cur of Some raw \<Rightarrow> is_frequency (sstrip raw) | None \<Rightarrow> False)) (h_devfreq h)
         then (True, ''ok'')
         else (False, ''probe_unavailable''))"

definition check_hailo :: "host \<Rightarrow> bool \<times> string" where
  "check_hailo h =
     (if \<not> h_which h ''hailortcli'' then (False, ''probe_unavailable'')
      else (let (ok, reason) = run_command h [''hailortcli'', ''fw-control'', ''identify'']
            in if ok then (True, ''ok'') else (False, reason)))"

definition check_desktop_cuda :: "host \<Rightarrow> bool \<times> string" where
  "check_desktop_cuda h =
     (case h_nvml h of
        DeviceCount n \<Rightarrow> if n > 0 then (True, ''ok'') else (False, ''probe_unavailable'')
      | QueryRaises \<Rightarrow>
          if h_which h ''nvidia-smi'' then run_command h [''nvidia-smi'', ''-L'']
          else (False, ''probe_unavailable''))"

definition check_cpu_only :: "host \<Rightarrow> bool \<times> string" where
  "check_cpu_only h = (True, ''cpu_only'')"

definition probes :: "string \<Rightarrow> (host \<Rightarrow> bool \<times> string) option" where
  "probes = map_of [(''jetson'', check_jetson), (''rk'', check_rk), (''hailo'', check_hailo),
     (''desktop_cuda'', check_desktop_cuda), (''cpu_only'', check_cpu_only)]"

definition check_once :: "host \<Rightarrow> string \<Rightarrow> bool \<times> string" where
  "check_once h platform = (case probes platform of Some fn \<Rightarrow> fn h | None \<Rightarrow> check_cpu_only h)"

section \<open>The cached status\<close>

record watchdog_status =
  wd_ok :: bool
  wd_platform :: string
  wd_reason :: string
  wd_failures :: nat
  wd_successes :: nat
  wd_checks_total :: nat
  wd_failures_total :: nat

definition initial_status :: watchdog_status where
  "initial_status = \<lparr>wd_ok = True, wd_platform = ''unknown'', wd_reason = ''ok'', wd_failures = 0, wd_successes = 0,
     wd_checks_total = 0, wd_failures_total = 0\<rparr>"

definition fail_threshold :: nat where
  "fail_threshold = 3"

definition recover_threshold :: nat where
  "recover_threshold = 5"

definition apply_check_result :: "bool \<times> string \<Rightarrow> watchdog_status \<Rightarrow> watchdog_status" where
  "apply_check_result r s =
     (let (ok, reason) = r; s0 = s\<lparr>wd_checks_total := wd_checks_total s + 1\<rparr> in
      if ok
      then (let s1 = s0\<lparr>wd_successes := wd_successes s0 + 1, wd_failures := 0\<rparr>
            in if \<not> wd_ok s1 \<and> wd_successes s1 \<ge> recover_threshold then s1\<lparr>wd_ok := True, wd_reason := ''ok''\<rparr> else s1)
      else (let s1 = s0\<lparr>wd_failures_total := wd_failures_total s0 + 1, wd_failures := wd_failures s0 + 1, wd_successes := 0\<rparr>;
                s2 = (if wd_ok s1 \<and> wd_failures s1 \<ge> fail_threshold then s1\<lparr>wd_ok := False, wd_reason := reason\<rparr> else s1)
            in if \<not> wd_ok s2 then s2\<lparr>wd_reason := reason\<rparr> else s2))"

section \<open>The task\<close>

text \<open>\<open>_run_loop\<close> up to its loop, and one iteration: \<open>None\<close> is an executor that raised. A raise
  outside an iteration ends the task through the crash guard.\<close>

definition run_loop_start :: "host \<Rightarrow> watchdog_status \<Rightarrow> watchdog_status" where
  "run_loop_start h s = s\<lparr>wd_platform := detect_platform h, wd_reason := ''ok''\<rparr>"

definition run_loop_iteration :: "host option \<Rightarrow> watchdog_status \<Rightarrow> watchdog_status" where
  "run_loop_iteration h s =
     (case h of
        Some h \<Rightarrow> apply_check_result (check_once h (wd_platform s)) s
      | None \<Rightarrow> apply_check_result (False, ''probe_failed'') s)"

definition task_crashed :: "watchdog_status \<Rightarrow> watchdog_status" where
  "task_crashed s = s\<lparr>wd_ok := False, wd_reason := ''watchdog_task_crashed''\<rparr>"

section \<open>Hysteresis\<close>

text \<open>The reference: the trailing run of a result in the history, newest first.\<close>

definition trailing :: "bool \<Rightarrow> bool list \<Rightarrow> nat" where
  "trailing b hist = length (takeWhile (\<lambda>x. x = b) hist)"

fun healthy_spec :: "bool list \<Rightarrow> bool" where
  "healthy_spec [] = True"
| "healthy_spec (x # hist) =
     (if healthy_spec hist then trailing False (x # hist) < 3 else trailing True (x # hist) \<ge> 5)"

lemma trailing_Cons [simp]:
  "trailing b (x # hist) = (if x = b then Suc (trailing b hist) else 0)"
  by (simp add: trailing_def)

lemma trailing_Nil [simp]: "trailing b [] = 0"
  by (simp add: trailing_def)

definition tracks :: "bool list \<Rightarrow> watchdog_status \<Rightarrow> bool" where
  "tracks hist s = (wd_ok s = healthy_spec hist \<and> wd_failures s = trailing False hist \<and> wd_successes s = trailing True hist \<and>
     wd_checks_total s = length hist \<and> wd_failures_total s = length (filter Not hist))"

lemma healthy_trailing: "healthy_spec hist \<Longrightarrow> trailing False hist < 3"
  by (induction hist) (auto split: if_splits)

lemma unhealthy_trailing: "\<not> healthy_spec hist \<Longrightarrow> trailing True hist < 5"
  by (induction hist) (auto split: if_splits)

lemma tracks_step:
  assumes "tracks hist s"
  shows "tracks (fst r # hist) (apply_check_result r s)"
  using assms healthy_trailing [of hist] unhealthy_trailing [of hist]
  by (cases r) (auto simp: tracks_def apply_check_result_def Let_def fail_threshold_def recover_threshold_def)

lemma tracks_run:
  "tracks hist s \<Longrightarrow> tracks (rev (map fst rs) @ hist) (fold apply_check_result rs s)"
proof (induction rs arbitrary: hist s)
  case (Cons r rs)
  from Cons.IH [OF tracks_step [OF Cons.prems, of r]] show ?case by simp
qed simp

text \<open>
  C39: the cached health follows the probe results with hysteresis. After any sequence of
  results it is the reference value: it turns bad exactly when the third failure in a row
  arrives while good, and good again exactly when the fifth success in a row arrives while
  bad, so one or two failed probes never take the service out and a flapping probe never
  brings it back; the run counters and totals are exact.
\<close>

theorem watchdog_hysteresis:
  "let s = fold apply_check_result rs initial_status; hist = rev (map fst rs) in
     wd_ok s = healthy_spec hist \<and> wd_failures s = trailing False hist \<and> wd_successes s = trailing True hist \<and>
     wd_checks_total s = length rs \<and> wd_failures_total s = length (filter Not (map fst rs))"
proof -
  have "tracks [] initial_status" by (simp add: tracks_def initial_status_def)
  from tracks_run [OF this, of rs] show ?thesis
    by (simp add: tracks_def Let_def flip: rev_filter)
qed

end
