(* ===== verification/Vad.thy ===== *)
theory Vad
  imports Prelude
begin

text \<open>
  Voice activity detection per connection, \<open>app/core/vad.py\<close>. The silero model (an ONNX
  session) and the webrtcvad classifier are third-party code: \<open>infer\<close> maps a window and the
  recurrent state to a probability and the next state, \<open>is_speech\<close> a frame to a flag. Samples
  are of any type, after the conversion to float32 or bytes; probabilities are of any
  linear order.
\<close>

section \<open>Speech and silence\<close>

datatype vad_event = SpeechStart | SpeechEnd

text \<open>The onset/offset logic both sessions share: in speech or not, and the silent steps.\<close>

record gate =
  gt_in_speech :: bool
  gt_silence :: int

definition gate_step :: "int \<Rightarrow> bool \<Rightarrow> gate \<Rightarrow> vad_event option \<times> gate" where
  "gate_step limit speech g =
     (if speech
      then (if \<not> gt_in_speech g then Some SpeechStart else None, g\<lparr>gt_in_speech := True, gt_silence := 0\<rparr>)
      else if gt_in_speech g
      then (if gt_silence g + 1 \<ge> limit then (Some SpeechEnd, g\<lparr>gt_in_speech := False, gt_silence := 0\<rparr>)
            else (None, g\<lparr>gt_silence := gt_silence g + 1\<rparr>))
      else (None, g))"

section \<open>Silero\<close>

record ('p, 'st, 'a) silero =
  sl_threshold :: 'p
  sl_limit :: int
  sl_model :: 'st
  sl_gate :: gate
  sl_leftover :: "'a list"

text \<open>\<open>__init__\<close>; \<open>None\<close> is the ValueError of another sample rate.\<close>

definition new_silero :: "int \<Rightarrow> 'p \<Rightarrow> int \<Rightarrow> 'st \<Rightarrow> ('p, 'st, 'a) silero option" where
  "new_silero sample_rate threshold silence_ms zero =
     (if sample_rate \<noteq> 16000 then None
      else Some \<lparr>sl_threshold = threshold, sl_limit = max 1 (silence_ms div 16), sl_model = zero,
                 sl_gate = \<lparr>gt_in_speech = False, gt_silence = 0\<rparr>, sl_leftover = []\<rparr>)"

definition window_16k :: nat where
  "window_16k = 256"

text \<open>The loop of \<open>process\<close>: \<open>event\<close> is overwritten by each transition.\<close>

function silero_loop ::
  "('a list \<Rightarrow> 'st \<Rightarrow> 'p::linorder \<times> 'st) \<Rightarrow> 'a list \<Rightarrow> vad_event option \<Rightarrow> ('p, 'st, 'a) silero
    \<Rightarrow> vad_event option \<times> ('p, 'st, 'a) silero" where
  "silero_loop infer buf event s =
     (if length buf < window_16k then (event, s\<lparr>sl_leftover := buf\<rparr>)
      else (let (prob, st) = infer (take window_16k buf) (sl_model s);
                (e, g) = gate_step (sl_limit s) (prob \<ge> sl_threshold s) (sl_gate s)
            in silero_loop infer (drop window_16k buf) (case e of None \<Rightarrow> event | Some _ \<Rightarrow> e)
                 (s\<lparr>sl_model := st, sl_gate := g\<rparr>)))"
  by pat_completeness auto
termination
  by (relation "measure (\<lambda>(_, buf, _, _). length buf)") (auto simp: window_16k_def)

declare silero_loop.simps [simp del]

definition silero_process ::
  "('a list \<Rightarrow> 'st \<Rightarrow> 'p::linorder \<times> 'st) \<Rightarrow> 'a list \<Rightarrow> ('p, 'st, 'a) silero \<Rightarrow> vad_event option \<times> ('p, 'st, 'a) silero" where
  "silero_process infer samples s = silero_loop infer (sl_leftover s @ samples) None s"

definition silero_reset :: "'st \<Rightarrow> ('p, 'st, 'a) silero \<Rightarrow> ('p, 'st, 'a) silero" where
  "silero_reset zero s =
     s\<lparr>sl_model := zero, sl_gate := \<lparr>gt_in_speech = False, gt_silence = 0\<rparr>, sl_leftover := []\<rparr>"

section \<open>webrtcvad\<close>

record 'a webrtc =
  wr_rate :: int
  wr_frame :: nat
  wr_limit :: int
  wr_gate :: gate
  wr_leftover :: "'a list"

definition new_webrtc :: "int \<Rightarrow> int \<Rightarrow> 'a webrtc" where
  "new_webrtc sample_rate silence_ms =
     \<lparr>wr_rate = sample_rate, wr_frame = nat (sample_rate * 60 div 1000), wr_limit = max 1 (silence_ms div 30),
      wr_gate = \<lparr>gt_in_speech = False, gt_silence = 0\<rparr>, wr_leftover = []\<rparr>"

text \<open>A sample rate too low for a whole frame makes the library raise, here the loop stop.\<close>

function webrtc_loop ::
  "('a list \<Rightarrow> int \<Rightarrow> bool) \<Rightarrow> 'a list \<Rightarrow> vad_event option \<Rightarrow> 'a webrtc \<Rightarrow> vad_event option \<times> 'a webrtc" where
  "webrtc_loop is_speech buf event s =
     (if length buf < wr_frame s \<or> wr_frame s = 0 then (event, s\<lparr>wr_leftover := buf\<rparr>)
      else (let (e, g) = gate_step (wr_limit s) (is_speech (take (wr_frame s) buf) (wr_rate s)) (wr_gate s)
            in webrtc_loop is_speech (drop (wr_frame s) buf) (case e of None \<Rightarrow> event | Some _ \<Rightarrow> e)
                 (s\<lparr>wr_gate := g\<rparr>)))"
  by pat_completeness auto
termination
  by (relation "measure (\<lambda>(_, buf, _, _). length buf)") auto

declare webrtc_loop.simps [simp del]

definition webrtc_process :: "('a list \<Rightarrow> int \<Rightarrow> bool) \<Rightarrow> 'a list \<Rightarrow> 'a webrtc \<Rightarrow> vad_event option \<times> 'a webrtc" where
  "webrtc_process is_speech bytes s = webrtc_loop is_speech (wr_leftover s @ bytes) None s"

definition webrtc_reset :: "'a webrtc \<Rightarrow> 'a webrtc" where
  "webrtc_reset s = s\<lparr>wr_gate := \<lparr>gt_in_speech = False, gt_silence = 0\<rparr>, wr_leftover := []\<rparr>"

section \<open>The factory\<close>

datatype vad_kind = NoVad | Silero | WebRtc | UnknownVad

definition create_vad :: "string option \<Rightarrow> vad_kind" where
  "create_vad backend =
     (case backend of
        None \<Rightarrow> NoVad
      | Some b \<Rightarrow>
          if b \<in> {[], ''none'', ''off'', ''disabled''} then NoVad
          else if b = ''silero'' then Silero
          else if b \<in> {''webrtc'', ''webrtcvad''} then WebRtc
          else UnknownVad)"

section \<open>Chunking\<close>

text \<open>Every transition of a silero session, not only the last of each call.\<close>

fun option_list :: "'a option \<Rightarrow> 'a list" where
  "option_list None = []"
| "option_list (Some x) = [x]"

function silero_trace ::
  "('a list \<Rightarrow> 'st \<Rightarrow> 'p::linorder \<times> 'st) \<Rightarrow> 'a list \<Rightarrow> ('p, 'st, 'a) silero \<Rightarrow> vad_event list \<times> ('p, 'st, 'a) silero" where
  "silero_trace infer buf s =
     (if length buf < window_16k then ([], s\<lparr>sl_leftover := buf\<rparr>)
      else (let (prob, st) = infer (take window_16k buf) (sl_model s);
                (e, g) = gate_step (sl_limit s) (prob \<ge> sl_threshold s) (sl_gate s);
                (rest, s') = silero_trace infer (drop window_16k buf) (s\<lparr>sl_model := st, sl_gate := g\<rparr>)
            in (option_list e @ rest, s')))"
  by pat_completeness auto
termination
  by (relation "measure (\<lambda>(_, buf, _). length buf)") (auto simp: window_16k_def)

declare silero_trace.simps [simp del]

definition last_event :: "vad_event option \<Rightarrow> vad_event list \<Rightarrow> vad_event option" where
  "last_event e es = (if es = [] then e else Some (last es))"

lemma loop_trace:
  "silero_loop infer buf event s = (last_event event (fst (silero_trace infer buf s)), snd (silero_trace infer buf s))"
proof (induction infer buf event s rule: silero_loop.induct)
  case (1 infer buf event s)
  show ?case
  proof (cases "length buf < window_16k")
    case True
    then show ?thesis
      by (simp add: silero_loop.simps [of infer buf] silero_trace.simps [of infer buf] last_event_def)
  next
    case False
    obtain prob st where i: "infer (take window_16k buf) (sl_model s) = (prob, st)" by fastforce
    obtain e g where gs: "gate_step (sl_limit s) (prob \<ge> sl_threshold s) (sl_gate s) = (e, g)" by fastforce
    note IH = 1 [OF False i [symmetric] refl gs [symmetric] refl]
    show ?thesis
      using False i gs IH
      by (cases e) (auto simp: silero_loop.simps [of infer buf] silero_trace.simps [of infer buf] last_event_def
          split: prod.split)
  qed
qed

lemma trace_leftover: "silero_trace infer buf (s\<lparr>sl_leftover := x\<rparr>) = silero_trace infer buf s"
proof (induction infer buf s arbitrary: x rule: silero_trace.induct)
  case (1 infer buf s)
  show ?case
  proof (cases "length buf < window_16k")
    case False
    obtain prob st where i: "infer (take window_16k buf) (sl_model s) = (prob, st)" by fastforce
    obtain e g where gs: "gate_step (sl_limit s) (prob \<ge> sl_threshold s) (sl_gate s) = (e, g)" by fastforce
    have swap: "s\<lparr>sl_leftover := x, sl_model := st, sl_gate := g\<rparr> = s\<lparr>sl_model := st, sl_gate := g, sl_leftover := x\<rparr>"
      by simp
    show ?thesis
      using False i gs 1 [OF False i [symmetric] refl gs [symmetric] refl, of x]
      by (simp add: silero_trace.simps [of infer buf] swap)
  qed (simp add: silero_trace.simps [of infer buf])
qed

text \<open>Running on more input is running on the first part and then on its leftover.\<close>

lemma trace_append:
  "silero_trace infer (buf @ extra) s =
     (let (es, s1) = silero_trace infer buf s; (es', s2) = silero_trace infer (sl_leftover s1 @ extra) s1 in (es @ es', s2))"
proof (induction infer buf s rule: silero_trace.induct)
  case (1 infer buf s)
  show ?case
  proof (cases "length buf < window_16k")
    case True
    show ?thesis using True by (simp add: silero_trace.simps [of infer buf] trace_leftover split: prod.split)
  next
    case False
    obtain prob st where i: "infer (take window_16k buf) (sl_model s) = (prob, st)" by fastforce
    obtain e g where gs: "gate_step (sl_limit s) (prob \<ge> sl_threshold s) (sl_gate s) = (e, g)" by fastforce
    note IH = 1 [OF False i [symmetric] refl gs [symmetric] refl]
    show ?thesis
      using False i gs IH
      by (simp add: silero_trace.simps [of infer buf] silero_trace.simps [of infer "buf @ extra"] split: prod.split)
  qed
qed

fun alternates :: "bool \<Rightarrow> vad_event list \<Rightarrow> bool" where
  "alternates speaking [] = True"
| "alternates speaking (e # es) = (e = (if speaking then SpeechEnd else SpeechStart) \<and> alternates (\<not> speaking) es)"

lemma gate_step_event:
  "gate_step limit speech g = (e, g') \<Longrightarrow>
     (case e of None \<Rightarrow> gt_in_speech g' = gt_in_speech g
      | Some ev \<Rightarrow> ev = (if gt_in_speech g then SpeechEnd else SpeechStart) \<and> gt_in_speech g' = (\<not> gt_in_speech g))"
  by (auto simp: gate_step_def split: if_splits)

lemma trace_alternates: "alternates (gt_in_speech (sl_gate s)) (fst (silero_trace infer buf s))"
proof (induction infer buf s rule: silero_trace.induct)
  case (1 infer buf s)
  show ?case
  proof (cases "length buf < window_16k")
    case False
    obtain prob st where i: "infer (take window_16k buf) (sl_model s) = (prob, st)" by fastforce
    obtain e g where gs: "gate_step (sl_limit s) (prob \<ge> sl_threshold s) (sl_gate s) = (e, g)" by fastforce
    show ?thesis
      using False i gs 1 [OF False i [symmetric] refl gs [symmetric] refl] gate_step_event [OF gs]
      by (cases e) (auto simp: silero_trace.simps [of infer buf] split: prod.split)
  qed (simp add: silero_trace.simps [of infer buf])
qed

lemma trace_rest: "length (sl_leftover (snd (silero_trace infer buf s))) < window_16k"
proof (induction infer buf s rule: silero_trace.induct)
  case (1 infer buf s)
  show ?case
  proof (cases "length buf < window_16k")
    case False
    obtain prob st where i: "infer (take window_16k buf) (sl_model s) = (prob, st)" by fastforce
    obtain e g where gs: "gate_step (sl_limit s) (prob \<ge> sl_threshold s) (sl_gate s) = (e, g)" by fastforce
    show ?thesis
      using False i gs 1 [OF False i [symmetric] refl gs [symmetric] refl]
      by (auto simp add: silero_trace.simps [of infer buf] split: prod.split)
  qed (simp add: silero_trace.simps [of infer buf])
qed

text \<open>A session fed chunk by chunk: what each call returns, and the final state.\<close>

fun silero_run ::
  "('a list \<Rightarrow> 'st \<Rightarrow> 'p::linorder \<times> 'st) \<Rightarrow> 'a list list \<Rightarrow> ('p, 'st, 'a) silero \<Rightarrow> vad_event option list \<times> ('p, 'st, 'a) silero" where
  "silero_run infer [] s = ([], s)"
| "silero_run infer (c # cs) s =
     (let (e, s1) = silero_process infer c s; (es, s2) = silero_run infer cs s1 in (e # es, s2))"

lemma silero_run_spec:
  assumes "length (sl_leftover s) < window_16k"
  shows "\<exists>groups. length groups = length chunks \<and>
     silero_trace infer (sl_leftover s @ concat chunks) s = (concat groups, snd (silero_run infer chunks s)) \<and>
     fst (silero_run infer chunks s) = map (last_event None) groups"
  using assms
proof (induction chunks arbitrary: s)
  case Nil
  then show ?case by (simp add: silero_trace.simps [of infer "sl_leftover s"])
next
  case (Cons c cs)
  obtain es s1 where t: "silero_trace infer (sl_leftover s @ c) s = (es, s1)" by fastforce
  then have p: "silero_process infer c s = (last_event None es, s1)"
    by (simp add: silero_process_def loop_trace)
  have len: "length (sl_leftover s1) < window_16k" using trace_rest [of infer "sl_leftover s @ c" s] t by simp
  from Cons.IH [OF len] obtain groups where g: "length groups = length cs"
    "silero_trace infer (sl_leftover s1 @ concat cs) s1 = (concat groups, snd (silero_run infer cs s1))"
    "fst (silero_run infer cs s1) = map (last_event None) groups" by blast
  have "silero_trace infer (sl_leftover s @ concat (c # cs)) s = (es @ concat groups, snd (silero_run infer cs s1))"
    using trace_append [of infer "sl_leftover s @ c" "concat cs" s] t g by simp
  then show ?case
    using p g by (intro exI [of _ "es # groups"]) (auto split: prod.split)
qed

text \<open>
  The speech state does not depend on how the audio is cut into chunks: the session ends
  in the same state, and its transitions are the same alternating sequence of onsets and
  offsets, as if all the audio came at once. What the calls return is the last transition
  that falls into each chunk, so with at most one transition per chunk nothing is lost.
\<close>

theorem vad_chunking_irrelevant:
  assumes "new_silero sample_rate threshold silence_ms zero = Some s"
  shows "\<exists>groups. length groups = length chunks \<and>
     silero_trace infer (concat chunks) s = (concat groups, snd (silero_run infer chunks s)) \<and>
     fst (silero_run infer chunks s) = map (last_event None) groups \<and>
     alternates False (concat groups)"
proof -
  have s: "sl_leftover s = []" "\<not> gt_in_speech (sl_gate s)"
    using assms by (auto simp: new_silero_def split: if_splits)
  obtain groups where g: "length groups = length chunks"
    "silero_trace infer (concat chunks) s = (concat groups, snd (silero_run infer chunks s))"
    "fst (silero_run infer chunks s) = map (last_event None) groups"
    using silero_run_spec [of s chunks infer] s by (auto simp: window_16k_def)
  moreover have "alternates False (concat groups)"
    using trace_alternates [of s infer "concat chunks"] g(2) s(2) by simp
  ultimately show ?thesis by blast
qed

definition demo_infer :: "nat list \<Rightarrow> unit \<Rightarrow> nat \<times> unit" where
  "demo_infer w st = (hd w, ())"

definition demo_silero :: "(nat, unit, nat) silero" where
  "demo_silero = \<lparr>sl_threshold = 1, sl_limit = 1, sl_model = (), sl_gate = \<lparr>gt_in_speech = False, gt_silence = 0\<rparr>, sl_leftover = []\<rparr>"

theorem vad_chunking_irrelevant_witness:
  "\<exists>groups. length groups = 2 \<and> fst (silero_run demo_infer [replicate 100 1, replicate 160 1] demo_silero) = map (last_event None) groups
     \<and> alternates False (concat groups)"
proof -
  have "new_silero 16000 (1::nat) 10 () = Some demo_silero"
    by (simp add: new_silero_def demo_silero_def)
  from vad_chunking_irrelevant [OF this, of "[replicate 100 1, replicate 160 1]" demo_infer]
  show ?thesis by (elim ex_forward) (simp only: length_Cons list.size(3) numeral_2_eq_2 simp_thms)
qed

text \<open>A chunk that holds a whole utterance returns only its end: the onset is overwritten.\<close>

lemma vad_long_chunk_loses_onset:
  "fst (silero_process demo_infer (replicate 256 1 @ replicate 256 0) demo_silero) = Some SpeechEnd"
  by (simp add: silero_process_def silero_loop.simps [of demo_infer] demo_silero_def window_16k_def demo_infer_def gate_step_def)

end
