(* ===== verification/Llm_Availability.thy ===== *)
theory Llm_Availability
  imports Prelude
begin

text \<open>
  The LLM availability probe of the agent,
  \<open>agent/openvoicestream_agent/plugins/llm_availability.py\<close>: how an HTTP reply is classified,
  the state machine fed by probes and by the outcome of real requests, and its counters.
  The HTTP client is outside: a probe's reply is given.
\<close>

section \<open>Classifying a probe\<close>

text \<open>The body of a reply: whether it parses, whether \<open>choices\<close> is truthy, \<open>error.code\<close>.\<close>

datatype reply_body = NotJson | Json bool "string option"

datatype probe_reply = Unreachable | OtherError | Reply int reply_body

definition rstrip_slash :: "string \<Rightarrow> string" where
  "rstrip_slash s = rev (dropWhile (\<lambda>c. c = CHR ''/'') (rev s))"

definition chat_url :: "string \<Rightarrow> string" where
  "chat_url base_url =
     (let url = (if \<not> ends_with ''/v1'' base_url \<and> \<not> contains ''/v1/'' (base_url @ ''/'')
                 then rstrip_slash base_url @ ''/v1'' else base_url)
      in url @ ''/chat/completions'')"

definition probe :: "probe_reply \<Rightarrow> bool option" where
  "probe reply =
     (case reply of
        Unreachable \<Rightarrow> None
      | OtherError \<Rightarrow> Some False
      | Reply status body \<Rightarrow>
          if status = 200
          then (case body of NotJson \<Rightarrow> Some False | Json choices code \<Rightarrow> Some choices)
          else if status = 400 \<and> (case body of Json choices (Some code) \<Rightarrow> code \<in> {''input_too_long'', ''invalid_request''}
                                   | _ \<Rightarrow> False)
          then None
          else Some False)"

section \<open>The state machine\<close>

datatype availability = HEALTHY | DEGRADED | DOWN | RECOVERING | UNKNOWN

record availability_plugin =
  av_state :: availability
  av_failures :: int
  av_unknowns :: int
  av_failures_to_down :: int
  av_unknowns_to_unknown :: int
  av_changes :: "availability list"

definition new_availability :: "int \<Rightarrow> int \<Rightarrow> availability_plugin" where
  "new_availability failures_to_down unknowns_to_unknown =
     \<lparr>av_state = HEALTHY, av_failures = 0, av_unknowns = 0, av_failures_to_down = failures_to_down,
      av_unknowns_to_unknown = unknowns_to_unknown, av_changes = []\<rparr>"

definition emit_change :: "availability \<Rightarrow> availability_plugin \<Rightarrow> availability_plugin" where
  "emit_change prev p = (if prev = av_state p then p else p\<lparr>av_changes := av_state p # av_changes p\<rparr>)"

definition advance :: "bool \<Rightarrow> availability_plugin \<Rightarrow> availability_plugin" where
  "advance ok p =
     emit_change (av_state p)
       (if ok
        then (case av_state p of
                HEALTHY \<Rightarrow> p\<lparr>av_failures := 0\<rparr>
              | DEGRADED \<Rightarrow> p\<lparr>av_state := HEALTHY, av_failures := 0\<rparr>
              | DOWN \<Rightarrow> p\<lparr>av_state := RECOVERING\<rparr>
              | RECOVERING \<Rightarrow> p\<lparr>av_state := HEALTHY, av_failures := 0\<rparr>
              | UNKNOWN \<Rightarrow> p\<lparr>av_state := HEALTHY, av_failures := 0\<rparr>)
        else (let p1 = p\<lparr>av_failures := av_failures p + 1\<rparr> in
              case av_state p of
                HEALTHY \<Rightarrow> p1\<lparr>av_state := DEGRADED\<rparr>
              | DEGRADED \<Rightarrow> if av_failures p1 \<ge> av_failures_to_down p1 then p1\<lparr>av_state := DOWN\<rparr> else p1
              | RECOVERING \<Rightarrow> p1\<lparr>av_state := DOWN\<rparr>
              | UNKNOWN \<Rightarrow> p1\<lparr>av_state := DEGRADED\<rparr>
              | DOWN \<Rightarrow> p1))"

definition maybe_enter_unknown :: "availability_plugin \<Rightarrow> availability_plugin" where
  "maybe_enter_unknown p =
     (if av_unknowns p < av_unknowns_to_unknown p then p
      else if av_state p \<in> {UNKNOWN, DOWN} then p
      else emit_change (av_state p) (p\<lparr>av_state := UNKNOWN\<rparr>))"

text \<open>One probe, in the main loop or forced.\<close>

definition account_probe :: "bool option \<Rightarrow> availability_plugin \<Rightarrow> availability_plugin" where
  "account_probe result p =
     (case result of
        None \<Rightarrow> maybe_enter_unknown (p\<lparr>av_unknowns := av_unknowns p + 1\<rparr>)
      | Some ok \<Rightarrow> advance ok (p\<lparr>av_unknowns := 0\<rparr>))"

definition run_iteration :: "probe_reply \<Rightarrow> availability_plugin \<Rightarrow> availability_plugin" where
  "run_iteration reply p = account_probe (probe reply) p"

definition force_probe :: "probe_reply \<Rightarrow> availability_plugin \<Rightarrow> bool option \<times> availability_plugin" where
  "force_probe reply p = (probe reply, account_probe (probe reply) p)"

definition report_request_failure :: "availability_plugin \<Rightarrow> availability_plugin" where
  "report_request_failure p = advance False p"

definition report_request_success :: "availability_plugin \<Rightarrow> availability_plugin" where
  "report_request_success p = advance True p"

datatype availability_event = Probe probe_reply | ForceProbe probe_reply | RequestFailed | RequestOk

fun availability_step :: "availability_event \<Rightarrow> availability_plugin \<Rightarrow> availability_plugin" where
  "availability_step (Probe r) p = run_iteration r p"
| "availability_step (ForceProbe r) p = snd (force_probe r p)"
| "availability_step RequestFailed p = report_request_failure p"
| "availability_step RequestOk p = report_request_success p"

section \<open>Invariant\<close>

definition availability_inv :: "availability_plugin \<Rightarrow> bool" where
  "availability_inv p =
     (av_failures p \<ge> 0 \<and> av_unknowns p \<ge> 0 \<and>
      (case av_state p of
         HEALTHY \<Rightarrow> av_failures p = 0
       | DEGRADED \<Rightarrow> av_failures p \<ge> 1
       | DOWN \<Rightarrow> av_failures p \<ge> max 2 (av_failures_to_down p)
       | RECOVERING \<Rightarrow> av_failures p \<ge> max 2 (av_failures_to_down p)
       | UNKNOWN \<Rightarrow> av_unknowns_to_unknown p \<le> 0 \<or> av_failures p \<ge> 0))"

lemma advance_cases:
  "av_unknowns (advance ok p) = av_unknowns p"
  "av_failures_to_down (advance ok p) = av_failures_to_down p"
  "av_unknowns_to_unknown (advance ok p) = av_unknowns_to_unknown p"
  by (cases ok; cases "av_state p"; simp add: advance_def emit_change_def Let_def)+

lemma advance_inv: "availability_inv p \<Longrightarrow> availability_inv (advance ok p)"
  by (cases ok; cases "av_state p"; simp add: advance_def emit_change_def Let_def availability_inv_def)

lemma account_inv:
  assumes "availability_inv p"
  shows "availability_inv (account_probe r p)"
proof (cases r)
  case (Some ok)
  have "availability_inv (p\<lparr>av_unknowns := 0\<rparr>)"
    using assms by (cases "av_state p") (simp_all add: availability_inv_def)
  then show ?thesis using Some by (simp add: account_probe_def advance_inv)
next
  case None
  then show ?thesis
    using assms by (cases "av_state p") (simp_all add: account_probe_def maybe_enter_unknown_def emit_change_def availability_inv_def)
qed

interpretation availability: step_system availability_step availability_inv
proof
  fix s e
  assume "availability_inv s"
  then show "availability_inv (availability_step e s)"
    by (cases e) (simp_all add: run_iteration_def force_probe_def report_request_failure_def report_request_success_def
        advance_inv account_inv)
qed

lemma settings_step:
  "av_failures_to_down (availability_step e p) = av_failures_to_down p"
  by (cases e; cases "av_state p")
     (auto simp: run_iteration_def force_probe_def report_request_failure_def report_request_success_def advance_cases
        account_probe_def maybe_enter_unknown_def emit_change_def split: option.split)

lemma settings_run: "av_failures_to_down (fold availability_step es p) = av_failures_to_down p"
  by (induction es arbitrary: p) (simp_all add: settings_step del: availability_step.simps)

section \<open>Properties\<close>

lemma two_successes: "av_state (advance True (advance True p)) = HEALTHY"
  by (cases "av_state p") (simp_all add: advance_def emit_change_def)

lemma failures_count:
  "av_state p \<in> {DEGRADED, DOWN} \<Longrightarrow>
     av_state ((advance False ^^ n) p) \<in> {DEGRADED, DOWN} \<and> av_failures ((advance False ^^ n) p) = av_failures p + int n \<and>
     av_failures_to_down ((advance False ^^ n) p) = av_failures_to_down p \<and>
     (1 \<le> n \<and> av_failures_to_down p \<le> av_failures p + int n \<longrightarrow> av_state ((advance False ^^ n) p) = DOWN)"
proof (induction n)
  case (Suc n)
  let ?q = "(advance False ^^ n) p"
  have IH: "av_state ?q \<in> {DEGRADED, DOWN}" "av_failures ?q = av_failures p + int n"
    "av_failures_to_down ?q = av_failures_to_down p" using Suc by simp_all
  have step: "av_state (advance False q) \<in> {DEGRADED, DOWN} \<and> av_failures (advance False q) = av_failures q + 1 \<and>
      av_failures_to_down (advance False q) = av_failures_to_down q \<and>
      (av_state (advance False q) = DOWN \<longleftrightarrow> av_state q = DOWN \<or> av_failures q + 1 \<ge> av_failures_to_down q)"
    if "av_state q \<in> {DEGRADED, DOWN}" for q
    using that by (cases "av_state q") (simp_all add: advance_def emit_change_def Let_def)
  show ?case using step [OF IH(1)] IH by (simp del: insert_iff)
qed simp

text \<open>
  In every interleaving of probes, forced probes and request reports, the LLM is declared
  down (and recovering from down) only with at least \<open>failures_to_down\<close> failures counted, never
  fewer than two; healthy means no failure is counted. Two successful probes in a row bring
  any state back to healthy, one never does from down; and from healthy,
  \<open>max 2 failures_to_down\<close> failed requests in a row always lead to down.
\<close>

theorem availability_thresholds:
  "let p = fold availability_step es (new_availability n k) in
     (av_state p \<in> {DOWN, RECOVERING} \<longrightarrow> av_failures p \<ge> max 2 n) \<and>
     (av_state p = HEALTHY \<longrightarrow> av_failures p = 0) \<and>
     av_state (report_request_success (report_request_success p)) = HEALTHY \<and>
     (av_state p = DOWN \<longrightarrow> av_state (report_request_success p) = RECOVERING) \<and>
     (av_state p = HEALTHY \<longrightarrow> av_state ((report_request_failure ^^ nat (max 2 n)) p) = DOWN)"
proof -
  obtain p where p: "p = fold availability_step es (new_availability n k)" by blast
  have inv: "availability_inv p"
    unfolding p by (rule availability.run_inv) (simp add: availability_inv_def new_availability_def)
  have n: "av_failures_to_down p = n" by (simp add: p settings_run new_availability_def)
  have down: "av_state ((report_request_failure ^^ nat (max 2 n)) p) = DOWN" if h: "av_state p = HEALTHY"
  proof -
    obtain m where m: "nat (max 2 n) = Suc m" "1 \<le> m" by (cases "nat (max 2 n)") auto
    have f: "report_request_failure = advance False" by (rule ext) (simp add: report_request_failure_def)
    let ?q = "advance False p"
    have q: "av_state ?q = DEGRADED" "av_failures ?q = 1" "av_failures_to_down ?q = n"
      using h inv n by (simp_all add: advance_def emit_change_def Let_def availability_inv_def)
    have "n \<le> 1 + int m" using m(1) by linarith
    then have "av_state ((advance False ^^ m) ?q) = DOWN" using failures_count [of ?q m] q m(2) by simp
    then show ?thesis by (simp add: f m(1) funpow_swap1)
  qed
  then show ?thesis
    using inv n two_successes [of p] unfolding Let_def p [symmetric]
    by (cases "av_state p")
       (simp_all add: availability_inv_def report_request_success_def, simp_all add: advance_def emit_change_def)
qed

theorem availability_thresholds_witness:
  "let p = fold availability_step [RequestFailed, Probe (Reply 500 NotJson), RequestFailed] (new_availability 3 3) in
     av_state p = DOWN \<and> av_failures p \<ge> 3 \<and> av_state (report_request_success p) = RECOVERING"
proof -
  let ?p = "fold availability_step [RequestFailed, Probe (Reply 500 NotJson), RequestFailed] (new_availability 3 3)"
  have "av_state ?p = DOWN"
    by (simp add: new_availability_def report_request_failure_def run_iteration_def probe_def account_probe_def
        advance_def emit_change_def Let_def)
  then show ?thesis
    using availability_thresholds [of "[RequestFailed, Probe (Reply 500 NotJson), RequestFailed]" 3 3]
    unfolding Let_def by simp
qed

text \<open>
  The unknown counter is reset by a concrete probe but not by a request report: after an
  unknown spell ended by a successful request, one more unreachable probe is enough to leave
  healthy, where the threshold asks for three in a row.
\<close>

lemma one_blip_after_reported_success:
  "let p = fold availability_step [Probe Unreachable, Probe Unreachable, Probe Unreachable, RequestOk] (new_availability 3 3)
   in av_state p = HEALTHY \<and> av_state (availability_step (Probe Unreachable) p) = UNKNOWN"
  by (simp add: new_availability_def report_request_success_def run_iteration_def probe_def account_probe_def
      advance_def maybe_enter_unknown_def emit_change_def Let_def)

end
