(* ===== verification/Dialogue_Session.thy ===== *)
theory Dialogue_Session
  imports Prelude
begin

text \<open>
  The conversation of the agent, \<open>agent/openvoicestream_agent/session.py\<close>: the message
  history, the cache flags, rollback, recovery from echo loops and the token budget. The
  tokenizer and the JSON serialisation of tool calls are third-party: \<open>count\<close> is the token
  count of a text and \<open>dumps\<close> the serialised text of a list of tool calls.
\<close>

section \<open>Messages\<close>

record tool_call =
  tc_id :: string
  tc_name :: string
  tc_arguments :: ustr

datatype role = System | User | Assistant | Tool

text \<open>\<open>m_tool_call_id\<close> is that of a tool result, \<open>m_content = None\<close> an explicit null.\<close>

record message =
  m_role :: role
  m_content :: "ustr option"
  m_tool_calls :: "tool_call list"
  m_tool_call_id :: string

definition text_message :: "role \<Rightarrow> ustr \<Rightarrow> message" where
  "text_message r t = \<lparr>m_role = r, m_content = Some t, m_tool_calls = [], m_tool_call_id = []\<rparr>"

datatype session_event = EchoRecovery ustr | Trimmed nat nat | TrimmedFallback nat nat

record session =
  s_history :: "message list"
  s_prefix_cache_warmed :: bool
  s_graph_warmed :: bool
  s_max_input_tokens :: "int option"
  s_prefix_cache_disabled :: bool
  s_events :: "session_event list"

definition new_session :: "int option \<Rightarrow> session" where
  "new_session max_input_tokens =
     \<lparr>s_history = [], s_prefix_cache_warmed = False, s_graph_warmed = False, s_max_input_tokens = max_input_tokens,
      s_prefix_cache_disabled = False, s_events = []\<rparr>"

section \<open>Token counting\<close>

text \<open>\<open>max(1, math.ceil(len(text) * 1.5))\<close>.\<close>

definition fallback_estimate :: "ustr \<Rightarrow> nat" where
  "fallback_estimate text = max 1 ((3 * length text + 1) div 2)"

text \<open>No tokenizer, or one that raises, falls back to the estimate.\<close>

definition count_tokens :: "(ustr \<Rightarrow> nat option) option \<Rightarrow> ustr \<Rightarrow> nat" where
  "count_tokens tokenizer text =
     (case tokenizer of
        None \<Rightarrow> fallback_estimate text
      | Some encode \<Rightarrow> (case encode text of None \<Rightarrow> fallback_estimate text | Some n \<Rightarrow> n))"

definition msg_tokens :: "(ustr \<Rightarrow> nat) \<Rightarrow> (tool_call list \<Rightarrow> ustr) \<Rightarrow> message \<Rightarrow> nat" where
  "msg_tokens count dumps m =
     (let content = (case m_content m of None \<Rightarrow> [] | Some c \<Rightarrow> c)
      in (if content \<noteq> [] then count content else 0)
         + (if m_tool_calls m \<noteq> [] then count (dumps (m_tool_calls m)) else 0) + 4)"

section \<open>Editing the history\<close>

definition reset_session :: "session \<Rightarrow> session" where
  "reset_session s =
     s\<lparr>s_history := [], s_prefix_cache_warmed := False, s_graph_warmed := False, s_prefix_cache_disabled := False\<rparr>"

definition add_user :: "ustr \<Rightarrow> session \<Rightarrow> session" where
  "add_user t s = s\<lparr>s_history := s_history s @ [text_message User t]\<rparr>"

definition echo_window :: nat where
  "echo_window = 3"

definition echo_max_len :: nat where
  "echo_max_len = 40"

text \<open>The texts of the assistant messages that have one.\<close>

definition assistant_texts :: "message list \<Rightarrow> ustr list" where
  "assistant_texts h =
     List.map_filter (\<lambda>m. if m_role m = Assistant then m_content m else None) h"

definition maybe_recover_from_echo :: "session \<Rightarrow> session" where
  "maybe_recover_from_echo s =
     (if length (s_history s) < echo_window then s
      else (let texts = assistant_texts (s_history s) in
            if length texts < echo_window then s
            else (let last_n = drop (length texts - echo_window) texts; first = hd last_n in
                  if length first > echo_max_len then s
                  else if list_ex (\<lambda>t. t \<noteq> first) last_n then s
                  else (reset_session s)\<lparr>s_events := EchoRecovery first # s_events s\<rparr>)))"

definition add_assistant :: "ustr \<Rightarrow> session \<Rightarrow> session" where
  "add_assistant t s = maybe_recover_from_echo (s\<lparr>s_history := s_history s @ [text_message Assistant t]\<rparr>)"

definition add_assistant_tool_calls :: "ustr option \<Rightarrow> tool_call list \<Rightarrow> session \<Rightarrow> session" where
  "add_assistant_tool_calls content calls s =
     s\<lparr>s_history := s_history s @ [\<lparr>m_role = Assistant, m_content = content, m_tool_calls = calls, m_tool_call_id = []\<rparr>]\<rparr>"

definition add_tool_result :: "string \<Rightarrow> ustr \<Rightarrow> session \<Rightarrow> session" where
  "add_tool_result call_id content s =
     s\<lparr>s_history := s_history s @ [\<lparr>m_role = Tool, m_content = Some content, m_tool_calls = [], m_tool_call_id = call_id\<rparr>]\<rparr>"

definition rollback_to :: "int \<Rightarrow> session \<Rightarrow> nat \<times> session" where
  "rollback_to anchor s =
     (let a = (if anchor < 0 then 0 else nat anchor); current = length (s_history s) in
      if a \<ge> current then (0, s)
      else (current - a, s\<lparr>s_history := take a (s_history s)\<rparr>))"

section \<open>The token budget\<close>

definition is_user :: "message \<Rightarrow> bool" where
  "is_user m = (m_role m = User)"

text \<open>A turn is a user message and everything up to the next one.\<close>

function group_turns :: "message list \<Rightarrow> message list list" where
  "group_turns [] = []"
| "group_turns (m # ms) = (m # takeWhile (\<lambda>x. \<not> is_user x) ms) # group_turns (dropWhile (\<lambda>x. \<not> is_user x) ms)"
  by pat_completeness auto
termination
  by (relation "measure length") (auto simp: le_imp_less_Suc length_dropWhile_le)

definition total_tokens :: "(message \<Rightarrow> nat) \<Rightarrow> message list \<Rightarrow> nat" where
  "total_tokens tokens ms = sum_list (map tokens ms)"

fun drop_messages :: "(message \<Rightarrow> nat) \<Rightarrow> int \<Rightarrow> int \<Rightarrow> message list \<Rightarrow> message list" where
  "drop_messages tokens budget tot [] = []"
| "drop_messages tokens budget tot (m # ms) =
     (if tot > budget then drop_messages tokens budget (tot - int (tokens m)) ms else m # ms)"

fun drop_turns :: "(message \<Rightarrow> nat) \<Rightarrow> int \<Rightarrow> nat \<Rightarrow> int \<Rightarrow> message list list \<Rightarrow> message list list" where
  "drop_turns tokens budget min_keep tot [] = []"
| "drop_turns tokens budget min_keep tot (t # ts) =
     (if tot > budget \<and> length (t # ts) > min_keep
      then drop_turns tokens budget min_keep (tot - int (total_tokens tokens t)) ts
      else t # ts)"

definition complete_turn :: "message list \<Rightarrow> bool" where
  "complete_turn t =
     (t \<noteq> [] \<and> m_role (last t) = Assistant \<and> m_content (last t) \<noteq> None \<and> m_tool_calls (last t) = [])"

text \<open>\<open>int(max_tokens * 0.75)\<close>, rounding towards zero.\<close>

definition token_budget :: "int \<Rightarrow> int" where
  "token_budget max_tokens = (if max_tokens \<ge> 0 then 3 * max_tokens div 4 else - (- 3 * max_tokens div 4))"

text \<open>The history without any user message: oldest messages go until the rest fits.\<close>

definition trim_fallback ::
  "(message \<Rightarrow> nat) \<Rightarrow> int \<Rightarrow> message list \<Rightarrow> session \<Rightarrow> message list \<times> session" where
  "trim_fallback tokens budget rest s =
     (if int (total_tokens tokens rest) \<le> budget then (rest, s)
      else (let kept = drop_messages tokens budget (int (total_tokens tokens rest)) rest
            in (kept, s\<lparr>s_prefix_cache_warmed := False,
                        s_events := TrimmedFallback (length rest - length kept) (length kept) # s_events s\<rparr>)))"

text \<open>\<open>_trim_to_budget\<close> of the history (the system message stays in front).\<close>

definition trim_to_budget ::
  "(message \<Rightarrow> nat) \<Rightarrow> int \<Rightarrow> message list \<Rightarrow> session \<Rightarrow> message list \<times> session" where
  "trim_to_budget tokens max_tokens rest s =
     (let budget = token_budget max_tokens;
          turns = group_turns (dropWhile (\<lambda>m. \<not> is_user m) rest)
      in if rest = [] then (rest, s)
         else if turns = [] then trim_fallback tokens budget rest s
         else (let trailing = (if complete_turn (last turns) then [] else last turns);
                   completed = (if complete_turn (last turns) then turns else butlast turns);
                   tot = int (total_tokens tokens (trailing @ concat completed))
               in if tot \<le> budget then (rest, s)
                  else (let min_keep = (if trailing = [] then 1 else 0);
                            kept = drop_turns tokens budget min_keep tot completed;
                            dropped = length completed - length kept
                        in (concat kept @ trailing,
                            if dropped > 0
                            then s\<lparr>s_prefix_cache_warmed := False, s_events := Trimmed dropped (length kept) # s_events s\<rparr>
                            else s))))"

definition messages :: "(message \<Rightarrow> nat) \<Rightarrow> ustr \<Rightarrow> session \<Rightarrow> message list \<times> session" where
  "messages tokens system_prompt s =
     (case s_max_input_tokens s of
        None \<Rightarrow> (text_message System system_prompt # s_history s, s)
      | Some mx \<Rightarrow> (let (rest, s1) = trim_to_budget tokens mx (s_history s) s
                    in (text_message System system_prompt # rest, s1)))"

section \<open>Turns\<close>

lemma concat_group_turns [simp]: "concat (group_turns ms) = ms"
  by (induction ms rule: group_turns.induct) auto

lemma group_turns_nonempty: "t \<in> set (group_turns ms) \<Longrightarrow> t \<noteq> []"
  by (induction ms rule: group_turns.induct) auto

lemma group_turns_heads:
  "(ms = [] \<or> is_user (hd ms)) \<Longrightarrow> t \<in> set (group_turns ms) \<Longrightarrow> is_user (hd t)"
proof (induction ms rule: group_turns.induct)
  case (2 m ms)
  have "dropWhile (\<lambda>x. \<not> is_user x) ms = [] \<or> is_user (hd (dropWhile (\<lambda>x. \<not> is_user x) ms))"
    using hd_dropWhile [of "\<lambda>x. \<not> is_user x" ms] by blast
  then show ?case using 2 by auto
qed simp

lemma total_tokens_append [simp]: "total_tokens f (a @ b) = total_tokens f a + total_tokens f b"
  by (simp add: total_tokens_def)

lemma drop_messages_spec:
  "\<exists>n. drop_messages f b (int (total_tokens f ms)) ms = drop n ms \<and>
     (int (total_tokens f (drop n ms)) \<le> b \<or> drop n ms = [])"
proof (induction ms)
  case (Cons m ms)
  have t: "int (total_tokens f (m # ms)) - int (f m) = int (total_tokens f ms)" by (simp add: total_tokens_def)
  show ?case
  proof (cases "int (total_tokens f (m # ms)) > b")
    case True
    then obtain n where "drop_messages f b (int (total_tokens f (m # ms))) (m # ms) = drop n ms"
      "int (total_tokens f (drop n ms)) \<le> b \<or> drop n ms = []"
      using Cons.IH t by (auto simp del: of_nat_add)
    then show ?thesis by (intro exI [of _ "Suc n"]) simp
  next
    case False
    then show ?thesis by (intro exI [of _ 0]) simp
  qed
qed (auto simp: total_tokens_def)

lemma drop_turns_spec:
  "\<exists>n \<le> length ts. drop_turns f b k (int (total_tokens f (tr @ concat ts))) ts = drop n ts \<and>
     (k \<le> length ts \<longrightarrow> k \<le> length (drop n ts)) \<and>
     (int (total_tokens f (tr @ concat (drop n ts))) \<le> b \<or> length (drop n ts) \<le> k) \<and>
     (\<forall>j < n. b < int (total_tokens f (tr @ concat (drop j ts))))"
proof (induction ts)
  case Nil
  then show ?case by (intro exI [of _ 0]) simp
next
  case (Cons t ts)
  have s: "int (total_tokens f (tr @ concat (t # ts))) - int (total_tokens f t) = int (total_tokens f (tr @ concat ts))"
    by simp
  show ?case
  proof (cases "int (total_tokens f (tr @ concat (t # ts))) > b \<and> length (t # ts) > k")
    case True
    then have d: "drop_turns f b k (int (total_tokens f (tr @ concat (t # ts)))) (t # ts)
        = drop_turns f b k (int (total_tokens f (tr @ concat ts))) ts"
      unfolding drop_turns.simps s by (simp only: simp_thms if_True)
    obtain n where n: "n \<le> length ts" "drop_turns f b k (int (total_tokens f (tr @ concat ts))) ts = drop n ts"
      "k \<le> length ts \<longrightarrow> k \<le> length (drop n ts)"
      "int (total_tokens f (tr @ concat (drop n ts))) \<le> b \<or> length (drop n ts) \<le> k"
      "\<forall>j < n. b < int (total_tokens f (tr @ concat (drop j ts)))"
      using Cons.IH by blast
    have over: "\<forall>j < Suc n. b < int (total_tokens f (tr @ concat (drop j (t # ts))))"
    proof (intro allI impI)
      fix j assume "j < Suc n"
      then show "b < int (total_tokens f (tr @ concat (drop j (t # ts))))"
        using n(5) True by (cases j) auto
    qed
    have "Suc n \<le> length (t # ts)" "k \<le> length (t # ts) \<longrightarrow> k \<le> length (drop (Suc n) (t # ts))"
      using n(1,3) True by auto
    then show ?thesis
      unfolding d n(2) using n(4) over by (intro exI [of _ "Suc n"]) (simp only: drop_Suc_Cons simp_thms)
  next
    case False
    then show ?thesis by (intro exI [of _ 0]) (simp only: drop_turns.simps drop_0 if_False, auto)
  qed
qed

lemma group_turns_Nil_iff: "group_turns ms = [] \<longleftrightarrow> ms = []"
  by (cases ms) auto

text \<open>Trimming a history with a user message, whose turns follow some orphan messages.\<close>

lemma trim_turns:
  assumes "list_ex is_user rest" "turns = group_turns (dropWhile (\<lambda>m. \<not> is_user m) rest)"
    and "trim_to_budget tokens mx rest s = (out, s')"
  shows "int (total_tokens tokens (concat turns)) \<le> token_budget mx \<and> out = rest \<and> s' = s \<or>
     token_budget mx < int (total_tokens tokens (concat turns)) \<and>
     (\<exists>k < length turns. out = concat (drop k turns) \<and>
        (int (total_tokens tokens out) \<le> token_budget mx \<or> k = length turns - 1) \<and>
        (\<forall>j < k. token_budget mx < int (total_tokens tokens (concat (drop j turns)))) \<and>
        (if k = 0 then s' = s else \<not> s_prefix_cache_warmed s' \<and> s_history s' = s_history s))"
proof -
  have rest: "rest \<noteq> []" using assms(1) by auto
  have turns: "turns \<noteq> []"
    using assms(1) unfolding assms(2) group_turns_Nil_iff by (auto simp: dropWhile_eq_Nil_conv list_ex_iff)
  define tr where "tr = (if complete_turn (last turns) then [] else last turns)"
  define cs where "cs = (if complete_turn (last turns) then turns else butlast turns)"
  have tr_nil: "tr = [] \<longleftrightarrow> complete_turn (last turns)"
  proof -
    have "last turns \<noteq> []" using turns group_turns_nonempty unfolding assms(2) by (metis last_in_set)
    then show ?thesis by (simp add: tr_def)
  qed
  have split: "turns = cs @ (if tr = [] then [] else [tr])" unfolding tr_nil
    using turns by (simp add: cs_def tr_def)
  have tot: "total_tokens tokens (tr @ concat cs') = total_tokens tokens (concat (cs' @ (if tr = [] then [] else [tr])))" for cs'
    by simp
  define k where "k = (if tr = [] then 1 else 0 :: nat)"
  obtain n where n: "n \<le> length cs"
    "drop_turns tokens (token_budget mx) k (int (total_tokens tokens (tr @ concat cs))) cs = drop n cs"
    "k \<le> length cs \<longrightarrow> k \<le> length (drop n cs)"
    "int (total_tokens tokens (tr @ concat (drop n cs))) \<le> token_budget mx \<or> length (drop n cs) \<le> k"
    "\<forall>j < n. token_budget mx < int (total_tokens tokens (tr @ concat (drop j cs)))"
    using drop_turns_spec [of cs tokens "token_budget mx" k tr] by blast
  have k_cs: "k \<le> length cs" using split turns by (cases cs) (auto simp: k_def)
  have n_lt: "n < length turns" using n(1,3) k_cs split by (auto simp: k_def split: if_splits)
  have drop_turns: "drop j turns = drop j cs @ (if tr = [] then [] else [tr])" if "j \<le> n" for j
    using that n(1) by (subst split) simp
  have out_eq: "concat (drop n cs) @ tr = concat (drop n turns)" by (simp add: drop_turns)
  have "trim_to_budget tokens mx rest s =
     (if int (total_tokens tokens (tr @ concat cs)) \<le> token_budget mx then (rest, s)
      else (concat (drop n cs) @ tr,
            if n > 0 then s\<lparr>s_prefix_cache_warmed := False, s_events := Trimmed n (length (drop n cs)) # s_events s\<rparr> else s))"
    using rest turns n(1,2) unfolding trim_to_budget_def Let_def assms(2) [symmetric] tr_def [symmetric] cs_def [symmetric]
      k_def [symmetric] by simp
  moreover have "int (total_tokens tokens (tr @ concat cs)) = int (total_tokens tokens (concat turns))"
    by (subst tot) (simp add: split [symmetric])
  ultimately have r: "(out, s') =
     (if int (total_tokens tokens (concat turns)) \<le> token_budget mx then (rest, s)
      else (concat (drop n turns),
            if n > 0 then s\<lparr>s_prefix_cache_warmed := False, s_events := Trimmed n (length (drop n cs)) # s_events s\<rparr> else s))"
    using assms(3) out_eq by simp
  have fit: "int (total_tokens tokens (concat (drop n turns))) \<le> token_budget mx \<or> n = length turns - 1"
  proof (cases "length (drop n cs) \<le> k")
    case True
    have "length turns = length cs + (1 - k)" by (subst split) (simp add: k_def)
    moreover have "k \<le> length cs - n" using n(3) k_cs by simp
    ultimately have "n = length turns - 1" using True n(1) by (cases "tr = []"; simp add: k_def; linarith)
    then show ?thesis ..
  next
    case False
    then show ?thesis using n(4) tot [of "drop n cs"] drop_turns [of n] by (simp only: order_refl) simp
  qed
  have over: "\<forall>j < n. token_budget mx < int (total_tokens tokens (concat (drop j turns)))"
  proof (intro allI impI)
    fix j assume j: "j < n"
    have e: "total_tokens tokens (tr @ concat (drop j cs)) = total_tokens tokens (concat (drop j turns))"
      using tot [of "drop j cs"] drop_turns [of j] j by (simp only: less_imp_le)
    have "token_budget mx < int (total_tokens tokens (tr @ concat (drop j cs)))" using n(5) j by blast
    then show "token_budget mx < int (total_tokens tokens (concat (drop j turns)))" unfolding e .
  qed
  show ?thesis
  proof (cases "int (total_tokens tokens (concat turns)) \<le> token_budget mx")
    case True
    then show ?thesis using r by simp
  next
    case False
    then have "out = concat (drop n turns)"
      "s' = (if n > 0 then s\<lparr>s_prefix_cache_warmed := False, s_events := Trimmed n (length (drop n cs)) # s_events s\<rparr> else s)"
      using r by simp_all
    then have "n < length turns \<and> out = concat (drop n turns) \<and>
        (int (total_tokens tokens out) \<le> token_budget mx \<or> n = length turns - 1) \<and>
        (\<forall>j < n. token_budget mx < int (total_tokens tokens (concat (drop j turns)))) \<and>
        (if n = 0 then s' = s else \<not> s_prefix_cache_warmed s' \<and> s_history s' = s_history s)"
      using fit over n_lt by simp
    then show ?thesis using False by (metis not_le)
  qed
qed

section \<open>Valid tool rounds\<close>

text \<open>Every tool result answers a call the assistant issued earlier in the same turn: what
  the chat API demands of a history.\<close>

fun tool_linked :: "string set \<Rightarrow> message list \<Rightarrow> bool" where
  "tool_linked open_calls [] = True"
| "tool_linked open_calls (m # ms) =
     (case m_role m of
        User \<Rightarrow> tool_linked {} ms
      | Assistant \<Rightarrow> tool_linked (open_calls \<union> tc_id ` set (m_tool_calls m)) ms
      | Tool \<Rightarrow> m_tool_call_id m \<in> open_calls \<and> tool_linked open_calls ms
      | System \<Rightarrow> tool_linked open_calls ms)"

lemma tool_linked_mono: "tool_linked A ms \<Longrightarrow> A \<subseteq> B \<Longrightarrow> tool_linked B ms"
proof (induction ms arbitrary: A B)
  case (Cons m ms)
  have "A \<union> tc_id ` set (m_tool_calls m) \<subseteq> B \<union> tc_id ` set (m_tool_calls m)" using Cons.prems by blast
  then show ?case using Cons by (cases "m_role m") (auto intro: Cons.IH)
qed simp

lemma tool_linked_suffix:
  "tool_linked A (xs @ ys) \<Longrightarrow> ys = [] \<or> is_user (hd ys) \<Longrightarrow> tool_linked B ys"
proof (induction xs arbitrary: A)
  case Nil
  then show ?case by (cases ys) (auto simp: is_user_def)
next
  case (Cons x xs)
  then show ?case by (cases "m_role x") auto
qed

lemma concat_drop_starts:
  assumes "ms = [] \<or> is_user (hd ms)"
  shows "concat (drop k (group_turns ms)) = [] \<or> is_user (hd (concat (drop k (group_turns ms))))"
proof (cases "drop k (group_turns ms)")
  case (Cons t ts)
  then have "t \<in> set (group_turns ms)" by (metis in_set_dropD list.set_intros(1))
  then have "is_user (hd t)" "t \<noteq> []" using group_turns_heads [OF assms] group_turns_nonempty by blast+
  then show ?thesis unfolding Cons by simp
qed simp

section \<open>Echo recovery and rollback\<close>

lemma rollback_spec: "snd (rollback_to a s) = s\<lparr>s_history := take (nat a) (s_history s)\<rparr>"
  by (auto simp: rollback_to_def Let_def)

section \<open>Properties\<close>

text \<open>
  C38: with a token limit, and for a history that starts with a user message
  (\<open>orphans_escape_budget\<close> shows the others), the prompt sent to the LLM is the system message and
  a suffix of the history cut between turns. Nothing is cut while the history fits three quarters of the limit;
  otherwise the fewest oldest turns are dropped that make it fit, the latest turn always
  stays, and the prefix-cache flag is cleared whenever something was dropped. The stored
  history is untouched.
\<close>

theorem trim_drops_fewest_turns:
  assumes "s_max_input_tokens s = Some mx" "is_user (hd (s_history s))" "s_history s \<noteq> []"
    and "messages tokens system_prompt s = (out, s')"
  shows "\<exists>k < length (group_turns (s_history s)).
     out = text_message System system_prompt # concat (drop k (group_turns (s_history s))) \<and>
     (int (total_tokens tokens (tl out)) \<le> token_budget mx \<or> k = length (group_turns (s_history s)) - 1) \<and>
     (\<forall>j < k. token_budget mx < int (total_tokens tokens (concat (drop j (group_turns (s_history s)))))) \<and>
     (0 < k \<longrightarrow> \<not> s_prefix_cache_warmed s') \<and> s_history s' = s_history s"
proof -
  obtain rest' where tr: "trim_to_budget tokens mx (s_history s) s = (rest', s')"
    and out: "out = text_message System system_prompt # rest'"
    using assms(1,4) by (auto simp: messages_def split: prod.splits)
  have body: "dropWhile (\<lambda>m. \<not> is_user m) (s_history s) = s_history s"
    using assms(2,3) by (cases "s_history s") auto
  have ex: "list_ex is_user (s_history s)" using assms(2,3) by (cases "s_history s") auto
  have pos: "0 < length (group_turns (s_history s))" using assms(3) by (simp add: group_turns_Nil_iff)
  from trim_turns [OF ex refl tr] show ?thesis
    unfolding body concat_group_turns out list.sel
  proof (elim disjE conjE exE, goal_cases)
    case 1
    then show ?case using pos by (intro exI [of _ 0]) simp
  next
    case (2 k)
    then show ?case by (intro exI [of _ k]) (simp split: if_splits)
  next
    case (3 k)
    then show ?case by (intro exI [of _ k]) (simp split: if_splits)
  qed
qed

text \<open>
  Trimming never leaves a tool result without the call it answers: if every tool message
  of the history answers a call of its own turn, so does every tool message of the prompt.
\<close>

theorem trim_keeps_tool_rounds:
  assumes "s_max_input_tokens s = Some mx" "s_history s \<noteq> []" "is_user (hd (s_history s))"
    and "tool_linked {} (s_history s)" "messages tokens system_prompt s = (out, s')"
  shows "tool_linked {} out"
proof -
  obtain rest' where tr: "trim_to_budget tokens mx (s_history s) s = (rest', s')"
    and out: "out = text_message System system_prompt # rest'"
    using assms(1,5) by (auto simp: messages_def split: prod.splits)
  have body: "dropWhile (\<lambda>m. \<not> is_user m) (s_history s) = s_history s"
    using assms(2,3) by (cases "s_history s") auto
  have ex: "list_ex is_user (s_history s)" using assms(2,3) by (cases "s_history s") auto
  have "tool_linked {} rest'"
  proof -
    have "rest' = s_history s \<or> (\<exists>k. rest' = concat (drop k (group_turns (s_history s))))"
      using trim_turns [OF ex refl tr] unfolding body by blast
    moreover have "tool_linked {} (concat (drop k (group_turns (s_history s))))" for k
    proof (rule tool_linked_suffix)
      show "tool_linked {} (concat (take k (group_turns (s_history s))) @ concat (drop k (group_turns (s_history s))))"
        using assms(4) by (simp flip: concat_append)
      show "concat (drop k (group_turns (s_history s))) = [] \<or> is_user (hd (concat (drop k (group_turns (s_history s)))))"
        using assms(3) by (intro concat_drop_starts) simp
    qed
    ultimately show ?thesis using assms(4) by auto
  qed
  then show ?thesis by (simp add: out text_message_def)
qed

definition demo_session :: session where
  "demo_session = (new_session (Some 20))\<lparr>s_history :=
     [text_message User (u ''a''), text_message Assistant (u ''b''), text_message User (u ''c''),
      \<lparr>m_role = Assistant, m_content = None, m_tool_calls = [\<lparr>tc_id = ''t'', tc_name = ''f'', tc_arguments = []\<rparr>], m_tool_call_id = []\<rparr>,
      \<lparr>m_role = Tool, m_content = Some (u ''r''), m_tool_calls = [], m_tool_call_id = ''t''\<rparr>,
      text_message Assistant (u ''d'')], s_prefix_cache_warmed := True\<rparr>"

definition five :: "message \<Rightarrow> nat" where
  "five m = 5"

lemmas session_run = demo_session_def new_session_def text_message_def is_user_def u_def

theorem trim_drops_fewest_turns_witness:
  "\<exists>k < length (group_turns (s_history demo_session)).
     fst (messages five [] demo_session) = text_message System [] # concat (drop k (group_turns (s_history demo_session)))"
proof -
  obtain out s' where m: "messages five [] demo_session = (out, s')" by fastforce
  have h: "s_max_input_tokens demo_session = Some 20" "is_user (hd (s_history demo_session))" "s_history demo_session \<noteq> []"
    by (simp_all add: session_run)
  show ?thesis using trim_drops_fewest_turns [OF h m] m by auto
qed

theorem trim_keeps_tool_rounds_witness:
  "tool_linked {} (fst (messages five [] demo_session))"
proof -
  obtain out s' where m: "messages five [] demo_session = (out, s')" by fastforce
  have h: "s_max_input_tokens demo_session = Some 20" "s_history demo_session \<noteq> []" "is_user (hd (s_history demo_session))"
    "tool_linked {} (s_history demo_session)"
    by (simp_all add: session_run)
  show ?thesis using trim_keeps_tool_rounds [OF h m] m by simp
qed

text \<open>
  Messages before the first user message are not charged: a history that opens with a long
  assistant message is sent whole, over its budget, because only its turns are counted.
\<close>

lemma orphans_escape_budget:
  "let s = (new_session (Some 20))\<lparr>s_history := [text_message Assistant (replicate 100 0), text_message User [0]]\<rparr>;
       tokens = msg_tokens fallback_estimate (\<lambda>_. []);
       (out, s') = messages tokens [] s
   in tl out = s_history s \<and> int (total_tokens tokens (tl out)) > token_budget 20 \<and> s' = s"
  by (simp add: messages_def trim_to_budget_def session_run msg_tokens_def fallback_estimate_def token_budget_def
      complete_turn_def total_tokens_def Let_def)

end
