(* ===== verification/Tool_Runner.thy ===== *)
theory Tool_Runner
  imports Dialogue_Session "HOL-Library.AList"
begin

text \<open>
  The tool loop of the agent: \<open>agent/openvoicestream_agent/tools/registry.py\<close> (registration,
  schema listing, dispatch) and \<open>tools/runner.py\<close> (streaming an LLM reply, executing the tool
  calls it makes, feeding the results back, and undoing everything when the turn does not
  end in an answer). The LLM and the tool bodies are outside: \<open>llm\<close> gives for the k-th call,
  the tools offered and the messages, the events it streams and how the stream ends; a tool
  gives for its arguments what running it does. JSON is a parameter too: \<open>js_loads\<close> parses the
  arguments, \<open>js_error\<close> serialises the dicts that report an error, and the results of a
  tool body carry their serialised text.
\<close>

section \<open>The registry\<close>

datatype json_args = JObject "(string \<times> ustr) list" | JFalsy | JOther

text \<open>What a tool body does: returns a dict (with \<open>success\<close> false or not) or another value,
  with the text \<open>json.dumps\<close> gives if it can, runs into its timeout, raises, or is cancelled
  with the turn.\<close>

datatype tool_outcome =
    ReturnsDict bool "ustr option"
  | ReturnsValue "ustr option"
  | ToolTimesOut
  | ToolRaises ustr
  | ToolCancelled

record tool =
  t_params :: "string list"
  t_run :: "(string \<times> ustr) list \<Rightarrow> tool_outcome"
  t_preamble :: ustr
  t_completion :: ustr
  t_mode :: string

type_synonym registry = "(string \<times> tool) list"

definition register_tool :: "string \<Rightarrow> tool \<Rightarrow> registry \<Rightarrow> registry" where
  "register_tool name t reg = AList.update name t reg"

definition unregister_tool :: "string \<Rightarrow> registry \<Rightarrow> bool \<times> registry" where
  "unregister_tool name reg = (map_of reg name \<noteq> None, AList.delete name reg)"

definition list_openai_tools :: "string list option \<Rightarrow> registry \<Rightarrow> string list" where
  "list_openai_tools allow reg =
     filter (\<lambda>name. case allow of None \<Rightarrow> True | Some names \<Rightarrow> name \<in> set names) (map fst reg)"

text \<open>A result: whether its \<open>success\<close> is false, and its serialised text.\<close>

record tool_result =
  res_failed :: bool
  res_text :: "ustr option"

datatype tool_error = UnknownTool string | TimedOutTool string | RaisedIn ustr | InvalidArguments ustr

record json =
  js_loads :: "ustr \<Rightarrow> json_args option"
  js_error :: "tool_error \<Rightarrow> ustr"

definition error_result :: "json \<Rightarrow> tool_error \<Rightarrow> tool_result" where
  "error_result js e = \<lparr>res_failed = True, res_text = Some (js_error js e)\<rparr>"

datatype run_error = Cancelled | TimedOut | RaisedError

definition dispatch :: "json \<Rightarrow> registry \<Rightarrow> string \<Rightarrow> json_args \<Rightarrow> run_error + tool_result" where
  "dispatch js reg name args =
     (case map_of reg name of
        None \<Rightarrow> Inr (error_result js (UnknownTool name))
      | Some t \<Rightarrow>
         (case args of
            JOther \<Rightarrow> Inl RaisedError
          | _ \<Rightarrow>
             (let given = (case args of JObject kvs \<Rightarrow> kvs | _ \<Rightarrow> []);
                  clean = filter (\<lambda>(k, v). k \<in> set (t_params t)) given
              in case t_run t clean of
                   ReturnsDict failed text \<Rightarrow> Inr \<lparr>res_failed = failed, res_text = text\<rparr>
                 | ReturnsValue text \<Rightarrow> Inr \<lparr>res_failed = False, res_text = text\<rparr>
                 | ToolTimesOut \<Rightarrow> Inr (error_result js (TimedOutTool name))
                 | ToolRaises e \<Rightarrow> Inr (error_result js (RaisedIn e))
                 | ToolCancelled \<Rightarrow> Inl Cancelled)))"

section \<open>One streamed reply\<close>

datatype llm_event =
    TextEvent ustr
  | ToolDelta "nat option" string string ustr
  | FinishEvent "string option"

datatype stream_end = StreamEnded | StreamFailed run_error

record tool_acc =
  acc_id :: string
  acc_name :: string
  acc_arguments :: ustr

text \<open>What the callbacks saw, newest last.\<close>

datatype runner_effect =
    AssistantToken ustr
  | Preamble ustr
  | ToolStarted string
  | CompletionText ustr
  | ToolCompleted string
  | IterationLimit nat nat

record stream_state =
  ss_text :: ustr
  ss_accs :: "(nat \<times> tool_acc) list"
  ss_finish :: "string option"
  ss_preamble_fired :: "nat list"
  ss_effects :: "runner_effect list"

definition empty_stream :: stream_state where
  "empty_stream = \<lparr>ss_text = [], ss_accs = [], ss_finish = None, ss_preamble_fired = [], ss_effects = []\<rparr>"

definition preamble_of :: "registry \<Rightarrow> string \<Rightarrow> ustr" where
  "preamble_of reg name = (case map_of reg name of None \<Rightarrow> [] | Some t \<Rightarrow> t_preamble t)"

definition merge_delta :: "string \<Rightarrow> string \<Rightarrow> ustr \<Rightarrow> tool_acc \<Rightarrow> tool_acc" where
  "merge_delta call_id name args acc =
     acc\<lparr>acc_id := (if call_id \<noteq> [] then call_id else acc_id acc),
         acc_name := (if name \<noteq> [] then name else acc_name acc),
         acc_arguments := acc_arguments acc @ args\<rparr>"

definition feed_event :: "registry \<Rightarrow> llm_event \<Rightarrow> stream_state \<Rightarrow> stream_state" where
  "feed_event reg ev s =
     (case ev of
        TextEvent t \<Rightarrow>
          if t = [] then s else s\<lparr>ss_text := ss_text s @ t, ss_effects := ss_effects s @ [AssistantToken t]\<rparr>
      | ToolDelta index call_id name args \<Rightarrow>
          (let idx = (case index of None \<Rightarrow> 0 | Some i \<Rightarrow> i);
               slot = (case map_of (ss_accs s) idx of None \<Rightarrow> \<lparr>acc_id = [], acc_name = [], acc_arguments = []\<rparr> | Some a \<Rightarrow> a);
               s1 = s\<lparr>ss_accs := AList.update idx (merge_delta call_id name args slot) (ss_accs s)\<rparr>;
               pre = preamble_of reg name
           in if name \<noteq> [] \<and> idx \<notin> set (ss_preamble_fired s) \<and> pre \<noteq> []
              then s1\<lparr>ss_preamble_fired := idx # ss_preamble_fired s1, ss_effects := ss_effects s1 @ [Preamble pre]\<rparr>
              else s1)
      | FinishEvent r \<Rightarrow> s\<lparr>ss_finish := r\<rparr>)"

definition tool_payload :: "(nat \<times> tool_acc) list \<Rightarrow> (nat \<times> tool_call) list" where
  "tool_payload accs =
     map (\<lambda>(idx, acc). (idx, \<lparr>tc_id = (if acc_id acc \<noteq> [] then acc_id acc else ''call_'' @ nat_str idx),
            tc_name = acc_name acc,
            tc_arguments = (if acc_arguments acc \<noteq> [] then acc_arguments acc else u ''{}'')\<rparr>))
       (sort_key fst accs)"

section \<open>The turn\<close>

record turn =
  tn_session :: session
  tn_messages :: "message list"
  tn_effects :: "runner_effect list"
  tn_llm_calls :: nat

definition log_effects :: "runner_effect list \<Rightarrow> turn \<Rightarrow> turn" where
  "log_effects es t = t\<lparr>tn_effects := tn_effects t @ es\<rparr>"

definition tool_message :: "string \<Rightarrow> ustr \<Rightarrow> message" where
  "tool_message call_id content = \<lparr>m_role = Tool, m_content = Some content, m_tool_calls = [], m_tool_call_id = call_id\<rparr>"

text \<open>\<open>session.add_assistant(text)\<close> and the same message on the caller's list.\<close>

definition answer :: "ustr \<Rightarrow> turn \<Rightarrow> turn" where
  "answer text t =
     (if text = [] then t
      else t\<lparr>tn_session := add_assistant text (tn_session t),
             tn_messages := tn_messages t @ [text_message Assistant text]\<rparr>)"

text \<open>The assistant message that carries the tool calls.\<close>

definition calls_message :: "ustr \<Rightarrow> tool_call list \<Rightarrow> message" where
  "calls_message text calls =
     \<lparr>m_role = Assistant, m_content = (if text = [] then None else Some text), m_tool_calls = calls, m_tool_call_id = []\<rparr>"

definition commit_calls :: "ustr \<Rightarrow> tool_call list \<Rightarrow> turn \<Rightarrow> turn" where
  "commit_calls text calls t =
     t\<lparr>tn_messages := tn_messages t @ [calls_message text calls],
       tn_session := add_assistant_tool_calls (if text = [] then None else Some text) calls (tn_session t)\<rparr>"

text \<open>Executing one call and recording its result; a result that cannot be serialised raises.\<close>

definition execute_call ::
  "json \<Rightarrow> registry \<Rightarrow> nat list \<Rightarrow> nat \<times> tool_call \<Rightarrow> turn
    \<Rightarrow> (run_error + string \<times> ustr \<times> bool) \<times> turn" where
  "execute_call js reg fired ic t =
     (let (idx, tc) = ic;
          pre = preamble_of reg (tc_name tc);
          t1 = log_effects (ToolStarted (tc_id tc) # (if idx \<notin> set fired \<and> tc_name tc \<noteq> [] \<and> pre \<noteq> [] then [Preamble pre] else [])) t;
          outcome = (case js_loads js (tc_arguments tc) of None \<Rightarrow> Inr (error_result js (InvalidArguments (tc_arguments tc))) | Some args \<Rightarrow> dispatch js reg (tc_name tc) args)
      in case outcome of
           Inl e \<Rightarrow> (Inl e, t1)
         | Inr result \<Rightarrow>
            (case res_text result of
               None \<Rightarrow> (Inl RaisedError, t1)
             | Some content \<Rightarrow>
                 (let mode = (case map_of reg (tc_name tc) of None \<Rightarrow> ''await'' | Some m \<Rightarrow> if t_mode m = [] then ''await'' else t_mode m);
                      ctext = (case map_of reg (tc_name tc) of None \<Rightarrow> [] | Some m \<Rightarrow> t_completion m)
                  in (Inr (mode, ctext, res_failed result),
                      log_effects [ToolCompleted (tc_id tc)]
                        (t1\<lparr>tn_messages := tn_messages t1 @ [tool_message (tc_id tc) content],
                            tn_session := add_tool_result (tc_id tc) content (tn_session t1)\<rparr>)))))"

fun execute_calls ::
  "json \<Rightarrow> registry \<Rightarrow> nat list \<Rightarrow> (nat \<times> tool_call) list \<Rightarrow> turn
    \<Rightarrow> (run_error + (string \<times> ustr \<times> bool) list) \<times> turn" where
  "execute_calls js reg fired [] t = (Inr [], t)"
| "execute_calls js reg fired (ic # ics) t =
     (case execute_call js reg fired ic t of
        (Inl e, t1) \<Rightarrow> (Inl e, t1)
      | (Inr m, t1) \<Rightarrow>
         (case execute_calls js reg fired ics t1 of
            (Inl e, t2) \<Rightarrow> (Inl e, t2)
          | (Inr ms, t2) \<Rightarrow> (Inr (m # ms), t2)))"

text \<open>The template branch: whether round 2 is skipped, and the completion texts spoken on the
  way to that decision.\<close>

fun template_decision :: "bool \<Rightarrow> (string \<times> ustr \<times> bool) list \<Rightarrow> bool \<times> ustr list" where
  "template_decision handled [] = (handled, [])"
| "template_decision handled ((mode, ctext, failed) # rest) =
     (if mode \<noteq> ''template'' then template_decision handled rest
      else if failed then (False, [])
      else if ctext = [] then (False, [])
      else (let (h, spoken) = template_decision True rest in (h, ctext # spoken)))"

definition synth_text :: "(string \<times> ustr \<times> bool) list \<Rightarrow> ustr" where
  "synth_text modes =
     (case List.find (\<lambda>(mode, ctext, failed). mode = ''template'' \<and> ctext \<noteq> []) modes of
        None \<Rightarrow> [] | Some (mode, ctext, failed) \<Rightarrow> ctext)"

datatype run_result = Final ustr | CapReached | Failed run_error

type_synonym llm = "nat \<Rightarrow> string list \<Rightarrow> message list \<Rightarrow> llm_event list \<times> stream_end"

text \<open>Rounds until an answer or the iteration cap.\<close>

fun run_rounds ::
  "llm \<Rightarrow> json \<Rightarrow> registry \<Rightarrow> string list \<Rightarrow> nat \<Rightarrow> turn \<Rightarrow> run_result \<times> turn" where
  "run_rounds llm js reg tools 0 t = (CapReached, t)"
| "run_rounds llm js reg tools (Suc n) t =
     (let (events, stop) = llm (tn_llm_calls t) tools (tn_messages t);
          s = fold (feed_event reg) events empty_stream;
          t1 = (log_effects (ss_effects s) t)\<lparr>tn_llm_calls := tn_llm_calls t + 1\<rparr>
      in case stop of
           StreamFailed e \<Rightarrow> (Failed e, t1)
         | StreamEnded \<Rightarrow>
             if ss_accs s = [] \<or> ss_finish s \<noteq> Some ''tool_calls'' then (Final (ss_text s), answer (ss_text s) t1)
             else (let payload = tool_payload (ss_accs s) in
               case execute_calls js reg (ss_preamble_fired s) payload (commit_calls (ss_text s) (map snd payload) t1) of
                 (Inl e, t2) \<Rightarrow> (Failed e, t2)
               | (Inr modes, t2) \<Rightarrow>
                  (let (handled, spoken) = template_decision False modes;
                       t3 = log_effects (map CompletionText spoken) t2
                   in if handled then (Final (synth_text modes), answer (synth_text modes) t3)
                      else run_rounds llm js reg tools n t3)))"

text \<open>Undoing the turn on the session and on the caller's list.\<close>

definition undo :: "nat \<Rightarrow> nat \<Rightarrow> turn \<Rightarrow> turn" where
  "undo rollback_anchor messages_offset t =
     t\<lparr>tn_session := snd (rollback_to (int rollback_anchor) (tn_session t)),
       tn_messages := take (rollback_anchor + messages_offset) (tn_messages t)\<rparr>"

definition stream_with_tools ::
  "llm \<Rightarrow> json \<Rightarrow> registry \<Rightarrow> string list option \<Rightarrow> nat \<Rightarrow> turn \<Rightarrow> run_result \<times> turn" where
  "stream_with_tools llm js reg allowed max_iterations t =
     (let rollback_anchor = length (s_history (tn_session t));
          messages_offset = length (tn_messages t) - rollback_anchor
      in case run_rounds llm js reg (list_openai_tools allowed reg) max_iterations t of
           (Final text, t1) \<Rightarrow> (Final text, t1)
         | (CapReached, t1) \<Rightarrow>
             (CapReached, log_effects [IterationLimit max_iterations (fst (rollback_to (int rollback_anchor) (tn_session t1)))]
                (undo rollback_anchor messages_offset t1))
         | (Failed e, t1) \<Rightarrow> (Failed e, undo rollback_anchor messages_offset t1))"

section \<open>Rounds\<close>

text \<open>
  A complete round: an assistant message with tool calls, then exactly one result per call,
  in order. \<open>grows_by X\<close> says that both the session and the caller's list grew by the
  messages X.
\<close>

fun answers :: "tool_call list \<Rightarrow> message list \<Rightarrow> bool" where
  "answers [] [] = True"
| "answers (c # cs) (m # ms) = (m_role m = Tool \<and> m_tool_call_id m = tc_id c \<and> m_content m \<noteq> None \<and> answers cs ms)"
| "answers _ _ = False"

definition complete_round :: "message list \<Rightarrow> bool" where
  "complete_round r = (case r of [] \<Rightarrow> False
     | m # ms \<Rightarrow> m_role m = Assistant \<and> m_tool_calls m \<noteq> [] \<and> answers (m_tool_calls m) ms)"

definition grows_by :: "message list \<Rightarrow> turn \<Rightarrow> turn \<Rightarrow> bool" where
  "grows_by X t t' = (s_history (tn_session t') = s_history (tn_session t) @ X \<and> tn_messages t' = tn_messages t @ X)"

lemma grows_by_refl: "grows_by [] t t"
  by (simp add: grows_by_def)

lemma grows_by_trans: "grows_by X a b \<Longrightarrow> grows_by Y b c \<Longrightarrow> grows_by (X @ Y) a c"
  by (simp add: grows_by_def)

lemma log_effects_frame [simp]:
  "tn_session (log_effects es t) = tn_session t" "tn_messages (log_effects es t) = tn_messages t"
  "tn_llm_calls (log_effects es t) = tn_llm_calls t"
  by (simp_all add: log_effects_def)

lemma execute_call_spec:
  assumes "execute_call js reg fired ic t = (r, t')"
  shows "tn_llm_calls t' = tn_llm_calls t \<and>
     (case r of
        Inl e \<Rightarrow> grows_by [] t t'
      | Inr m \<Rightarrow> (\<exists>content. grows_by [tool_message (tc_id (snd ic)) content] t t'))"
  using assms
  by (auto simp: execute_call_def Let_def grows_by_def add_tool_result_def tool_message_def
      split: prod.splits sum.splits option.splits)

lemma execute_calls_spec:
  "execute_calls js reg fired ics t = (r, t') \<Longrightarrow>
     tn_llm_calls t' = tn_llm_calls t \<and>
     (\<exists>X. grows_by X t t' \<and> (case r of Inl e \<Rightarrow> True | Inr ms \<Rightarrow> answers (map snd ics) X))"
proof (induction ics arbitrary: t r t')
  case Nil
  then show ?case using grows_by_refl by (intro conjI exI [of _ "[]"]) auto
next
  case (Cons ic ics)
  obtain r1 t1 where e: "execute_call js reg fired ic t = (r1, t1)" by fastforce
  note one = execute_call_spec [OF e]
  show ?case
  proof (cases r1)
    case (Inl err)
    then show ?thesis using Cons.prems e one by auto
  next
    case (Inr m)
    then obtain content where g: "grows_by [tool_message (tc_id (snd ic)) content] t t1" "tn_llm_calls t1 = tn_llm_calls t"
      using one by auto
    obtain r2 t2 where e2: "execute_calls js reg fired ics t1 = (r2, t2)" by fastforce
    obtain X where X: "grows_by X t1 t2" "tn_llm_calls t2 = tn_llm_calls t1"
      "case r2 of Inl e \<Rightarrow> True | Inr ms \<Rightarrow> answers (map snd ics) X" using Cons.IH [OF e2] by blast
    have "t' = t2" "case r of Inl e \<Rightarrow> True | Inr ms \<Rightarrow> (\<exists>ms'. r2 = Inr ms')"
      using Cons.prems e e2 Inr by (auto split: sum.splits)
    then show ?thesis
      using grows_by_trans [OF g(1) X(1)] g(2) X(2,3) by (intro conjI exI) (auto simp: tool_message_def split: sum.splits)
  qed
qed

lemma commit_grows: "grows_by [calls_message text calls] t (commit_calls text calls t)"
  by (simp add: grows_by_def commit_calls_def calls_message_def add_assistant_tool_calls_def)

lemma payload_nonempty: "accs \<noteq> [] \<Longrightarrow> tool_payload accs \<noteq> []"
  using length_sort [of fst accs] by (auto simp: tool_payload_def simp del: length_sort)

text \<open>An echo loop: the last three texts of the assistant are the same, and short. An answer grows
  both lists, unless it completes an echo loop, which clears the session.\<close>

definition echoes :: "message list \<Rightarrow> bool" where
  "echoes h = (case rev (assistant_texts h) of x # y # z # _ \<Rightarrow> x = y \<and> y = z \<and> length x \<le> 40 | _ \<Rightarrow> False)"

lemma assistant_texts_length: "length (assistant_texts h) \<le> length h"
  by (induction h) (auto simp: assistant_texts_def map_filter_simps split: option.split)

lemma echo_recovery_history:
  "s_history (maybe_recover_from_echo s) = (if echoes (s_history s) then [] else s_history s)"
proof (cases "\<exists>r z y x. assistant_texts (s_history s) = r @ [z, y, x]")
  case True
  then obtain r z y x where t: "assistant_texts (s_history s) = r @ [z, y, x]" by blast
  then have "3 \<le> length (s_history s)" using assistant_texts_length [of "s_history s"] by simp
  then show ?thesis
    using t by (auto simp: maybe_recover_from_echo_def echoes_def echo_window_def echo_max_len_def reset_session_def Let_def)
next
  case False
  have short: "length (assistant_texts (s_history s)) < 3"
  proof (rule ccontr)
    assume "\<not> length (assistant_texts (s_history s)) < 3"
    then obtain x y z r where "rev (assistant_texts (s_history s)) = x # y # z # r"
      by (cases "rev (assistant_texts (s_history s))" rule: list.exhaust [case_product list.exhaust])
         (metis Suc_le_length_iff length_rev numeral_3_eq_3 not_less)+
    then have "assistant_texts (s_history s) = rev r @ [z, y, x]" by (metis append.assoc append_Cons append_Nil rev.simps(2) rev_rev_ident)
    then show False using False by blast
  qed
  then have "\<not> echoes (s_history s)"
    by (auto simp: echoes_def split: list.split dest!: arg_cong [of "rev _" _ length])
  then show ?thesis using short by (simp add: maybe_recover_from_echo_def echo_window_def Let_def)
qed

lemma answer_spec:
  "tn_messages (answer text t) = tn_messages t @ (if text = [] then [] else [text_message Assistant text]) \<and>
   s_history (tn_session (answer text t)) =
     (if text = [] then s_history (tn_session t)
      else if echoes (s_history (tn_session t) @ [text_message Assistant text]) then []
      else s_history (tn_session t) @ [text_message Assistant text]) \<and> tn_llm_calls (answer text t) = tn_llm_calls t"
  by (cases "text = []") (simp_all add: answer_def add_assistant_def echo_recovery_history)

section \<open>A turn keeps the two lists in step\<close>

text \<open>What a run of rounds leaves: complete rounds and the answer, or some growth that the
  caller undoes.\<close>

definition rounds_left :: "nat \<Rightarrow> turn \<Rightarrow> run_result \<Rightarrow> turn \<Rightarrow> bool" where
  "rounds_left n t r t' =
     (tn_llm_calls t' \<le> tn_llm_calls t + n \<and>
      (case r of
         Final text \<Rightarrow> (\<exists>rounds tt. (\<forall>x\<in>set rounds. complete_round x) \<and> length rounds \<le> n
            \<and> grows_by (concat rounds) t tt \<and> t' = answer text tt)
       | _ \<Rightarrow> (\<exists>X. grows_by X t t')))"

lemma rounds_left_step:
  assumes "rounds_left n t1 r t'" "complete_round x" "grows_by x t t1" "tn_llm_calls t1 = tn_llm_calls t + 1"
  shows "rounds_left (Suc n) t r t'"
proof (cases r)
  case (Final ans)
  then obtain rounds tt where "\<forall>x\<in>set rounds. complete_round x" "length rounds \<le> n"
    "grows_by (concat rounds) t1 tt" "t' = answer ans tt" "tn_llm_calls t' \<le> tn_llm_calls t1 + n"
    using assms(1) by (auto simp: rounds_left_def)
  moreover from this have "grows_by (concat (x # rounds)) t tt" using grows_by_trans [OF assms(3)] by simp
  ultimately show ?thesis using assms(2,4) Final unfolding rounds_left_def
    by (simp del: concat.simps) (metis length_Cons Suc_le_mono set_ConsD)
next
  case CapReached
  then show ?thesis using assms grows_by_trans [OF assms(3)] by (auto simp: rounds_left_def)
next
  case (Failed e)
  then show ?thesis using assms grows_by_trans [OF assms(3)] by (auto simp: rounds_left_def)
qed

lemma run_rounds_spec: "run_rounds llm js reg tools n t = (r, t') \<Longrightarrow> rounds_left n t r t'"
proof (induction n arbitrary: t r t')
  case 0
  then show ?case using grows_by_refl [of t] by (auto simp: rounds_left_def)
next
  case (Suc n)
  obtain events stop where ev: "llm (tn_llm_calls t) tools (tn_messages t) = (events, stop)" by fastforce
  define s where "s = fold (feed_event reg) events empty_stream"
  define t1 where "t1 = (log_effects (ss_effects s) t)\<lparr>tn_llm_calls := tn_llm_calls t + 1\<rparr>"
  have g1: "grows_by [] t t1" "tn_llm_calls t1 = tn_llm_calls t + 1" by (simp_all add: t1_def grows_by_def)
  note unf = Suc.prems [unfolded run_rounds.simps ev Let_def prod.case, folded s_def, folded t1_def]
  show ?case
  proof (cases stop)
    case (StreamFailed e)
    then show ?thesis using unf g1 by (auto simp: rounds_left_def)
  next
    case StreamEnded
    show ?thesis
    proof (cases "ss_accs s = [] \<or> ss_finish s \<noteq> Some ''tool_calls''")
      case True
      then have "r = Final (ss_text s)" "t' = answer (ss_text s) t1" using unf StreamEnded by auto
      then show ?thesis using g1 answer_spec [of "ss_text s" t1]
        by (auto simp: rounds_left_def intro!: exI [of _ "[]"] exI [of _ t1])
    next
      case tools: False
      define payload where "payload = tool_payload (ss_accs s)"
      define t2 where "t2 = commit_calls (ss_text s) (map snd payload) t1"
      obtain r3 t3 where ex: "execute_calls js reg (ss_preamble_fired s) payload t2 = (r3, t3)" by fastforce
      have unf2: "(case r3 of Inl e \<Rightarrow> (Failed e, t3) | Inr modes \<Rightarrow>
          if fst (template_decision False modes)
          then (Final (synth_text modes), answer (synth_text modes) (log_effects (map CompletionText (snd (template_decision False modes))) t3))
          else run_rounds llm js reg tools n (log_effects (map CompletionText (snd (template_decision False modes))) t3)) = (r, t')"
        using unf StreamEnded tools ex unfolding payload_def t2_def
        by (auto split: sum.splits prod.splits)
      obtain X where X: "grows_by X t2 t3" "tn_llm_calls t3 = tn_llm_calls t2"
          "case r3 of Inl e \<Rightarrow> True | Inr ms \<Rightarrow> answers (map snd payload) X"
        using execute_calls_spec [OF ex] by blast
      have "grows_by [calls_message (ss_text s) (map snd payload)] t t2" "tn_llm_calls t2 = tn_llm_calls t + 1"
        using grows_by_trans [OF g1(1) commit_grows] g1(2) unfolding t2_def by (simp_all add: commit_calls_def)
      with X have grown: "grows_by (calls_message (ss_text s) (map snd payload) # X) t t3" "tn_llm_calls t3 = tn_llm_calls t + 1"
        using grows_by_trans by fastforce+
      show ?thesis
      proof (cases r3)
        case (Inl e)
        then show ?thesis using unf2 grown by (auto simp: rounds_left_def)
      next
        case (Inr modes)
        define t4 where "t4 = log_effects (map CompletionText (snd (template_decision False modes))) t3"
        have cr: "complete_round (calls_message (ss_text s) (map snd payload) # X)"
          using X(3) Inr tools payload_nonempty by (simp add: complete_round_def calls_message_def payload_def)
        have g4: "grows_by (calls_message (ss_text s) (map snd payload) # X) t t4" "tn_llm_calls t4 = tn_llm_calls t + 1"
          using grown by (simp_all add: t4_def grows_by_def)
        show ?thesis
        proof (cases "fst (template_decision False modes)")
          case True
          then have "r = Final (synth_text modes)" "t' = answer (synth_text modes) t4"
            using unf2 Inr t4_def by auto
          then show ?thesis using g4 cr answer_spec [of "synth_text modes" t4]
            by (auto simp: rounds_left_def intro!: exI [of _ "[_]"] exI [of _ t4])
        next
          case False
          then have "run_rounds llm js reg tools n t4 = (r, t')" using unf2 Inr t4_def by simp
          from Suc.IH [OF this] show ?thesis using rounds_left_step cr g4 by blast
        qed
      qed
    qed
  qed
qed

section \<open>An example assistant\<close>

definition sample_js :: json where
  "sample_js = \<lparr>js_loads = (\<lambda>t. if t = u ''{}'' then Some (JObject []) else if t = u ''7'' then Some JOther else None),
               js_error = (\<lambda>e. u ''error'')\<rparr>"

definition lamp :: tool where
  "lamp = \<lparr>t_params = [], t_run = (\<lambda>args. ReturnsDict False (Some (u ''ok''))), t_preamble = [],
          t_completion = u ''done'', t_mode = ''template''\<rparr>"

definition broken :: tool where
  "broken = lamp\<lparr>t_run := (\<lambda>args. ToolRaises [])\<rparr>"

definition sample_registry :: registry where
  "sample_registry = register_tool ''broken'' broken (register_tool ''clock'' (lamp\<lparr>t_mode := ''await''\<rparr>) (register_tool ''lamp'' lamp []))"

text \<open>An LLM that calls the named tools in its first reply and then answers \<open>hi\<close>.\<close>

definition calling :: "(string \<times> ustr) list \<Rightarrow> llm" where
  "calling calls k tools msgs =
     (if k = 0 then (map (\<lambda>(i, name, args). ToolDelta (Some i) [] name args) (enumerate 0 calls) @ [FinishEvent (Some ''tool_calls'')], StreamEnded)
      else ([TextEvent (u ''hi''), FinishEvent (Some ''stop'')], StreamEnded))"

definition sample_turn :: turn where
  "sample_turn = \<lparr>tn_session = add_user (u ''q'') (new_session None),
                  tn_messages = [text_message System (u ''sys''), text_message User (u ''q'')],
                 tn_effects = [], tn_llm_calls = 0\<rparr>"

definition demo :: "(string \<times> ustr) list \<Rightarrow> string list option \<Rightarrow> run_result \<times> turn" where
  "demo calls allowed = stream_with_tools (calling calls) sample_js sample_registry allowed 3 sample_turn"

lemmas tools_run = demo_def sample_turn_def calling_def sample_registry_def register_tool_def lamp_def broken_def sample_js_def
  u_def text_message_def add_user_def new_session_def stream_with_tools_def list_openai_tools_def feed_event_def empty_stream_def
  merge_delta_def preamble_of_def tool_payload_def calls_message_def commit_calls_def execute_call_def dispatch_def
  add_tool_result_def tool_message_def synth_text_def answer_def add_assistant_def undo_def rollback_to_def log_effects_def error_result_def
  maybe_recover_from_echo_def echo_window_def echo_max_len_def add_assistant_tool_calls_def nat_str.simps numeral_3_eq_3 Let_def

section \<open>Properties\<close>

text \<open>
  C23: a turn that does not end in an answer leaves no trace. Whenever the LLM stream fails, a
  tool is cancelled or raises, a result cannot be serialised, or the iteration cap is reached,
  the session history and the caller's message list are exactly what they were (provided the
  caller's list holds at least as many messages as the history, as a system prompt followed
  by the untrimmed history does), and no more than \<open>max_iterations\<close> LLM calls were made.
\<close>

theorem failed_turn_leaves_no_trace:
  assumes "stream_with_tools llm js reg allowed max_iterations t = (r, t')"
    and "\<forall>text. r \<noteq> Final text"
    and "length (s_history (tn_session t)) \<le> length (tn_messages t)"
  shows "s_history (tn_session t') = s_history (tn_session t) \<and> tn_messages t' = tn_messages t
    \<and> tn_llm_calls t' \<le> tn_llm_calls t + max_iterations"
proof -
  obtain r1 t1 where run: "run_rounds llm js reg (list_openai_tools allowed reg) max_iterations t = (r1, t1)" by fastforce
  then have "r1 = r" "tn_llm_calls t1 = tn_llm_calls t'"
    "tn_session t' = snd (rollback_to (int (length (s_history (tn_session t)))) (tn_session t1))"
    "tn_messages t' = take (length (tn_messages t)) (tn_messages t1)"
    using assms by (auto simp: stream_with_tools_def undo_def Let_def split: run_result.splits)
  then show ?thesis using run_rounds_spec [OF run] assms(2)
    by (cases r) (auto simp: rounds_left_def grows_by_def rollback_spec)
qed

theorem failed_turn_leaves_no_trace_witness:
  "s_history (tn_session (snd (demo [(''lamp'', u ''7'')] None))) = s_history (tn_session sample_turn)"
proof -
  obtain r t' where d: "demo [(''lamp'', u ''7'')] None = (r, t')" by fastforce
  have "fst (demo [(''lamp'', u ''7'')] None) = Failed RaisedError" by (simp add: tools_run)
  then have r: "r = Failed RaisedError" using d by simp
  have "length (s_history (tn_session sample_turn)) \<le> length (tn_messages sample_turn)" by (simp add: tools_run)
  then show ?thesis using failed_turn_leaves_no_trace [OF d [unfolded demo_def]] r d by simp
qed

text \<open>
  C28: a turn that ends in an answer is well formed. The caller's list grew by at most
  \<open>max_iterations\<close> complete rounds (an assistant message with tool calls followed by exactly
  one result per call, in call order) and then the answer if it is not empty. The session
  history grew by the very same messages, unless the answer is the third assistant text in a
  row that is the same and of at most 40 characters: then the recovery from echo loops has
  emptied the history, and the caller's list alone keeps the messages.
\<close>

theorem answered_turn_is_well_formed:
  assumes "stream_with_tools llm js reg allowed max_iterations t = (Final ans, t')"
  shows "\<exists>rounds. length rounds \<le> max_iterations \<and> (\<forall>x\<in>set rounds. complete_round x)
     \<and> (let grown = concat rounds @ (if ans = [] then [] else [text_message Assistant ans]);
            full = s_history (tn_session t) @ grown
        in tn_messages t' = tn_messages t @ grown
           \<and> s_history (tn_session t') = (if ans \<noteq> [] \<and> echoes full then [] else full))"
proof -
  have run: "run_rounds llm js reg (list_openai_tools allowed reg) max_iterations t = (Final ans, t')"
    using assms by (auto simp: stream_with_tools_def Let_def split: run_result.splits prod.splits)
  obtain rounds tt where "\<forall>x\<in>set rounds. complete_round x" "length rounds \<le> max_iterations"
    "grows_by (concat rounds) t tt" "t' = answer ans tt"
    using run_rounds_spec [OF run] by (auto simp: rounds_left_def)
  then show ?thesis using answer_spec [of ans tt]
    by (intro exI [of _ rounds]) (auto simp: grows_by_def Let_def)
qed

theorem answered_turn_is_well_formed_witness:
  "\<exists>rounds. length rounds \<le> 3 \<and> (\<forall>x\<in>set rounds. complete_round x)
     \<and> tn_messages (snd (demo [(''clock'', u ''{}'')] None)) = tn_messages sample_turn @ concat rounds @ [text_message Assistant (u ''hi'')]"
proof -
  obtain r t' where d: "demo [(''clock'', u ''{}'')] None = (r, t')" by fastforce
  have "fst (demo [(''clock'', u ''{}'')] None) = Final (u ''hi'')" by (simp add: tools_run)
  then have r: "demo [(''clock'', u ''{}'')] None = (Final (u ''hi''), t')" using d by simp
  have "u ''hi'' \<noteq> []" by (simp add: u_def)
  then show ?thesis using answered_turn_is_well_formed [OF r [unfolded demo_def]] r by (auto simp: Let_def)
qed

section \<open>Where the runner departs from its documentation\<close>

text \<open>
  \<open>allowed_tools\<close> only filters the schema that is offered: a call of a tool outside it is
  executed all the same.
\<close>

lemma tool_outside_the_allowed_set_runs:
  "fst (demo [(''lamp'', u ''{}'')] (Some [])) = Final (u ''done'')
   \<and> (\<exists>call_id. ToolCompleted call_id \<in> set (tn_effects (snd (demo [(''lamp'', u ''{}'')] (Some [])))))"
  by (simp add: tools_run)

text \<open>
  A template tool that succeeded has its completion text spoken, but a later template tool
  that fails makes the second round run as well.
\<close>

lemma template_then_failure_answers_twice:
  "fst (demo [(''lamp'', u ''{}''), (''broken'', u ''{}'')] None) = Final (u ''hi'')
   \<and> CompletionText (u ''done'') \<in> set (tn_effects (snd (demo [(''lamp'', u ''{}''), (''broken'', u ''{}'')] None)))"
  by (simp add: tools_run)

text \<open>\<open>dispatch\<close> raises on arguments that are JSON but not an object, though it is documented
  always to return a dict.\<close>

lemma dispatch_raises_on_non_object:
  "dispatch sample_js sample_registry ''lamp'' JOther = Inl RaisedError"
  by (simp add: tools_run)

text \<open>
  When the caller's list is shorter than the history (a trimmed prompt), the offset is
  clamped to zero and the rollback leaves the messages of the abandoned round behind.
\<close>

lemma short_list_keeps_orphans:
  "let t = sample_turn\<lparr>tn_session := (new_session None)\<lparr>s_history := replicate 4 (text_message User (u ''q''))\<rparr>\<rparr>;
       t' = snd (stream_with_tools (calling [(''lamp'', u ''7'')]) sample_js sample_registry None 3 t)
   in s_history (tn_session t') = s_history (tn_session t) \<and> length (tn_messages t') = length (tn_messages t) + 1"
  by (simp add: tools_run)

end
