(* ===== verification/Session_Limiter.thy ===== *)
theory Session_Limiter
  imports Capability
begin

text \<open>
  The voice-session admission gate, \<open>app/core/session_limiter.py\<close>: \<open>resolve_limit\<close> over the
  capability resolver, the \<open>SessionLimiter\<close> with its release tokens, and the two admission
  helpers of the HTTP and WebSocket endpoints. A token is an object of its own; it is named
  by its index in \<open>tokens\<close>. Each operation runs under the limiter's lock, so one call is one
  step. The metric calls are best effort: a flag per call says whether it raised.
\<close>

section \<open>Limit derivation\<close>

datatype limiter_error = BadConfig config_error | AttributeErr | LimitNotPositive int

definition limiter_parse_int :: "pyval \<Rightarrow> string \<Rightarrow> config_error + int option" where
  "limiter_parse_int v label =
     (case v of
        PNone \<Rightarrow> Inr None
      | PInt n \<Rightarrow> Inr (Some n)
      | PBool b \<Rightarrow> Inr (Some (if b then 1 else 0))
      | PStr raw \<Rightarrow>
          (if sstrip raw = [] then Inr None
           else (case py_int (sstrip raw) of
                   None \<Rightarrow> Inl (NotAnInteger label v)
                 | Some n \<Rightarrow> Inr (Some n))))"

text \<open>\<open>(block or os.environ.get(..) or '''').lower()\<close>; a non-string block value has no \<open>lower\<close>.\<close>

definition block_or_env :: "pyval \<Rightarrow> string \<Rightarrow> string option" where
  "block_or_env v from_env =
     (if truthy v then (case v of PStr s \<Rightarrow> Some (py_lower s) | _ \<Rightarrow> None) else Some (py_lower from_env))"

definition limiter_infer_target :: "environ \<Rightarrow> profile \<Rightarrow> string option" where
  "limiter_infer_target os_env profile =
     (let name = py_lower (str_or_empty (dget (p_top profile) ''name''))
      in if contains ''orin-nx'' name \<or> contains ''orin_nx'' name then Some ''orin-nx''
         else if contains ''orin-nano'' name \<or> contains ''orin_nano'' name then Some ''orin-nano''
         else if contains ''rk'' name \<or> contains ''rockchip'' name \<or> contains ''radxa'' name then Some ''rk''
         else if contains ''desktop'' name \<or> contains ''ci'' name then Some ''desktop''
         else (case block_or_env (dget (p_env profile) ''RK_PLATFORM'') (env_get os_env ''RK_PLATFORM'') of
                 None \<Rightarrow> None
               | Some rk_platform \<Rightarrow>
                   if rk_platform \<noteq> [] then Some ''rk''
                   else (case block_or_env (dget (p_env profile) ''LANGUAGE_MODE'')
                                (env_get os_env ''LANGUAGE_MODE'') of
                           None \<Rightarrow> None
                         | Some lang_mode \<Rightarrow> if lang_mode = ''rk'' then Some ''rk'' else Some ''unknown'')))"

definition resolve_limit :: "environ \<Rightarrow> registry \<Rightarrow> registry \<Rightarrow> profile \<Rightarrow> limiter_error + int" where
  "resolve_limit os_env asr_reg tts_reg profile =
     (case limiter_parse_int (env_val os_env ''OVS_MAX_CONCURRENT_SESSIONS'') ''OVS_MAX_CONCURRENT_SESSIONS'' of
        Inl e \<Rightarrow> Inl (BadConfig e)
      | Inr _ \<Rightarrow>
         (case limiter_parse_int (dget (p_top profile) ''max_concurrent_sessions'') ''profile.max_concurrent_sessions'' of
            Inl e \<Rightarrow> Inl (BadConfig e)
          | Inr _ \<Rightarrow>
             (case resolve os_env asr_reg tts_reg profile None None [] of
                Inl e \<Rightarrow> Inl (BadConfig e)
              | Inr resolved \<Rightarrow>
                 (case session_ceiling resolved of
                    Some n \<Rightarrow> Inr n
                  | None \<Rightarrow>
                     (case limiter_infer_target os_env profile of
                        None \<Rightarrow> Inl AttributeErr
                      | Some target \<Rightarrow> Inr (target_default target))))))"

section \<open>The limiter\<close>

record token =
  acquired_at_count :: int
  released :: bool

record limiter =
  limit :: int
  active :: int
  tokens :: "token list"
  sessions_gauge :: int
  rejected_http :: int
  rejected_ws :: int

definition new_limiter :: "int \<Rightarrow> limiter_error + limiter" where
  "new_limiter n =
     (if n \<le> 0 then Inl (LimitNotPositive n)
      else Inr \<lparr>limit = n, active = 0, tokens = [], sessions_gauge = 0, rejected_http = 0, rejected_ws = 0\<rparr>)"

definition available :: "limiter \<Rightarrow> int" where
  "available s = max 0 (limit s - active s)"

definition try_acquire :: "bool \<Rightarrow> limiter \<Rightarrow> nat option \<times> limiter" where
  "try_acquire metric_ok s =
     (if active s \<ge> limit s then (None, s)
      else (let current = active s + 1
            in (Some (length (tokens s)),
                s\<lparr>active := current,
                  tokens := tokens s @ [\<lparr>acquired_at_count = current, released = False\<rparr>],
                  sessions_gauge := sessions_gauge s + (if metric_ok then 1 else 0)\<rparr>)))"

definition release :: "bool \<Rightarrow> nat \<Rightarrow> limiter \<Rightarrow> limiter" where
  "release metric_ok t s =
     (if t < length (tokens s) \<and> \<not> released (tokens s ! t)
      then s\<lparr>tokens := (tokens s)[t := (tokens s ! t)\<lparr>released := True\<rparr>],
             active := (if active s > 0 then active s - 1 else active s),
             sessions_gauge := sessions_gauge s - (if metric_ok then 1 else 0)\<rparr>
      else s)"

datatype limiter_event = Acquire bool | Release bool nat

fun limiter_step :: "limiter_event \<Rightarrow> limiter \<Rightarrow> limiter" where
  "limiter_step (Acquire ok) s = snd (try_acquire ok s)"
| "limiter_step (Release ok t) s = release ok t s"

definition live_tokens :: "limiter \<Rightarrow> nat set" where
  "live_tokens s = {t. t < length (tokens s) \<and> \<not> released (tokens s ! t)}"

definition limiter_inv :: "limiter \<Rightarrow> bool" where
  "limiter_inv s \<longleftrightarrow> 0 < limit s \<and> active s = int (card (live_tokens s)) \<and> active s \<le> limit s"

section \<open>Admission helpers\<close>

datatype 'e http_outcome = LimiterUnavailable | TooManySessions int int | BodyRaised 'e

text \<open>
  \<open>acquire_http\<close> as a context manager around the handler's body. The body receives the token
  and the limiter as it is then, and leaves the limiter as the whole process has left it when
  the body ends, with the body's result or its exception.
\<close>

definition acquire_http ::
  "bool \<Rightarrow> bool \<Rightarrow> bool \<Rightarrow> limiter option \<Rightarrow> (nat \<Rightarrow> limiter \<Rightarrow> ('e + 'r) \<times> limiter)
    \<Rightarrow> ('e http_outcome + 'r) \<times> limiter option" where
  "acquire_http inc_ok rej_ok dec_ok lim body =
     (case lim of
        None \<Rightarrow> (Inl LimiterUnavailable, None)
      | Some s \<Rightarrow>
         (case try_acquire inc_ok s of
            (None, s1) \<Rightarrow>
              (Inl (TooManySessions (active s1) (limit s1)),
               Some (s1\<lparr>rejected_http := rejected_http s1 + (if rej_ok then 1 else 0)\<rparr>))
          | (Some t, s1) \<Rightarrow>
             (case body t s1 of
                (outcome, s2) \<Rightarrow>
                  ((case outcome of Inl e \<Rightarrow> Inl (BodyRaised e) | Inr r \<Rightarrow> Inr r),
                   Some (release dec_ok t s2)))))"

datatype ws_close = WsClose int "(int \<times> int) option"

text \<open>The token, or the close frame sent (a raise of \<open>ws.close\<close> is swallowed).\<close>

definition try_acquire_ws :: "bool \<Rightarrow> bool \<Rightarrow> limiter option \<Rightarrow> (ws_close + nat) \<times> limiter option" where
  "try_acquire_ws inc_ok rej_ok lim =
     (case lim of
        None \<Rightarrow> (Inl (WsClose 1011 None), None)
      | Some s \<Rightarrow>
         (case try_acquire inc_ok s of
            (None, s1) \<Rightarrow>
              (Inl (WsClose 4429 (Some (active s1, limit s1))),
               Some (s1\<lparr>rejected_ws := rejected_ws s1 + (if rej_ok then 1 else 0)\<rparr>))
          | (Some t, s1) \<Rightarrow> (Inr t, Some s1)))"

definition init_limiter :: "environ \<Rightarrow> registry \<Rightarrow> registry \<Rightarrow> profile \<Rightarrow> limiter_error + limiter" where
  "init_limiter os_env asr_reg tts_reg profile =
     (case resolve_limit os_env asr_reg tts_reg profile of Inl e \<Rightarrow> Inl e | Inr n \<Rightarrow> new_limiter n)"

section \<open>The limiter is a pool of slots\<close>

lemma live_finite [simp]: "finite (live_tokens s)"
  by (simp add: live_tokens_def)

lemma live_try_acquire:
  "live_tokens (snd (try_acquire ok s)) =
     (if active s \<ge> limit s then live_tokens s else insert (length (tokens s)) (live_tokens s))"
  by (auto simp: live_tokens_def try_acquire_def Let_def nth_append less_Suc_eq)

lemma live_release [simp]: "live_tokens (release ok t s) = live_tokens s - {t}"
  by (auto simp: live_tokens_def release_def nth_list_update split: if_splits)

lemma fresh_token [simp]: "length (tokens s) \<notin> live_tokens s"
  by (simp add: live_tokens_def)

lemma limit_frame [simp]:
  "limit (snd (try_acquire ok s)) = limit s" "limit (release ok t s) = limit s"
  by (simp_all add: try_acquire_def release_def Let_def)

lemma try_acquire_inv: "limiter_inv s \<Longrightarrow> limiter_inv (snd (try_acquire ok s))"
  by (auto simp: limiter_inv_def live_try_acquire) (auto simp: try_acquire_def Let_def)

lemma release_inv:
  assumes "limiter_inv s"
  shows "limiter_inv (release ok t s)"
proof (cases "t \<in> live_tokens s")
  case True
  then have "active (release ok t s) = active s - 1" and "0 < card (live_tokens s)"
    using assms by (auto simp: release_def limiter_inv_def live_tokens_def card_gt_0_iff)
  with True assms show ?thesis
    by (auto simp: limiter_inv_def)
next
  case False
  then have "release ok t s = s" by (auto simp: release_def live_tokens_def)
  with assms show ?thesis by simp
qed

interpretation limiter_pool: slot_pool
  "\<lambda>s. (case try_acquire True s of (None, _) \<Rightarrow> None | (Some t, s') \<Rightarrow> Some (t, s'))"
  "release True" live_tokens "\<lambda>s. nat (limit s)" limiter_inv
proof (unfold_locales, goal_cases)
  case (2 s)
  then show ?case by (auto simp: try_acquire_def limiter_inv_def Let_def)
next
  case (3 s t s')
  then show ?case by (auto simp: try_acquire_def Let_def split: if_splits)
next
  case (4 s t s')
  then show ?case
    using live_try_acquire [of True s] by (auto simp: try_acquire_def Let_def split: if_splits)
next
  case (5 s t s')
  then show ?case
    using try_acquire_inv [of s True] by (auto simp: try_acquire_def Let_def split: if_splits)
next
  case (7 s t)
  then show ?case by (simp add: release_inv)
qed simp_all

interpretation limiter_steps: step_system limiter_step "\<lambda>s. limiter_inv s \<and> limit s = n" for n
proof
  fix s e
  assume "limiter_inv s \<and> limit s = n"
  then show "limiter_inv (limiter_step e s) \<and> limit (limiter_step e s) = n"
    by (cases e) (simp_all add: try_acquire_inv release_inv)
qed

lemma new_limiter_inv: "new_limiter n = Inr s \<Longrightarrow> limiter_inv s \<and> limit s = n"
  by (auto simp: new_limiter_def limiter_inv_def live_tokens_def split: if_splits)

text \<open>Tokens are never forgotten and a released token stays released.\<close>

definition tokens_grow :: "limiter \<Rightarrow> limiter \<Rightarrow> bool" where
  "tokens_grow s s' \<longleftrightarrow> length (tokens s) \<le> length (tokens s') \<and>
     (\<forall>t < length (tokens s). released (tokens s ! t) \<longrightarrow> released (tokens s' ! t))"

lemma acquire_tokens_grow: "tokens_grow s (snd (try_acquire ok s))"
  by (simp add: tokens_grow_def try_acquire_def Let_def nth_append)

lemma release_tokens_grow: "tokens_grow s (release ok t s)"
  by (simp add: tokens_grow_def release_def nth_list_update)

lemma tokens_grow_trans: "tokens_grow a b \<Longrightarrow> tokens_grow b c \<Longrightarrow> tokens_grow a c"
  by (meson less_le_trans order_trans tokens_grow_def)

lemma run_tokens_grow: "tokens_grow s (fold limiter_step es s)"
proof (induction es arbitrary: s)
  case Nil
  then show ?case by (simp add: tokens_grow_def)
next
  case (Cons e es)
  have "tokens_grow s (limiter_step e s)"
    by (cases e) (simp_all add: acquire_tokens_grow release_tokens_grow)
  then show ?case
    using Cons.IH [of "limiter_step e s"] by (simp add: tokens_grow_trans)
qed

lemma active_release_live: "limiter_inv s \<Longrightarrow> t \<in> live_tokens s \<Longrightarrow> active (release ok t s) = active s - 1"
  by (auto simp: release_def limiter_inv_def live_tokens_def card_gt_0_iff)

lemma limiter_parse_int_weaker:
  "parse_positive_int v label = Inr x \<Longrightarrow> \<exists>y. limiter_parse_int v label = Inr y"
  by (cases v) (auto simp: parse_positive_int_def limiter_parse_int_def Let_def split: if_splits option.splits)

section \<open>Properties\<close>

text \<open>
  Whatever sequence of acquisitions and releases (repeated releases of one token
  included, metric failures included) runs on a fresh limiter, \<open>active\<close> is exactly the number
  of tokens not yet released, and it stays between zero and the limit.
\<close>
theorem limiter_counts_live_tokens:
  assumes "new_limiter n = Inr s0"
  shows "let s = fold limiter_step es s0
         in active s = int (card (live_tokens s)) \<and> 0 \<le> active s \<and> active s \<le> n \<and> limit s = n"
proof -
  from assms have "limiter_inv s0 \<and> limit s0 = n" by (rule new_limiter_inv)
  then have "limiter_inv (fold limiter_step es s0) \<and> limit (fold limiter_step es s0) = n"
    by (rule limiter_steps.run_inv)
  then show ?thesis by (simp add: limiter_inv_def Let_def)
qed

theorem limiter_counts_live_tokens_witness:
  "\<exists>s0. new_limiter 2 = Inr s0 \<and>
     active (fold limiter_step [Acquire True, Acquire False, Acquire True, Release True 0, Release True 0] s0) = 1 \<and>
     active (fold limiter_step [Acquire True, Acquire False, Acquire True, Release True 0, Release True 0] s0) \<le> 2"
proof -
  have run: "case new_limiter 2 of Inl _ \<Rightarrow> False
    | Inr s \<Rightarrow> active (fold limiter_step [Acquire True, Acquire False, Acquire True, Release True 0, Release True 0] s) = 1"
    by code_simp
  obtain s0 where s0: "new_limiter 2 = Inr s0" by (simp add: new_limiter_def)
  have "active (fold limiter_step [Acquire True, Acquire False, Acquire True, Release True 0, Release True 0] s0) = 1"
    using run unfolding s0 sum.case .
  with limiter_counts_live_tokens
      [OF s0, of "[Acquire True, Acquire False, Acquire True, Release True 0, Release True 0]"] s0
  show ?thesis unfolding Let_def by blast
qed

text \<open>
  An HTTP request that got a slot gives it back on every exit of its handler, by a
  result or by an exception, whatever other sessions did meanwhile: the token is released at
  the end and exactly that slot is freed; a refused request leaves the slots untouched.
\<close>
theorem http_slot_always_released:
  assumes "limiter_inv s"
    and "acquire_http inc_ok rej_ok dec_ok (Some s) (\<lambda>t s1. (outcome, fold limiter_step (es t) s1)) = (res, Some s')"
  shows "limiter_inv s' \<and>
    (if active s \<ge> limit s
     then res = Inl (TooManySessions (active s) (limit s)) \<and> live_tokens s' = live_tokens s
     else (let t = length (tokens s)
           in released (tokens s' ! t) \<and>
              live_tokens s' = live_tokens (fold limiter_step (es t) (snd (try_acquire inc_ok s))) - {t} \<and>
              res = (case outcome of Inl e \<Rightarrow> Inl (BodyRaised e) | Inr r \<Rightarrow> Inr r)))"
proof (cases "active s \<ge> limit s")
  case True
  with assms show ?thesis
    by (auto simp: acquire_http_def try_acquire_def limiter_inv_def live_tokens_def)
next
  case False
  define t where "t = length (tokens s)"
  define s1 where "s1 = snd (try_acquire inc_ok s)"
  define s2 where "s2 = fold limiter_step (es t) s1"
  have acq: "try_acquire inc_ok s = (Some t, s1)"
    using False by (simp add: try_acquire_def t_def s1_def Let_def)
  have inv2: "limiter_inv s2"
    using limiter_steps.run_inv [of s1 "limit s1" "es t"] try_acquire_inv [OF assms(1), of inc_ok]
    by (simp add: s1_def s2_def)
  have "t < length (tokens s1)"
    using False by (simp add: s1_def t_def try_acquire_def Let_def)
  then have "t < length (tokens s2)"
    using run_tokens_grow [of s1 "es t"] by (simp add: s2_def tokens_grow_def)
  then have "released (tokens (release dec_ok t s2) ! t)"
    by (auto simp: release_def)
  moreover have "s' = release dec_ok t s2"
    and "res = (case outcome of Inl e \<Rightarrow> Inl (BodyRaised e) | Inr r \<Rightarrow> Inr r)"
    using assms(2) acq by (simp_all add: acquire_http_def s2_def)
  ultimately show ?thesis
    using False inv2 by (simp add: Let_def release_inv s1_def s2_def t_def)
qed

theorem http_slot_always_released_witness:
  "\<exists>s s'. new_limiter 1 = Inr s \<and>
     acquire_http True True True (Some s) (\<lambda>t s1. (Inl ''boom'', fold limiter_step [Acquire True] s1)) =
       (Inl (BodyRaised ''boom'') :: string http_outcome + nat, Some s') \<and>
     released (tokens s' ! 0) \<and> active s' = 0"
proof -
  obtain s where s: "new_limiter 1 = Inr s" by (simp add: new_limiter_def)
  then have inv: "limiter_inv s" by (simp add: new_limiter_inv)
  have low: "\<not> active s \<ge> limit s" and tok: "tokens s = []"
    using s by (auto simp: new_limiter_def split: if_splits)
  obtain s' where run:
    "acquire_http True True True (Some s) (\<lambda>t s1. (Inl ''boom'', fold limiter_step [Acquire True] s1)) =
       (Inl (BodyRaised ''boom'') :: string http_outcome + nat, Some s')"
    using low by (simp add: acquire_http_def try_acquire_def Let_def)
  have "active s' = 0"
    using run s by (auto simp: new_limiter_def acquire_http_def try_acquire_def release_def Let_def split: if_splits)
  moreover have "released (tokens s' ! 0)"
    using http_slot_always_released [OF inv run] low tok by (simp add: Let_def)
  ultimately show ?thesis using s run by blast
qed

text \<open>
  Start-up admission control. The limit is the resolver's session ceiling and nothing
  else (the fall-back to the target table is never reached), and with backends whose ceiling
  is absent or positive, a configuration the resolver accepts always yields a working limiter.
\<close>
theorem init_limiter_from_resolver:
  assumes "resolve os_env asr_reg tts_reg profile None None [] = Inr r"
    and "\<forall>c. fst (backend_ceiling os_env profile (asr_cap r) (tts_cap r)) = Some c \<longrightarrow> 0 < c"
  shows "\<exists>n s. session_ceiling r = Some n \<and> resolve_limit os_env asr_reg tts_reg profile = Inr n \<and>
           init_limiter os_env asr_reg tts_reg profile = Inr s \<and> limiter_inv s \<and> limit s = n"
proof -
  from assms(1) obtain es ps where
      ceiling: "session_ceiling r =
        fst (clamp_session os_env profile (backend_ceiling os_env profile (asr_cap r) (tts_cap r)) es ps)"
    and "parse_positive_int (env_val os_env ''OVS_MAX_CONCURRENT_SESSIONS'') ''OVS_MAX_CONCURRENT_SESSIONS'' = Inr es"
    and "parse_positive_int (dget (p_top profile) ''max_concurrent_sessions'') ''profile.max_concurrent_sessions'' = Inr ps"
    by (elim resolve_Inr) simp
  then have pos: "\<And>n. es = Some n \<Longrightarrow> 0 < n" "\<And>n. ps = Some n \<Longrightarrow> 0 < n"
    and parsed: "\<exists>y. limiter_parse_int (env_val os_env ''OVS_MAX_CONCURRENT_SESSIONS'') ''OVS_MAX_CONCURRENT_SESSIONS'' = Inr y"
      "\<exists>y. limiter_parse_int (dget (p_top profile) ''max_concurrent_sessions'') ''profile.max_concurrent_sessions'' = Inr y"
    by (auto dest: parse_positive_int_pos limiter_parse_int_weaker)
  from ceiling obtain n where n: "session_ceiling r = Some n" "0 < n"
    using clamp_session_cases [OF pos, where os_env = os_env and profile = profile and cs = "backend_ceiling os_env profile (asr_cap r) (tts_cap r)"]
      assms(2)
    by (cases "fst (backend_ceiling os_env profile (asr_cap r) (tts_cap r))") auto
  then have limit: "resolve_limit os_env asr_reg tts_reg profile = Inr n"
    using parsed assms(1) by (auto simp: resolve_limit_def)
  obtain s where s: "new_limiter n = Inr s" using n(2) by (simp add: new_limiter_def)
  then show ?thesis
    using n limit new_limiter_inv [OF s] by (auto simp: init_limiter_def)
qed

theorem init_limiter_from_resolver_witness:
  "\<exists>s. init_limiter demo_env demo_asr demo_tts demo_profile = Inr s \<and> limit s = 2"
proof -
  have run: "case resolve demo_env demo_asr demo_tts demo_profile None None [] of Inl _ \<Rightarrow> False
    | Inr r \<Rightarrow> session_ceiling r = Some 2 \<and>
        fst (backend_ceiling demo_env demo_profile (asr_cap r) (tts_cap r)) = Some 2"
    by (simp add: demo_defs)
  then obtain r where r: "resolve demo_env demo_asr demo_tts demo_profile None None [] = Inr r"
    and c: "session_ceiling r = Some 2"
      "fst (backend_ceiling demo_env demo_profile (asr_cap r) (tts_cap r)) = Some 2"
    by (auto split: sum.splits)
  have "\<forall>c. fst (backend_ceiling demo_env demo_profile (asr_cap r) (tts_cap r)) = Some c \<longrightarrow> 0 < c"
    using c(2) by simp
  from init_limiter_from_resolver [OF r this] c(1) show ?thesis by auto
qed

end
