(* ===== verification/Slv_Client.thy ===== *)
theory Slv_Client
  imports Prelude "HOL-Library.Word"
begin

text \<open>
  The agent's client of the voice service (\<open>agent/openvoicestream_agent/slv_client.py\<close>): the
  typed events, the decoding of JSON and binary frames, the connection with its retries,
  and the operations that share it. The network is outside: an oracle gives for the k-th
  attempt to connect how it goes, and messages arrive as steps of the reader. JSON is the
  standard library's; a text frame is what \<open>json.loads\<close> makes of it, an object being its
  list of fields. Milliseconds are kept as integers.
\<close>

section \<open>Frames and events\<close>

type_synonym byte = "8 word"

datatype jv = JNull | JBool bool | JStr ustr

type_synonym obj = "(string \<times> jv) list"

datatype json_text = BadJsonText | NonObject | Obj obj

datatype ws_message = Binary "byte list" | Text json_text

text \<open>The types of the frames the server sends.\<close>

definition server_asr_partial :: string where "server_asr_partial = ''asr_partial''"
definition server_asr_endpoint :: string where "server_asr_endpoint = ''asr_endpoint''"
definition server_asr_final :: string where "server_asr_final = ''asr_final''"
definition server_tts_started :: string where "server_tts_started = ''tts_started''"
definition server_tts_sentence_done :: string where "server_tts_sentence_done = ''tts_sentence_done''"
definition server_tts_done :: string where "server_tts_done = ''tts_done''"
definition server_vad_event :: string where "server_vad_event = ''vad_event''"
definition server_error :: string where "server_error = ''error''"

lemmas server_types = server_asr_partial_def server_asr_endpoint_def server_asr_final_def server_tts_started_def
  server_tts_sentence_done_def server_tts_done_def server_vad_event_def server_error_def

datatype slv_error = ShortFirstFrame | BadJson | ConnectionClosed | ReaderCrashed | ServerSaid ustr

datatype v2v_event =
    ASRPartial ustr bool
  | ASREndpoint
  | ASRFinal ustr bool bool "ustr option"
  | TTSStarted ustr
  | TTSSentenceDone ustr
  | TTSDone bool
  | TTSAudio "byte list" nat
  | SLVError slv_error

text \<open>\<open>evt.get(k, '''')\<close> of a text field and \<open>bool(evt.get(k, d))\<close>.\<close>

definition text_field :: "obj \<Rightarrow> string \<Rightarrow> ustr" where
  "text_field evt k = (case map_of evt k of Some (JStr t) \<Rightarrow> t | _ \<Rightarrow> [])"

definition bool_field :: "obj \<Rightarrow> string \<Rightarrow> bool \<Rightarrow> bool" where
  "bool_field evt k d =
     (case map_of evt k of None \<Rightarrow> d | Some JNull \<Rightarrow> False | Some (JBool b) \<Rightarrow> b | Some (JStr t) \<Rightarrow> t \<noteq> [])"

definition opt_field :: "obj \<Rightarrow> string \<Rightarrow> ustr option" where
  "opt_field evt k = (case map_of evt k of Some (JStr t) \<Rightarrow> Some t | _ \<Rightarrow> None)"

definition has_type :: "obj \<Rightarrow> string \<Rightarrow> bool" where
  "has_type evt ty = (map_of evt ''type'' = Some (JStr (u ty)))"

text \<open>\<open>_handle_json\<close>: the events it queues; \<open>None\<close> when it raises (a document that is not an
  object has no \<open>get\<close>).\<close>

definition handle_json :: "json_text \<Rightarrow> v2v_event list option" where
  "handle_json raw =
     (case raw of
        BadJsonText \<Rightarrow> Some [SLVError BadJson]
      | NonObject \<Rightarrow> None
      | Obj evt \<Rightarrow> Some
         (if has_type evt server_asr_partial then [ASRPartial (text_field evt ''text'') (bool_field evt ''is_stable'' False)]
          else if has_type evt server_asr_endpoint then [ASREndpoint]
          else if has_type evt server_asr_final
            then [ASRFinal (text_field evt ''text'') (bool_field evt ''session_complete'' True)
                    (bool_field evt ''duplicate_of_streamed'' False) (opt_field evt ''language'')]
          else if has_type evt server_tts_started then [TTSStarted (text_field evt ''sentence'')]
          else if has_type evt server_tts_sentence_done then [TTSSentenceDone (text_field evt ''sentence'')]
          else if has_type evt server_tts_done then [TTSDone (bool_field evt ''session_complete'' True)]
          else if has_type evt server_error
            then [SLVError (ServerSaid (case opt_field evt ''error'' of None \<Rightarrow> u ''unknown'' | Some t \<Rightarrow> t))]
          else []))"

text \<open>\<open>struct.pack("<I", n)\<close> raises outside 32 bits; \<open>struct.unpack\<close> reads four bytes, low first.\<close>

definition pack_u32 :: "nat \<Rightarrow> byte list option" where
  "pack_u32 n =
     (if n < 2 ^ 32 then Some [word_of_nat n, word_of_nat (n div 256), word_of_nat (n div 65536), word_of_nat (n div 16777216)]
      else None)"

fun unpack_u32 :: "byte list \<Rightarrow> nat" where
  "unpack_u32 [] = 0"
| "unpack_u32 (b # bs) = unat b + 256 * unpack_u32 bs"

section \<open>The client\<close>

datatype reader_task = NoReader | ReaderRuns | ReaderEnded

record slv =
  sl_ws :: bool
  sl_reader :: reader_task
  sl_queue :: "v2v_event list"
  sl_rate :: "nat option"
  sl_closed :: bool
  sl_reader_done :: bool
  sl_last_activity :: int
  sl_reconnecting :: bool
  sl_opens :: nat
  sl_slept_ms :: nat

definition new_slv :: slv where
  "new_slv = \<lparr>sl_ws = False, sl_reader = NoReader, sl_queue = [], sl_rate = None, sl_closed = False, sl_reader_done = False,
     sl_last_activity = 0, sl_reconnecting = False, sl_opens = 0, sl_slept_ms = 0\<rparr>"

definition touch_activity :: "int \<Rightarrow> slv \<Rightarrow> slv" where
  "touch_activity now s = s\<lparr>sl_last_activity := now\<rparr>"

text \<open>\<open>None\<close> stands for infinity.\<close>

definition since_activity :: "int \<Rightarrow> slv \<Rightarrow> int option" where
  "since_activity now s = (if sl_last_activity s = 0 then None else Some (now - sl_last_activity s))"

definition is_healthy :: "slv \<Rightarrow> bool" where
  "is_healthy s = (\<not> sl_closed s \<and> sl_ws s \<and> sl_reader s = ReaderRuns)"

definition enqueue :: "v2v_event list \<Rightarrow> slv \<Rightarrow> slv" where
  "enqueue evs s = s\<lparr>sl_queue := sl_queue s @ evs\<rparr>"

definition handle_binary :: "byte list \<Rightarrow> slv \<Rightarrow> slv" where
  "handle_binary data s =
     (case sl_rate s of
        None \<Rightarrow>
          if length data < 4 then enqueue [SLVError ShortFirstFrame] s
          else (let sr = unpack_u32 (take 4 data); pcm = drop 4 data; s1 = s\<lparr>sl_rate := Some sr\<rparr>
                in if pcm = [] then s1 else enqueue [TTSAudio pcm sr] s1)
      | Some sr \<Rightarrow> enqueue [TTSAudio data sr] s)"

text \<open>How the reader ends: the server closes normally, closes with an error, or a handler
  raised; in every case the consumer of \<open>events()\<close> is woken.\<close>

datatype reader_exit = ClosedNormally | ClosedWithError | Crashed

definition reader_exits :: "reader_exit \<Rightarrow> slv \<Rightarrow> slv" where
  "reader_exits how s =
     (case how of ClosedNormally \<Rightarrow> s | ClosedWithError \<Rightarrow> enqueue [SLVError ConnectionClosed] s
      | Crashed \<Rightarrow> enqueue [SLVError ReaderCrashed] s)\<lparr>sl_reader := ReaderEnded, sl_reader_done := True\<rparr>"

definition reader_message :: "int \<Rightarrow> ws_message \<Rightarrow> slv \<Rightarrow> slv" where
  "reader_message now msg s =
     (if sl_reader s \<noteq> ReaderRuns then s
      else (let s1 = touch_activity now s in
            case msg of
              Binary data \<Rightarrow> handle_binary data s1
            | Text raw \<Rightarrow> (case handle_json raw of None \<Rightarrow> reader_exits Crashed s1 | Some evs \<Rightarrow> enqueue evs s1)))"

section \<open>Connecting\<close>

text \<open>
  How one attempt goes: the handshake raises; the server closes before the config frame is
  out; or the messages that arrive within the grace window, and how the reader ended within
  it, if it did.
\<close>

datatype attempt = HandshakeRaises | ConfigClosed | InGrace "ws_message list" "reader_exit option"

datatype open_result = Opened | ReconnectError | HandshakeError

definition reconnect_backoffs :: "nat list" where
  "reconnect_backoffs = [250, 500, 1000]"

text \<open>One attempt; no result means that the server turned it away and it may be retried.\<close>

definition try_open :: "int \<Rightarrow> attempt \<Rightarrow> slv \<Rightarrow> open_result option \<times> slv" where
  "try_open now a s =
     (let s0 = s\<lparr>sl_reader_done := False, sl_rate := None, sl_opens := sl_opens s + 1\<rparr> in
      case a of
        HandshakeRaises \<Rightarrow> (Some HandshakeError, s0)
      | ConfigClosed \<Rightarrow> (None, s0\<lparr>sl_ws := False\<rparr>)
      | InGrace msgs ended \<Rightarrow>
          (let s1 = fold (reader_message now) msgs (s0\<lparr>sl_ws := True, sl_reader := ReaderRuns\<rparr>);
               s2 = (case ended of None \<Rightarrow> s1 | Some how \<Rightarrow> if sl_reader s1 = ReaderRuns then reader_exits how s1 else s1)
           in if sl_reader s2 = ReaderRuns then (Some Opened, touch_activity now s2)
              else (None, s2\<lparr>sl_ws := False, sl_reader := NoReader, sl_queue := []\<rparr>)))"

text \<open>The attempts: one per backoff and a last one that raises when it fails.\<close>

fun open_attempts :: "nat option list \<Rightarrow> (nat \<Rightarrow> attempt) \<Rightarrow> int \<Rightarrow> slv \<Rightarrow> open_result \<times> slv" where
  "open_attempts [] orc now s = (Opened, s)"
| "open_attempts (backoff # rest) orc now s =
     (case try_open now (orc 0) s of
        (Some r, s1) \<Rightarrow> (r, s1)
      | (None, s1) \<Rightarrow>
         (case backoff of
            None \<Rightarrow> (ReconnectError, s1)
          | Some ms \<Rightarrow> open_attempts rest (\<lambda>k. orc (k + 1)) now (s1\<lparr>sl_slept_ms := sl_slept_ms s1 + ms\<rparr>)))"

definition open_with_retry :: "(nat \<Rightarrow> attempt) \<Rightarrow> int \<Rightarrow> slv \<Rightarrow> open_result \<times> slv" where
  "open_with_retry orc now s = open_attempts (map Some reconnect_backoffs @ [None]) orc now s"

definition connect :: "(nat \<Rightarrow> attempt) \<Rightarrow> int \<Rightarrow> slv \<Rightarrow> open_result \<times> slv" where
  "connect orc now s = (if sl_ws s then (Opened, s) else open_with_retry orc now s)"

text \<open>\<open>reconnect\<close> up to the new connection: the old reader is cancelled and awaited, the old
  socket closed. While the rest runs, \<open>is_reconnecting\<close> holds.\<close>

definition reconnect_begin :: "slv \<Rightarrow> slv" where
  "reconnect_begin s =
     s\<lparr>sl_reconnecting := True, sl_ws := False, sl_reader := NoReader, sl_slept_ms := sl_slept_ms s + 50, sl_reader_done := False,
       sl_rate := None\<rparr>"

definition reconnect :: "(nat \<Rightarrow> attempt) \<Rightarrow> int \<Rightarrow> slv \<Rightarrow> open_result \<times> slv" where
  "reconnect orc now s =
     (if sl_closed s then (Opened, s)
      else (let (r, s1) = open_with_retry orc now (reconnect_begin s) in (r, s1\<lparr>sl_reconnecting := False\<rparr>)))"

definition close :: "slv \<Rightarrow> slv" where
  "close s =
     s\<lparr>sl_closed := True, sl_ws := False,
       sl_reader := (if sl_reader s = NoReader then NoReader else ReaderEnded),
       sl_reader_done := (if sl_reader s = ReaderRuns then True else sl_reader_done s)\<rparr>"

text \<open>
  \<open>_send_json\<close> and \<open>send_audio\<close>: reopen a missing connection, then send; a connection found
  closed is forgotten and the frame dropped. The first component tells what became of the
  frame.
\<close>

datatype send_result = Sent | Dropped | SendRaises open_result

definition send_frame :: "(nat \<Rightarrow> attempt) \<Rightarrow> int \<Rightarrow> bool \<Rightarrow> slv \<Rightarrow> send_result \<times> slv" where
  "send_frame orc now alive s =
     (if \<not> sl_ws s \<and> sl_closed s then (Dropped, s)
      else (let (r, s1) = connect orc now s in
            if r \<noteq> Opened then (SendRaises r, s1)
            else if alive then (Sent, s1)
            else (Dropped, s1\<lparr>sl_ws := False\<rparr>)))"

text \<open>One turn of the loop of \<open>events()\<close>.\<close>

datatype next_event = Yields v2v_event | Waits | Loops | Finished

definition events_next :: "slv \<Rightarrow> next_event \<times> slv" where
  "events_next s =
     (case sl_queue s of
        ev # evs \<Rightarrow> (Yields ev, s\<lparr>sl_queue := evs\<rparr>)
      | [] \<Rightarrow>
          if sl_reader_done s \<or> sl_closed s
          then (if \<not> sl_closed s \<and> sl_reader s = ReaderRuns then (Loops, s\<lparr>sl_reader_done := False\<rparr>) else (Finished, s))
          else (Waits, s))"

section \<open>The retries\<close>

text \<open>An attempt that leaves a live connection.\<close>

definition survives :: "attempt \<Rightarrow> bool" where
  "survives a = (case a of InGrace msgs None \<Rightarrow> Text NonObject \<notin> set msgs | _ \<Rightarrow> False)"

lemma handle_json_raises: "handle_json raw = None \<longleftrightarrow> raw = NonObject"
  by (cases raw) (simp_all add: handle_json_def)

lemma enqueue_frame [simp]:
  "sl_ws (enqueue evs s) = sl_ws s" "sl_closed (enqueue evs s) = sl_closed s" "sl_reader (enqueue evs s) = sl_reader s"
  "sl_reconnecting (enqueue evs s) = sl_reconnecting s" "sl_opens (enqueue evs s) = sl_opens s"
  "sl_slept_ms (enqueue evs s) = sl_slept_ms s" "sl_rate (enqueue evs s) = sl_rate s"
  "sl_queue (enqueue evs s) = sl_queue s @ evs"
  by (simp_all add: enqueue_def)

lemma touch_frame [simp]:
  "sl_ws (touch_activity now s) = sl_ws s" "sl_closed (touch_activity now s) = sl_closed s"
  "sl_reader (touch_activity now s) = sl_reader s"
  "sl_reconnecting (touch_activity now s) = sl_reconnecting s" "sl_opens (touch_activity now s) = sl_opens s"
  "sl_slept_ms (touch_activity now s) = sl_slept_ms s" "sl_rate (touch_activity now s) = sl_rate s"
  "sl_queue (touch_activity now s) = sl_queue s"
  by (simp_all add: touch_activity_def)

lemma handle_binary_frame [simp]:
  "sl_ws (handle_binary data s) = sl_ws s" "sl_closed (handle_binary data s) = sl_closed s"
  "sl_reader (handle_binary data s) = sl_reader s"
  "sl_reconnecting (handle_binary data s) = sl_reconnecting s" "sl_opens (handle_binary data s) = sl_opens s"
  "sl_slept_ms (handle_binary data s) = sl_slept_ms s"
  by (simp_all add: handle_binary_def Let_def split: option.split)

lemma reader_exits_frame [simp]:
  "sl_ws (reader_exits how s) = sl_ws s" "sl_closed (reader_exits how s) = sl_closed s"
  "sl_reader (reader_exits how s) = ReaderEnded"
  "sl_reconnecting (reader_exits how s) = sl_reconnecting s" "sl_opens (reader_exits how s) = sl_opens s"
  "sl_slept_ms (reader_exits how s) = sl_slept_ms s"
  by (simp_all add: reader_exits_def split: reader_exit.split)

lemma reader_message_cases:
  "reader_message now msg s =
     (if sl_reader s \<noteq> ReaderRuns then s
      else if msg = Text NonObject then reader_exits Crashed (touch_activity now s)
      else (case msg of Binary data \<Rightarrow> handle_binary data (touch_activity now s)
            | Text raw \<Rightarrow> enqueue (the (handle_json raw)) (touch_activity now s)))"
proof (cases msg)
  case (Text raw)
  then show ?thesis by (cases raw) (simp_all add: reader_message_def handle_json_def)
qed (simp add: reader_message_def)

lemma reader_message_frame:
  "sl_ws (reader_message now msg s) = sl_ws s \<and> sl_closed (reader_message now msg s) = sl_closed s \<and>
   sl_reconnecting (reader_message now msg s) = sl_reconnecting s \<and> sl_opens (reader_message now msg s) = sl_opens s \<and>
   sl_slept_ms (reader_message now msg s) = sl_slept_ms s"
  by (cases msg) (simp_all add: reader_message_cases)

lemma reader_messages_frame:
  "sl_ws (fold (reader_message now) msgs s) = sl_ws s \<and> sl_closed (fold (reader_message now) msgs s) = sl_closed s \<and>
   sl_reconnecting (fold (reader_message now) msgs s) = sl_reconnecting s \<and>
   sl_opens (fold (reader_message now) msgs s) = sl_opens s \<and> sl_slept_ms (fold (reader_message now) msgs s) = sl_slept_ms s"
  by (induction msgs arbitrary: s) (simp_all add: reader_message_frame)

lemma reader_message_runs:
  "sl_reader s = ReaderRuns \<Longrightarrow> sl_reader (reader_message now msg s) = (if msg = Text NonObject then ReaderEnded else ReaderRuns)"
  by (cases msg) (simp_all add: reader_message_cases)

lemma reader_message_ended: "sl_reader s \<noteq> ReaderRuns \<Longrightarrow> reader_message now msg s = s"
  by (simp add: reader_message_def)

lemma reader_messages_ended: "sl_reader s \<noteq> ReaderRuns \<Longrightarrow> fold (reader_message now) msgs s = s"
  by (induction msgs) (simp_all add: reader_message_ended)

lemma reader_messages_run:
  "sl_reader s = ReaderRuns \<Longrightarrow>
     (sl_reader (fold (reader_message now) msgs s) = ReaderRuns \<longleftrightarrow> Text NonObject \<notin> set msgs)"
proof (induction msgs arbitrary: s)
  case (Cons msg msgs)
  then show ?case using reader_message_runs [OF Cons.prems, of now msg] Cons.IH reader_messages_ended
    by (cases "msg = Text NonObject") auto
qed simp

lemma try_open_spec:
  assumes "try_open now a s = (r, s')" "\<not> sl_ws s" "sl_reader s = NoReader"
  shows "sl_opens s' = sl_opens s + 1 \<and> sl_slept_ms s' = sl_slept_ms s \<and> sl_closed s' = sl_closed s \<and> sl_reconnecting s' = sl_reconnecting s \<and>
    (case r of
       None \<Rightarrow> \<not> survives a \<and> a \<noteq> HandshakeRaises \<and> \<not> sl_ws s' \<and> sl_reader s' = NoReader
     | Some Opened \<Rightarrow> survives a \<and> sl_ws s' \<and> sl_reader s' = ReaderRuns
     | Some _ \<Rightarrow> r = Some HandshakeError \<and> a = HandshakeRaises \<and> \<not> sl_ws s' \<and> sl_reader s' = NoReader)"
proof (cases a)
  case (InGrace msgs ended)
  define s1 where "s1 = fold (reader_message now) msgs (s\<lparr>sl_reader_done := False, sl_rate := None, sl_opens := sl_opens s + 1, sl_ws := True, sl_reader := ReaderRuns\<rparr>)"
  have s1: "sl_ws s1" "sl_closed s1 = sl_closed s" "sl_reconnecting s1 = sl_reconnecting s" "sl_opens s1 = sl_opens s + 1"
    "sl_slept_ms s1 = sl_slept_ms s" "sl_reader s1 = ReaderRuns \<longleftrightarrow> Text NonObject \<notin> set msgs"
    unfolding s1_def by (simp_all add: reader_messages_frame reader_messages_run)
  have "survives a \<longleftrightarrow> ended = None \<and> sl_reader s1 = ReaderRuns" using s1 InGrace by (auto simp: survives_def split: option.split)
  moreover have "try_open now a s =
      (let s2 = (case ended of None \<Rightarrow> s1 | Some how \<Rightarrow> if sl_reader s1 = ReaderRuns then reader_exits how s1 else s1)
       in if sl_reader s2 = ReaderRuns then (Some Opened, touch_activity now s2)
          else (None, s2\<lparr>sl_ws := False, sl_reader := NoReader, sl_queue := []\<rparr>))"
    by (simp only: InGrace try_open_def Let_def attempt.case s1_def)
  ultimately show ?thesis using assms(1) InGrace s1
    by (cases ended; cases "sl_reader s1 = ReaderRuns") (auto simp: Let_def)
qed (use assms in \<open>auto simp: try_open_def survives_def\<close>)

text \<open>What a run of attempts does to the connection, whatever the oracle says.\<close>

lemma open_attempts_spec:
  assumes "backoffs \<noteq> []" "\<forall>b \<in> set (butlast backoffs). b \<noteq> None" "last backoffs = None" "\<not> sl_ws s" "sl_reader s = NoReader"
    and "open_attempts backoffs orc now s = (r, s')"
  shows "sl_ws s' = (r = Opened) \<and> sl_reader s' = (if r = Opened then ReaderRuns else NoReader) \<and>
    sl_closed s' = sl_closed s \<and> sl_reconnecting s' = sl_reconnecting s \<and>
    sl_opens s' \<le> sl_opens s + length backoffs \<and>
    sl_slept_ms s' \<le> sl_slept_ms s + sum_list (map (case_option 0 id) backoffs) \<and>
    (r = Opened \<longleftrightarrow> (\<exists>k < length backoffs. survives (orc k) \<and> (\<forall>j < k. orc j \<noteq> HandshakeRaises)))"
  using assms
proof (induction backoffs arbitrary: orc s)
  case Nil
  then show ?case by simp
next
  case (Cons b bs)
  obtain r1 s1 where t: "try_open now (orc 0) s = (r1, s1)" by fastforce
  note one = try_open_spec [OF t Cons.prems(4,5)]
  show ?case
  proof (cases r1)
    case (Some q)
    then have eq: "r = q" "s' = s1" using Cons.prems(6) t by auto
    show ?thesis
    proof (cases "q = Opened")
      case True
      then show ?thesis using one Some eq by (auto intro!: exI [of _ 0])
    next
      case False
      then have "orc 0 = HandshakeRaises" "\<not> sl_ws s1" "sl_reader s1 = NoReader" using one Some by (auto split: open_result.splits)
      moreover from this have "\<not> survives (orc 0)" by (simp add: survives_def)
      ultimately show ?thesis using one eq False by (auto simp: less_Suc_eq_0_disj)
    qed
  next
    case None
    with one have n: "\<not> survives (orc 0)" "orc 0 \<noteq> HandshakeRaises" "\<not> sl_ws s1" "sl_reader s1 = NoReader" by auto
    show ?thesis
    proof (cases b)
      case None
      then have "bs = []" using Cons.prems(2) by (cases bs) auto
      then show ?thesis using Cons.prems(6) t \<open>r1 = None\<close> None one n by auto
    next
      case (Some ms)
      then have ne: "bs \<noteq> []" "last bs = None" using Cons.prems(3) by (cases bs, auto)+
      have bl: "\<forall>b \<in> set (butlast bs). b \<noteq> None" using Cons.prems(2) ne by auto
      have run: "open_attempts bs (\<lambda>k. orc (k + 1)) now (s1\<lparr>sl_slept_ms := sl_slept_ms s1 + ms\<rparr>) = (r, s')"
        using Cons.prems(6) t \<open>r1 = None\<close> Some by simp
      have ex: "(\<exists>k < length (b # bs). survives (orc k) \<and> (\<forall>j < k. orc j \<noteq> HandshakeRaises)) \<longleftrightarrow>
          (\<exists>k < length bs. survives (orc (k + 1)) \<and> (\<forall>j < k. orc (j + 1) \<noteq> HandshakeRaises))"
      proof
        assume "\<exists>k < length (b # bs). survives (orc k) \<and> (\<forall>j < k. orc j \<noteq> HandshakeRaises)"
        then obtain k where k: "k < length (b # bs)" "survives (orc k)" "\<forall>j < k. orc j \<noteq> HandshakeRaises" by blast
        with n(1) obtain k' where "k = k' + 1" by (cases k) auto
        with k show "\<exists>k < length bs. survives (orc (k + 1)) \<and> (\<forall>j < k. orc (j + 1) \<noteq> HandshakeRaises)"
          by (intro exI [of _ k']) auto
      next
        assume "\<exists>k < length bs. survives (orc (k + 1)) \<and> (\<forall>j < k. orc (j + 1) \<noteq> HandshakeRaises)"
        then obtain k where k: "k < length bs" "survives (orc (k + 1))" "\<forall>j < k. orc (j + 1) \<noteq> HandshakeRaises" by blast
        then have "\<forall>j < k + 1. orc j \<noteq> HandshakeRaises" using n(2) by (simp add: All_less_Suc2)
        with k show "\<exists>k < length (b # bs). survives (orc k) \<and> (\<forall>j < k. orc j \<noteq> HandshakeRaises)"
          by (intro exI [of _ "k + 1"]) auto
      qed
      show ?thesis unfolding ex using Cons.IH [OF ne(1) bl ne(2) _ _ run] n one Some by auto
    qed
  qed
qed

section \<open>Properties\<close>

text \<open>
  Reconnecting always ends, within four attempts and 1.8 seconds of sleep, and leaves the
  client in a definite state: it succeeds exactly when one of the four attempts survives its
  grace window and no handshake before it raised, and then the connection is healthy; when it
  fails there is no socket and no reader, so the next frame to send reopens the connection.
\<close>

theorem reconnect_bounded:
  assumes "reconnect orc now s = (r, s')" "\<not> sl_closed s"
  shows "sl_opens s' \<le> sl_opens s + 4 \<and> sl_slept_ms s' \<le> sl_slept_ms s + 1800 \<and> \<not> sl_reconnecting s' \<and>
    (r = Opened \<longleftrightarrow> (\<exists>k < 4. survives (orc k) \<and> (\<forall>j < k. orc j \<noteq> HandshakeRaises))) \<and>
    (if r = Opened then is_healthy s' else \<not> sl_ws s' \<and> sl_reader s' = NoReader)"
proof -
  obtain s1 where run: "open_attempts [Some 250, Some 500, Some 1000, None] orc now (reconnect_begin s) = (r, s1)"
    "s' = s1\<lparr>sl_reconnecting := False\<rparr>"
    using assms by (auto simp: reconnect_def open_with_retry_def reconnect_backoffs_def split: prod.splits)
  have "\<not> sl_ws (reconnect_begin s)" "sl_reader (reconnect_begin s) = NoReader" "sl_slept_ms (reconnect_begin s) = sl_slept_ms s + 50"
    "sl_opens (reconnect_begin s) = sl_opens s" "sl_closed (reconnect_begin s) = sl_closed s"
    by (simp_all add: reconnect_begin_def)
  moreover have "(4::nat) = length [Some 250, Some 500, Some 1000, None :: nat option]" by simp
  ultimately show ?thesis using open_attempts_spec [OF _ _ _ _ _ run(1)] assms(2) run(2)
    by (auto simp add: is_healthy_def simp del: list.size)
qed

theorem reconnect_bounded_witness:
  "is_healthy (snd (reconnect (\<lambda>k. if k = 0 then ConfigClosed else InGrace [] None) 7 new_slv))"
proof -
  let ?orc = "\<lambda>k. if k = (0::nat) then ConfigClosed else InGrace [] None"
  obtain r s' where run: "reconnect ?orc 7 new_slv = (r, s')" by fastforce
  have "\<not> sl_closed new_slv" by (simp add: new_slv_def)
  moreover have "\<exists>k < 4. survives (?orc k) \<and> (\<forall>j < k. ?orc j \<noteq> HandshakeRaises)"
    by (intro exI [of _ 1]) (simp add: survives_def)
  ultimately show ?thesis using reconnect_bounded [OF run] run by auto
qed

end
