(* ===== verification/Audio_IO.thy ===== *)
theory Audio_IO
  imports Slv_Client
begin

text \<open>
  The agent's audio device wrapper (\<open>agent/openvoicestream_agent/audio_io.py\<close>): the playback
  buffer shared with the device callback, the discard latch of a barge-in, the bounded
  microphone queue, and the recovery of the input stream. The device and the resampler
  (numpy) are parameters; each method that holds the playback lock is one step.
\<close>

section \<open>Playback\<close>

record audio =
  au_buffer :: "byte list"
  au_playing :: bool
  au_discard :: bool
  au_source_sr :: nat
  au_output_sr :: nat

definition new_audio :: "nat \<Rightarrow> audio" where
  "new_audio output_sr =
     \<lparr>au_buffer = [], au_playing = False, au_discard = False, au_source_sr = output_sr, au_output_sr = output_sr\<rparr>"

definition is_playing :: "audio \<Rightarrow> bool" where
  "is_playing a = (au_playing a \<or> au_buffer a \<noteq> [])"

text \<open>\<open>_resolve_output_sample_rate\<close>: the rate the device declares, if the query succeeds with
  a positive one.\<close>

definition resolve_output_rate :: "int option \<Rightarrow> audio \<Rightarrow> nat" where
  "resolve_output_rate declared a = (case declared of Some r \<Rightarrow> if r > 0 then nat r else au_output_sr a | None \<Rightarrow> au_output_sr a)"

text \<open>The first \<open>play\<close> opens the output stream at the device's rate; \<open>opened\<close> says that it is open already.\<close>

definition ensure_output :: "bool \<Rightarrow> int option \<Rightarrow> audio \<Rightarrow> audio" where
  "ensure_output opened declared a = (if opened then a else a\<lparr>au_output_sr := resolve_output_rate declared a\<rparr>)"

definition play :: "(nat \<Rightarrow> nat \<Rightarrow> byte list \<Rightarrow> byte list) \<Rightarrow> bool \<Rightarrow> int option \<Rightarrow> byte list \<Rightarrow> audio \<Rightarrow> audio" where
  "play resample opened declared pcm a =
     (if au_discard a then a
      else (let a1 = ensure_output opened declared a;
                out = (if au_source_sr a1 \<noteq> au_output_sr a1 \<and> pcm \<noteq> [] then resample (au_source_sr a1) (au_output_sr a1) pcm else pcm)
            in a1\<lparr>au_playing := True, au_buffer := au_buffer a1 @ out\<rparr>))"

text \<open>\<open>_output_callback\<close>: the device asks for \<open>needed\<close> bytes; what is missing is silence.\<close>

definition output_callback :: "nat \<Rightarrow> audio \<Rightarrow> byte list \<times> audio" where
  "output_callback needed a =
     (let n = min needed (length (au_buffer a))
      in (take n (au_buffer a) @ replicate (needed - n) 0, a\<lparr>au_buffer := drop n (au_buffer a)\<rparr>))"

definition mark_playback_done :: "audio \<Rightarrow> audio" where
  "mark_playback_done a = a\<lparr>au_playing := False\<rparr>"

definition arm_for_next_turn :: "audio \<Rightarrow> audio" where
  "arm_for_next_turn a = a\<lparr>au_discard := False\<rparr>"

definition set_output_sample_rate :: "nat \<Rightarrow> audio \<Rightarrow> audio" where
  "set_output_sample_rate sr a = a\<lparr>au_source_sr := sr\<rparr>"

definition stop_playback :: "audio \<Rightarrow> audio" where
  "stop_playback a = a\<lparr>au_buffer := [], au_playing := False, au_discard := True\<rparr>"

section \<open>The microphone\<close>

definition mic_queue_size :: nat where
  "mic_queue_size = 64"

text \<open>\<open>_safe_put\<close>: a full queue drops the newest chunk.\<close>

definition safe_put :: "'c \<Rightarrow> 'c list \<Rightarrow> 'c list" where
  "safe_put chunk q = (if length q < mic_queue_size then q @ [chunk] else q)"

definition pa_reset_threshold :: nat where
  "pa_reset_threshold = 3"

text \<open>
  \<open>_open_input_stream\<close>: \<open>first\<close> and \<open>retry\<close> say whether building the stream succeeds before and
  after PortAudio was reset. The result is whether it opened, whether the library was reset,
  and the count of consecutive failures.
\<close>

definition open_input_stream :: "bool \<Rightarrow> bool \<Rightarrow> nat \<Rightarrow> bool \<times> bool \<times> nat" where
  "open_input_stream first retry failures =
     (if first then (True, False, 0)
      else if failures + 1 \<ge> pa_reset_threshold then (if retry then (True, True, 0) else (False, True, failures + 1))
      else (False, False, failures + 1))"

section \<open>What the speaker plays\<close>

text \<open>What the device consumed over a list of requests, its padding left out.\<close>

fun consumed :: "nat list \<Rightarrow> audio \<Rightarrow> byte list" where
  "consumed [] a = []"
| "consumed (n # ns) a = take (min n (length (au_buffer a))) (fst (output_callback n a)) @ consumed ns (snd (output_callback n a))"

lemma callback_fills: "length (fst (output_callback n a)) = n"
  by (simp add: output_callback_def Let_def min_def)

text \<open>The device plays a prefix of the buffer, in order and without repetition.\<close>

lemma consumed_prefix: "consumed ns a = take (sum_list ns) (au_buffer a)"
proof (induction ns arbitrary: a)
  case (Cons n ns)
  then show ?case by (simp add: output_callback_def Let_def take_add min_def)
qed simp

lemma stop_silences: "play resample opened declared pcm (stop_playback a) = stop_playback a \<and> \<not> is_playing (stop_playback a)"
  by (simp add: play_def stop_playback_def is_playing_def)

text \<open>After a failure that reset the library the count stays at the threshold, so each later
  failure resets it again.\<close>

lemma reset_after_threshold:
  "fst (snd (open_input_stream False retry failures)) \<longleftrightarrow> 2 \<le> failures"
  by (auto simp: open_input_stream_def pa_reset_threshold_def)

end
