(* ===== verification/Agent_App.thy ===== *)
theory Agent_App
  imports Audio_IO Llm_Availability "HOL-Library.Multiset"
begin

text \<open>
  The agent's conversation state machine (\<open>agent/openvoicestream_agent/app_base.py\<close>, the
  push-to-talk endpoints of \<open>plugins/debug_dashboard.py\<close> and the silent-turn rule of
  \<open>agent/apps/multi_mode/app.py\<close>). Coroutines of five kinds share the fields without a lock:
  the dispatcher of server events, the microphone pump, the watchdogs, the callers of
  \<open>wake\<close> and \<open>sleep\<close>, and the LLM turn. Each handler is cut where it awaits something that can
  suspend it: what remains of it is a continuation in \<open>a_pending\<close>, and a step resumes any of
  them, with the outcome of what it waited for. Cancelling the LLM turn and awaiting its end
  is one step, and so is a send that no field is written after. Plugins only observe.
\<close>

section \<open>Text filters\<close>

text \<open>The Unicode database is a parameter: which code points are letters or numbers, and \<open>str.lower\<close>.\<close>

record unicode =
  uc_letter_or_number :: "nat \<Rightarrow> bool"
  uc_lower :: "ustr \<Rightarrow> ustr"

definition interjections :: "ustr list" where
  "interjections =
     [[21999], [21834], [21734], [21571], [21769], [35830], [21710], [22114], [21780], [21568], [21704], [21703], [21602],
      [21543], [21527], [21584], [22043], [35830, 21568], [21834, 21834], [21999, 21999]] @
     map u [''uh'', ''um'', ''ah'', ''oh'', ''ok'', ''okay'', ''hmm'', ''huh'', ''yeah'', ''yep'', ''you'', ''the'', ''and'', ''a'', ''i'']"

definition strip_for_signal :: "unicode \<Rightarrow> ustr \<Rightarrow> ustr" where
  "strip_for_signal uc text = uc_lower uc (filter (uc_letter_or_number uc) text)"

definition low_signal :: "unicode \<Rightarrow> ustr \<Rightarrow> bool" where
  "low_signal uc text =
     (ustrip text = [] \<or> length (strip_for_signal uc text) \<le> 1 \<or> strip_for_signal uc text \<in> set interjections)"

definition stop_punctuation :: "nat list" where
  "stop_punctuation = [12290, 65292, 65281, 65311] @ u ''.!?,;:''"

definition normalise_for_stop :: "unicode \<Rightarrow> ustr \<Rightarrow> ustr" where
  "normalise_for_stop uc text = uc_lower uc (ustrip (strip_while (\<lambda>c. c \<in> set stop_punctuation) (ustrip text)))"

definition is_ascii :: "ustr \<Rightarrow> bool" where
  "is_ascii w = list_all (\<lambda>c. c < 128) w"

definition is_stop_intent :: "unicode \<Rightarrow> ustr list \<Rightarrow> ustr \<Rightarrow> bool" where
  "is_stop_intent uc stop_words text =
     (let norm = normalise_for_stop uc text in
      norm \<noteq> [] \<and>
      list_ex (\<lambda>w. w \<noteq> [] \<and>
        (let wn = uc_lower uc (ustrip w) in
         wn \<noteq> [] \<and> (norm = wn \<or> is_ascii wn \<and> length wn \<ge> 2 \<and> list_ex (\<lambda>p. starts_with (wn @ [p]) norm) (u '' ,!?.'')))) stop_words)"

section \<open>State\<close>

datatype conv_state = IDLE | LISTENING | THINKING | SPEAKING | BARGED_IN | SLEEPING

datatype watchdog = Disarmed | Armed | Recovering

datatype llm_turn = NoTurn | Running ustr | Failing

datatype slv_command = SendEos | SendAbort | Reconnect

text \<open>What a suspended handler still has to do.\<close>

datatype cont =
    SleepingReconnect
  | BargeAbort
  | FinalReconnect ustr bool
  | FinalRoute ustr bool
  | Utterance ustr
  | StopAbort
  | PlayFrame "byte list"
  | TurnDone
  | ErrorHandled conv_state
  | ReaderReconnect
  | SpeechEnd bool
  | SpeechEndEos
  | GateEos
  | PttEos
  | WakeReconnect
  | WakeBroadcast
  | SleepBroadcast
  | SleepAbort

record app_config =
  cf_pipeline_mode :: string
  cf_stop_words :: "ustr list"
  cf_unicode :: unicode
  cf_speech_min_ms :: int
  cf_silence_ms :: int
  cf_drive_eos :: bool
  cf_barge_min_chars :: int
  cf_barge_min_ms :: int
  cf_ptt_no_vad_silence :: bool
  cf_reconnect_on_wake :: bool

record app =
  a_state :: conv_state
  a_first_tts :: bool
  a_speaking_since :: int
  a_eos_sent :: bool
  a_vad_speech :: bool
  a_speech_ms :: int
  a_silence_ms :: int
  a_vad_eos_sent :: bool
  a_asr_watchdog :: bool
  a_thinking :: watchdog
  a_turn :: llm_turn
  a_audio :: audio
  a_sleep_timer :: bool
  a_reconnects :: nat
  a_backoff_ms :: nat
  a_pending :: "cont list"
  a_avail :: "availability_plugin option"
  a_spawned :: "ustr list"
  a_sent :: "slv_command list"

definition always_on :: "app_config \<Rightarrow> bool" where
  "always_on cf = (cf_pipeline_mode cf = ''always_on'')"

definition new_app :: "app_config \<Rightarrow> nat \<Rightarrow> availability_plugin option \<Rightarrow> app" where
  "new_app cf output_sr av =
     \<lparr>a_state = (if always_on cf then IDLE else SLEEPING), a_first_tts = False, a_speaking_since = 0, a_eos_sent = False,
      a_vad_speech = False, a_speech_ms = 0, a_silence_ms = 0, a_vad_eos_sent = False, a_asr_watchdog = False,
      a_thinking = Disarmed, a_turn = NoTurn, a_audio = new_audio output_sr, a_sleep_timer = False, a_reconnects = 0,
      a_backoff_ms = 500, a_pending = [], a_avail = av, a_spawned = [], a_sent = []\<rparr>"

section \<open>Small operations\<close>

definition set_state :: "conv_state \<Rightarrow> app \<Rightarrow> app" where
  "set_state new s = s\<lparr>a_state := new\<rparr>"

definition reset_sleep_timer :: "app_config \<Rightarrow> app \<Rightarrow> app" where
  "reset_sleep_timer cf s = (if always_on cf then s else s\<lparr>a_sleep_timer := True\<rparr>)"

definition suspend :: "cont \<Rightarrow> app \<Rightarrow> app" where
  "suspend c s = s\<lparr>a_pending := a_pending s @ [c]\<rparr>"

definition send :: "slv_command \<Rightarrow> app \<Rightarrow> app" where
  "send c s = s\<lparr>a_sent := a_sent s @ [c]\<rparr>"

definition cancel_turn :: "app \<Rightarrow> app" where
  "cancel_turn s = s\<lparr>a_turn := NoTurn\<rparr>"

definition cancel_asr_watchdog :: "app \<Rightarrow> app" where
  "cancel_asr_watchdog s = s\<lparr>a_asr_watchdog := False\<rparr>"

definition arm_thinking_watchdog :: "app \<Rightarrow> app" where
  "arm_thinking_watchdog s = s\<lparr>a_thinking := Armed\<rparr>"

definition cancel_thinking_watchdog :: "app \<Rightarrow> app" where
  "cancel_thinking_watchdog s = s\<lparr>a_thinking := Disarmed\<rparr>"

definition arm_playback :: "app \<Rightarrow> app" where
  "arm_playback s = s\<lparr>a_audio := arm_for_next_turn (a_audio s)\<rparr>"

definition silence :: "app \<Rightarrow> app" where
  "silence s = s\<lparr>a_audio := stop_playback (a_audio s)\<rparr>"

definition counted_reconnect :: "app \<Rightarrow> app" where
  "counted_reconnect s = s\<lparr>a_reconnects := a_reconnects s + 1, a_first_tts := False\<rparr>"

definition clear_vad :: "app \<Rightarrow> app" where
  "clear_vad s = s\<lparr>a_vad_speech := False, a_speech_ms := 0, a_silence_ms := 0\<rparr>"

text \<open>\<open>_interrupt_current_turn_for_barge_in\<close> up to the abort, and after it.\<close>

definition interrupt_begin :: "app \<Rightarrow> app" where
  "interrupt_begin s = suspend BargeAbort (send SendAbort (silence (cancel_turn s)))"

definition interrupt_end :: "app \<Rightarrow> app" where
  "interrupt_end s = (cancel_asr_watchdog (s\<lparr>a_eos_sent := False\<rparr>))\<lparr>a_first_tts := False\<rparr>"

text \<open>\<open>send_asr_eos_once\<close> up to the send; \<open>c\<close> is what the caller does once it returned. A second
  EOS of the turn is not sent.\<close>

definition send_asr_eos_once :: "cont \<Rightarrow> (app \<Rightarrow> app) \<Rightarrow> app \<Rightarrow> app" where
  "send_asr_eos_once c after s = (if a_eos_sent s then after s else suspend c (send SendEos (s\<lparr>a_eos_sent := True\<rparr>)))"

definition enter_thinking :: "app \<Rightarrow> app" where
  "enter_thinking s = arm_thinking_watchdog (set_state THINKING s)"

section \<open>The dispatcher\<close>

text \<open>The end of an ASR final: filter, stop intent, LLM turn.\<close>

definition route_final :: "app_config \<Rightarrow> ustr \<Rightarrow> bool \<Rightarrow> app \<Rightarrow> app" where
  "route_final cf text had_pending_eos s =
     (let s1 = arm_playback s in
      if low_signal (cf_unicode cf) text
      then (if a_state s1 \<in> {LISTENING, BARGED_IN} \<or> a_state s1 = THINKING \<and> had_pending_eos
            then reset_sleep_timer cf (set_state IDLE s1) else s1)
      else suspend (Utterance text) ((clear_vad s1)\<lparr>a_vad_eos_sent := False, a_eos_sent := False\<rparr>))"

definition start_turn :: "app_config \<Rightarrow> ustr \<Rightarrow> app \<Rightarrow> app" where
  "start_turn cf text s =
     (let s1 = cancel_turn s in
      if is_stop_intent (cf_unicode cf) (cf_stop_words cf) text then suspend StopAbort (send SendAbort s1)
      else (enter_thinking s1)\<lparr>a_turn := Running text, a_spawned := text # a_spawned s1\<rparr>)"

definition dispatch_final :: "app_config \<Rightarrow> ustr \<Rightarrow> bool \<Rightarrow> bool \<Rightarrow> app \<Rightarrow> app" where
  "dispatch_final cf text session_complete duplicate s =
     (let had = a_eos_sent s; s1 = (cancel_asr_watchdog s)\<lparr>a_eos_sent := False\<rparr> in
      if duplicate then (if a_state s1 = THINKING then reset_sleep_timer cf (set_state IDLE s1) else s1)
      else if session_complete then suspend (FinalReconnect text had) (send Reconnect s1)
      else route_final cf text had s1)"

definition dispatch_partial :: "app_config \<Rightarrow> int \<Rightarrow> ustr \<Rightarrow> app \<Rightarrow> app" where
  "dispatch_partial cf now text s =
     (let elapsed = (if a_speaking_since s = 0 then 99999 else now - a_speaking_since s) in
      if ustrip text = [] \<or> int (length (ustrip text)) < cf_barge_min_chars cf \<or> elapsed < cf_barge_min_ms cf then s
      else if a_state s \<in> {SPEAKING, BARGED_IN} \<and> is_playing (a_audio s) then interrupt_begin (set_state BARGED_IN s)
      else s)"

definition dispatch_audio :: "int \<Rightarrow> byte list \<Rightarrow> nat \<Rightarrow> app \<Rightarrow> app" where
  "dispatch_audio now pcm sr s =
     (if a_state s = BARGED_IN then s
      else suspend (PlayFrame pcm)
        (if a_first_tts s then s
         else (set_state SPEAKING (s\<lparr>a_first_tts := True, a_audio := set_output_sample_rate sr (a_audio s)\<rparr>))\<lparr>a_speaking_since := now\<rparr>))"

definition dispatch_done :: "app_config \<Rightarrow> app \<Rightarrow> app" where
  "dispatch_done cf s =
     (let s1 = cancel_thinking_watchdog (s\<lparr>a_first_tts := False, a_audio := mark_playback_done (a_audio s)\<rparr>)
      in suspend TurnDone (if a_state s1 \<noteq> BARGED_IN then reset_sleep_timer cf (set_state IDLE s1) else s1))"

definition dispatch_error :: "app \<Rightarrow> app" where
  "dispatch_error s = suspend (ErrorHandled (a_state s)) (cancel_thinking_watchdog (cancel_asr_watchdog s))"

definition dispatch_one :: "app_config \<Rightarrow> int \<Rightarrow> v2v_event \<Rightarrow> app \<Rightarrow> app" where
  "dispatch_one cf now evt s =
     (case evt of
        ASRPartial text _ \<Rightarrow> if a_state s = SLEEPING then s else dispatch_partial cf now text s
      | ASREndpoint \<Rightarrow> s
      | ASRFinal text session_complete duplicate _ \<Rightarrow>
          if a_state s = SLEEPING
          then (if session_complete then suspend SleepingReconnect (send Reconnect s) else s)
          else dispatch_final cf text session_complete duplicate s
      | TTSStarted _ \<Rightarrow> cancel_thinking_watchdog s
      | TTSAudio pcm sr \<Rightarrow> dispatch_audio now pcm sr s
      | TTSSentenceDone _ \<Rightarrow> s
      | TTSDone _ \<Rightarrow> dispatch_done cf s
      | SLVError _ \<Rightarrow> dispatch_error s)"

text \<open>The reader of \<open>_slv_dispatch\<close> ended: reconnect, after the current backoff when it failed.\<close>

definition reader_ended :: "app \<Rightarrow> app" where
  "reader_ended s = suspend ReaderReconnect (send Reconnect s)"

definition reader_reconnected :: "bool \<Rightarrow> app \<Rightarrow> app" where
  "reader_reconnected ok s =
     (if ok
      then (let s1 = (cancel_asr_watchdog ((counted_reconnect s)\<lparr>a_eos_sent := False\<rparr>))\<lparr>a_backoff_ms := 500\<rparr>
            in if a_state s1 \<in> {THINKING, BARGED_IN} then set_state IDLE s1 else s1)
      else s\<lparr>a_backoff_ms := min (2 * a_backoff_ms s) 5000\<rparr>)"

section \<open>The microphone\<close>

definition end_speech :: "app \<Rightarrow> app" where
  "end_speech s = clear_vad ((enter_thinking s)\<lparr>a_vad_eos_sent := True\<rparr>)"

text \<open>\<open>_update_vad\<close> on one chunk that the client VAD classified.\<close>

definition update_vad :: "app_config \<Rightarrow> bool \<Rightarrow> int \<Rightarrow> app \<Rightarrow> app" where
  "update_vad cf is_speech chunk_ms s =
     (if a_state s = SLEEPING \<or> cf_pipeline_mode cf = ''push_to_talk'' \<and> cf_ptt_no_vad_silence cf then s
      else if \<not> a_vad_speech s
      then (if \<not> is_speech then s\<lparr>a_speech_ms := 0\<rparr>
            else (let s1 = s\<lparr>a_speech_ms := a_speech_ms s + chunk_ms\<rparr> in
                  if a_speech_ms s1 < cf_speech_min_ms cf then s1
                  else (let s2 = s1\<lparr>a_vad_speech := True, a_silence_ms := 0, a_vad_eos_sent := False\<rparr>;
                            s3 = (if a_state s2 = THINKING \<and> a_eos_sent s2 then cancel_asr_watchdog (s2\<lparr>a_eos_sent := False\<rparr>) else s2)
                        in if is_playing (a_audio s3) then interrupt_begin (set_state BARGED_IN s3)
                           else set_state LISTENING s3)))
      else if is_speech then s\<lparr>a_silence_ms := 0\<rparr>
      else (let s1 = s\<lparr>a_silence_ms := a_silence_ms s + chunk_ms\<rparr> in
            if a_silence_ms s1 < cf_silence_ms cf then s1
            else if a_vad_eos_sent s1 then clear_vad s1
            else suspend (SpeechEnd (cf_drive_eos cf)) s1))"

text \<open>\<open>restart_mic_capture\<close> cancels the pump, with whatever it was awaiting.\<close>

definition mic_cont :: "cont \<Rightarrow> bool" where
  "mic_cont c = (c \<in> {SpeechEnd True, SpeechEnd False, SpeechEndEos, GateEos})"

definition restart_mic :: "app \<Rightarrow> app" where
  "restart_mic s = (clear_vad s)\<lparr>a_vad_eos_sent := False, a_pending := filter (\<lambda>c. \<not> mic_cont c) (a_pending s)\<rparr>"

section \<open>Watchdogs, wake and sleep\<close>

definition asr_final_watchdog :: "app \<Rightarrow> app" where
  "asr_final_watchdog s =
     (if \<not> a_asr_watchdog s then s
      else (let s1 = s\<lparr>a_asr_watchdog := False\<rparr> in
            if \<not> a_eos_sent s1 then s1
            else if a_state s1 \<noteq> THINKING then s1\<lparr>a_eos_sent := False\<rparr>
            else set_state IDLE (s1\<lparr>a_eos_sent := False\<rparr>)))"

definition thinking_watchdog :: "app \<Rightarrow> app" where
  "thinking_watchdog s =
     (if a_thinking s \<noteq> Armed then s
      else if a_state s \<noteq> THINKING then s\<lparr>a_thinking := Disarmed\<rparr>
      else send Reconnect ((cancel_turn s)\<lparr>a_thinking := Recovering\<rparr>))"

definition thinking_recovered :: "app_config \<Rightarrow> bool \<Rightarrow> app \<Rightarrow> app" where
  "thinking_recovered cf ok s =
     (if a_thinking s \<noteq> Recovering then s
      else (let s1 = (if ok then s\<lparr>a_reconnects := a_reconnects s + 1\<rparr> else s)
            in reset_sleep_timer cf (set_state IDLE (s1\<lparr>a_thinking := Disarmed, a_first_tts := False, a_eos_sent := False\<rparr>))))"

text \<open>Idle for more than thirty seconds counts as unhealthy; no activity yet is infinitely long.\<close>

definition wake_needs_reconnect :: "app_config \<Rightarrow> int \<Rightarrow> slv \<Rightarrow> bool" where
  "wake_needs_reconnect cf now c =
     (cf_reconnect_on_wake cf \<or> \<not> is_healthy c \<or> (case since_activity now c of None \<Rightarrow> True | Some ms \<Rightarrow> ms > 30000))"

definition wake :: "bool \<Rightarrow> app \<Rightarrow> app" where
  "wake should_reconnect s =
     (if a_state s \<noteq> SLEEPING then s
      else if should_reconnect then suspend WakeReconnect (send Reconnect s)
      else suspend WakeBroadcast s)"

definition wake_end :: "app_config \<Rightarrow> app \<Rightarrow> app" where
  "wake_end cf s = reset_sleep_timer cf (set_state IDLE (arm_playback s))"

definition sleep :: "app \<Rightarrow> app" where
  "sleep s = (if a_state s = SLEEPING then s else suspend SleepBroadcast s)"

definition sleep_end :: "app \<Rightarrow> app" where
  "sleep_end s = (set_state SLEEPING ((silence s)\<lparr>a_first_tts := False\<rparr>))\<lparr>a_sleep_timer := False\<rparr>"

definition sleep_timer_fires :: "app \<Rightarrow> app" where
  "sleep_timer_fires s =
     (if \<not> a_sleep_timer s then s
      else (let s1 = s\<lparr>a_sleep_timer := False\<rparr> in if a_state s1 = IDLE then sleep s1 else s1))"

section \<open>The LLM turn\<close>

text \<open>How \<open>on_user_utterance\<close> ends. A silent turn is one of a mode that speaks nothing.\<close>

datatype turn_end = TurnOk bool bool | TurnNotImplemented | TurnUnavailable | TurnTimeout | TurnLlmError | TurnCrashed

definition report :: "(availability_plugin \<Rightarrow> availability_plugin) \<Rightarrow> app \<Rightarrow> app" where
  "report f s = s\<lparr>a_avail := map_option f (a_avail s)\<rparr>"

definition turn_ends :: "app_config \<Rightarrow> turn_end \<Rightarrow> app \<Rightarrow> app" where
  "turn_ends cf how s =
     (case a_turn s of
        Running _ \<Rightarrow>
         (case how of
            TurnOk silent noop \<Rightarrow>
              (let s1 = (if silent \<and> a_state s = THINKING then reset_sleep_timer cf (set_state IDLE s) else s)\<lparr>a_turn := NoTurn\<rparr>
               in if noop then s1 else report report_request_success s1)
          | TurnNotImplemented \<Rightarrow> set_state IDLE (s\<lparr>a_turn := NoTurn\<rparr>)
          | TurnUnavailable \<Rightarrow> s\<lparr>a_turn := Failing\<rparr>
          | TurnTimeout \<Rightarrow> report report_request_failure (s\<lparr>a_turn := Failing\<rparr>)
          | TurnLlmError \<Rightarrow> report report_request_failure (s\<lparr>a_turn := Failing\<rparr>)
          | TurnCrashed \<Rightarrow> s\<lparr>a_turn := Failing\<rparr>)
      | _ \<Rightarrow> s)"

text \<open>A failed turn told the plugins and returns to idle.\<close>

definition turn_failed :: "app_config \<Rightarrow> app \<Rightarrow> app" where
  "turn_failed cf s =
     (if a_turn s \<noteq> Failing then s else reset_sleep_timer cf (set_state IDLE (s\<lparr>a_turn := NoTurn\<rparr>)))"

section \<open>Push to talk\<close>

text \<open>\<open>_api_ptt_start\<close> once \<open>wake\<close> returned, and \<open>_api_ptt_end\<close>.\<close>

definition ptt_start :: "app \<Rightarrow> app" where
  "ptt_start s =
     (set_state LISTENING s)\<lparr>a_vad_speech := True, a_speech_ms := 0, a_silence_ms := 0, a_vad_eos_sent := False, a_eos_sent := False\<rparr>"

definition ptt_end :: "app \<Rightarrow> app" where
  "ptt_end s = send_asr_eos_once PttEos enter_thinking s"

section \<open>Steps\<close>

text \<open>A handler goes on after its await; \<open>ok\<close> is how a reconnect went. \<open>rs\<close> resamples audio.\<close>

definition resume ::
  "app_config \<Rightarrow> (nat \<Rightarrow> nat \<Rightarrow> byte list \<Rightarrow> byte list) \<Rightarrow> cont \<Rightarrow> bool \<Rightarrow> app \<Rightarrow> app" where
  "resume cf rs c ok s =
     (case c of
        SleepingReconnect \<Rightarrow> if ok then counted_reconnect s else s
      | BargeAbort \<Rightarrow> interrupt_end s
      | FinalReconnect text had \<Rightarrow> if ok then suspend (FinalRoute text had) (counted_reconnect s) else route_final cf text had s
      | FinalRoute text had \<Rightarrow> route_final cf text had s
      | Utterance text \<Rightarrow> start_turn cf text s
      | StopAbort \<Rightarrow> reset_sleep_timer cf (set_state IDLE (silence s))
      | PlayFrame pcm \<Rightarrow> s\<lparr>a_audio := play rs True None pcm (a_audio s)\<rparr>
      | TurnDone \<Rightarrow> s\<lparr>a_first_tts := False, a_eos_sent := False\<rparr>
      | ErrorHandled old \<Rightarrow> (let s1 = cancel_turn s in if old \<noteq> SLEEPING then set_state IDLE s1 else s1)
      | ReaderReconnect \<Rightarrow> reader_reconnected ok s
      | SpeechEnd drove \<Rightarrow> if drove then send_asr_eos_once SpeechEndEos end_speech s else end_speech s
      | SpeechEndEos \<Rightarrow> end_speech (s\<lparr>a_asr_watchdog := True\<rparr>)
      | GateEos \<Rightarrow> s\<lparr>a_asr_watchdog := True\<rparr>
      | PttEos \<Rightarrow> enter_thinking (s\<lparr>a_asr_watchdog := True\<rparr>)
      | WakeReconnect \<Rightarrow> if ok then suspend WakeBroadcast (s\<lparr>a_reconnects := a_reconnects s + 1\<rparr>) else s
      | WakeBroadcast \<Rightarrow> wake_end cf s
      | SleepBroadcast \<Rightarrow> suspend SleepAbort (send SendAbort (cancel_turn s))
      | SleepAbort \<Rightarrow> sleep_end s)"

datatype app_event =
    Dispatch int v2v_event
  | Resume nat bool
  | ReaderEnds
  | MicChunk bool int
  | GateCloses
  | RestartMic
  | DeviceReads nat
  | AsrWatchdogFires
  | ThinkingFires
  | ThinkingResumes bool
  | SleepTimerFires
  | Wake bool
  | Sleep
  | TurnEnds turn_end
  | TurnFails
  | PttStart
  | PttEnd

fun app_step :: "app_config \<Rightarrow> (nat \<Rightarrow> nat \<Rightarrow> byte list \<Rightarrow> byte list) \<Rightarrow> app_event \<Rightarrow> app \<Rightarrow> app" where
  "app_step cf rs (Dispatch now evt) s = dispatch_one cf now evt s"
| "app_step cf rs (Resume i ok) s =
     (if i < length (a_pending s) then resume cf rs (a_pending s ! i) ok (s\<lparr>a_pending := drop_nth i (a_pending s)\<rparr>) else s)"
| "app_step cf rs ReaderEnds s = reader_ended s"
| "app_step cf rs (MicChunk is_speech ms) s = update_vad cf is_speech ms s"
| "app_step cf rs GateCloses s = send_asr_eos_once GateEos id s"
| "app_step cf rs RestartMic s = restart_mic s"
| "app_step cf rs (DeviceReads n) s = s\<lparr>a_audio := snd (output_callback n (a_audio s))\<rparr>"
| "app_step cf rs AsrWatchdogFires s = asr_final_watchdog s"
| "app_step cf rs ThinkingFires s = thinking_watchdog s"
| "app_step cf rs (ThinkingResumes ok) s = thinking_recovered cf ok s"
| "app_step cf rs SleepTimerFires s = sleep_timer_fires s"
| "app_step cf rs (Wake should_reconnect) s = wake should_reconnect s"
| "app_step cf rs Sleep s = sleep s"
| "app_step cf rs (TurnEnds how) s = turn_ends cf how s"
| "app_step cf rs TurnFails s = turn_failed cf s"
| "app_step cf rs PttStart s = ptt_start s"
| "app_step cf rs PttEnd s = ptt_end s"

section \<open>The microphone pump\<close>

text \<open>
  \<open>_mic_pump\<close> with the client VAD: a chunk is dropped with the pre-roll while the agent
  sleeps (or speaks and thinks, behind the echo gate) or the client reconnects; a chunk of
  speech is sent after the pre-roll; another is kept in the pre-roll, of about 400 ms.
\<close>

definition preroll_max :: "int \<Rightarrow> nat" where
  "preroll_max chunk_ms = nat (max 1 (400 div max chunk_ms 1))"

definition pump_gated :: "bool \<Rightarrow> bool \<Rightarrow> conv_state \<Rightarrow> bool" where
  "pump_gated drop_while_speaking reconnecting st =
     (st = SLEEPING \<or> drop_while_speaking \<and> st \<in> {SPEAKING, THINKING} \<or> reconnecting)"

datatype 'c pump_chunk = Gated | Speech 'c | Quiet 'c

text \<open>\<open>deque(maxlen=n)\<close>.\<close>

definition preroll_append :: "nat \<Rightarrow> 'c \<Rightarrow> 'c list \<Rightarrow> 'c list" where
  "preroll_append n c preroll = drop (length preroll + 1 - n) (preroll @ [c])"

fun pump_step :: "nat \<Rightarrow> 'c pump_chunk \<Rightarrow> 'c list \<times> 'c list \<Rightarrow> 'c list \<times> 'c list" where
  "pump_step n Gated (preroll, sent) = ([], sent)"
| "pump_step n (Speech c) (preroll, sent) = ([], sent @ preroll @ [c])"
| "pump_step n (Quiet c) (preroll, sent) = (preroll_append n c preroll, sent)"

text \<open>One chunk of the pump: \<open>s\<close> is the state when it arrives, \<open>vad_speech\<close> the VAD's state once
  \<open>_update_vad\<close> returned (not called behind the gate).\<close>

definition mic_pump :: "int \<Rightarrow> bool \<Rightarrow> bool \<Rightarrow> app \<Rightarrow> bool \<Rightarrow> 'c \<Rightarrow> 'c list \<times> 'c list \<Rightarrow> 'c list \<times> 'c list" where
  "mic_pump chunk_ms drop_while_speaking reconnecting s vad_speech chunk st =
     pump_step (preroll_max chunk_ms)
       (if pump_gated drop_while_speaking reconnecting (a_state s) then Gated
        else if vad_speech then Speech chunk else Quiet chunk) st"

text \<open>
  The energy gate of the pump without a client VAD, in milliseconds and with the loudness
  already compared with the two thresholds: open, opened at, last loud at. The result says
  whether an EOS is due and whether the chunk is passed on or replaced by silence.
\<close>

datatype loudness = Loud | Between | Soft

record energy_gate =
  eg_open :: bool
  eg_opened_at :: int
  eg_last_loud :: int

definition energy_gate_step :: "int \<Rightarrow> bool \<Rightarrow> int \<Rightarrow> int \<Rightarrow> loudness \<Rightarrow> energy_gate \<Rightarrow> bool \<times> energy_gate" where
  "energy_gate_step hangover drive_eos min_speech now l g =
     (case l of
        Loud \<Rightarrow> (False, g\<lparr>eg_opened_at := (if eg_open g then eg_opened_at g else now), eg_open := True, eg_last_loud := now\<rparr>)
      | Between \<Rightarrow> (False, g)
      | Soft \<Rightarrow>
          if now - eg_last_loud g \<ge> hangover
          then (eg_open g \<and> drive_eos \<and> eg_last_loud g - eg_opened_at g \<ge> min_speech, g\<lparr>eg_open := False\<rparr>)
          else (False, g))"

section \<open>Frame lemmas\<close>

lemmas app_ops = set_state_def suspend_def send_def cancel_turn_def cancel_asr_watchdog_def arm_thinking_watchdog_def
  cancel_thinking_watchdog_def arm_playback_def silence_def counted_reconnect_def clear_vad_def interrupt_begin_def interrupt_end_def
  send_asr_eos_once_def enter_thinking_def reset_sleep_timer_def

lemmas app_handlers = route_final_def start_turn_def dispatch_final_def dispatch_partial_def dispatch_audio_def dispatch_done_def
  dispatch_error_def reader_ended_def reader_reconnected_def end_speech_def update_vad_def restart_mic_def
  asr_final_watchdog_def thinking_watchdog_def thinking_recovered_def wake_def wake_end_def sleep_def sleep_end_def
  sleep_timer_fires_def report_def turn_ends_def turn_failed_def ptt_start_def ptt_end_def

lemma set_pending_split:
  "i < length xs \<Longrightarrow> set xs = insert (xs ! i) (set (drop_nth i xs))"
  using drop_nth_split [of i xs] by (metis insert_iff list.set(2) set_append Un_insert_right list.simps(15))

lemma mset_pending_split:
  "i < length xs \<Longrightarrow> mset xs = add_mset (xs ! i) (mset (drop_nth i xs))"
  by (metis drop_nth_split mset_append union_mset_add_mset_right mset.simps(2))

lemma mset_concat_split:
  assumes "i < length xs"
  shows "mset (concat (map f xs)) = mset (f (xs ! i)) + mset (concat (map f (drop_nth i xs)))"
proof -
  define x where "x = xs ! i"
  obtain ys zs where "xs = ys @ x # zs" "drop_nth i xs = ys @ zs"
    using drop_nth_split [OF assms] unfolding x_def by blast
  then show ?thesis unfolding x_def [symmetric] by simp
qed

section \<open>Every thinking turn is watched\<close>

text \<open>The rest of an error handler that will leave the thinking state.\<close>

fun error_cont :: "cont \<Rightarrow> bool" where
  "error_cont (ErrorHandled old) = (old \<noteq> SLEEPING)"
| "error_cont _ = False"

definition thinking_watched :: "app \<Rightarrow> bool" where
  "thinking_watched s = (a_state s = THINKING \<longrightarrow> a_thinking s \<noteq> Disarmed \<or> (\<exists>c \<in> set (a_pending s). error_cont c))"

fun starts_tts :: "app_event \<Rightarrow> bool" where
  "starts_tts (Dispatch _ (TTSStarted _)) = True"
| "starts_tts _ = False"

text \<open>The EOS latch of a turn is watched too, or its sender is still in flight.\<close>

fun eos_cont :: "cont \<Rightarrow> bool" where
  "eos_cont c = (c \<in> {SpeechEndEos, GateEos, PttEos})"

definition latch_watched :: "app \<Rightarrow> bool" where
  "latch_watched s = (a_eos_sent s \<longrightarrow> a_asr_watchdog s \<or> (\<exists>c \<in> set (a_pending s). eos_cont c))"

fun strands_latch :: "app_event \<Rightarrow> bool" where
  "strands_latch (Dispatch _ (SLVError _)) = True"
| "strands_latch RestartMic = True"
| "strands_latch _ = False"

lemma thinking_watched_dispatch:
  "thinking_watched s \<Longrightarrow> (\<forall>t. evt \<noteq> TTSStarted t) \<Longrightarrow> thinking_watched (dispatch_one cf now evt s)"
  by (cases evt) (auto simp: dispatch_one_def thinking_watched_def app_ops app_handlers Let_def split: if_splits)

lemma latch_watched_dispatch:
  "latch_watched s \<Longrightarrow> (\<forall>e. evt \<noteq> SLVError e) \<Longrightarrow> latch_watched (dispatch_one cf now evt s)"
  by (cases evt) (auto simp: dispatch_one_def latch_watched_def app_ops app_handlers Let_def split: if_splits)

lemma thinking_watched_update_vad: "thinking_watched s \<Longrightarrow> thinking_watched (update_vad cf is_speech ms s)"
  by (auto simp: thinking_watched_def update_vad_def app_ops Let_def)

lemma latch_watched_update_vad: "latch_watched s \<Longrightarrow> latch_watched (update_vad cf is_speech ms s)"
  by (auto simp: latch_watched_def update_vad_def app_ops Let_def)

lemma thinking_watched_resume:
  assumes "a_state s = THINKING \<Longrightarrow> a_thinking s \<noteq> Disarmed \<or> error_cont c \<or> (\<exists>c \<in> set (a_pending s). error_cont c)"
  shows "thinking_watched (resume cf rs c ok s)"
  using assms
  by (cases c) (auto simp: resume_def thinking_watched_def app_ops route_final_def start_turn_def reader_reconnected_def
      end_speech_def wake_end_def sleep_end_def Let_def)

lemma latch_watched_resume:
  assumes "a_eos_sent s \<Longrightarrow> a_asr_watchdog s \<or> eos_cont c \<or> (\<exists>c \<in> set (a_pending s). eos_cont c)"
  shows "latch_watched (resume cf rs c ok s)"
  using assms
  by (cases c) (auto simp: resume_def latch_watched_def app_ops route_final_def start_turn_def reader_reconnected_def
      end_speech_def wake_end_def sleep_end_def Let_def)

lemma thinking_watched_step: "thinking_watched s \<Longrightarrow> \<not> starts_tts ev \<Longrightarrow> thinking_watched (app_step cf rs ev s)"
proof (cases ev)
  case (Resume i ok)
  assume "thinking_watched s"
  then show ?thesis using Resume set_pending_split [of i "a_pending s"]
    by (auto simp: thinking_watched_def [of s] intro!: thinking_watched_resume)
next
  case (Dispatch now evt)
  assume "thinking_watched s" "\<not> starts_tts ev"
  then show ?thesis using Dispatch thinking_watched_dispatch by (cases evt) auto
next
  case (MicChunk is_speech ms)
  assume "thinking_watched s"
  then show ?thesis using MicChunk thinking_watched_update_vad by simp
qed (auto simp: thinking_watched_def app_ops reader_ended_def restart_mic_def mic_cont_def asr_final_watchdog_def thinking_watchdog_def
    thinking_recovered_def sleep_timer_fires_def sleep_def wake_def turn_ends_def report_def turn_failed_def ptt_start_def ptt_end_def Let_def
    split: llm_turn.split turn_end.split)

lemma latch_watched_step: "latch_watched s \<Longrightarrow> \<not> strands_latch ev \<Longrightarrow> latch_watched (app_step cf rs ev s)"
proof (cases ev)
  case (Resume i ok)
  assume "latch_watched s"
  then show ?thesis using Resume set_pending_split [of i "a_pending s"]
    by (auto simp: latch_watched_def [of s] simp del: eos_cont.simps intro!: latch_watched_resume)
next
  case (Dispatch now evt)
  assume "latch_watched s" "\<not> strands_latch ev"
  then show ?thesis using Dispatch latch_watched_dispatch by (cases evt) auto
next
  case (MicChunk is_speech ms)
  assume "latch_watched s"
  then show ?thesis using MicChunk latch_watched_update_vad by simp
next
  case RestartMic
  assume "\<not> strands_latch ev"
  then show ?thesis using RestartMic by simp
qed (auto simp: latch_watched_def app_ops reader_ended_def asr_final_watchdog_def thinking_watchdog_def
    thinking_recovered_def sleep_timer_fires_def sleep_def wake_def turn_ends_def report_def turn_failed_def ptt_start_def ptt_end_def Let_def
    split: llm_turn.split turn_end.split)

section \<open>LLM turns answer real utterances\<close>

text \<open>The utterance an event brings, and those still on their way to a turn.\<close>

fun meant :: "app_config \<Rightarrow> app_event \<Rightarrow> ustr list" where
  "meant cf (Dispatch _ (ASRFinal text _ duplicate _)) = (if duplicate \<or> low_signal (cf_unicode cf) text then [] else [text])"
| "meant cf _ = []"

fun owed :: "app_config \<Rightarrow> cont \<Rightarrow> ustr list" where
  "owed cf (FinalReconnect text _) = (if low_signal (cf_unicode cf) text then [] else [text])"
| "owed cf (FinalRoute text _) = (if low_signal (cf_unicode cf) text then [] else [text])"
| "owed cf (Utterance text) = [text]"
| "owed cf _ = []"

definition credits :: "app_config \<Rightarrow> app \<Rightarrow> ustr multiset" where
  "credits cf s = mset (a_spawned s) + mset (concat (map (owed cf) (a_pending s)))"

lemma credits_dispatch: "credits cf (dispatch_one cf now evt s) \<subseteq># credits cf s + mset (meant cf (Dispatch now evt))"
  by (cases evt) (auto simp: dispatch_one_def credits_def app_ops app_handlers Let_def)

lemma credits_resume: "credits cf (resume cf rs c ok s) \<subseteq># credits cf s + mset (owed cf c)"
  by (cases c) (auto simp: resume_def credits_def app_ops route_final_def start_turn_def reader_reconnected_def
      end_speech_def wake_end_def sleep_end_def Let_def)

lemma credits_step: "credits cf (app_step cf rs ev s) \<subseteq># credits cf s + mset (meant cf ev)"
proof (cases ev)
  case (Dispatch now evt)
  then show ?thesis using credits_dispatch by simp
next
  case (Resume i ok)
  show ?thesis
  proof (cases "i < length (a_pending s)")
    case True
    then have "credits cf s = credits cf (s\<lparr>a_pending := drop_nth i (a_pending s)\<rparr>) + mset (owed cf (a_pending s ! i))"
      using mset_concat_split [of i "a_pending s" "owed cf"] by (simp add: credits_def)
    then show ?thesis using credits_resume [of cf rs "a_pending s ! i" ok] True Resume by simp
  qed (simp add: Resume)
next
  case (MicChunk is_speech ms)
  then show ?thesis by (auto simp: credits_def update_vad_def app_ops Let_def)
next
  case RestartMic
  have "concat (map (owed cf) (filter (\<lambda>c. \<not> mic_cont c) cs)) = concat (map (owed cf) cs)" for cs
    by (induction cs) (auto simp: mic_cont_def)
  then show ?thesis using RestartMic by (simp add: credits_def restart_mic_def clear_vad_def)
qed (auto simp: credits_def app_ops reader_ended_def asr_final_watchdog_def thinking_watchdog_def
    thinking_recovered_def sleep_timer_fires_def sleep_def wake_def turn_ends_def report_def turn_failed_def ptt_start_def ptt_end_def Let_def
    split: llm_turn.split turn_end.split)

lemma credits_run: "credits cf (fold (app_step cf rs) es s) \<subseteq># credits cf s + mset (concat (map (meant cf) es))"
proof (induction es arbitrary: s)
  case (Cons ev es)
  have "credits cf (fold (app_step cf rs) es (app_step cf rs ev s)) \<subseteq># credits cf (app_step cf rs ev s) + mset (concat (map (meant cf) es))"
    by (rule Cons.IH)
  also have "\<dots> \<subseteq># (credits cf s + mset (meant cf ev)) + mset (concat (map (meant cf) es))"
    by (intro subset_mset.add_right_mono credits_step)
  finally show ?case by (simp add: ac_simps)
qed simp

text \<open>No turn starts on a stop word.\<close>

definition unstopped :: "app_config \<Rightarrow> app \<Rightarrow> bool" where
  "unstopped cf s = (\<forall>t \<in> set (a_spawned s). \<not> is_stop_intent (cf_unicode cf) (cf_stop_words cf) t)"

lemma unstopped_step: "unstopped cf s \<Longrightarrow> unstopped cf (app_step cf rs ev s)"
proof (cases ev)
  case (Dispatch now evt)
  assume "unstopped cf s"
  then show ?thesis using Dispatch by (cases evt) (auto simp: dispatch_one_def unstopped_def app_ops app_handlers Let_def)
next
  case (Resume i ok)
  assume "unstopped cf s"
  then show ?thesis using Resume
    by (cases "a_pending s ! i") (auto simp: resume_def unstopped_def app_ops route_final_def start_turn_def reader_reconnected_def
      end_speech_def wake_end_def sleep_end_def Let_def)
next
  case (MicChunk is_speech ms)
  assume "unstopped cf s"
  then show ?thesis using MicChunk by (auto simp: unstopped_def update_vad_def app_ops Let_def)
qed (auto simp: unstopped_def app_ops reader_ended_def asr_final_watchdog_def thinking_watchdog_def restart_mic_def
    thinking_recovered_def sleep_timer_fires_def sleep_def wake_def turn_ends_def report_def turn_failed_def ptt_start_def ptt_end_def Let_def
    split: llm_turn.split turn_end.split)

section \<open>A sleeping agent\<close>

text \<open>The rests of handlers that do not wake the agent when they go on while it sleeps.\<close>

fun quiet_cont :: "cont \<Rightarrow> bool" where
  "quiet_cont (ErrorHandled old) = (old = SLEEPING)"
| "quiet_cont c = (c \<in> {SleepingReconnect, ReaderReconnect, GateEos, BargeAbort, TurnDone, SleepBroadcast, SleepAbort} \<or> (\<exists>pcm. c = PlayFrame pcm))"

definition asleep :: "app \<Rightarrow> bool" where
  "asleep s = (a_state s = SLEEPING \<and> a_turn s = NoTurn \<and> a_thinking s \<noteq> Recovering \<and> list_all quiet_cont (a_pending s))"

text \<open>The events that wake it: wake calls, push to talk, and frames of speech that still arrive.\<close>

fun rousing :: "app_event \<Rightarrow> bool" where
  "rousing (Wake _) = True"
| "rousing PttStart = True"
| "rousing PttEnd = True"
| "rousing (Dispatch _ (TTSAudio _ _)) = True"
| "rousing (Dispatch _ (TTSDone _)) = True"
| "rousing _ = False"

lemma asleep_resume:
  "asleep s \<Longrightarrow> quiet_cont c \<Longrightarrow> asleep (resume cf rs c ok s)"
  by (cases c) (auto simp: resume_def asleep_def app_ops reader_reconnected_def sleep_end_def Let_def)

lemma asleep_step: "asleep s \<Longrightarrow> \<not> rousing ev \<Longrightarrow> asleep (app_step cf rs ev s) \<and> a_spawned (app_step cf rs ev s) = a_spawned s"
proof (cases ev)
  case (Dispatch now evt)
  assume "asleep s" "\<not> rousing ev"
  then show ?thesis using Dispatch
    by (cases evt) (auto simp: dispatch_one_def asleep_def app_ops dispatch_error_def)
next
  case (Resume i ok)
  assume a: "asleep s"
  show ?thesis
  proof (cases "i < length (a_pending s)")
    case True
    define c where "c = a_pending s ! i"
    have "asleep (s\<lparr>a_pending := drop_nth i (a_pending s)\<rparr>)" "quiet_cont c"
      using a True set_pending_split [OF True] by (auto simp: asleep_def c_def list_all_iff)
    moreover from this have "a_spawned (resume cf rs c ok (s\<lparr>a_pending := drop_nth i (a_pending s)\<rparr>)) = a_spawned s"
      by (cases c) (auto simp: resume_def app_ops reader_reconnected_def sleep_end_def Let_def)
    ultimately show ?thesis using True Resume asleep_resume by (simp add: c_def)
  qed (use Resume a in simp)
next
  case RestartMic
  assume "asleep s"
  then show ?thesis using RestartMic by (auto simp: asleep_def restart_mic_def clear_vad_def list_all_iff)
qed (auto simp: asleep_def app_ops reader_ended_def asr_final_watchdog_def thinking_watchdog_def update_vad_def
    thinking_recovered_def sleep_timer_fires_def sleep_def turn_ends_def turn_failed_def Let_def)

section \<open>What the pump sends\<close>

text \<open>The reference: a quiet chunk is sent when one of the next n chunks is speech and no gate
  comes before it; speech is always sent.\<close>

fun speech_within :: "nat \<Rightarrow> 'c pump_chunk list \<Rightarrow> bool" where
  "speech_within n [] = False"
| "speech_within n (Gated # xs) = False"
| "speech_within n (Speech c # xs) = (n > 0)"
| "speech_within n (Quiet c # xs) = (n > 0 \<and> speech_within (n - 1) xs)"

fun forwarded :: "nat \<Rightarrow> 'c pump_chunk list \<Rightarrow> 'c list" where
  "forwarded n [] = []"
| "forwarded n (Gated # xs) = forwarded n xs"
| "forwarded n (Speech c # xs) = c # forwarded n xs"
| "forwarded n (Quiet c # xs) = (if speech_within n xs then c # forwarded n xs else forwarded n xs)"

lemma speech_within_quiet: "speech_within n (map Quiet p @ xs) \<longleftrightarrow> length p \<le> n \<and> speech_within (n - length p) xs"
proof (induction p arbitrary: n)
  case (Cons c p)
  then show ?case by (cases n) simp_all
qed simp

lemma speech_within_0 [simp]: "\<not> speech_within 0 xs"
proof (cases xs)
  case (Cons x ys)
  then show ?thesis by (cases x) simp_all
qed simp

lemma forwarded_gated: "forwarded n (map Quiet p @ Gated # xs) = forwarded n xs"
  by (induction p) (simp_all add: speech_within_quiet)

lemma forwarded_end: "forwarded n (map Quiet p) = []"
proof (induction p)
  case (Cons c p)
  then show ?case using speech_within_quiet [of n p "[]"] by simp
qed simp

lemma forwarded_speech: "length p \<le> n \<Longrightarrow> forwarded n (map Quiet p @ Speech c # xs) = p @ c # forwarded n xs"
  by (induction p) (simp_all add: speech_within_quiet)

lemma forwarded_full:
  assumes "length p = n"
  shows "forwarded n (map Quiet (d # p) @ xs) = forwarded n (map Quiet p @ xs)"
  using assms by (simp add: speech_within_quiet)

lemma pump_forwards:
  assumes "0 < n" "length p \<le> n"
  shows "snd (fold (pump_step n) xs (p, sent)) = sent @ forwarded n (map Quiet p @ xs)"
  using assms(2)
proof (induction xs arbitrary: p sent)
  case Nil
  then show ?case by (simp add: forwarded_end)
next
  case (Cons x xs)
  show ?case
  proof (cases x)
    case Gated
    then show ?thesis using Cons.IH [of "[]" sent] by (simp add: forwarded_gated)
  next
    case (Speech c)
    then show ?thesis using Cons.IH [of "[]" "sent @ p @ [c]"] Cons.prems by (simp add: forwarded_speech)
  next
    case (Quiet c)
    show ?thesis
    proof (cases "length p = n")
      case False
      then have "preroll_append n c p = p @ [c]" using Cons.prems by (simp add: preroll_append_def)
      then show ?thesis using Cons.IH [of "p @ [c]" sent] Cons.prems False Quiet by simp
    next
      case True
      then obtain d q where p: "p = d # q" using assms(1) by (cases p) auto
      then have "preroll_append n c p = q @ [c]" using True by (simp add: preroll_append_def)
      then show ?thesis using Cons.IH [of "q @ [c]" sent] True Quiet p forwarded_full [of "q @ [c]" n d xs] by simp
    qed
  qed
qed

section \<open>Properties\<close>

interpretation app_turns: step_system "app_step cf rs" "unstopped cf" for cf rs
  by unfold_locales (rule unstopped_step)

lemma thinking_watched_run:
  "thinking_watched s \<Longrightarrow> \<forall>ev \<in> set es. \<not> starts_tts ev \<Longrightarrow> thinking_watched (fold (app_step cf rs) es s)"
  by (induction es arbitrary: s) (auto intro: thinking_watched_step)

lemma latch_watched_run:
  "latch_watched s \<Longrightarrow> \<forall>ev \<in> set es. \<not> strands_latch ev \<Longrightarrow> latch_watched (fold (app_step cf rs) es s)"
  by (induction es arbitrary: s) (auto intro: latch_watched_step)

lemma no_error_cont_step:
  "\<forall>c \<in> set (a_pending s). \<not> error_cont c \<Longrightarrow> \<not> strands_latch ev \<Longrightarrow> \<forall>c \<in> set (a_pending (app_step cf rs ev s)). \<not> error_cont c"
proof (cases ev)
  case (Dispatch now evt)
  assume "\<forall>c \<in> set (a_pending s). \<not> error_cont c" "\<not> strands_latch ev"
  then show ?thesis using Dispatch by (cases evt) (auto simp: dispatch_one_def app_ops app_handlers Let_def)
next
  case (Resume i ok)
  assume a: "\<forall>c \<in> set (a_pending s). \<not> error_cont c"
  show ?thesis
  proof (cases "i < length (a_pending s)")
    case True
    have "error_cont c \<Longrightarrow> c \<in> set (a_pending (resume cf rs d ok t)) \<Longrightarrow> c \<in> set (a_pending t)" for c d t
      by (cases d) (auto simp: resume_def app_ops route_final_def start_turn_def reader_reconnected_def
          end_speech_def wake_end_def sleep_end_def Let_def split: if_splits)
    then show ?thesis using a True Resume set_pending_split [OF True] by fastforce
  qed (use a Resume in simp)
next
  case (MicChunk is_speech ms)
  assume "\<forall>c \<in> set (a_pending s). \<not> error_cont c"
  then show ?thesis using MicChunk by (auto simp: update_vad_def app_ops Let_def)
qed (auto simp: app_ops reader_ended_def asr_final_watchdog_def thinking_watchdog_def restart_mic_def
    thinking_recovered_def sleep_timer_fires_def sleep_def wake_def turn_ends_def report_def turn_failed_def ptt_start_def ptt_end_def Let_def
    split: llm_turn.split turn_end.split)

lemma no_error_cont_run:
  "\<forall>c \<in> set (a_pending s). \<not> error_cont c \<Longrightarrow> \<forall>ev \<in> set es. \<not> strands_latch ev \<Longrightarrow>
     \<forall>c \<in> set (a_pending (fold (app_step cf rs) es s)). \<not> error_cont c"
proof (induction es arbitrary: s)
  case (Cons ev es)
  then show ?case using no_error_cont_step [OF Cons.prems(1), of ev cf rs] by simp
qed simp

text \<open>
  C22: a turn never gets stuck in thinking. From any point of any run in which the server
  neither announced a sentence nor reported an error and the microphone was not restarted,
  once both watchdogs have fired and the reconnect of the second one ended (well or badly), an
  agent that was thinking is idle, none is thinking, and the latch that suppresses a second EOS
  is clear unless the EOS is just being sent.
\<close>

theorem agent_recovers:
  assumes "\<forall>ev \<in> set es. \<not> starts_tts ev \<and> \<not> strands_latch ev"
  shows "let s = fold (app_step cf rs) es (new_app cf sr av);
            t = fold (app_step cf rs) [AsrWatchdogFires, ThinkingFires, ThinkingResumes ok] s in
     (a_state s = THINKING \<longrightarrow> a_state t = IDLE) \<and> a_state t \<noteq> THINKING \<and>
     (a_eos_sent t \<longrightarrow> (\<exists>c \<in> set (a_pending t). eos_cont c))"
proof -
  define s where "s = fold (app_step cf rs) es (new_app cf sr av)"
  have "thinking_watched s" "latch_watched s" "\<forall>c \<in> set (a_pending s). \<not> error_cont c"
    unfolding s_def using assms
    by (intro thinking_watched_run latch_watched_run no_error_cont_run;
        auto simp: thinking_watched_def latch_watched_def new_app_def)+
  then have w: "a_state s = THINKING \<Longrightarrow> a_thinking s \<noteq> Disarmed"
      "a_eos_sent s \<Longrightarrow> a_asr_watchdog s \<or> (\<exists>c \<in> set (a_pending s). eos_cont c)"
    by (auto simp: thinking_watched_def latch_watched_def)
  have "let t = fold (app_step cf rs) [AsrWatchdogFires, ThinkingFires, ThinkingResumes ok] s in
     (a_state s = THINKING \<longrightarrow> a_state t = IDLE) \<and> a_state t \<noteq> THINKING \<and>
     (a_eos_sent t \<longrightarrow> (\<exists>c \<in> set (a_pending t). eos_cont c))"
    using w by (cases "a_thinking s")
      (auto simp: asr_final_watchdog_def thinking_watchdog_def thinking_recovered_def app_ops Let_def simp del: eos_cont.simps)
  then show ?thesis unfolding s_def Let_def .
qed

definition demo_cf :: app_config where
  "demo_cf = \<lparr>cf_pipeline_mode = ''wake_word'', cf_stop_words = [u ''stop''],
     cf_unicode = \<lparr>uc_letter_or_number = (\<lambda>c. 97 \<le> c), uc_lower = id\<rparr>, cf_speech_min_ms = 100, cf_silence_ms = 100, cf_drive_eos = True,
     cf_barge_min_chars = 2, cf_barge_min_ms = 500, cf_ptt_no_vad_silence = True, cf_reconnect_on_wake = False\<rparr>"

definition keep_rate :: "nat \<Rightarrow> nat \<Rightarrow> byte list \<Rightarrow> byte list" where
  "keep_rate a b pcm = pcm"

abbreviation run_demo :: "app_event list \<Rightarrow> app" where
  "run_demo es \<equiv> fold (app_step demo_cf keep_rate) es (new_app demo_cf 24000 None)"

text \<open>Woken, the user spoke, and the EOS was sent.\<close>

definition demo_spoken :: "app_event list" where
  "demo_spoken = [Wake False, Resume 0 True, MicChunk True 100, MicChunk False 100, Resume 0 True, Resume 0 True]"

definition demo_answered :: "app_event list" where
  "demo_answered = demo_spoken @ [Dispatch 5 (ASRFinal (u ''hello'') True False None), Resume 0 True, Resume 0 True, Resume 0 True]"

lemmas agent_run = demo_spoken_def demo_cf_def new_app_def keep_rate_def app_ops app_handlers dispatch_one_def resume_def
  low_signal_def strip_for_signal_def interjections_def is_stop_intent_def normalise_for_stop_def stop_punctuation_def always_on_def
  mic_cont_def drop_nth_def is_playing_def new_audio_def u_def Let_def py_isspace_def strip_by_def is_ascii_def starts_with_def
  arm_for_next_turn_def stop_playback_def set_output_sample_rate_def mark_playback_done_def play_def

theorem agent_recovers_witness:
  "a_state (run_demo demo_spoken) = THINKING \<and>
   a_state (fold (app_step demo_cf keep_rate) [AsrWatchdogFires, ThinkingFires, ThinkingResumes False] (run_demo demo_spoken)) = IDLE"
proof -
  have "\<forall>ev \<in> set demo_spoken. \<not> starts_tts ev \<and> \<not> strands_latch ev" by (simp add: demo_spoken_def)
  note recovered = agent_recovers [OF this, of demo_cf keep_rate 24000 None False, unfolded Let_def]
  have "a_state (run_demo demo_spoken) = THINKING" by (simp add: agent_run)
  then show ?thesis using recovered by blast
qed

text \<open>
  C21: every LLM turn answers one real utterance. In any interleaving, the turns started are
  (as a multiset) among the finals that were neither duplicates nor noise, at most one for
  each, and none was started for a stop word.
\<close>

theorem turns_answer_utterances:
  "let s = fold (app_step cf rs) es (new_app cf sr av) in
     mset (a_spawned s) \<subseteq># mset (concat (map (meant cf) es)) \<and>
     (\<forall>t \<in> set (a_spawned s). \<not> is_stop_intent (cf_unicode cf) (cf_stop_words cf) t)"
proof -
  have "credits cf (new_app cf sr av) = {#}" by (simp add: credits_def new_app_def)
  then have "credits cf (fold (app_step cf rs) es (new_app cf sr av)) \<subseteq># mset (concat (map (meant cf) es))"
    using credits_run [of cf rs es "new_app cf sr av"] by simp
  moreover have "mset (a_spawned s) \<subseteq># credits cf s" for s by (simp add: credits_def)
  moreover have "unstopped cf (fold (app_step cf rs) es (new_app cf sr av))"
    by (rule app_turns.run_inv) (simp add: unstopped_def new_app_def)
  ultimately show ?thesis unfolding unstopped_def Let_def using subset_mset.order_trans by blast
qed

theorem turns_answer_utterances_witness:
  "a_spawned (run_demo demo_answered) = [u ''hello''] \<and> \<not> is_stop_intent (cf_unicode demo_cf) (cf_stop_words demo_cf) (u ''hello'')"
proof -
  have "a_spawned (run_demo demo_answered) = [u ''hello'']" by (simp add: demo_answered_def agent_run)
  then show ?thesis
    using turns_answer_utterances [where cf = demo_cf and rs = keep_rate and es = demo_answered and sr = 24000 and av = None]
    by (simp add: Let_def)
qed

text \<open>
  A sleeping agent stays asleep and starts no LLM turn, whatever the microphone, the
  server, the watchdogs, the timers and the other callers do, until it is woken, the talk
  button is used, or a frame of synthesised speech (audio, or its end) still arrives.
\<close>

theorem sleeping_agent_stays_asleep:
  assumes "asleep s" "\<forall>ev \<in> set es. \<not> rousing ev"
  shows "a_state (fold (app_step cf rs) es s) = SLEEPING \<and> a_spawned (fold (app_step cf rs) es s) = a_spawned s"
proof -
  have "asleep (fold (app_step cf rs) es s) \<and> a_spawned (fold (app_step cf rs) es s) = a_spawned s"
    using assms
  proof (induction es arbitrary: s)
    case (Cons ev es)
    then show ?case using asleep_step [OF Cons.prems(1), of ev cf rs] by simp
  qed simp
  then show ?thesis by (simp add: asleep_def)
qed

theorem sleeping_agent_stays_asleep_witness:
  "a_state (run_demo [MicChunk True 500, Dispatch 5 (ASRFinal (u ''hello'') True False None), Resume 0 True]) = SLEEPING"
proof -
  have "asleep (new_app demo_cf 24000 None)" by (simp add: asleep_def new_app_def demo_cf_def always_on_def)
  then show ?thesis
    using sleeping_agent_stays_asleep [where es = "[MicChunk True 500, Dispatch 5 (ASRFinal (u ''hello'') True False None), Resume 0 True]"
        and cf = demo_cf and rs = keep_rate] by simp
qed

text \<open>
  The microphone pump sends exactly the speech and the pre-roll. With the client VAD, over
  any sequence of chunks, what goes to the server is every chunk of speech and every quiet
  chunk followed within the pre-roll by speech with no gated chunk between, in order and
  once each.
\<close>

theorem pump_sends_speech_and_preroll:
  "snd (fold (pump_step (preroll_max chunk_ms)) xs ([], [])) = forwarded (preroll_max chunk_ms) xs"
proof -
  have "0 < preroll_max chunk_ms" by (simp add: preroll_max_def)
  from pump_forwards [OF this, of "[]" xs "[]"] show ?thesis by simp
qed

section \<open>Where the agent departs from its documentation\<close>

text \<open>Late speech wakes a sleeping agent: an audio frame makes it speak and its end makes it
  idle, with the microphone open. The comment at the gate says that such frames are ignored.\<close>

lemma late_speech_wakes_the_sleeper:
  "a_state (run_demo []) = SLEEPING \<and> a_state (run_demo [Dispatch 1 (TTSAudio [1] 16000)]) = SPEAKING
   \<and> a_state (run_demo [Dispatch 1 (TTSDone False)]) = IDLE"
  by (simp add: agent_run)

text \<open>A final that was being dispatched when the agent was sent to sleep starts a turn and
  leaves the sleeping state.\<close>

lemma final_in_flight_wakes_the_sleeper:
  "let s = run_demo [Wake False, Resume 0 True, Dispatch 1 (ASRFinal (u ''hello'') False False None), Sleep, Resume 1 True, Resume 1 True];
       t = app_step demo_cf keep_rate (Resume 0 True) s
   in a_state s = SLEEPING \<and> a_state t = THINKING \<and> a_spawned t = [u ''hello'']"
  by (simp add: agent_run)

text \<open>An error report of the server cancels the EOS watchdog and leaves the latch set: the next
  utterance sends no EOS, which the other recovery paths say they prevent.\<close>

lemma error_strands_the_latch:
  "let s = run_demo (demo_spoken @ [Dispatch 9 (SLVError (ServerSaid [])), Resume 0 True]);
       t = fold (app_step demo_cf keep_rate) [MicChunk True 100, MicChunk False 100, Resume 0 True, AsrWatchdogFires] s
   in a_state s = IDLE \<and> a_eos_sent s \<and> \<not> a_asr_watchdog s \<and> a_state t = THINKING \<and> a_sent t = a_sent s"
  by (simp add: agent_run)

text \<open>Pressing the talk button opens the microphone even when the wake was refused because the
  server is unreachable.\<close>

lemma talk_button_overrides_refused_wake:
  "a_state (run_demo [Wake True, Resume 0 False]) = SLEEPING \<and> a_state (run_demo [Wake True, Resume 0 False, PttStart]) = LISTENING"
  by (simp add: agent_run)

end
