(* ===== verification/Llm_Backend.thy ===== *)
theory Llm_Backend
  imports Tool_Runner
begin

text \<open>
  The LLM clients (\<open>agent/openvoicestream_agent/llm/openai_compat.py\<close> and \<open>edge_llm.py\<close>): the
  decoding of streamed chunks into events, the retry of transient failures before the first
  payload, and the prefix-cache fallback with its latch on the session. The upstream
  service is a parameter: for the k-th call of a turn, with or without the prefix-cache
  flag, the chunks it streams and the exception that ends the stream, if one does.
\<close>

section \<open>Chunks and exceptions\<close>

record call_delta =
  cd_index :: "nat option"
  cd_id :: string
  cd_name :: string
  cd_arguments :: ustr

record chunk =
  ck_choice :: bool
  ck_content :: ustr
  ck_calls :: "call_delta list"
  ck_finish :: "string option"

datatype llm_exc =
    ApiConnectionError string
  | ApiTimeoutError string
  | ApiStatusError int string
  | ApiError string
  | StreamError string
  | OtherException

definition is_retryable :: "llm_exc \<Rightarrow> bool" where
  "is_retryable e =
     (case e of ApiConnectionError _ \<Rightarrow> True | ApiTimeoutError _ \<Rightarrow> True
      | ApiStatusError st _ \<Rightarrow> 500 \<le> st \<and> st < 600 | _ \<Rightarrow> False)"

definition has_event_payload :: "llm_event \<Rightarrow> bool" where
  "has_event_payload ev =
     (case ev of TextEvent t \<Rightarrow> t \<noteq> [] | ToolDelta _ i name args \<Rightarrow> i \<noteq> [] \<or> name \<noteq> [] \<or> args \<noteq> [] | FinishEvent _ \<Rightarrow> False)"

section \<open>One call\<close>

definition chunk_events :: "chunk \<Rightarrow> llm_event list" where
  "chunk_events c =
     (if ck_content c = [] then [] else [TextEvent (ck_content c)]) @
     map (\<lambda>d. ToolDelta (Some (case cd_index d of None \<Rightarrow> 0 | Some i \<Rightarrow> i)) (cd_id d) (cd_name d) (cd_arguments d)) (ck_calls c) @
     (case ck_finish c of None \<Rightarrow> [] | Some r \<Rightarrow> if r = [] then [] else [FinishEvent (Some r)])"

text \<open>\<open>_do_stream\<close>: an upstream that gives up says so in a chunk, which becomes an exception.\<close>

fun do_stream :: "chunk list \<Rightarrow> llm_exc option \<Rightarrow> llm_event list \<times> llm_exc option" where
  "do_stream [] ended = ([], ended)"
| "do_stream (c # cs) ended =
     (if \<not> ck_choice c then do_stream cs ended
      else if ck_finish c = Some ''error'' then ([], Some (StreamError ''upstream emitted finish_reason=error mid-stream''))
      else (let (evs, e) = do_stream cs ended in (chunk_events c @ evs, e)))"

type_synonym upstream = "nat \<Rightarrow> chunk list \<times> llm_exc option"

definition call_upstream :: "upstream \<Rightarrow> nat \<Rightarrow> llm_event list \<times> llm_exc option" where
  "call_upstream up k = do_stream (fst (up k)) (snd (up k))"

section \<open>Retry\<close>

text \<open>\<open>stream_events\<close> of the base client: the events the caller sees, how the stream ends, and
  the calls made. A failed call is repeated only if it is transient and nothing was said.\<close>

fun stream_events :: "nat \<Rightarrow> upstream \<Rightarrow> llm_event list \<times> llm_exc option \<times> nat" where
  "stream_events 0 up = ([], None, 0)"
| "stream_events (Suc n) up =
     (case call_upstream up 0 of
        (evs, None) \<Rightarrow> (evs, None, 1)
      | (evs, Some e) \<Rightarrow>
          if \<not> list_ex has_event_payload evs \<and> is_retryable e \<and> n > 0
          then (let (evs', ended, k) = stream_events n (\<lambda>i. up (i + 1)) in (evs @ evs', ended, k + 1))
          else (evs, Some e, 1))"

section \<open>The prefix cache\<close>

definition prefix_cache_markers :: "string list" where
  "prefix_cache_markers = [''prefix_cache'', ''prefix cache'', ''kv cache'', ''kv_cache'', ''kv mismatch'', ''prefix_messages'']"

definition exc_text :: "llm_exc \<Rightarrow> string" where
  "exc_text e = (case e of ApiConnectionError m \<Rightarrow> m | ApiTimeoutError m \<Rightarrow> m | ApiStatusError _ m \<Rightarrow> m | ApiError m \<Rightarrow> m
     | StreamError m \<Rightarrow> m | OtherException \<Rightarrow> [])"

definition is_prefix_cache_failure :: "llm_exc \<Rightarrow> bool" where
  "is_prefix_cache_failure e = list_ex (\<lambda>m. contains m (py_lower (exc_text e))) prefix_cache_markers"

text \<open>Whether a request asks for the prefix cache; every request asks to save its prefix.\<close>

definition use_prefix_cache :: "session option \<Rightarrow> bool" where
  "use_prefix_cache sess = (case sess of None \<Rightarrow> False | Some s \<Rightarrow> s_prefix_cache_warmed s \<and> \<not> s_prefix_cache_disabled s)"

definition build_extra_body :: "session option \<Rightarrow> (string \<times> bool) list" where
  "build_extra_body sess =
     (if use_prefix_cache sess then [(''prefix_cache'', True)] else []) @
     [(''save_system_prompt_kv_cache'', True), (''return_cache_metrics'', True), (''enable_thinking'', False)]"

definition disable_prefix_cache :: "session option \<Rightarrow> session option" where
  "disable_prefix_cache sess = map_option (\<lambda>s. s\<lparr>s_prefix_cache_disabled := True\<rparr>) sess"

definition warmed :: "session option \<Rightarrow> session option" where
  "warmed sess = map_option (\<lambda>s. s\<lparr>s_prefix_cache_warmed := True\<rparr>) sess"

definition is_api_or_stream_error :: "llm_exc \<Rightarrow> bool" where
  "is_api_or_stream_error e = (e \<noteq> OtherException)"

text \<open>
  \<open>EdgeLLMBackend.stream_events\<close>: \<open>up\<close> is told whether the request carries the prefix-cache
  flag. The result: events, how the stream ends, the session, and the calls made, each with
  its flag.
\<close>

definition edge_stream_events ::
  "nat \<Rightarrow> (bool \<Rightarrow> upstream) \<Rightarrow> session option \<Rightarrow> llm_event list \<times> llm_exc option \<times> session option \<times> bool list" where
  "edge_stream_events retries up sess =
     (let used = use_prefix_cache sess;
          (evs, ended, k) = stream_events (1 + retries) (up used)
      in case ended of
           None \<Rightarrow> (evs, None, warmed sess, replicate k used)
         | Some e \<Rightarrow>
             if is_api_or_stream_error e \<and> used \<and> is_prefix_cache_failure e
             then (let sess1 = disable_prefix_cache sess in
                   if evs \<noteq> [] then (evs, Some e, sess1, replicate k used)
                   else (let used1 = use_prefix_cache sess1;
                             (evs1, ended1, k1) = stream_events 1 (\<lambda>i. up used1 (k + i))
                         in (evs1, ended1, if ended1 = None then warmed sess1 else sess1, replicate k used @ replicate k1 used1)))
             else (evs, Some e, sess, replicate k used))"

section \<open>What a caller sees\<close>

text \<open>
  The events of a turn are those of its last call, after events without payload: text and tool
  calls of one call only, never of two.
\<close>

definition said_once :: "upstream \<Rightarrow> llm_event list \<Rightarrow> llm_exc option \<Rightarrow> nat \<Rightarrow> bool" where
  "said_once up evs ended k =
     (\<exists>quiet last. evs = quiet @ last \<and> \<not> list_ex has_event_payload quiet \<and> 0 < k \<and> call_upstream up (k - 1) = (last, ended))"

lemma call_shift: "call_upstream (\<lambda>i. up (i + 1)) k = call_upstream up (k + 1)"
  by (simp add: call_upstream_def)

lemma stream_events_spec:
  "0 < n \<Longrightarrow> stream_events n up = (evs, ended, k) \<Longrightarrow> said_once up evs ended k \<and> k \<le> n"
proof (induction n arbitrary: up evs ended k)
  case (Suc n)
  obtain evs0 e0 where c: "call_upstream up 0 = (evs0, e0)" by fastforce
  show ?case
  proof (cases "\<exists>e. e0 = Some e \<and> \<not> list_ex has_event_payload evs0 \<and> is_retryable e \<and> n > 0")
    case True
    obtain evs1 k1 where r: "stream_events n (\<lambda>i. up (i + 1)) = (evs1, ended, k1)" "evs = evs0 @ evs1" "k = k1 + 1"
      using Suc.prems(2) True c by (auto split: prod.splits)
    have "said_once (\<lambda>i. up (i + 1)) evs1 ended k1" "k1 \<le> n" using Suc.IH [OF _ r(1)] True by auto
    then obtain quiet last where q: "evs1 = quiet @ last" "\<not> list_ex has_event_payload quiet" "0 < k1"
        "call_upstream up (k1 - 1 + 1) = (last, ended)" "k1 \<le> n"
      unfolding said_once_def call_shift by blast
    then have "said_once up evs ended k"
      using True r unfolding said_once_def by (intro exI [of _ "evs0 @ quiet"] exI [of _ last]) auto
    then show ?thesis using q r by simp
  next
    case False
    then have "evs = evs0" "ended = e0" "k = 1" using Suc.prems(2) c by (auto split: option.splits if_splits)
    then show ?thesis using c by (auto simp: said_once_def intro!: exI [of _ "[]"])
  qed
qed simp

declare stream_events.simps [simp del]

lemma disabled_uses_no_prefix: "\<not> use_prefix_cache (disable_prefix_cache sess)"
  by (cases sess) (simp_all add: use_prefix_cache_def disable_prefix_cache_def)

lemma edge_answered_directly:
  assumes "stream_events (1 + retries) (up (use_prefix_cache sess)) = (evs0, ended0, k)"
    and "\<not> (\<exists>e. ended0 = Some e \<and> is_api_or_stream_error e \<and> use_prefix_cache sess \<and> is_prefix_cache_failure e \<and> evs0 = [])"
    and "edge_stream_events retries up sess = (evs, ended, sess', calls)"
  shows "evs = evs0 \<and> ended = ended0 \<and> calls = replicate k (use_prefix_cache sess) \<and>
    (\<forall>s s'. sess = Some s \<and> sess' = Some s' \<and> s_prefix_cache_disabled s \<longrightarrow> s_prefix_cache_disabled s')"
proof (cases ended0)
  case None
  then have "(evs, ended, sess', calls) = (evs0, None, warmed sess, replicate k (use_prefix_cache sess))"
    using assms(3) unfolding edge_stream_events_def Let_def assms(1) by simp
  then show ?thesis using None by (auto simp: warmed_def)
next
  case (Some e)
  show ?thesis
  proof (cases "is_api_or_stream_error e \<and> use_prefix_cache sess \<and> is_prefix_cache_failure e")
    case True
    then have "evs0 \<noteq> []" using assms(2) Some by blast
    then have "(evs, ended, sess', calls) = (evs0, Some e, disable_prefix_cache sess, replicate k (use_prefix_cache sess))"
      using assms(1,3) True by (simp add: edge_stream_events_def Let_def Some)
    then show ?thesis using Some by (auto simp: disable_prefix_cache_def)
  next
    case False
    then have "(evs, ended, sess', calls) = (evs0, Some e, sess, replicate k (use_prefix_cache sess))"
      using assms(3) unfolding edge_stream_events_def Let_def assms(1) Some by auto
    then show ?thesis using Some by auto
  qed
qed

lemma edge_fell_back:
  assumes "stream_events (1 + retries) (up (use_prefix_cache sess)) = ([], Some e, k)"
    and "is_api_or_stream_error e \<and> use_prefix_cache sess \<and> is_prefix_cache_failure e"
    and "stream_events 1 (\<lambda>i. up False (k + i)) = (evs1, ended1, k1)"
    and "edge_stream_events retries up sess = (evs, ended, sess', calls)"
  shows "evs = evs1 \<and> ended = ended1 \<and> calls = replicate k (use_prefix_cache sess) @ replicate k1 False \<and>
    (\<forall>s s'. sess = Some s \<and> sess' = Some s' \<and> s_prefix_cache_disabled s \<longrightarrow> s_prefix_cache_disabled s')"
proof -
  have "edge_stream_events retries up sess =
    (evs1, ended1, if ended1 = None then warmed (disable_prefix_cache sess) else disable_prefix_cache sess,
     replicate k (use_prefix_cache sess) @ replicate k1 False)"
    using assms(1-3) by (simp add: edge_stream_events_def Let_def disabled_uses_no_prefix)
  then show ?thesis using assms(4) by (auto simp: disable_prefix_cache_def warmed_def split: if_splits)
qed

section \<open>Properties\<close>

text \<open>
  C36: a turn is streamed once. Whatever the upstream does, the text and tool calls the caller
  receives are those of a single upstream call (calls that failed before it contributed no
  payload); at most \<open>retries + 2\<close> calls are made; the calls that ask for the prefix cache, if the
  session may use it, come first and those without it after them (a retry after a server error
  asks for it again); and the disabling latch is only ever set.
\<close>

theorem edge_stream_says_once:
  assumes "edge_stream_events retries up sess = (evs, ended, sess', calls)"
  shows "(\<exists>used. \<exists>j < length calls. \<exists>quiet last. evs = quiet @ last \<and> \<not> list_ex has_event_payload quiet \<and>
       call_upstream (up used) j = (last, ended) \<and> used = calls ! j \<and> j = length calls - 1) \<and>
     length calls \<le> retries + 2 \<and>
     (\<exists>a b. calls = replicate a (use_prefix_cache sess) @ replicate b False) \<and>
     (\<forall>s s'. sess = Some s \<and> sess' = Some s' \<and> s_prefix_cache_disabled s \<longrightarrow> s_prefix_cache_disabled s')"
proof -
  define used where "used = use_prefix_cache sess"
  obtain evs0 ended0 k where r: "stream_events (1 + retries) (up used) = (evs0, ended0, k)" by (metis prod_cases3)
  note one = stream_events_spec [OF _ r]
  have k: "0 < k" "k \<le> 1 + retries" using one by (auto simp: said_once_def)
  show ?thesis
  proof (cases "\<exists>e. ended0 = Some e \<and> is_api_or_stream_error e \<and> used \<and> is_prefix_cache_failure e \<and> evs0 = []")
    case False
    have eq: "evs = evs0 \<and> ended = ended0 \<and> calls = replicate k used \<and>
      (\<forall>s s'. sess = Some s \<and> sess' = Some s' \<and> s_prefix_cache_disabled s \<longrightarrow> s_prefix_cache_disabled s')"
      by (rule edge_answered_directly [of retries up sess, folded used_def, OF r False assms])
    then have "\<exists>a b. calls = replicate a used @ replicate b False" by (intro exI [of _ k] exI [of _ 0]) simp
    moreover have "\<exists>j < length calls. \<exists>quiet last. evs = quiet @ last \<and> \<not> list_ex has_event_payload quiet \<and>
       call_upstream (up used) j = (last, ended) \<and> used = calls ! j \<and> j = length calls - 1"
      using one k eq by (intro exI [of _ "k - 1"]) (auto simp: said_once_def)
    moreover have "length calls \<le> retries + 2" using eq k by simp
    ultimately show ?thesis using eq unfolding used_def [symmetric] by blast
  next
    case True
    then obtain e where r': "stream_events (1 + retries) (up used) = ([], Some e, k)"
      and e: "is_api_or_stream_error e \<and> used \<and> is_prefix_cache_failure e" using r by blast
    obtain evs1 ended1 k1 where r1: "stream_events 1 (\<lambda>i. up False (k + i)) = (evs1, ended1, k1)" by (metis prod_cases3)
    have eq: "evs = evs1 \<and> ended = ended1 \<and> calls = replicate k used @ replicate k1 False \<and>
      (\<forall>s s'. sess = Some s \<and> sess' = Some s' \<and> s_prefix_cache_disabled s \<longrightarrow> s_prefix_cache_disabled s')"
      by (rule edge_fell_back [of retries up sess, folded used_def, OF r' e r1 assms])
    have s: "said_once (\<lambda>i. up False (k + i)) evs1 ended1 k1" "k1 \<le> 1" using stream_events_spec [OF _ r1] by auto
    then have "k1 = 1" by (auto simp: said_once_def)
    then have "\<exists>quiet last. evs = quiet @ last \<and> \<not> list_ex has_event_payload quiet \<and> call_upstream (up False) k = (last, ended)"
      using s(1) eq by (auto simp: said_once_def call_upstream_def)
    moreover have "calls ! k = False" "length calls = k + 1" using eq \<open>k1 = 1\<close> by (simp_all add: nth_append)
    ultimately have "\<exists>j < length calls. \<exists>quiet last. evs = quiet @ last \<and> \<not> list_ex has_event_payload quiet \<and>
       call_upstream (up False) j = (last, ended) \<and> False = calls ! j \<and> j = length calls - 1"
      by (intro exI [of _ k]) auto
    moreover have "length calls \<le> retries + 2" using \<open>length calls = k + 1\<close> k by simp
    ultimately show ?thesis using eq unfolding used_def [symmetric] by blast
  qed
qed

definition flaky :: "bool \<Rightarrow> upstream" where
  "flaky used k = (if used then ([], Some (ApiStatusError 400 ''kv cache miss''))
     else ([\<lparr>ck_choice = True, ck_content = u ''hi'', ck_calls = [], ck_finish = Some ''stop''\<rparr>], None))"

theorem edge_stream_says_once_witness:
  "let (evs, ended, sess', calls) = edge_stream_events 1 flaky (Some ((new_session None)\<lparr>s_prefix_cache_warmed := True\<rparr>))
   in length calls \<le> 3 \<and> calls = [True, False] \<and> evs = [TextEvent (u ''hi''), FinishEvent (Some ''stop'')]"
proof -
  let ?s = "Some ((new_session None)\<lparr>s_prefix_cache_warmed := True\<rparr>)"
  obtain evs ended sess' calls where r: "edge_stream_events 1 flaky ?s = (evs, ended, sess', calls)" by (metis prod_cases4)
  have "length calls \<le> 3" using edge_stream_says_once [OF r] by simp
  moreover have "fst (edge_stream_events 1 flaky ?s) = [TextEvent (u ''hi''), FinishEvent (Some ''stop'')] \<and>
      snd (snd (snd (edge_stream_events 1 flaky ?s))) = [True, False]"
    by code_simp
  ultimately show ?thesis using r by simp
qed

end
