(* ===== verification/Mode_Manager.thy ===== *)
theory Mode_Manager
  imports Tool_Runner Llm_Availability
begin

text \<open>
  Modes of the agent: \<open>agent/openvoicestream_agent/app_mode.py\<close> (the dialogue turn, the
  resolution of per-mode settings, the mode manager), the four built-in modes of \<open>modes/\<close>,
  \<open>translator/lang_map.py\<close>, and the dispatch of an utterance in \<open>agent/apps/multi_mode/app.py\<close>.
  A turn is given the services as parameters (the LLM, JSON, the tool registry, the
  translator, the token counter) and yields the new session and the commands given to the
  speech server. \<open>switch\<close> is cut where it awaits a hook of a mode.
\<close>

section \<open>Settings of a mode\<close>

text \<open>An override is a dict whose keys may be missing, or present with \<open>None\<close>.\<close>

record mode_override =
  ov_system_prompt :: "ustr option option"
  ov_tools_enabled :: "bool option option"
  ov_tools_allowlist :: "string list option option"

datatype mode_kind = ChatMode | InterpreterMode | MonologueMode | TranscribeMode

record app_mode =
  md_name :: string
  md_kind :: mode_kind
  md_system_prompt :: "ustr option"
  md_tools_enabled :: "bool option"
  md_tools_allowlist :: "string list option"
  md_produces_tts :: bool

record mode_config =
  cf_system_prompt :: ustr
  cf_tools_enabled :: bool
  cf_tools_default_allowlist :: "string list"
  cf_tools_max_iterations :: nat
  cf_mode_overrides :: "(string \<times> mode_override) list"
  cf_translator_backend :: string
  cf_translator_src :: "string option"
  cf_translator_tgt :: "string option"

definition override_of :: "mode_config \<Rightarrow> app_mode option \<Rightarrow> mode_override option" where
  "override_of cf cur =
     (case cur of None \<Rightarrow> None | Some m \<Rightarrow> if md_name m = [] then None else map_of (cf_mode_overrides cf) (md_name m))"

definition resolve_system_prompt :: "mode_config \<Rightarrow> app_mode option \<Rightarrow> ustr option \<Rightarrow> ustr" where
  "resolve_system_prompt cf cur given =
     (case given of Some p \<Rightarrow> p
      | None \<Rightarrow>
         (case Option.bind (override_of cf cur) ov_system_prompt of
            Some (Some p) \<Rightarrow> p
          | _ \<Rightarrow> (case Option.bind cur md_system_prompt of Some p \<Rightarrow> p | None \<Rightarrow> cf_system_prompt cf)))"

text \<open>\<open>_resolve_mode_value\<close>: unlike the prompt, a key present with \<open>None\<close> hides the value of the class.\<close>

definition resolve_mode_value ::
  "(mode_override \<Rightarrow> 'a option option) \<Rightarrow> (app_mode \<Rightarrow> 'a option) \<Rightarrow> mode_config \<Rightarrow> app_mode option \<Rightarrow> 'a option" where
  "resolve_mode_value key attr cf cur =
     (case Option.bind (override_of cf cur) key of Some v \<Rightarrow> v | None \<Rightarrow> Option.bind cur attr)"

definition tools_on :: "mode_config \<Rightarrow> app_mode option \<Rightarrow> bool" where
  "tools_on cf cur =
     (case resolve_mode_value ov_tools_enabled md_tools_enabled cf cur of None \<Rightarrow> cf_tools_enabled cf | Some b \<Rightarrow> b)"

definition allowed_tools :: "mode_config \<Rightarrow> app_mode option \<Rightarrow> string list option" where
  "allowed_tools cf cur =
     (let raw = (case resolve_mode_value ov_tools_allowlist md_tools_allowlist cf cur of
                   None \<Rightarrow> cf_tools_default_allowlist cf | Some l \<Rightarrow> l)
      in if \<not> tools_on cf cur then Some [] else if raw \<noteq> [] then Some raw else None)"

section \<open>The dialogue turn\<close>

datatype server_command = SendText ustr | FlushTts | AbortTts | StopPlayback

text \<open>
  The services of a turn. \<open>sv_link i\<close> tells whether handing the i-th text of the turn to the
  client succeeds where the code tolerates a failure. A token counts as handed over once it is
  noted, before it is sent; when sending it raises, the stream ends there, which is a failure
  of the \<open>llm\<close> parameter after that token.
\<close>

record services =
  sv_llm :: llm
  sv_json :: json
  sv_registry :: registry
  sv_tokens :: "message \<Rightarrow> nat"
  sv_link :: "nat \<Rightarrow> bool"
  sv_translate :: "(ustr \<Rightarrow> string \<Rightarrow> string \<Rightarrow> ustr option) option"

definition text_of :: "(nat \<Rightarrow> bool) \<Rightarrow> bool \<Rightarrow> nat \<times> runner_effect \<Rightarrow> ustr option" where
  "text_of link tools ie =
     (case snd ie of
        AssistantToken t \<Rightarrow> Some t
      | Preamble t \<Rightarrow> if tools \<and> t \<noteq> [] \<and> link (fst ie) then Some t else None
      | CompletionText t \<Rightarrow> if tools \<and> t \<noteq> [] \<and> link (fst ie) then Some t else None
      | _ \<Rightarrow> None)"

definition texts_sent :: "(nat \<Rightarrow> bool) \<Rightarrow> bool \<Rightarrow> runner_effect list \<Rightarrow> ustr list" where
  "texts_sent link tools es = List.map_filter (text_of link tools) (enumerate 0 es)"

datatype turn_outcome = Skipped | Unavailable | Ran run_result

text \<open>The runner returns the empty string when the iteration cap is reached, so for the turn that is
  a completion like any other: what was handed over is flushed.\<close>

definition run_default_dialogue_turn ::
  "services \<Rightarrow> mode_config \<Rightarrow> app_mode option \<Rightarrow> availability option \<Rightarrow> ustr \<Rightarrow> ustr option \<Rightarrow> session
    \<Rightarrow> turn_outcome \<times> session \<times> server_command list" where
  "run_default_dialogue_turn sv cf cur avail text given s =
     (if ustrip text = [] then (Skipped, s, [])
      else if avail = Some DOWN \<or> avail = Some UNKNOWN then (Unavailable, s, [])
      else
       (let (msgs, s1) = messages (sv_tokens sv) (resolve_system_prompt cf cur given) (add_user text s);
            (r, t) = stream_with_tools (sv_llm sv) (sv_json sv) (sv_registry sv) (allowed_tools cf cur)
                       (cf_tools_max_iterations cf) \<lparr>tn_session = s1, tn_messages = msgs, tn_effects = [], tn_llm_calls = 0\<rparr>;
            sent = texts_sent (sv_link sv) (tools_on cf cur) (tn_effects t)
        in (Ran r, tn_session t,
            map SendText sent @
            (case r of
               Final _ \<Rightarrow> [FlushTts]
             | CapReached \<Rightarrow> [FlushTts]
             | _ \<Rightarrow> if sent \<noteq> [] then [AbortTts, StopPlayback] else []))))"

definition speak :: "ustr \<Rightarrow> server_command list" where
  "speak text = (if ustrip text = [] then [] else [SendText text, FlushTts])"

section \<open>Languages\<close>

definition asr_name_to_flores :: "(string \<times> string) list" where
  "asr_name_to_flores =
     [(''Chinese'', ''zho_Hans''), (''Cantonese'', ''yue_Hant''), (''English'', ''eng_Latn''), (''Japanese'', ''jpn_Jpan''),
      (''Korean'', ''kor_Hang''), (''French'', ''fra_Latn''), (''German'', ''deu_Latn''), (''Spanish'', ''spa_Latn''),
      (''Italian'', ''ita_Latn''), (''Portuguese'', ''por_Latn''), (''Russian'', ''rus_Cyrl'')]"

definition flores_display_names :: "(string \<times> ustr) list" where
  "flores_display_names =
     [(''zho_Hans'', [20013, 25991, 32, 40, 31616, 20307, 41]), (''yue_Hant'', [31908, 35486, 32, 40, 32321, 39636, 41]),
      (''eng_Latn'', u ''English''), (''jpn_Jpan'', [26085, 26412, 35486]), (''kor_Hang'', [54620, 44397, 50612]),
      (''fra_Latn'', u ''Fran'' @ [231] @ u ''ais''), (''deu_Latn'', u ''Deutsch''), (''spa_Latn'', u ''Espa'' @ [241] @ u ''ol''),
      (''ita_Latn'', u ''Italiano''), (''por_Latn'', u ''Portugu'' @ [234] @ u ''s''),
      (''rus_Cyrl'', [1056, 1091, 1089, 1089, 1082, 1080, 1081])]"

definition asr_lang_to_flores :: "string option \<Rightarrow> string option" where
  "asr_lang_to_flores name =
     (case name of None \<Rightarrow> None
      | Some n \<Rightarrow> if n = [] \<or> n = ''None'' then None else map_of asr_name_to_flores n)"

section \<open>The built-in modes\<close>

definition builtin_modes :: "app_mode list" where
  "builtin_modes =
     [\<lparr>md_name = ''chat'', md_kind = ChatMode, md_system_prompt = None, md_tools_enabled = None, md_tools_allowlist = None, md_produces_tts = True\<rparr>,
      \<lparr>md_name = ''interpreter'', md_kind = InterpreterMode,
       md_system_prompt = Some (u ''You are a real-time interpreter. Translate the user's input into natural spoken English. Output ONLY the translation, no preface or explanation.''),
       md_tools_enabled = None, md_tools_allowlist = None, md_produces_tts = True\<rparr>,
      \<lparr>md_name = ''monologue'', md_kind = MonologueMode, md_system_prompt = None, md_tools_enabled = None, md_tools_allowlist = None, md_produces_tts = True\<rparr>,
      \<lparr>md_name = ''transcribe'', md_kind = TranscribeMode, md_system_prompt = None, md_tools_enabled = None, md_tools_allowlist = None, md_produces_tts = False\<rparr>]"

text \<open>Where the interpreter translates from and to, if it asks the translator at all.\<close>

definition translation_pair :: "services \<Rightarrow> mode_config \<Rightarrow> string option \<Rightarrow> (string \<times> string) option" where
  "translation_pair sv cf detected =
     (let given = (case asr_lang_to_flores detected of Some c \<Rightarrow> Some c | None \<Rightarrow> cf_translator_src cf)
      in if cf_translator_backend cf = ''noop'' \<or> sv_translate sv = None then None
         else (case (given, cf_translator_tgt cf) of
                 (Some src, Some tgt) \<Rightarrow> if src = [] \<or> tgt = [] \<or> src = tgt then None else Some (src, tgt)
               | _ \<Rightarrow> None))"

definition interpret_utterance ::
  "services \<Rightarrow> mode_config \<Rightarrow> app_mode option \<Rightarrow> availability option \<Rightarrow> string option \<Rightarrow> ustr \<Rightarrow> session
    \<Rightarrow> turn_outcome \<times> session \<times> server_command list" where
  "interpret_utterance sv cf cur avail detected text s =
     (let s1 = s\<lparr>s_history := []\<rparr>;
          by_llm = run_default_dialogue_turn sv cf cur avail text None s1
      in case (translation_pair sv cf detected, sv_translate sv) of
           (Some (src, tgt), Some translate) \<Rightarrow>
             (case translate text src tgt of
                None \<Rightarrow> by_llm
              | Some translated \<Rightarrow> if ustrip translated = [] then by_llm else (Skipped, s1, speak translated))
         | _ \<Rightarrow> by_llm)"

text \<open>
  \<open>MultiModeApp.on_user_utterance\<close>: what the active mode makes of an utterance, and whether
  the state machine is put back to idle because no speech will follow.
\<close>

definition on_user_utterance ::
  "services \<Rightarrow> mode_config \<Rightarrow> app_mode \<Rightarrow> availability option \<Rightarrow> string option \<Rightarrow> ustr \<Rightarrow> session
    \<Rightarrow> turn_outcome \<times> session \<times> server_command list \<times> bool" where
  "on_user_utterance sv cf m avail detected text s =
     (case md_kind m of
        MonologueMode \<Rightarrow> (Skipped, s, [], True)
      | _ \<Rightarrow>
         (let (out, s1, cmds) =
                (case md_kind m of
                   ChatMode \<Rightarrow> run_default_dialogue_turn sv cf (Some m) avail text None s
                 | InterpreterMode \<Rightarrow> interpret_utterance sv cf (Some m) avail detected text s
                 | _ \<Rightarrow> (Skipped, s, []));
              raised = (case out of Skipped \<Rightarrow> False | Unavailable \<Rightarrow> True | Ran (Failed _) \<Rightarrow> True | Ran _ \<Rightarrow> False)
          in (out, s1, cmds, \<not> raised \<and> \<not> md_produces_tts m)))"

section \<open>The mode manager\<close>

datatype mode_hook = Entered string | Exited string | ModeChange "string option" string | Registered string

datatype switch_cont = AfterExit "app_mode" "app_mode" | AfterEnter "app_mode option" "app_mode"

record mode_manager =
  mm_modes :: "(string \<times> app_mode) list"
  mm_current :: "app_mode option"
  mm_started :: bool
  mm_pending :: "switch_cont list"
  mm_hooks :: "mode_hook list"

definition new_mode_manager :: mode_manager where
  "new_mode_manager = \<lparr>mm_modes = [], mm_current = None, mm_started = False, mm_pending = [], mm_hooks = []\<rparr>"

datatype mode_error = ValueError string | KeyError string | NoModes

definition hook :: "mode_hook \<Rightarrow> mode_manager \<Rightarrow> mode_manager" where
  "hook h s = s\<lparr>mm_hooks := mm_hooks s @ [h]\<rparr>"

definition register_mode :: "app_mode \<Rightarrow> mode_manager \<Rightarrow> (mode_error + unit) \<times> mode_manager" where
  "register_mode m s =
     (if md_name m = [] \<or> md_name m = ''unnamed'' then (Inl (ValueError (md_name m)), s)
      else if md_name m \<in> set (map fst (mm_modes s)) then (Inl (ValueError (md_name m)), s)
      else (let s1 = s\<lparr>mm_modes := mm_modes s @ [(md_name m, m)]\<rparr>
            in (Inr (), if mm_started s then hook (Registered (md_name m)) s1 else s1)))"

definition switch_enter :: "app_mode option \<Rightarrow> app_mode \<Rightarrow> mode_manager \<Rightarrow> mode_manager" where
  "switch_enter prev next_mode s =
     (let s1 = hook (Entered (md_name next_mode)) (s\<lparr>mm_current := Some next_mode\<rparr>)
      in s1\<lparr>mm_pending := mm_pending s1 @ [AfterEnter prev next_mode]\<rparr>)"

text \<open>\<open>switch\<close> up to its first await; the hooks of the modes may fail without effect on it.\<close>

definition switch_begin :: "string \<Rightarrow> mode_manager \<Rightarrow> (mode_error + unit) \<times> mode_manager" where
  "switch_begin name s =
     (case map_of (mm_modes s) name of
        None \<Rightarrow> (Inl (KeyError name), s)
      | Some next_mode \<Rightarrow>
         (case mm_current s of
            None \<Rightarrow> (Inr (), switch_enter None next_mode s)
          | Some prev \<Rightarrow>
              if md_name prev = name then (Inr (), s)
              else (let s1 = hook (Exited (md_name prev)) s
                    in (Inr (), s1\<lparr>mm_pending := mm_pending s1 @ [AfterExit prev next_mode]\<rparr>))))"

definition switch_resume :: "nat \<Rightarrow> mode_manager \<Rightarrow> mode_manager" where
  "switch_resume i s =
     (if i < length (mm_pending s)
      then (let s1 = s\<lparr>mm_pending := drop_nth i (mm_pending s)\<rparr> in
        case mm_pending s ! i of
          AfterExit prev next_mode \<Rightarrow> switch_enter (Some prev) next_mode s1
        | AfterEnter prev next_mode \<Rightarrow> hook (ModeChange (map_option md_name prev) (md_name next_mode)) s1)
      else s)"

definition switch :: "string \<Rightarrow> mode_manager \<Rightarrow> (mode_error + unit) \<times> mode_manager" where
  "switch name s =
     (case switch_begin name s of
        (Inl e, s1) \<Rightarrow> (Inl e, s1)
      | (Inr _, s1) \<Rightarrow> (let s2 = switch_resume (length (mm_pending s)) s1 in (Inr (), switch_resume (length (mm_pending s)) s2)))"

definition start_modes :: "string \<Rightarrow> mode_manager \<Rightarrow> (mode_error + unit) \<times> mode_manager" where
  "start_modes wanted s =
     (if mm_modes s = [] then (Inl NoModes, s)
      else (let name = (if wanted \<in> set (map fst (mm_modes s)) then wanted else fst (hd (mm_modes s)))
            in case switch name s of (Inl e, s1) \<Rightarrow> (Inl e, s1) | (Inr _, s1) \<Rightarrow> (Inr (), s1\<lparr>mm_started := True\<rparr>)))"

text \<open>The operations as steps, each run to its end.\<close>

datatype mode_op = RegisterMode app_mode | SwitchMode string | StartModes string

fun mode_step :: "mode_op \<Rightarrow> mode_manager \<Rightarrow> mode_manager" where
  "mode_step (RegisterMode m) s = snd (register_mode m s)"
| "mode_step (SwitchMode name) s = snd (switch name s)"
| "mode_step (StartModes name) s = snd (start_modes name s)"

section \<open>What a turn leaves to the speech server\<close>

text \<open>Whoever answers an utterance hands over texts and ends by one flush or one abort, or says
  nothing at all.\<close>

definition closed_turn :: "server_command list \<Rightarrow> bool" where
  "closed_turn cs = (cs = [] \<or> (\<exists>texts. cs = map SendText texts @ [FlushTts] \<or> cs = map SendText texts @ [AbortTts, StopPlayback]))"

fun run_turns :: "('i \<Rightarrow> 's \<Rightarrow> 's \<times> server_command list) \<Rightarrow> 'i list \<Rightarrow> 's \<Rightarrow> server_command list list" where
  "run_turns turn [] s = []"
| "run_turns turn (i # is) s = (let (s1, cs) = turn i s in cs # run_turns turn is s1)"

text \<open>The contract of whoever answers an utterance.\<close>

locale replier =
  fixes turn :: "'i \<Rightarrow> 's \<Rightarrow> 's \<times> server_command list"
  assumes turn_closed: "closed_turn (snd (turn i s))"
begin

lemma run_closed: "\<forall>cs\<in>set (run_turns turn is s). closed_turn cs"
proof (induction "is" arbitrary: s)
  case (Cons i "is")
  then show ?case using turn_closed [of i s] by (cases "turn i s") auto
qed simp

end

lemma dialogue_turn_closed: "closed_turn (snd (snd (run_default_dialogue_turn sv cf cur avail text given s)))"
proof -
  have "closed_turn (map SendText sent @ (case r of Final ans \<Rightarrow> [FlushTts] | CapReached \<Rightarrow> [FlushTts]
      | _ \<Rightarrow> if sent \<noteq> [] then [AbortTts, StopPlayback] else []))"
    for sent and r :: run_result
    by (cases r) (auto simp: closed_turn_def)
  then show ?thesis by (auto simp: run_default_dialogue_turn_def Let_def closed_turn_def [of "[]"] split: prod.splits)
qed

lemma speak_closed: "closed_turn (speak text)"
  by (auto simp: speak_def closed_turn_def intro: exI [of _ "[text]"])

lemma interpreter_closed: "closed_turn (snd (snd (interpret_utterance sv cf cur avail detected text s)))"
  using dialogue_turn_closed speak_closed by (auto simp: interpret_utterance_def Let_def split: option.split prod.split)

definition utterance_turn :: "mode_config \<Rightarrow> services \<times> app_mode \<times> availability option \<times> string option \<times> ustr \<Rightarrow> session
    \<Rightarrow> session \<times> server_command list" where
  "utterance_turn cf i s = (let (sv, m, avail, detected, text) = i; (out, s1, cmds, idle) = on_user_utterance sv cf m avail detected text s
     in (s1, cmds))"

lemma utterance_closed: "closed_turn (snd (utterance_turn cf i s))"
proof -
  obtain sv m avail detected utt where i: "i = (sv, m, avail, detected, utt)" by (metis prod_cases5)
  have [simp]: "closed_turn []" by (simp add: closed_turn_def)
  show ?thesis
    using dialogue_turn_closed [of sv cf "Some m" avail utt None s] interpreter_closed [of sv cf "Some m" avail detected utt s]
    by (cases "md_kind m") (auto simp: utterance_turn_def i on_user_utterance_def Let_def split: prod.split)
qed

interpretation modes: replier "utterance_turn cf" for cf
  by unfold_locales (rule utterance_closed)

section \<open>The history after a turn\<close>

lemma messages_history: "s_history (snd (messages tokens p s)) = s_history s"
  by (auto simp: messages_def trim_to_budget_def trim_fallback_def Let_def split: option.splits prod.splits)

lemma unanswered_turn_restores_history:
  assumes "stream_with_tools llm js reg allowed n t = (r, t')" and "\<forall>ans. r \<noteq> Final ans"
  shows "s_history (tn_session t') = s_history (tn_session t)"
proof -
  obtain r1 t1 where run: "run_rounds llm js reg (list_openai_tools allowed reg) n t = (r1, t1)" by fastforce
  then have "r1 = r" "tn_session t' = snd (rollback_to (int (length (s_history (tn_session t)))) (tn_session t1))"
    using assms by (auto simp: stream_with_tools_def undo_def Let_def split: run_result.splits)
  then show ?thesis using run_rounds_spec [OF run] assms(2)
    by (cases r) (auto simp: rounds_left_def grows_by_def rollback_spec)
qed

section \<open>The manager with completed switches\<close>

text \<open>The modes that were entered and not exited since, in order.\<close>

fun open_modes :: "mode_hook list \<Rightarrow> string list \<Rightarrow> string list" where
  "open_modes [] es = es"
| "open_modes (Entered n # hs) es = open_modes hs (es @ [n])"
| "open_modes (Exited n # hs) es = open_modes hs (remove1 n es)"
| "open_modes (_ # hs) es = open_modes hs es"

lemma open_modes_append [simp]: "open_modes (hs @ hs') es = open_modes hs' (open_modes hs es)"
  by (induction hs es rule: open_modes.induct) simp_all

definition manager_ok :: "mode_manager \<Rightarrow> bool" where
  "manager_ok s =
     (distinct (map fst (mm_modes s)) \<and> (\<forall>(n, m)\<in>set (mm_modes s). md_name m = n \<and> n \<noteq> []) \<and>
      (case mm_current s of None \<Rightarrow> True | Some m \<Rightarrow> (md_name m, m) \<in> set (mm_modes s)))"

definition one_open :: "mode_manager \<Rightarrow> bool" where
  "one_open s =
     (mm_pending s = [] \<and> open_modes (mm_hooks s) [] = (case mm_current s of None \<Rightarrow> [] | Some m \<Rightarrow> [md_name m]))"

lemma switch_done:
  assumes "mm_pending s = []" "map_of (mm_modes s) name = Some m"
  shows "snd (switch name s) =
    (case mm_current s of
       None \<Rightarrow> s\<lparr>mm_current := Some m, mm_hooks := mm_hooks s @ [Entered (md_name m), ModeChange None (md_name m)]\<rparr>
     | Some prev \<Rightarrow> if md_name prev = name then s
         else s\<lparr>mm_current := Some m, mm_hooks := mm_hooks s @ [Exited (md_name prev), Entered (md_name m), ModeChange (Some (md_name prev)) (md_name m)]\<rparr>)"
  using assms by (cases s) (auto simp: switch_def switch_begin_def switch_enter_def switch_resume_def hook_def drop_nth_def Let_def split: option.split)

lemma switch_unknown: "map_of (mm_modes s) name = None \<Longrightarrow> switch name s = (Inl (KeyError name), s)"
  by (simp add: switch_def switch_begin_def)

lemma switch_keeps:
  assumes "manager_ok s" "one_open s"
  shows "manager_ok (snd (switch name s)) \<and> one_open (snd (switch name s))"
proof (cases "map_of (mm_modes s) name")
  case None
  then show ?thesis using assms by (simp add: switch_unknown)
next
  case (Some m)
  then have "(name, m) \<in> set (mm_modes s)" by (rule map_of_SomeD)
  moreover from this have "md_name m = name" using assms(1) by (auto simp: manager_ok_def)
  ultimately show ?thesis using assms switch_done [OF _ Some]
    by (auto simp: manager_ok_def one_open_def split: option.splits)
qed

lemma started_keeps: "manager_ok s \<and> one_open s \<Longrightarrow> manager_ok (s\<lparr>mm_started := b\<rparr>) \<and> one_open (s\<lparr>mm_started := b\<rparr>)"
  by (simp add: manager_ok_def one_open_def split: option.splits)

lemma register_keeps: "manager_ok s \<and> one_open s \<Longrightarrow> manager_ok (snd (register_mode m s)) \<and> one_open (snd (register_mode m s))"
  by (auto simp: register_mode_def manager_ok_def one_open_def hook_def Let_def split: option.splits)

lemma start_keeps: "manager_ok s \<and> one_open s \<Longrightarrow> manager_ok (snd (start_modes wanted s)) \<and> one_open (snd (start_modes wanted s))"
  using switch_keeps [of s] started_keeps by (auto simp: start_modes_def Let_def split: prod.splits sum.splits) (metis snd_conv)+

interpretation mode_ops: step_system mode_step "\<lambda>s. manager_ok s \<and> one_open s"
proof
  fix s :: mode_manager and e
  assume "manager_ok s \<and> one_open s"
  then show "manager_ok (mode_step e s) \<and> one_open (mode_step e s)"
    using register_keeps switch_keeps start_keeps by (cases e) auto
qed

definition stub_services :: services where
  "stub_services = \<lparr>sv_llm = (\<lambda>k tools msgs. ([TextEvent (u ''hi''), FinishEvent (Some ''stop'')], StreamEnded)), sv_json = sample_js,
     sv_registry = [], sv_tokens = (\<lambda>m. 1), sv_link = (\<lambda>i. True), sv_translate = Some (\<lambda>t src tgt. Some (u ''bonjour''))\<rparr>"

definition stub_config :: mode_config where
  "stub_config = \<lparr>cf_system_prompt = u ''sys'', cf_tools_enabled = False, cf_tools_default_allowlist = [], cf_tools_max_iterations = 3,
     cf_mode_overrides = [], cf_translator_backend = ''nllb'', cf_translator_src = Some ''zho_Hans'', cf_translator_tgt = Some ''fra_Latn''\<rparr>"

lemmas turns_run = stub_services_def stub_config_def run_default_dialogue_turn_def messages_def texts_sent_def text_of_def
  resolve_system_prompt_def resolve_mode_value_def tools_on_def allowed_tools_def override_of_def tools_run

section \<open>Properties\<close>

text \<open>
  C24: what a dialogue turn does. A blank utterance, or an LLM known to be down or unreachable,
  leaves session and speech server alone. A turn that ends in an answer hands its texts to the
  server and flushes exactly once, last; so does one that reaches the iteration cap, but of that
  one the history keeps the user's words only. A turn that fails or is cancelled keeps the
  user's words only, too, and aborts and stops playback exactly when some text had been handed
  over.
\<close>

theorem dialogue_turn_effects:
  assumes "run_default_dialogue_turn sv cf cur avail utt given s = (out, s', cmds)"
  shows "case out of
      Ran (Final ans) \<Rightarrow> (\<exists>sent. cmds = map SendText sent @ [FlushTts])
    | Ran CapReached \<Rightarrow> s_history s' = s_history s @ [text_message User utt] \<and> (\<exists>sent. cmds = map SendText sent @ [FlushTts])
    | Ran (Failed e) \<Rightarrow> s_history s' = s_history s @ [text_message User utt] \<and>
        (\<exists>sent. cmds = map SendText sent @ (if sent = [] then [] else [AbortTts, StopPlayback]))
    | _ \<Rightarrow> s' = s \<and> cmds = [] \<and> (ustrip utt = [] \<or> avail \<in> {Some DOWN, Some UNKNOWN})"
proof (cases "ustrip utt = [] \<or> avail = Some DOWN \<or> avail = Some UNKNOWN")
  case True
  then show ?thesis using assms by (auto simp: run_default_dialogue_turn_def split: if_splits)
next
  case False
  obtain msgs s1 where m: "messages (sv_tokens sv) (resolve_system_prompt cf cur given) (add_user utt s) = (msgs, s1)" by fastforce
  obtain r t where run: "stream_with_tools (sv_llm sv) (sv_json sv) (sv_registry sv) (allowed_tools cf cur)
     (cf_tools_max_iterations cf) \<lparr>tn_session = s1, tn_messages = msgs, tn_effects = [], tn_llm_calls = 0\<rparr> = (r, t)" by fastforce
  define sent where "sent = texts_sent (sv_link sv) (tools_on cf cur) (tn_effects t)"
  have eq: "out = Ran r" "s' = tn_session t"
    "cmds = map SendText sent @ (case r of Final _ \<Rightarrow> [FlushTts] | CapReached \<Rightarrow> [FlushTts]
       | _ \<Rightarrow> if sent \<noteq> [] then [AbortTts, StopPlayback] else [])"
    using assms False by (auto simp: run_default_dialogue_turn_def m run Let_def sent_def)
  have h1: "s_history s1 = s_history s @ [text_message User utt]"
    using messages_history [of "sv_tokens sv" "resolve_system_prompt cf cur given" "add_user utt s"] m by (simp add: add_user_def)
  have h: "s_history s' = s_history s @ [text_message User utt]" if "\<forall>ans. r \<noteq> Final ans"
    using unanswered_turn_restores_history [OF run that] h1 eq(2) by simp
  show ?thesis using h eq(1,3) by (cases r) auto
qed

theorem dialogue_turn_effects_witness:
  "let (out, s', cmds) = run_default_dialogue_turn stub_services stub_config None (Some HEALTHY) (u ''q'') None (new_session None)
   in out = Ran (Final (u ''hi'')) \<and> (\<exists>sent. cmds = map SendText sent @ [FlushTts])"
proof -
  obtain out s' cmds where r: "run_default_dialogue_turn stub_services stub_config None (Some HEALTHY) (u ''q'') None (new_session None) = (out, s', cmds)"
    by (metis prod_cases3)
  have "fst (run_default_dialogue_turn stub_services stub_config None (Some HEALTHY) (u ''q'') None (new_session None)) = Ran (Final (u ''hi''))"
    by code_simp
  then have "out = Ran (Final (u ''hi''))" using r by simp
  then show ?thesis using dialogue_turn_effects [OF r] r by simp
qed

text \<open>
  However the LLM, the tools, the translator and the link behave, and whatever modes answer, no
  turn of a conversation ends with texts handed over that are neither flushed nor aborted.
\<close>

theorem every_reply_is_closed: "\<forall>cs \<in> set (run_turns (utterance_turn cf) utts s). closed_turn cs"
  by (rule modes.run_closed)

text \<open>
  C35: one mode is open. After any sequence of registrations, starts and switches, failed ones
  included, each of them run to its end before the next begins
  (\<open>overlapping_switches_leave_a_mode_open\<close>), the active mode is a registered one under its own
  name, names are unique, and the modes entered and not exited since are exactly the active one.
\<close>

theorem one_mode_is_open:
  assumes "s = fold mode_step ops new_mode_manager"
  shows "open_modes (mm_hooks s) [] = (case mm_current s of None \<Rightarrow> [] | Some m \<Rightarrow> [md_name m]) \<and>
    (\<forall>m. mm_current s = Some m \<longrightarrow> map_of (mm_modes s) (md_name m) = Some m) \<and> distinct (map fst (mm_modes s))"
proof -
  have "manager_ok new_mode_manager \<and> one_open new_mode_manager" by (simp add: manager_ok_def one_open_def new_mode_manager_def)
  then have "manager_ok s \<and> one_open s" unfolding assms by (rule mode_ops.run_inv)
  then show ?thesis by (auto simp: manager_ok_def one_open_def)
qed

definition builtin_start :: "mode_op list" where
  "builtin_start = map RegisterMode builtin_modes @ [StartModes ''chat'', SwitchMode ''nowhere'', SwitchMode ''interpreter'']"

theorem one_mode_is_open_witness:
  "open_modes (mm_hooks (fold mode_step builtin_start new_mode_manager)) [] = [''interpreter'']"
proof -
  have "map_option md_name (mm_current (fold mode_step builtin_start new_mode_manager)) = Some ''interpreter''"
    by code_simp
  then show ?thesis using one_mode_is_open [OF refl, of builtin_start] by auto
qed

text \<open>Every language the recogniser reports maps to a target the dashboard offers, and conversely.\<close>

lemma languages_in_lockstep: "set (map snd asr_name_to_flores) = set (map fst flores_display_names)"
  by (simp add: asr_name_to_flores_def flores_display_names_def)

section \<open>Overlapping switches\<close>

text \<open>
  \<open>switch\<close> holds no lock: two switches that overlap while the old mode's \<open>exit\<close> runs both enter
  their mode, and the one overwritten is never exited. Here leaving the monologue for chat and
  for the transcription overlap: the transcription stays entered while chat is the active mode.
\<close>

lemma overlapping_switches_leave_a_mode_open:
  "let s0 = fold mode_step (map RegisterMode builtin_modes @ [StartModes ''monologue'']) new_mode_manager;
       s1 = snd (switch_begin ''transcribe'' (snd (switch_begin ''chat'' s0)));
       s2 = switch_resume 0 (switch_resume 0 (switch_resume 0 (switch_resume 1 s1)))
   in mm_pending s2 = [] \<and> map_option md_name (mm_current s2) = Some ''chat'' \<and> open_modes (mm_hooks s2) [] = [''transcribe'', ''chat'']"
  by code_simp

end
