(* ===== verification/V2v_Session.thy ===== *)
theory V2v_Session
  imports Asr_Session Session_Limiter Slv_Client Tts_Text
begin

text \<open>
  The voice service's WebSocket endpoint \<open>/v2v/stream\<close> (\<open>app/main.py\<close>, \<open>v2v_stream\<close>): the
  admission and configuration of a connection, its three tasks (the dispatcher of client
  messages, the ASR output task, the TTS output task) and its teardown. The tasks share one
  dict without a lock; each is cut at its awaits, and what remains of it is its program
  counter. The ASR manager, the text buffers and the limiter are those of \<open>Asr_Session\<close>,
  \<open>Tts_Text\<close> and \<open>Session_Limiter\<close>; the verdict of the VAD on a chunk, the answers of the
  backends, the clock, the socket and what fails are given with each step. The coordinator
  is left out: every interleaving it would exclude is allowed here.
\<close>

section \<open>Frames\<close>

datatype v2v_error = AsrUnavailable | TurnDeadline | NoChunks | SynthFailed ustr | SentenceDeadline | ServerCrashed

datatype server_frame =
    VadEventFrame bool
  | PartialFrame ustr bool
  | EndpointFrame
  | FinalFrame ustr "(bool \<times> bool option) option" "ustr option"
  | StartedFrame ustr
  | SentenceDoneFrame ustr
  | TtsDoneFrame "bool option"
  | ErrorFrame v2v_error
  | RateFrame nat
  | AudioFrame "byte list"

definition error_text :: "v2v_error \<Rightarrow> ustr" where
  "error_text e =
     (case e of AsrUnavailable \<Rightarrow> u ''asr_unavailable'' | TurnDeadline \<Rightarrow> u ''asr: per-turn deadline exceeded''
      | NoChunks \<Rightarrow> u ''tts: synth produced no chunks'' | SynthFailed m \<Rightarrow> u ''tts: '' @ m
      | SentenceDeadline \<Rightarrow> u ''tts: per-sentence deadline exceeded'' | ServerCrashed \<Rightarrow> u ''server error'')"

definition typed :: "string \<Rightarrow> obj \<Rightarrow> ws_message" where
  "typed ty fs = Text (Obj ((''type'', JStr (u ty)) # fs))"

definition bool_opt :: "string \<Rightarrow> bool option \<Rightarrow> obj" where
  "bool_opt k b = (case b of None \<Rightarrow> [] | Some b \<Rightarrow> [(k, JBool b)])"

text \<open>A frame on the wire; only rates of 32 bits are ever framed.\<close>

definition wire :: "server_frame \<Rightarrow> ws_message" where
  "wire f =
     (case f of
        VadEventFrame started \<Rightarrow> typed server_vad_event [(''event'', JStr (u (if started then ''speech_start'' else ''speech_end'')))]
      | PartialFrame t fixed \<Rightarrow> typed server_asr_partial [(''text'', JStr t), (''is_stable'', JBool fixed)]
      | EndpointFrame \<Rightarrow> typed server_asr_endpoint []
      | FinalFrame t session lang \<Rightarrow>
          typed server_asr_final
            ((''text'', JStr t) #
             (case session of None \<Rightarrow> [] | Some (complete, dup) \<Rightarrow>
                (''session_complete'', JBool complete) # bool_opt ''duplicate_of_streamed'' dup) @
             (case lang of None \<Rightarrow> [] | Some l \<Rightarrow> [(''language'', JStr l)]))
      | StartedFrame t \<Rightarrow> typed server_tts_started [(''sentence'', JStr t)]
      | SentenceDoneFrame t \<Rightarrow> typed server_tts_sentence_done [(''sentence'', JStr t)]
      | TtsDoneFrame c \<Rightarrow> typed server_tts_done (bool_opt ''session_complete'' c)
      | ErrorFrame e \<Rightarrow> typed server_error [(''error'', JStr (error_text e))]
      | RateFrame n \<Rightarrow> Binary (the (pack_u32 n))
      | AudioFrame bs \<Rightarrow> Binary bs)"

section \<open>State\<close>

record v2v_config =
  vc_multi :: bool
  vc_asr :: bool
  vc_vad :: bool
  vc_tts :: bool
  vc_restart :: bool
  vc_turn_timeout :: int

datatype tts_buffer = LowLatency low_latency | Sentences sentence_buffer

fun buffer_add :: "tts_buffer \<Rightarrow> ustr \<Rightarrow> ustr list \<times> tts_buffer" where
  "buffer_add (LowLatency b) t = map_prod id LowLatency (low_latency_add b t)"
| "buffer_add (Sentences b) t = map_prod id Sentences (sentence_add b t)"

fun buffer_flush :: "tts_buffer \<Rightarrow> ustr list \<times> tts_buffer" where
  "buffer_flush (LowLatency b) = map_prod id LowLatency (low_latency_flush b)"
| "buffer_flush (Sentences b) = map_prod id Sentences (sentence_flush b)"

datatype endpoint_reason = EndVad | EndEos

text \<open>Where the dispatcher waits: for a message; to start an utterance (by VAD or not) whose
  audio follows; to report that it could not; to hand over audio; for the backend to take it; for a cancel; or it is
  over, by its own end or by an exception nobody looks at.\<close>

datatype dispatcher_pc = DReady | DStart bool | DRefused bool | DHand bool | DTaking bool nat | DAbort | DOver | DDead

datatype asr_pc =
    ATop | ACancelling | APartial manager | AEndpoint bool | AFinalize "endpoint_reason option"
  | AFinalizing nat nat "nat option" | AExit | AOver

text \<open>The TTS task: at its loop; in a sentence before the rate header, after writing it, before
  the announcement, streaming, before the closing frame; over.\<close>

datatype tts_pc = TTop | TSentence ustr | THeader ustr | TAnnounce ustr | TSynth ustr | TClosing ustr | TOver

text \<open>\<open>v_torn\<close> is no field of the code: it records that a sentence was cancelled between writing
  the rate header and noting that it was sent.\<close>

record v2v =
  v_mgr :: manager
  v_session_closed :: bool
  v_endpoint :: "endpoint_reason option"
  v_endpoint_gen :: "nat option"
  v_flush :: bool
  v_client_closed :: bool
  v_active :: bool
  v_active_gen :: nat
  v_turn_started :: "int option"
  v_last_streamed :: "ustr option"
  v_buffer :: "tts_buffer option"
  v_tts_q :: "ustr list"
  v_header_sent :: bool
  v_dispatcher :: dispatcher_pc
  v_asr :: asr_pc
  v_tts :: tts_pc
  v_failed :: bool
  v_link :: bool
  v_frames :: "server_frame list"
  v_limiter :: limiter
  v_token :: nat
  v_over :: bool
  v_torn :: bool

definition new_v2v :: "v2v_config \<Rightarrow> tts_buffer option \<Rightarrow> limiter \<Rightarrow> nat \<Rightarrow> v2v" where
  "new_v2v cf buf lim tok =
     \<lparr>v_mgr = new_manager, v_session_closed = False, v_endpoint = None, v_endpoint_gen = None, v_flush = False,
      v_client_closed = False, v_active = False, v_active_gen = 0, v_turn_started = None, v_last_streamed = None,
      v_buffer = (if vc_tts cf then buf else None), v_tts_q = [], v_header_sent = False, v_dispatcher = DReady,
      v_asr = (if vc_asr cf then ATop else AOver), v_tts = (if vc_tts cf then TTop else TOver), v_failed = False, v_link = True,
      v_frames = [], v_limiter = lim, v_token = tok, v_over = False, v_torn = False\<rparr>"

text \<open>\<open>send_json\<close> and \<open>send_bytes\<close>: a failure marks the client as gone, and a socket that failed
  once takes nothing more.\<close>

definition send :: "bool \<Rightarrow> server_frame \<Rightarrow> v2v \<Rightarrow> v2v" where
  "send ok f s =
     (if v_link s \<and> ok then s\<lparr>v_frames := v_frames s @ [f]\<rparr> else s\<lparr>v_link := False, v_client_closed := True\<rparr>)"

definition clear_endpoint :: "v2v \<Rightarrow> v2v" where
  "clear_endpoint s = s\<lparr>v_endpoint := None, v_endpoint_gen := None\<rparr>"

text \<open>Cancelling the sentence in flight; the task's handler brings it back to its loop.\<close>

definition in_sentence :: "tts_pc \<Rightarrow> bool" where
  "in_sentence pc = (case pc of TTop \<Rightarrow> False | TOver \<Rightarrow> False | _ \<Rightarrow> True)"

definition writing_header :: "tts_pc \<Rightarrow> bool" where
  "writing_header pc = (case pc of THeader _ \<Rightarrow> True | _ \<Rightarrow> False)"

lemma writing_header [simp]: "writing_header pc \<longleftrightarrow> (\<exists>t. pc = THeader t)"
  by (cases pc) (simp_all add: writing_header_def)

definition cancel_sentence :: "v2v \<Rightarrow> v2v" where
  "cancel_sentence s =
     (if in_sentence (v_tts s)
      then s\<lparr>v_tts := TTop, v_torn := (v_torn s \<or> writing_header (v_tts s))\<rparr> else s)"

text \<open>What a step is given: whether the socket takes a frame, the clock, the client's message
  (none: it disconnected), the VAD's verdict, how a cancel ends (none: it jams, before or
  after it took the stream), the outcomes of the backend calls, and what the synthesiser
  yields next.\<close>

datatype vad_verdict = NoChange | SpeechStarts | SpeechEnds

datatype synth_item = Chunk "byte list" | SynthError ustr | SynthEnd | Silence

record world =
  w_ok :: bool
  w_now :: int
  w_msg :: "ws_message option"
  w_verdict :: vad_verdict
  w_cancel :: "cancel_outcome option"
  w_jam_late :: bool
  w_create :: create_oracle
  w_accept :: "exc option"
  w_partial :: "nat \<Rightarrow> exc + (ustr \<times> bool)"
  w_final :: "exc + (ustr \<times> string option)"
  w_rate :: nat
  w_item :: synth_item
  w_backend_ok :: bool

section \<open>The dispatcher\<close>

definition client_text :: string where "client_text = ''text''"
definition client_asr_eos :: string where "client_asr_eos = ''asr_eos''"
definition client_tts_flush :: string where "client_tts_flush = ''tts_flush''"
definition client_abort :: string where "client_abort = ''abort''"
definition client_config :: string where "client_config = ''config''"

definition dispatcher_top :: "v2v \<Rightarrow> v2v" where
  "dispatcher_top s = s\<lparr>v_dispatcher := (if v_client_closed s then DOver else DReady)\<rparr>"

definition set_endpoint :: "v2v_config \<Rightarrow> endpoint_reason \<Rightarrow> v2v \<Rightarrow> v2v" where
  "set_endpoint cf r s =
     s\<lparr>v_endpoint := Some r, v_endpoint_gen := Some (v_active_gen s), v_session_closed := (v_session_closed s \<or> \<not> vc_multi cf)\<rparr>"

definition chunk_done :: "v2v_config \<Rightarrow> bool \<Rightarrow> bool \<Rightarrow> v2v \<Rightarrow> v2v" where
  "chunk_done cf ok ended s =
     dispatcher_top (if ended then send ok (VadEventFrame False) (set_endpoint cf EndVad s) else s)"

definition hand_over :: "v2v_config \<Rightarrow> bool \<Rightarrow> bool \<Rightarrow> v2v \<Rightarrow> v2v" where
  "hand_over cf ok ended s = (if v_active s then s\<lparr>v_dispatcher := DHand ended\<rparr> else chunk_done cf ok ended s)"

definition on_audio :: "v2v_config \<Rightarrow> world \<Rightarrow> byte list \<Rightarrow> v2v \<Rightarrow> v2v" where
  "on_audio cf w data s =
     (if data = [] \<or> \<not> vc_asr cf \<or> v_session_closed s then dispatcher_top s
      else if odd (length data) then s\<lparr>v_dispatcher := DDead\<rparr>
      else if vc_vad cf
      then (case w_verdict w of
              SpeechStarts \<Rightarrow> (send (w_ok w) (VadEventFrame True) s)\<lparr>v_dispatcher := DStart True\<rparr>
            | SpeechEnds \<Rightarrow> hand_over cf (w_ok w) True s
            | NoChange \<Rightarrow> hand_over cf (w_ok w) False s)
      else if \<not> v_active s then s\<lparr>v_dispatcher := DStart False\<rparr>
      else hand_over cf (w_ok w) False s)"

text \<open>\<open>payload.get("text", "")\<close> given to the buffer, which takes falsy values for nothing and
  raises on others that are no string.\<close>

definition text_arg :: "obj \<Rightarrow> ustr option" where
  "text_arg o' =
     (case map_of o' ''text'' of None \<Rightarrow> Some [] | Some JNull \<Rightarrow> Some [] | Some (JBool b) \<Rightarrow> if b then None else Some []
      | Some (JStr t) \<Rightarrow> Some t)"

definition on_control :: "v2v_config \<Rightarrow> obj \<Rightarrow> v2v \<Rightarrow> v2v" where
  "on_control cf payload s =
     (if has_type payload client_text \<and> v_buffer s \<noteq> None
      then (case text_arg payload of
              None \<Rightarrow> s\<lparr>v_dispatcher := DDead\<rparr>
            | Some t \<Rightarrow>
                (let (parts, b) = buffer_add (the (v_buffer s)) t
                 in dispatcher_top (s\<lparr>v_buffer := Some b, v_tts_q := v_tts_q s @ parts\<rparr>)))
      else if has_type payload client_tts_flush
      then dispatcher_top
        (case v_buffer s of
           None \<Rightarrow> s\<lparr>v_flush := True\<rparr>
         | Some b \<Rightarrow> (let (parts, b1) = buffer_flush b
                      in s\<lparr>v_buffer := Some b1, v_tts_q := v_tts_q s @ parts, v_flush := True\<rparr>))
      else if has_type payload client_asr_eos then dispatcher_top (set_endpoint cf EndEos s)
      else if has_type payload client_abort
      then (let s1 = (cancel_sentence s)\<lparr>v_tts_q := []\<rparr>
            in if vc_asr cf \<and> v_active s1 then s1\<lparr>v_dispatcher := DAbort\<rparr> else dispatcher_top s1)
      else dispatcher_top s)"

text \<open>The client is gone: the work tasks are cancelled so that the slot is given back soon.\<close>

definition on_disconnect :: "v2v \<Rightarrow> v2v" where
  "on_disconnect s = s\<lparr>v_client_closed := True, v_link := False, v_dispatcher := DOver, v_asr := AOver, v_tts := TOver\<rparr>"

definition receive :: "v2v_config \<Rightarrow> world \<Rightarrow> v2v \<Rightarrow> v2v" where
  "receive cf w s =
     (if v_dispatcher s \<noteq> DReady then s
      else case w_msg w of
             None \<Rightarrow> on_disconnect s
           | Some (Binary data) \<Rightarrow> on_audio cf w data s
           | Some (Text BadJsonText) \<Rightarrow> dispatcher_top s
           | Some (Text NonObject) \<Rightarrow> s\<lparr>v_dispatcher := DDead\<rparr>
           | Some (Text (Obj payload)) \<Rightarrow> on_control cf payload s)"

text \<open>An utterance starts: a VAD onset first stops the sentence being spoken.\<close>

definition start_utterance :: "v2v_config \<Rightarrow> world \<Rightarrow> bool \<Rightarrow> v2v \<Rightarrow> v2v" where
  "start_utterance cf w by_vad s =
     (let s1 = (if by_vad then cancel_sentence s else s) in
      case on_speech_start (vc_restart cf) (case w_cancel w of None \<Rightarrow> TimedOut | Some out \<Rightarrow> out) (w_create w) (v_mgr s1) of
        (None, m) \<Rightarrow> (send (w_ok w) (ErrorFrame AsrUnavailable) (s1\<lparr>v_mgr := m\<rparr>))\<lparr>v_dispatcher := DRefused by_vad\<rparr>
      | (Some g, m) \<Rightarrow>
          (clear_endpoint (s1\<lparr>v_mgr := m\<rparr>))
            \<lparr>v_active := True, v_active_gen := g, v_turn_started := Some (w_now w), v_dispatcher := DHand False\<rparr>)"

definition cancel_asr :: "v2v_config \<Rightarrow> world \<Rightarrow> manager \<Rightarrow> manager" where
  "cancel_asr cf w m =
     (case w_cancel w of
        Some out \<Rightarrow> cancel (vc_restart cf) out m
      | None \<Rightarrow> maybe_restart_worker (vc_restart cf)
          (if w_jam_late w \<and> m_state m \<noteq> IDLE \<and> m_stream m \<noteq> None then m\<lparr>m_state := CANCELLING, m_stream := None\<rparr> else m))"

definition dispatch_run :: "v2v_config \<Rightarrow> world \<Rightarrow> v2v \<Rightarrow> v2v" where
  "dispatch_run cf w s =
     (case v_dispatcher s of
        DStart by_vad \<Rightarrow> start_utterance cf w by_vad s
      | DRefused by_vad \<Rightarrow>
          dispatcher_top (if by_vad then clear_endpoint (s\<lparr>v_active := False\<rparr>) else s\<lparr>v_active := False\<rparr>)
      | DHand ended \<Rightarrow>
          (case accept_begin (vc_restart cf) (w_create w) (v_mgr s) of
             (None, m) \<Rightarrow> chunk_done cf (w_ok w) ended (s\<lparr>v_mgr := m\<rparr>)
           | (Some st, m) \<Rightarrow> s\<lparr>v_mgr := m, v_dispatcher := DTaking ended st\<rparr>)
      | DTaking ended st \<Rightarrow>
          chunk_done cf (w_ok w) ended (s\<lparr>v_mgr := accept_end (vc_restart cf) (w_accept w) (w_create w) (v_mgr s)\<rparr>)
      | DAbort \<Rightarrow>
          dispatcher_top (s\<lparr>v_mgr := cancel (vc_restart cf) (case w_cancel w of None \<Rightarrow> TimedOut | Some out \<Rightarrow> out) (v_mgr s),
                            v_active := False, v_turn_started := None\<rparr>)
      | _ \<Rightarrow> s)"

section \<open>The ASR output task\<close>

definition asr_top :: "v2v_config \<Rightarrow> world \<Rightarrow> v2v \<Rightarrow> v2v" where
  "asr_top cf w s =
     (if v_client_closed s then s\<lparr>v_asr := AOver\<rparr>
      else if v_active s \<and> (case v_turn_started s of None \<Rightarrow> False | Some t0 \<Rightarrow> w_now w - t0 > vc_turn_timeout cf)
      then s\<lparr>v_asr := ACancelling\<rparr>
      else if v_active s then s\<lparr>v_asr := APartial (v_mgr s)\<rparr>
      else s\<lparr>v_asr := AEndpoint False\<rparr>)"

text \<open>The turn's deadline has passed: cancel, forget the turn, tell the client.\<close>

definition turn_timeout :: "v2v_config \<Rightarrow> world \<Rightarrow> v2v \<Rightarrow> v2v" where
  "turn_timeout cf w s =
     (let s1 = clear_endpoint (s\<lparr>v_mgr := cancel_asr cf w (v_mgr s), v_active := False, v_turn_started := None\<rparr>);
          s2 = send (w_ok w) (ErrorFrame TurnDeadline) s1
      in s2\<lparr>v_asr := (if vc_multi cf \<and> \<not> v_session_closed s2 then ATop else AOver)\<rparr>)"

definition on_partial :: "world \<Rightarrow> manager \<Rightarrow> v2v \<Rightarrow> v2v" where
  "on_partial w snapshot s =
     (let (g, partial, is_endpoint) = get_partial_for_generation (w_partial w) snapshot;
          s1 = (if partial \<noteq> [] \<and> g = m_generation (v_mgr s) \<and> g = v_active_gen s
                then send (w_ok w) (PartialFrame partial is_endpoint) s else s)
      in s1\<lparr>v_asr := AEndpoint is_endpoint\<rparr>)"

text \<open>The endpoint latch, read after dropping one that was stamped with a generation since replaced.\<close>

definition drop_stale_endpoint :: "v2v \<Rightarrow> v2v" where
  "drop_stale_endpoint s =
     (if v_endpoint s \<noteq> None \<and> v_endpoint_gen s \<noteq> None \<and> v_endpoint_gen s \<noteq> Some (v_active_gen s)
      then clear_endpoint s else s)"

definition check_endpoint :: "world \<Rightarrow> bool \<Rightarrow> v2v \<Rightarrow> v2v" where
  "check_endpoint w is_endpoint s =
     (let s1 = drop_stale_endpoint s; r = v_endpoint s1 in
      if r \<noteq> None \<or> is_endpoint \<and> v_active s1
      then (let s2 = clear_endpoint s1;
                s3 = (if r \<noteq> Some EndEos then send (w_ok w) EndpointFrame s2 else s2)
            in s3\<lparr>v_asr := AFinalize r\<rparr>)
      else s1\<lparr>v_asr := AExit\<rparr>)"

definition emit_final :: "v2v_config \<Rightarrow> world \<Rightarrow> ustr \<Rightarrow> string option \<Rightarrow> v2v \<Rightarrow> v2v" where
  "emit_final cf w final_text detected s =
     (let lang = (case detected of None \<Rightarrow> None | Some l \<Rightarrow> if l = [] then None else Some (u l)) in
      if \<not> vc_multi cf then (send (w_ok w) (FinalFrame final_text None lang) s)\<lparr>v_asr := AOver\<rparr>
      else if v_session_closed s
      then (send (w_ok w) (FinalFrame final_text
              (Some (True, Some (final_text = (case v_last_streamed s of None \<Rightarrow> [] | Some t \<Rightarrow> t)))) lang) s)\<lparr>v_asr := AOver\<rparr>
      else (send (w_ok w) (FinalFrame final_text (Some (False, None)) lang) s)\<lparr>v_last_streamed := Some final_text, v_asr := AExit\<rparr>)"

definition begin_finalize :: "v2v_config \<Rightarrow> world \<Rightarrow> v2v \<Rightarrow> v2v" where
  "begin_finalize cf w s =
     (if v_active s
      then (case finalize_begin (v_mgr s) of
              (Inl g, m) \<Rightarrow> s\<lparr>v_mgr := m, v_asr := ATop\<rparr>
            | (Inr (g, st), m) \<Rightarrow> s\<lparr>v_mgr := m, v_asr := AFinalizing (v_active_gen s) g st\<rparr>)
      else emit_final cf w [] None s)"

definition end_finalize :: "v2v_config \<Rightarrow> world \<Rightarrow> nat \<Rightarrow> nat \<Rightarrow> nat option \<Rightarrow> v2v \<Rightarrow> v2v" where
  "end_finalize cf w finalize_gen g st s =
     (let (res, m) = finalize_end (vc_restart cf) g st (w_final w) (w_create w) (v_mgr s);
          s1 = s\<lparr>v_mgr := m\<rparr>;
          s2 = (if f_accepted res \<and> v_active_gen s1 = finalize_gen then s1\<lparr>v_active := False, v_turn_started := None\<rparr> else s1)
      in if \<not> f_accepted res then s2\<lparr>v_asr := ATop\<rparr> else emit_final cf w (f_text res) (f_language res) s2)"

definition asr_run :: "v2v_config \<Rightarrow> world \<Rightarrow> v2v \<Rightarrow> v2v" where
  "asr_run cf w s =
     (case v_asr s of
        ATop \<Rightarrow> asr_top cf w s
      | ACancelling \<Rightarrow> turn_timeout cf w s
      | APartial snapshot \<Rightarrow> on_partial w snapshot s
      | AEndpoint is_endpoint \<Rightarrow> check_endpoint w is_endpoint s
      | AFinalize r \<Rightarrow> begin_finalize cf w s
      | AFinalizing finalize_gen g st \<Rightarrow> end_finalize cf w finalize_gen g st s
      | AExit \<Rightarrow> s\<lparr>v_asr := (if v_session_closed s \<and> \<not> v_active s then AOver else ATop)\<rparr>
      | AOver \<Rightarrow> s)"

section \<open>The TTS output task\<close>

definition tts_top :: "v2v_config \<Rightarrow> world \<Rightarrow> v2v \<Rightarrow> v2v" where
  "tts_top cf w s =
     (if v_client_closed s then s\<lparr>v_tts := TOver\<rparr>
      else if v_flush s \<and> v_tts_q s = []
      then (if vc_multi cf \<and> \<not> v_session_closed s
            then send (w_ok w) (TtsDoneFrame (Some False)) (s\<lparr>v_flush := False\<rparr>)
            else (send (w_ok w) (TtsDoneFrame (if vc_multi cf then Some True else None)) s)\<lparr>v_tts := TOver\<rparr>)
      else (case v_tts_q s of [] \<Rightarrow> s | t # ts \<Rightarrow> s\<lparr>v_tts_q := ts, v_tts := TSentence t\<rparr>))"

text \<open>The backend is acquired; the rate header goes out before the first sentence. A backend
  that cannot be acquired, or a rate that does not fit its field, raises through the task.\<close>

definition open_sentence :: "world \<Rightarrow> ustr \<Rightarrow> v2v \<Rightarrow> v2v" where
  "open_sentence w t s =
     (if \<not> w_backend_ok w then s\<lparr>v_tts := TOver, v_failed := True\<rparr>
      else if v_header_sent s then s\<lparr>v_tts := TAnnounce t\<rparr>
      else (case pack_u32 (w_rate w) of
              None \<Rightarrow> s\<lparr>v_tts := TOver, v_failed := True\<rparr>
            | Some _ \<Rightarrow> (send (w_ok w) (RateFrame (w_rate w)) s)\<lparr>v_tts := THeader t\<rparr>))"

definition take_item :: "world \<Rightarrow> ustr \<Rightarrow> v2v \<Rightarrow> v2v" where
  "take_item w t s =
     (case w_item w of
        Chunk bs \<Rightarrow> send (w_ok w) (AudioFrame bs) s
      | SynthError m \<Rightarrow> (send (w_ok w) (ErrorFrame (SynthFailed m)) s)\<lparr>v_tts := TClosing t\<rparr>
      | SynthEnd \<Rightarrow> s\<lparr>v_tts := TClosing t\<rparr>
      | Silence \<Rightarrow> (send (w_ok w) (ErrorFrame NoChunks) s)\<lparr>v_tts := TClosing t\<rparr>)"

definition tts_run :: "v2v_config \<Rightarrow> world \<Rightarrow> v2v \<Rightarrow> v2v" where
  "tts_run cf w s =
     (case v_tts s of
        TTop \<Rightarrow> tts_top cf w s
      | TSentence t \<Rightarrow> open_sentence w t s
      | THeader t \<Rightarrow> s\<lparr>v_header_sent := True, v_tts := TAnnounce t\<rparr>
      | TAnnounce t \<Rightarrow> (send (w_ok w) (StartedFrame t) s)\<lparr>v_tts := TSynth t\<rparr>
      | TSynth t \<Rightarrow> take_item w t s
      | TClosing t \<Rightarrow> (send (w_ok w) (SentenceDoneFrame t) s)\<lparr>v_tts := TTop\<rparr>
      | TOver \<Rightarrow> s)"

text \<open>The deadline of a whole sentence.\<close>

definition sentence_deadline :: "world \<Rightarrow> v2v \<Rightarrow> v2v" where
  "sentence_deadline w s =
     (if in_sentence (v_tts s)
      then (let s1 = cancel_sentence s in if v_client_closed s1 then s1 else send (w_ok w) (ErrorFrame SentenceDeadline) s1)
      else s)"

section \<open>The end of the connection\<close>

definition teardown :: "v2v_config \<Rightarrow> world \<Rightarrow> v2v \<Rightarrow> v2v" where
  "teardown cf w s =
     s\<lparr>v_dispatcher := DOver, v_asr := AOver, v_tts := TOver,
       v_mgr := (if vc_asr cf then cancel (vc_restart cf) (case w_cancel w of None \<Rightarrow> TimedOut | Some out \<Rightarrow> out) (v_mgr s) else v_mgr s),
       v_limiter := release True (v_token s) (v_limiter s), v_link := False, v_over := True\<rparr>"

text \<open>The work tasks are over, or one of them raised.\<close>

definition finish :: "v2v_config \<Rightarrow> world \<Rightarrow> v2v \<Rightarrow> v2v" where
  "finish cf w s =
     (if v_failed s then teardown cf w (send (w_ok w) (ErrorFrame ServerCrashed) s)
      else if v_asr s = AOver \<and> v_tts s = TOver then teardown cf w s
      else s)"

text \<open>Beside the connection's own tasks, other connections take and give back their slots.\<close>

datatype v2v_task = Receives | DispatcherRuns | AsrRuns | TtsRuns | DeadlineHits | Finishes | HandlerCancelled | Others limiter_event

definition others_step :: "limiter_event \<Rightarrow> v2v \<Rightarrow> v2v" where
  "others_step e s =
     (case e of
        Release ok t \<Rightarrow> if t = v_token s then s else s\<lparr>v_limiter := release ok t (v_limiter s)\<rparr>
      | Acquire ok \<Rightarrow> s\<lparr>v_limiter := snd (try_acquire ok (v_limiter s))\<rparr>)"

definition v2v_step :: "v2v_config \<Rightarrow> v2v_task \<times> world \<Rightarrow> v2v \<Rightarrow> v2v" where
  "v2v_step cf e s =
     (let (task, w) = e in
      case task of
        Others le \<Rightarrow> others_step le s
      | _ \<Rightarrow>
        if v_over s then s
        else case task of
             Receives \<Rightarrow> receive cf w s
           | DispatcherRuns \<Rightarrow> dispatch_run cf w s
           | AsrRuns \<Rightarrow> asr_run cf w s
           | TtsRuns \<Rightarrow> tts_run cf w s
           | DeadlineHits \<Rightarrow> sentence_deadline w s
           | Finishes \<Rightarrow> finish cf w s
           | HandlerCancelled \<Rightarrow> teardown cf w s
           | Others le \<Rightarrow> s)"

section \<open>Opening a connection\<close>

definition tts_lang_alias :: "(string \<times> string) list" where
  "tts_lang_alias =
     [(''zh'', ''chinese''), (''zh-cn'', ''chinese''), (''zh-hans'', ''chinese''), (''en'', ''english''), (''en-us'', ''english''),
      (''en-gb'', ''english''), (''ja'', ''japanese''), (''jp'', ''japanese''), (''ko'', ''korean''), (''kr'', ''korean'')]"

definition tts_language_norm :: "string option \<Rightarrow> string option" where
  "tts_language_norm lang =
     (case lang of None \<Rightarrow> None
      | Some l \<Rightarrow> if l = ''auto'' then None else if l = [] then Some []
                  else (let key = py_lower (sstrip l) in Some (case map_of tts_lang_alias key of None \<Rightarrow> key | Some x \<Rightarrow> x)))"

definition low_latency_on :: "string option \<Rightarrow> bool" where
  "low_latency_on env = (py_lower (case env of None \<Rightarrow> ''1'' | Some v \<Rightarrow> v) \<notin> {''0'', ''false'', ''no'', ''off''})"

text \<open>\<open>None\<close>: a threshold in the environment is no number.\<close>

definition make_buffer ::
  "(string \<rightharpoonup> string) \<Rightarrow> (string \<Rightarrow> (ustr \<Rightarrow> ustr list) option) option \<Rightarrow> string option \<Rightarrow> tts_buffer option" where
  "make_buffer environ pysbd lang =
     (if low_latency_on (environ ''OVS_TTS_LOW_LATENCY_CHUNKING'')
      then map_option LowLatency (new_low_latency environ lang None None None)
      else Some (Sentences (new_sentence_buffer pysbd lang 2 200)))"

text \<open>A language tag as a string; what is not ASCII matches no known tag.\<close>

definition ascii_str :: "ustr \<Rightarrow> string" where
  "ascii_str t = map (\<lambda>c. if c < 128 then char_of c else CHR ''?'') t"

definition truthy_field :: "obj \<Rightarrow> string \<Rightarrow> bool" where
  "truthy_field cfg k = (case map_of cfg k of None \<Rightarrow> False | Some JNull \<Rightarrow> False | Some (JBool b) \<Rightarrow> b | Some (JStr t) \<Rightarrow> t \<noteq> [])"

datatype first_frame = FirstDisconnect | FirstEmpty | FirstText json_text

datatype vad_init = VadOff | VadReady | VadBadConfig | VadFailed

text \<open>What opening a connection meets: whether the k-th frame or close goes through, whether the
  numbers of the configuration are numbers, which backends are ready, how the VAD starts.\<close>

record opening_env =
  ow_ok :: "nat \<Rightarrow> bool"
  ow_numbers_ok :: bool
  ow_asr_ready :: bool
  ow_tts_ready :: bool
  ow_vad :: vad_init
  ow_restart :: bool
  ow_turn_timeout :: int
  ow_environ :: "string \<rightharpoonup> string"
  ow_pysbd :: "(string \<Rightarrow> (ustr \<Rightarrow> ustr list) option) option"

datatype open_outcome = Gone | Refused int | OpenRaised | Running v2v_config "tts_buffer option"

text \<open>Leaving early: \<open>_v2v_release_early\<close> and the way out. A frame or a close that raises leaves
  through the outer handler, which releases too.\<close>

definition leave_open :: "nat \<Rightarrow> open_outcome \<Rightarrow> limiter \<Rightarrow> open_outcome \<times> limiter" where
  "leave_open tok out lim = (out, release True tok lim)"

definition refuse :: "opening_env \<Rightarrow> nat list \<Rightarrow> int \<Rightarrow> nat \<Rightarrow> limiter \<Rightarrow> open_outcome \<times> limiter" where
  "refuse ow sends code tok lim = leave_open tok (if list_all (ow_ok ow) sends then Refused code else OpenRaised) lim"

definition v2v_configure :: "opening_env \<Rightarrow> obj \<Rightarrow> nat \<Rightarrow> limiter \<Rightarrow> open_outcome \<times> limiter" where
  "v2v_configure ow cfg tok lim =
     (if \<not> has_type cfg client_config then refuse ow [0, 1] 1003 tok lim
      else if map_of cfg ''tts_language'' = Some (JBool True) then leave_open tok OpenRaised lim
      else if \<not> ow_numbers_ok ow then refuse ow [] 1003 tok lim
      else
       (let asr = truthy_field cfg ''asr_language''; tts = truthy_field cfg ''tts_language'';
            lang = tts_language_norm (map_option ascii_str (opt_field cfg ''tts_language'')) in
        if \<not> asr \<and> \<not> tts then refuse ow [0, 1] 1003 tok lim
        else if asr \<and> \<not> ow_asr_ready ow then refuse ow [0] 1011 tok lim
        else if asr \<and> ow_vad ow = VadBadConfig then refuse ow [0, 1] 1003 tok lim
        else if tts \<and> \<not> ow_tts_ready ow then refuse ow [0] 1011 tok lim
        else
         (case (if tts then map_option Some (make_buffer (ow_environ ow) (ow_pysbd ow) lang) else Some None) of
            None \<Rightarrow> leave_open tok OpenRaised lim
          | Some buf \<Rightarrow>
              (Running \<lparr>vc_multi = truthy_field cfg ''multi_utterance'', vc_asr = asr, vc_vad = (asr \<and> ow_vad ow = VadReady),
                        vc_tts = tts, vc_restart = ow_restart ow, vc_turn_timeout = ow_turn_timeout ow\<rparr> buf, lim))))"

definition v2v_open :: "opening_env \<Rightarrow> first_frame \<Rightarrow> nat \<Rightarrow> limiter \<Rightarrow> open_outcome \<times> limiter" where
  "v2v_open ow first tok lim =
     (case first of
        FirstDisconnect \<Rightarrow> leave_open tok Gone lim
      | FirstEmpty \<Rightarrow> refuse ow [0] 1003 tok lim
      | FirstText BadJsonText \<Rightarrow> refuse ow [0] 1003 tok lim
      | FirstText NonObject \<Rightarrow> leave_open tok OpenRaised lim
      | FirstText (Obj cfg) \<Rightarrow> v2v_configure ow cfg tok lim)"

section \<open>The protocol, abstractly\<close>

text \<open>
  What a client may rely on (\<open>docs/api/v2v-stream.md\<close>), as an automaton over the frames: the
  final transcript of a single-utterance session is the last word of the recogniser, and so is
  a final of a multi-utterance session that says \<open>session_complete\<close>; the rate header comes once
  and before any audio; audio belongs to the sentence announced last, and a sentence is closed
  only by its own name; a session's last \<open>tts_done\<close> ends the speech.
\<close>

record proto =
  p_asr_over :: bool
  p_header :: bool
  p_sentence :: "ustr option"
  p_tts_over :: bool

definition proto0 :: proto where
  "proto0 = \<lparr>p_asr_over = False, p_header = False, p_sentence = None, p_tts_over = False\<rparr>"

definition proto_step :: "bool \<Rightarrow> server_frame \<Rightarrow> proto \<Rightarrow> proto option" where
  "proto_step multi f p =
     (case f of
        PartialFrame _ _ \<Rightarrow> if p_asr_over p then None else Some p
      | EndpointFrame \<Rightarrow> if p_asr_over p then None else Some p
      | FinalFrame _ session _ \<Rightarrow>
          if p_asr_over p then None
          else if multi
          then (case session of
                  Some (False, None) \<Rightarrow> Some p
                | Some (True, Some _) \<Rightarrow> Some (p\<lparr>p_asr_over := True\<rparr>)
                | _ \<Rightarrow> None)
          else (if session = None then Some (p\<lparr>p_asr_over := True\<rparr>) else None)
      | RateFrame n \<Rightarrow> if p_header p \<or> p_tts_over p \<or> 2 ^ 32 \<le> n then None else Some (p\<lparr>p_header := True\<rparr>)
      | StartedFrame t \<Rightarrow> if p_header p \<and> \<not> p_tts_over p then Some (p\<lparr>p_sentence := Some t\<rparr>) else None
      | AudioFrame _ \<Rightarrow> if p_header p \<and> \<not> p_tts_over p \<and> p_sentence p \<noteq> None then Some p else None
      | SentenceDoneFrame t \<Rightarrow> if p_sentence p = Some t \<and> \<not> p_tts_over p then Some (p\<lparr>p_sentence := None\<rparr>) else None
      | TtsDoneFrame c \<Rightarrow>
          if p_tts_over p then None
          else if multi then (case c of None \<Rightarrow> None | Some b \<Rightarrow> Some (p\<lparr>p_tts_over := b\<rparr>))
          else (if c = None then Some (p\<lparr>p_tts_over := True\<rparr>) else None)
      | _ \<Rightarrow> Some p)"

fun proto_run :: "bool \<Rightarrow> server_frame list \<Rightarrow> proto \<Rightarrow> proto option" where
  "proto_run multi [] p = Some p"
| "proto_run multi (f # fs) p = (case proto_step multi f p of None \<Rightarrow> None | Some p1 \<Rightarrow> proto_run multi fs p1)"

lemma proto_run_snoc: "proto_run multi (fs @ [f]) p = Option.bind (proto_run multi fs p) (proto_step multi f)"
  by (induction fs arbitrary: p) (simp_all split: option.split)


definition unclosed :: "v2v_config \<Rightarrow> proto \<Rightarrow> bool" where
  "unclosed cf p = (vc_multi cf \<longrightarrow> \<not> p_asr_over p \<and> \<not> p_tts_over p)"

lemma unclosed_simps [simp]:
  "unclosed cf (p\<lparr>p_header := b\<rparr>) = unclosed cf p" "unclosed cf (p\<lparr>p_sentence := x\<rparr>) = unclosed cf p"
  "unclosed cf p \<Longrightarrow> unclosed cf (p\<lparr>p_tts_over := False\<rparr>)" "\<not> vc_multi cf \<Longrightarrow> unclosed cf p"
  by (simp_all add: unclosed_def)

text \<open>The frames of the recogniser before its end, and the frames taken at any time.\<close>

lemma proto_step_asr:
  "\<not> p_asr_over p \<Longrightarrow> proto_step multi (PartialFrame t b) p = Some p"
  "\<not> p_asr_over p \<Longrightarrow> proto_step multi EndpointFrame p = Some p"
  "\<not> p_asr_over p \<Longrightarrow> proto_step True (FinalFrame t (Some (False, None)) l) p = Some p"
  "\<not> p_asr_over p \<Longrightarrow> proto_step False (FinalFrame t None l) p = Some (p\<lparr>p_asr_over := True\<rparr>)"
  "proto_step multi (VadEventFrame b) p = Some p" "proto_step multi (ErrorFrame e) p = Some p"
  by (simp_all add: proto_step_def)



text \<open>A connection whose frames follow the protocol: while the socket takes frames, the automaton
  is where the tasks are.\<close>

definition tracks :: "v2v_config \<Rightarrow> v2v \<Rightarrow> proto \<Rightarrow> bool" where
  "tracks cf s p =
     (unclosed cf p \<and> (p_asr_over p \<longrightarrow> v_asr s = AOver) \<and>
      (p_header p \<longleftrightarrow> v_header_sent s \<or> (\<exists>t. v_tts s = THeader t)) \<and>
      (p_tts_over p \<longrightarrow> v_tts s = TOver) \<and>
      (\<forall>t. v_tts s = TSynth t \<or> v_tts s = TClosing t \<longrightarrow> v_header_sent s \<and> p_sentence p = Some t) \<and>
      (\<forall>t. v_tts s = TAnnounce t \<longrightarrow> v_header_sent s) \<and> (\<forall>t. v_tts s = THeader t \<longrightarrow> \<not> v_header_sent s))"

definition follows :: "v2v_config \<Rightarrow> v2v \<Rightarrow> bool" where
  "follows cf s =
     ((vc_multi cf \<longrightarrow> \<not> v_session_closed s) \<and>
      (\<not> v_torn s \<longrightarrow> (\<exists>p. proto_run (vc_multi cf) (v_frames s) proto0 = Some p \<and> unclosed cf p \<and> (v_link s \<longrightarrow> tracks cf s p))))"

lemma send_fields [simp]:
  "v_session_closed (send ok f s) = v_session_closed s" "v_asr (send ok f s) = v_asr s" "v_tts (send ok f s) = v_tts s"
  "v_header_sent (send ok f s) = v_header_sent s" "v_torn (send ok f s) = v_torn s" "v_dispatcher (send ok f s) = v_dispatcher s"
  "v_limiter (send ok f s) = v_limiter s" "v_token (send ok f s) = v_token s" "v_over (send ok f s) = v_over s"
  "v_failed (send ok f s) = v_failed s" "v_tts_q (send ok f s) = v_tts_q s" "v_flush (send ok f s) = v_flush s"
  "v_active (send ok f s) = v_active s" "v_buffer (send ok f s) = v_buffer s"
  by (simp_all add: send_def)

lemma follows_quiet:
  assumes "follows cf s" "v_frames s' = v_frames s" "v_torn s' = v_torn s" "v_link s' \<longrightarrow> v_link s"
    "vc_multi cf \<longrightarrow> v_session_closed s' \<longrightarrow> v_session_closed s"
    "\<And>p. v_link s' \<Longrightarrow> tracks cf s p \<Longrightarrow> tracks cf s' p"
  shows "follows cf s'"
  using assms unfolding follows_def by auto

lemma follows_same_tasks:
  assumes "follows cf s" "v_frames s' = v_frames s" "v_torn s' = v_torn s" "v_link s' \<longrightarrow> v_link s"
    "vc_multi cf \<longrightarrow> v_session_closed s' \<longrightarrow> v_session_closed s"
    "v_asr s' = v_asr s \<or> v_asr s \<noteq> AOver \<or> v_asr s' = AOver" "v_tts s' = v_tts s" "v_header_sent s' = v_header_sent s"
  shows "follows cf s'"
  using follows_quiet [OF assms(1-5)] assms(6-8) by (auto simp: tracks_def)

text \<open>Sending a frame that the automaton takes, and moving the tasks on.\<close>

lemma follows_send:
  assumes "follows cf s"
    and take: "\<And>p. tracks cf s p \<Longrightarrow> \<exists>p'. proto_step (vc_multi cf) f p = Some p' \<and> tracks cf s' p'"
    and s': "v_frames s' = v_frames (send ok f s)" "v_link s' \<longrightarrow> v_link (send ok f s)" "v_torn s' = v_torn s"
      "v_session_closed s' = v_session_closed s"
  shows "follows cf s'"
proof (cases "v_link s \<and> ok")
  case False
  then show ?thesis using assms(1) s' unfolding follows_def by (auto simp: send_def)
next
  case True
  show ?thesis unfolding follows_def
  proof (intro conjI impI)
    show "\<not> v_session_closed s'" if "vc_multi cf" using that assms(1) s' by (simp add: follows_def)
    assume "\<not> v_torn s'"
    then obtain p where p: "proto_run (vc_multi cf) (v_frames s) proto0 = Some p" "unclosed cf p" "tracks cf s p"
      using assms(1) s' True by (auto simp: follows_def)
    obtain p' where p': "proto_step (vc_multi cf) f p = Some p'" "tracks cf s' p'" using take [OF p(3)] by blast
    have "v_frames s' = v_frames s @ [f]" using s' True by (simp add: send_def)
    moreover have "unclosed cf p'" using p'(2) by (simp add: tracks_def)
    ultimately show "\<exists>p. proto_run (vc_multi cf) (v_frames s') proto0 = Some p \<and> unclosed cf p \<and> (v_link s' \<longrightarrow> tracks cf s' p)"
      using p p' by (simp add: proto_run_snoc)
  qed
qed

lemma tracks_fields: "v_asr s' = v_asr s \<Longrightarrow> v_tts s' = v_tts s \<Longrightarrow> v_header_sent s' = v_header_sent s \<Longrightarrow> tracks cf s' p = tracks cf s p"
  by (simp add: tracks_def)

text \<open>Frames that are always taken.\<close>

definition neutral :: "server_frame \<Rightarrow> bool" where
  "neutral f = (case f of VadEventFrame _ \<Rightarrow> True | ErrorFrame _ \<Rightarrow> True | _ \<Rightarrow> False)"

lemma neutral_frames: "neutral (VadEventFrame b)" "neutral (ErrorFrame e)"
  by (simp_all add: neutral_def)

lemma follows_send_neutral:
  assumes "follows cf s" "neutral f" "v_frames s' = v_frames (send ok f s)" "v_link s' \<longrightarrow> v_link (send ok f s)" "v_torn s' = v_torn s"
    "v_session_closed s' = v_session_closed s"
    "\<And>p. tracks cf s p \<Longrightarrow> tracks cf s' p"
  shows "follows cf s'"
  by (rule follows_send [OF assms(1) _ assms(3-6)]) (use assms(2,7) in \<open>auto simp: neutral_def proto_step_def split: server_frame.splits\<close>)

lemma follows_dispatcher_top: "follows cf s \<Longrightarrow> follows cf (dispatcher_top s)"
  by (erule follows_same_tasks) (simp_all add: dispatcher_top_def)

lemma follows_set_endpoint: "follows cf s \<Longrightarrow> follows cf (set_endpoint cf r s)"
  by (erule follows_same_tasks) (simp_all add: set_endpoint_def)

lemma follows_clear_endpoint: "follows cf s \<Longrightarrow> follows cf (clear_endpoint s)"
  by (erule follows_same_tasks) (simp_all add: clear_endpoint_def)

lemma follows_send_event: "follows cf s \<Longrightarrow> neutral f \<Longrightarrow> follows cf (send ok f s)"
  by (erule follows_send_neutral) (auto simp: tracks_def)

lemma follows_chunk_done: "follows cf s \<Longrightarrow> follows cf (chunk_done cf ok ended s)"
  by (simp add: chunk_done_def follows_dispatcher_top follows_send_event follows_set_endpoint neutral_frames)

lemma follows_cancel_sentence:
  assumes "follows cf s"
  shows "follows cf (cancel_sentence s)"
proof (cases "in_sentence (v_tts s) \<and> \<not> (\<exists>t. v_tts s = THeader t)")
  case True
  then have "cancel_sentence s = s\<lparr>v_tts := TTop\<rparr>" by (simp add: cancel_sentence_def)
  moreover have "tracks cf (s\<lparr>v_tts := TTop\<rparr>) p" if "tracks cf s p" for p
    using that True by (auto simp: tracks_def in_sentence_def split: tts_pc.splits)
  ultimately show ?thesis using follows_quiet [OF assms, of "s\<lparr>v_tts := TTop\<rparr>"] by simp
next
  case False
  then show ?thesis using assms by (auto simp: cancel_sentence_def follows_def)
qed

lemma follows_hand_over: "follows cf s \<Longrightarrow> follows cf (hand_over cf ok ended s)"
  unfolding hand_over_def by (auto intro: follows_chunk_done follows_same_tasks)

lemma follows_dispatcher_pc: "follows cf s \<Longrightarrow> follows cf (s\<lparr>v_dispatcher := d\<rparr>)"
  by (erule follows_same_tasks) simp_all

lemma follows_mgr: "follows cf s \<Longrightarrow> follows cf (s\<lparr>v_mgr := m\<rparr>)"
  by (erule follows_same_tasks) simp_all

lemma follows_on_audio: "follows cf s \<Longrightarrow> follows cf (on_audio cf w data s)"
  by (auto simp: on_audio_def intro: neutral_frames follows_dispatcher_top follows_dispatcher_pc follows_hand_over follows_send_event
      split: vad_verdict.split)

lemma follows_queue: "follows cf s \<Longrightarrow> follows cf (s\<lparr>v_buffer := b, v_tts_q := q\<rparr>)"
  by (erule follows_same_tasks) simp_all

lemma follows_flush: "follows cf s \<Longrightarrow> follows cf (s\<lparr>v_flush := b\<rparr>)"
  by (erule follows_same_tasks) simp_all

lemma follows_q: "follows cf s \<Longrightarrow> follows cf (s\<lparr>v_tts_q := q\<rparr>)"
  by (erule follows_same_tasks) simp_all

lemma follows_on_control:
  assumes "follows cf s"
  shows "follows cf (on_control cf o' s)"
proof -
  have abort: "follows cf ((cancel_sentence s)\<lparr>v_tts_q := []\<rparr>)" by (rule follows_q [OF follows_cancel_sentence [OF assms]])
  have flush: "follows cf (s\<lparr>v_buffer := b, v_tts_q := q, v_flush := True\<rparr>)" for b q
    using follows_flush [OF follows_queue [OF assms]] by simp
  show ?thesis
    using assms abort flush
    by (auto simp: on_control_def Let_def
        intro: follows_dispatcher_top follows_dispatcher_pc follows_queue follows_flush follows_set_endpoint
        split: option.split prod.split)
qed

lemma follows_receive:
  assumes "follows cf s"
  shows "follows cf (receive cf w s)"
proof -
  have gone: "follows cf (on_disconnect s)" using assms by (auto simp: follows_def on_disconnect_def)
  show ?thesis
    using assms gone by (auto simp: receive_def intro: follows_on_audio follows_dispatcher_top follows_dispatcher_pc follows_on_control
        split: option.split ws_message.split json_text.split)
qed

lemma follows_start_utterance:
  assumes "follows cf s"
  shows "follows cf (start_utterance cf w by_vad s)"
proof -
  define s1 where "s1 = (if by_vad then cancel_sentence s else s)"
  have s1: "follows cf s1" using assms follows_cancel_sentence by (simp add: s1_def)
  obtain r m where start: "on_speech_start (vc_restart cf) (case w_cancel w of None \<Rightarrow> TimedOut | Some out \<Rightarrow> out) (w_create w) (v_mgr s1) = (r, m)"
    by fastforce
  have "follows cf ((clear_endpoint (s1\<lparr>v_mgr := m\<rparr>))\<lparr>v_active := True, v_active_gen := g, v_turn_started := Some t, v_dispatcher := d\<rparr>)" for g t d
    by (rule follows_same_tasks [OF follows_clear_endpoint [OF follows_mgr [OF s1]]]) simp_all
  moreover have "follows cf ((send ok (ErrorFrame e) (s1\<lparr>v_mgr := m\<rparr>))\<lparr>v_dispatcher := d\<rparr>)" for ok e d
    by (intro follows_dispatcher_pc follows_send_event follows_mgr s1 neutral_frames)
  ultimately show ?thesis by (cases r) (simp_all add: start_utterance_def Let_def flip: s1_def, simp_all add: start)
qed

lemma follows_active: "follows cf s \<Longrightarrow> follows cf (s\<lparr>v_active := b\<rparr>)"
  by (erule follows_same_tasks) simp_all

lemma follows_dispatch_run:
  assumes "follows cf s"
  shows "follows cf (dispatch_run cf w s)"
proof -
  have abort: "follows cf (s\<lparr>v_mgr := m, v_active := False, v_turn_started := None\<rparr>)" for m
    by (rule follows_same_tasks [OF assms]) simp_all
  have taking: "follows cf (s\<lparr>v_mgr := m, v_dispatcher := d\<rparr>)" for m d
    by (rule follows_same_tasks [OF assms]) simp_all
  show ?thesis
    using assms abort taking
    by (auto simp: dispatch_run_def intro: follows_start_utterance follows_dispatcher_top follows_clear_endpoint follows_active
        follows_chunk_done follows_mgr split: dispatcher_pc.split prod.split option.split)
qed

text \<open>The ASR task moves on without a frame, or with one that it may send before its final.\<close>

lemma follows_asr:
  assumes "follows cf s" "v_asr s \<noteq> AOver" "v_frames s' = v_frames s" "v_torn s' = v_torn s" "v_link s' \<longrightarrow> v_link s"
    "v_session_closed s' = v_session_closed s" "v_tts s' = v_tts s" "v_header_sent s' = v_header_sent s"
  shows "follows cf s'"
  by (rule follows_same_tasks [OF assms(1,3,4,5)]) (use assms in simp_all)

lemma follows_asr_send:
  assumes "follows cf s" "v_asr s \<noteq> AOver"
    and s': "v_frames s' = v_frames (send ok f s)" "v_link s' \<longrightarrow> v_link (send ok f s)" "v_torn s' = v_torn s"
      "v_session_closed s' = v_session_closed s" "v_tts s' = v_tts s" "v_header_sent s' = v_header_sent s"
    and f: "(\<exists>t b. f = PartialFrame t b) \<or> f = EndpointFrame \<or> neutral f \<or>
      (\<exists>t l. f = FinalFrame t (Some (False, None)) l) \<and> vc_multi cf \<or> (\<exists>t l. f = FinalFrame t None l) \<and> \<not> vc_multi cf \<and> v_asr s' = AOver"
  shows "follows cf s'"
  by (rule follows_send [OF assms(1) _ s'(1-4)])
     (use assms(2) s'(5,6) f in \<open>auto simp: proto_step_asr tracks_def neutral_def split: server_frame.splits\<close>)

lemma follows_emit_final:
  assumes "follows cf s" "v_asr s \<noteq> AOver"
  shows "follows cf (emit_final cf w t l s)"
proof -
  have "\<not> v_session_closed s" if "vc_multi cf" using assms(1) that by (simp add: follows_def)
  then show ?thesis
    unfolding emit_final_def Let_def
    by (auto intro!: follows_asr_send [OF assms])
qed

lemma follows_emit_final_after:
  assumes "follows cf s0" "v_asr s0 \<noteq> AOver" "v_frames s = v_frames s0" "v_torn s = v_torn s0" "v_link s \<longrightarrow> v_link s0"
    "v_session_closed s = v_session_closed s0" "v_tts s = v_tts s0" "v_header_sent s = v_header_sent s0" "v_asr s = v_asr s0"
  shows "follows cf (emit_final cf w t l s)"
  using follows_emit_final [OF follows_asr [OF assms(1-8)]] assms(2,9) by simp

lemma follows_asr_run:
  assumes "follows cf s"
  shows "follows cf (asr_run cf w s)"
proof (cases "v_asr s")
  case ATop
  then show ?thesis
    by (auto simp: asr_run_def asr_top_def intro!: follows_asr [OF assms])
next
  case ACancelling
  define s1 where "s1 = clear_endpoint (s\<lparr>v_mgr := cancel_asr cf w (v_mgr s), v_active := False, v_turn_started := None\<rparr>)"
  have "follows cf s1" by (rule follows_asr [OF assms]) (simp_all add: ACancelling s1_def clear_endpoint_def)
  moreover have "v_asr s1 \<noteq> AOver" by (simp add: ACancelling s1_def clear_endpoint_def)
  moreover have "asr_run cf w s = (send (w_ok w) (ErrorFrame TurnDeadline) s1)
      \<lparr>v_asr := (if vc_multi cf \<and> \<not> v_session_closed (send (w_ok w) (ErrorFrame TurnDeadline) s1) then ATop else AOver)\<rparr>"
    by (simp add: asr_run_def ACancelling turn_timeout_def Let_def s1_def)
  ultimately show ?thesis
    by (simp only:) (rule follows_asr_send [of cf s1 _ "w_ok w" "ErrorFrame TurnDeadline"], simp_all add: neutral_frames)
next
  case (APartial snapshot)
  obtain g partial e where p: "get_partial_for_generation (w_partial w) snapshot = (g, partial, e)" by (metis prod_cases3)
  show ?thesis
  proof (cases "partial \<noteq> [] \<and> g = m_generation (v_mgr s) \<and> g = v_active_gen s")
    case True
    then show ?thesis
      by (intro follows_asr_send [OF assms, of _ "w_ok w" "PartialFrame partial e"])
         (simp_all add: asr_run_def APartial on_partial_def p)
  next
    case False
    then have "asr_run cf w s = s\<lparr>v_asr := AEndpoint e\<rparr>" by (auto simp: asr_run_def APartial on_partial_def p)
    then show ?thesis by (simp only:) (rule follows_asr [OF assms], simp_all add: APartial)
  qed
next
  case (AEndpoint e)
  have d: "follows cf (drop_stale_endpoint s)" "v_asr (drop_stale_endpoint s) \<noteq> AOver"
    using assms follows_clear_endpoint AEndpoint by (auto simp: drop_stale_endpoint_def clear_endpoint_def)
  have c: "follows cf (clear_endpoint (drop_stale_endpoint s))" "v_asr (clear_endpoint (drop_stale_endpoint s)) \<noteq> AOver"
    using d follows_clear_endpoint by (auto simp: clear_endpoint_def)
  show ?thesis
  proof (cases "(v_endpoint (drop_stale_endpoint s) \<noteq> None \<or> e \<and> v_active (drop_stale_endpoint s)) \<and>
      v_endpoint (drop_stale_endpoint s) \<noteq> Some EndEos")
    case True
    then show ?thesis
      by (intro follows_asr_send [OF c, of _ "w_ok w" EndpointFrame])
         (simp_all add: asr_run_def AEndpoint check_endpoint_def Let_def)
  next
    case False
    then have "asr_run cf w s = (clear_endpoint (drop_stale_endpoint s))\<lparr>v_asr := AFinalize (Some EndEos)\<rparr>
        \<or> asr_run cf w s = (drop_stale_endpoint s)\<lparr>v_asr := AExit\<rparr>"
      by (auto simp: asr_run_def AEndpoint check_endpoint_def Let_def)
    moreover have "follows cf ((clear_endpoint (drop_stale_endpoint s))\<lparr>v_asr := AFinalize (Some EndEos)\<rparr>)"
      by (rule follows_asr [OF c]) simp_all
    moreover have "follows cf ((drop_stale_endpoint s)\<lparr>v_asr := AExit\<rparr>)" by (rule follows_asr [OF d]) simp_all
    ultimately show ?thesis by metis
  qed
next
  case (AFinalize r)
  then show ?thesis
    using follows_emit_final [OF assms]
    by (auto simp: asr_run_def begin_finalize_def intro!: follows_asr [OF assms] split: prod.split sum.split)
next
  case (AFinalizing fg g st)
  obtain res m where r: "finalize_end (vc_restart cf) g st (w_final w) (w_create w) (v_mgr s) = (res, m)" by fastforce
  define s2 where "s2 = (if f_accepted res \<and> v_active_gen s = fg then s\<lparr>v_mgr := m, v_active := False, v_turn_started := None\<rparr>
      else s\<lparr>v_mgr := m\<rparr>)"
  have run: "asr_run cf w s = (if \<not> f_accepted res then s2\<lparr>v_asr := ATop\<rparr> else emit_final cf w (f_text res) (f_language res) s2)"
    by (simp add: asr_run_def AFinalizing end_finalize_def r Let_def s2_def)
  have "follows cf (s2\<lparr>v_asr := ATop\<rparr>)" by (rule follows_asr [OF assms]) (simp_all add: AFinalizing s2_def)
  moreover have "follows cf (emit_final cf w t l s2)" for t l
    by (rule follows_emit_final_after [OF assms]) (simp_all add: AFinalizing s2_def)
  ultimately show ?thesis by (simp add: run)
next
  case AExit
  then show ?thesis by (auto simp: asr_run_def intro!: follows_asr [OF assms])
next
  case AOver
  then show ?thesis using assms by (simp add: asr_run_def)
qed

text \<open>The TTS task.\<close>

lemma follows_tts_run:
  assumes "follows cf s"
  shows "follows cf (tts_run cf w s)"
proof (cases "v_tts s")
  case TTop
  have closed: "\<not> v_session_closed s" if "vc_multi cf" using assms that by (simp add: follows_def)
  show ?thesis
  proof (cases "\<not> v_client_closed s \<and> v_flush s \<and> v_tts_q s = []")
    case True
    show ?thesis
    proof (cases "vc_multi cf")
      case multi: True
      then show ?thesis using True closed TTop
        by (intro follows_send [OF assms, of "TtsDoneFrame (Some False)" _ "w_ok w"])
           (auto simp: tts_run_def tts_top_def proto_step_def tracks_def send_def)
    next
      case False
      then show ?thesis using True TTop
        by (intro follows_send [OF assms, of "TtsDoneFrame None" _ "w_ok w"])
           (auto simp: tts_run_def tts_top_def proto_step_def tracks_def)
    qed
  next
    case False
    then show ?thesis using TTop
      by (intro follows_quiet [OF assms]) (auto simp: tts_run_def tts_top_def tracks_def split: list.split)
  qed
next
  case (TSentence t)
  show ?thesis
  proof (cases "w_backend_ok w \<and> \<not> v_header_sent s \<and> w_rate w < 2 ^ 32")
    case True
    then show ?thesis using TSentence
      by (intro follows_send [OF assms, of "RateFrame (w_rate w)" _ "w_ok w"])
         (auto simp: tts_run_def open_sentence_def pack_u32_def proto_step_def tracks_def)
  next
    case False
    then show ?thesis using TSentence
      by (intro follows_quiet [OF assms]) (auto simp: tts_run_def open_sentence_def pack_u32_def tracks_def)
  qed
next
  case (THeader t)
  then show ?thesis by (intro follows_quiet [OF assms]) (auto simp: tts_run_def tracks_def)
next
  case (TAnnounce t)
  then show ?thesis
    by (intro follows_send [OF assms, of "StartedFrame t" _ "w_ok w"]) (auto simp: tts_run_def proto_step_def tracks_def)
next
  case (TSynth t)
  show ?thesis
  proof (cases "w_item w")
    case (Chunk bs)
    then show ?thesis using TSynth
      by (intro follows_send [OF assms, of "AudioFrame bs" _ "w_ok w"])
         (auto simp: tts_run_def take_item_def proto_step_def tracks_def)
  next
    case (SynthError m)
    then show ?thesis using TSynth
      by (intro follows_send_neutral [OF assms neutral_frames(2) [of "SynthFailed m"], of _ "w_ok w"])
         (auto simp: tts_run_def take_item_def tracks_def)
  next
    case SynthEnd
    then show ?thesis using TSynth
      by (intro follows_quiet [OF assms]) (auto simp: tts_run_def take_item_def tracks_def)
  next
    case Silence
    then show ?thesis using TSynth
      by (intro follows_send_neutral [OF assms neutral_frames(2) [of NoChunks], of _ "w_ok w"])
         (auto simp: tts_run_def take_item_def tracks_def)
  qed
next
  case (TClosing t)
  then show ?thesis
    by (intro follows_send [OF assms, of "SentenceDoneFrame t" _ "w_ok w"]) (auto simp: tts_run_def proto_step_def tracks_def)
next
  case TOver
  then show ?thesis using assms by (simp add: tts_run_def)
qed

lemma follows_teardown: "follows cf s \<Longrightarrow> follows cf (teardown cf w s)"
  by (auto simp: follows_def teardown_def)

lemma follows_step:
  assumes "follows cf s"
  shows "follows cf (v2v_step cf e s)"
proof -
  obtain task w where e: "e = (task, w)" by fastforce
  have "follows cf (sentence_deadline w s)"
    using assms follows_cancel_sentence by (auto simp: sentence_deadline_def Let_def intro: follows_send_event neutral_frames)
  moreover have "follows cf (finish cf w s)"
    using assms by (auto simp: finish_def intro: follows_teardown follows_send_event neutral_frames)
  moreover have "follows cf (others_step le s)" for le
    using assms by (auto simp: others_step_def intro: follows_same_tasks split: limiter_event.split)
  ultimately show ?thesis
    using assms follows_receive follows_dispatch_run follows_asr_run follows_tts_run follows_teardown
    by (cases task) (auto simp: v2v_step_def e)
qed

interpretation v2v_protocol: step_system "v2v_step cf" "follows cf" for cf
  by unfold_locales (rule follows_step)

lemma follows_new: "follows cf (new_v2v cf buf lim tok)"
  by (auto simp: follows_def new_v2v_def tracks_def proto0_def unclosed_def)

section \<open>What the client makes of the frames\<close>

lemma unpack_pack:
  assumes "n < 2 ^ 32"
  shows "pack_u32 n = Some bs \<Longrightarrow> unpack_u32 bs = n \<and> length bs = 4"
proof -
  assume "pack_u32 n = Some bs"
  then have bs: "bs = [word_of_nat n, word_of_nat (n div 256), word_of_nat (n div 65536), word_of_nat (n div 16777216)]"
    using assms by (simp add: pack_u32_def)
  have digits: "m mod 256 + 256 * (m div 256) = m" for m :: nat by simp
  have "n div 16777216 < 256" using assms by (simp add: div_less_iff_less_mult)
  then have "unpack_u32 bs = n mod 256 + 256 * (n div 256 mod 256 + 256 * (n div 256 div 256 mod 256 + 256 * (n div 256 div 256 div 256)))"
    by (simp add: bs unat_of_nat div_mult2_eq [symmetric])
  also have "\<dots> = n" by (simp only: digits)
  finally show ?thesis by (simp add: bs)
qed

definition event_of :: "nat option \<Rightarrow> server_frame \<Rightarrow> v2v_event list" where
  "event_of rate f =
     (case f of
        VadEventFrame _ \<Rightarrow> []
      | PartialFrame t b \<Rightarrow> [ASRPartial t b]
      | EndpointFrame \<Rightarrow> [ASREndpoint]
      | FinalFrame t session l \<Rightarrow>
          [ASRFinal t (case session of None \<Rightarrow> True | Some (c, _) \<Rightarrow> c) (case session of Some (_, Some d) \<Rightarrow> d | _ \<Rightarrow> False) l]
      | StartedFrame t \<Rightarrow> [TTSStarted t]
      | SentenceDoneFrame t \<Rightarrow> [TTSSentenceDone t]
      | TtsDoneFrame c \<Rightarrow> [TTSDone (case c of None \<Rightarrow> True | Some b \<Rightarrow> b)]
      | ErrorFrame e \<Rightarrow> [SLVError (ServerSaid (error_text e))]
      | RateFrame _ \<Rightarrow> []
      | AudioFrame bs \<Rightarrow> [TTSAudio bs (the rate)])"

text \<open>What the frames mean: each chunk of audio is at the rate the session announced.\<close>

fun hear :: "nat option \<Rightarrow> server_frame list \<Rightarrow> v2v_event list" where
  "hear rate [] = []"
| "hear rate (f # fs) = event_of rate f @ hear (case f of RateFrame n \<Rightarrow> Some n | _ \<Rightarrow> rate) fs"

lemmas json_run = wire_def typed_def bool_opt_def handle_json_def has_type_def text_field_def bool_field_def opt_field_def u_def server_types

lemma handle_json_wire:
  "(\<And>n. f \<noteq> RateFrame n) \<Longrightarrow> (\<And>bs. f \<noteq> AudioFrame bs) \<Longrightarrow>
     \<exists>o'. wire f = Text (Obj o') \<and> handle_json (Obj o') = Some (event_of rate f)"
  by (cases f) (auto simp: event_of_def json_run split: option.split)

lemma client_takes:
  assumes "proto_step multi f p = Some p1" "sl_reader c = ReaderRuns" "p_header p \<longleftrightarrow> sl_rate c \<noteq> None"
  shows "sl_reader (reader_message now (wire f) c) = ReaderRuns \<and>
    sl_queue (reader_message now (wire f) c) = sl_queue c @ event_of (sl_rate c) f \<and>
    sl_rate (reader_message now (wire f) c) = (case f of RateFrame n \<Rightarrow> Some n | _ \<Rightarrow> sl_rate c) \<and>
    (p_header p1 \<longleftrightarrow> sl_rate (reader_message now (wire f) c) \<noteq> None)"
proof -
  have head: "p_header p1 = (p_header p \<or> (\<exists>n. f = RateFrame n))"
    using assms(1) by (auto simp: proto_step_def split: server_frame.splits if_splits option.splits prod.splits bool.splits)
  consider (rate) n where "f = RateFrame n" | (audio) bs where "f = AudioFrame bs"
    | (json) o' where "wire f = Text (Obj o')" "handle_json (Obj o') = Some (event_of (sl_rate c) f)"
        "\<forall>n. f \<noteq> RateFrame n" "\<forall>bs. f \<noteq> AudioFrame bs"
    using handle_json_wire [of f "sl_rate c"] by blast
  then show ?thesis
  proof cases
    case rate
    then have n: "n < 2 ^ 32" "sl_rate c = None" using assms(1,3) by (auto simp: proto_step_def split: if_splits)
    then obtain bs where bs: "pack_u32 n = Some bs" by (simp add: pack_u32_def)
    then show ?thesis using rate n unpack_pack [OF n(1) bs] assms(2) head
      by (simp add: wire_def reader_message_def handle_binary_def event_of_def)
  next
    case audio
    then have "\<exists>sr. sl_rate c = Some sr" using assms(1,3) by (auto simp: proto_step_def split: if_splits)
    then show ?thesis using audio assms(2,3) head by (auto simp: wire_def reader_message_def handle_binary_def event_of_def)
  next
    case json
    then show ?thesis using assms(2,3) head by (auto simp: reader_message_def split: server_frame.split)
  qed
qed

lemma client_decodes:
  assumes "proto_run multi fs p = Some p'" "sl_reader c = ReaderRuns" "p_header p \<longleftrightarrow> sl_rate c \<noteq> None"
  shows "sl_queue (fold (reader_message now) (map wire fs) c) = sl_queue c @ hear (sl_rate c) fs"
  using assms
proof (induction fs arbitrary: p c)
  case (Cons f fs)
  obtain p1 where p1: "proto_step multi f p = Some p1" "proto_run multi fs p1 = Some p'"
    using Cons.prems(1) by (auto split: option.splits)
  let ?c1 = "reader_message now (wire f) c"
  note one = client_takes [OF p1(1) Cons.prems(2,3), of now]
  have "sl_reader ?c1 = ReaderRuns" "p_header p1 \<longleftrightarrow> sl_rate ?c1 \<noteq> None" using one by blast+
  from Cons.IH [OF p1(2) this] show ?case using one by simp
qed simp

section \<open>The slot\<close>

definition slot_ok :: "nat \<Rightarrow> v2v \<Rightarrow> bool" where
  "slot_ok tok s =
     (v_token s = tok \<and> tok < length (tokens (v_limiter s)) \<and> (tok \<in> live_tokens (v_limiter s) \<longleftrightarrow> \<not> v_over s))"

definition same_slot :: "v2v \<Rightarrow> v2v \<Rightarrow> bool" where
  "same_slot s s' = (v_limiter s' = v_limiter s \<and> v_token s' = v_token s \<and> v_over s' = v_over s)"

lemma same_slot_kept: "same_slot s s' \<Longrightarrow> slot_ok tok s \<Longrightarrow> slot_ok tok s'"
  by (simp add: same_slot_def slot_ok_def)

lemmas small_steps = same_slot_def dispatcher_top_def set_endpoint_def chunk_done_def hand_over_def clear_endpoint_def cancel_sentence_def

lemma same_slot_receive: "same_slot s (receive cf w s)"
proof -
  have "same_slot s (on_audio cf w data s)" for data
    by (auto simp: on_audio_def small_steps split: vad_verdict.split)
  moreover have "same_slot s (on_control cf o' s)" for o'
    by (auto simp: on_control_def small_steps Let_def split: option.split prod.split)
  ultimately show ?thesis
    by (auto simp: receive_def on_disconnect_def split: option.split ws_message.split json_text.split) (auto simp: small_steps)
qed

lemma chunk_done_slot:
  "v_limiter (chunk_done cf ok ended s) = v_limiter s" "v_token (chunk_done cf ok ended s) = v_token s"
  "v_over (chunk_done cf ok ended s) = v_over s"
  "v_limiter (dispatcher_top s) = v_limiter s" "v_token (dispatcher_top s) = v_token s" "v_over (dispatcher_top s) = v_over s"
  "v_limiter (clear_endpoint s) = v_limiter s" "v_token (clear_endpoint s) = v_token s" "v_over (clear_endpoint s) = v_over s"
  "v_limiter (cancel_sentence s) = v_limiter s" "v_token (cancel_sentence s) = v_token s" "v_over (cancel_sentence s) = v_over s"
  by (simp_all add: small_steps)

lemma same_slot_dispatch: "same_slot s (dispatch_run cf w s)"
proof -
  have "same_slot s (start_utterance cf w by_vad s)" for by_vad
    by (simp add: start_utterance_def same_slot_def chunk_done_slot Let_def split: option.split prod.split)
  then show ?thesis
    by (cases "v_dispatcher s")
       (simp_all add: dispatch_run_def same_slot_def chunk_done_slot split: option.split prod.split)
qed

lemma same_slot_asr: "same_slot s (asr_run cf w s)"
proof -
  have "same_slot s (emit_final cf w t l s)" for s t l by (simp add: emit_final_def same_slot_def Let_def)
  then show ?thesis
    by (auto simp: asr_run_def asr_top_def turn_timeout_def on_partial_def check_endpoint_def drop_stale_endpoint_def begin_finalize_def
        end_finalize_def Let_def same_slot_def clear_endpoint_def split: asr_pc.split option.split prod.split sum.split)
qed

lemma same_slot_tts: "same_slot s (tts_run cf w s)"
  by (auto simp: tts_run_def tts_top_def open_sentence_def take_item_def same_slot_def
      split: tts_pc.split list.split option.split synth_item.split)

lemma same_slot_deadline: "same_slot s (sentence_deadline w s)"
  by (auto simp: sentence_deadline_def Let_def small_steps)

lemma token_count:
  "length (tokens (release ok t l)) = length (tokens l)" "t < length (tokens l) \<Longrightarrow> t < length (tokens (snd (try_acquire ok l)))"
  by (simp_all add: release_def try_acquire_def Let_def)

lemma slot_teardown: "slot_ok tok s \<Longrightarrow> \<not> v_over s \<Longrightarrow> slot_ok tok (teardown cf w s)"
  by (auto simp: slot_ok_def teardown_def token_count)

lemma slot_others: "slot_ok tok s \<Longrightarrow> slot_ok tok (others_step e s)"
  by (cases e) (auto simp: slot_ok_def others_step_def live_try_acquire token_count)

lemma slot_step:
  assumes "slot_ok tok s"
  shows "slot_ok tok (v2v_step cf e s)"
proof -
  obtain task w where e: "e = (task, w)" by fastforce
  have sent: "slot_ok tok (send ok f s)" for ok f using assms by (simp add: slot_ok_def)
  have "slot_ok tok (finish cf w s)" if "\<not> v_over s"
    using assms sent that slot_teardown by (auto simp: finish_def)
  then show ?thesis
    using assms slot_teardown slot_others
      same_slot_kept [OF same_slot_receive] same_slot_kept [OF same_slot_dispatch] same_slot_kept [OF same_slot_asr]
      same_slot_kept [OF same_slot_tts] same_slot_kept [OF same_slot_deadline]
    by (cases task) (simp_all add: v2v_step_def e)
qed

interpretation v2v_slot: step_system "v2v_step cf" "slot_ok tok" for cf tok
  by unfold_locales (rule slot_step)

definition gives_back :: "nat \<Rightarrow> limiter \<Rightarrow> open_outcome \<times> limiter \<Rightarrow> bool" where
  "gives_back tok lim r = (case fst r of Running cf buf \<Rightarrow> snd r = lim | _ \<Rightarrow> snd r = release True tok lim)"

lemma open_slot: "gives_back tok lim (v2v_open ow first tok lim)"
proof -
  have leave: "gives_back tok lim (leave_open tok out lim)" if "\<forall>cf buf. out \<noteq> Running cf buf" for out
    using that by (cases out) (simp_all add: gives_back_def leave_open_def)
  have refuse: "gives_back tok lim (refuse ow ks code tok lim)" for ks code
    unfolding refuse_def by (rule leave) simp
  have run: "gives_back tok lim (Running cf buf, lim)" for cf buf by (simp add: gives_back_def)
  have "gives_back tok lim (v2v_configure ow cfg tok lim)" for cfg
    unfolding v2v_configure_def Let_def by (simp add: refuse run leave split: option.split)
  then show ?thesis
    by (cases first) (simp_all add: v2v_open_def refuse leave split: json_text.split)
qed

section \<open>A session to look at\<close>

definition calm :: world where
  "calm = \<lparr>w_ok = True, w_now = 0, w_msg = None, w_verdict = NoChange, w_cancel = Some Acked, w_jam_late = False, w_create = (\<lambda>k. None),
     w_accept = None, w_partial = (\<lambda>st. Inr ([], False)), w_final = Inr ([], None), w_rate = 16000, w_item = SynthEnd, w_backend_ok = True\<rparr>"

definition says :: "ws_message \<Rightarrow> v2v_task \<times> world" where
  "says m = (Receives, calm\<lparr>w_msg := Some m\<rparr>)"

definition tts_config :: v2v_config where
  "tts_config = \<lparr>vc_multi = False, vc_asr = False, vc_vad = False, vc_tts = True, vc_restart = True, vc_turn_timeout = 45000\<rparr>"

definition sample_limiter :: limiter where
  "sample_limiter = \<lparr>limit = 1, active = 1, tokens = [\<lparr>acquired_at_count = 1, released = False\<rparr>], sessions_gauge = 1, rejected_http = 0, rejected_ws = 0\<rparr>"

text \<open>A speech session whose buffer already holds the text \<open>hi\<close>.\<close>

definition sample_buffer :: tts_buffer where
  "sample_buffer = Sentences \<lparr>sb_min_chars = 2, sb_max_buffer = 200, sb_buf = [104, 105], sb_seg = None\<rparr>"

definition sample_session :: "(v2v_task \<times> world) list \<Rightarrow> v2v" where
  "sample_session evs = fold (v2v_step tts_config) evs (new_v2v tts_config (Some sample_buffer) sample_limiter 0)"

definition one_sentence :: "(v2v_task \<times> world) list" where
  "one_sentence = [says (typed client_tts_flush []), (TtsRuns, calm), (TtsRuns, calm), (TtsRuns, calm), (TtsRuns, calm),
     (TtsRuns, calm\<lparr>w_item := Chunk [1, 2]\<rparr>), (TtsRuns, calm), (TtsRuns, calm), (TtsRuns, calm), (Finishes, calm)]"

lemma u_inject: "u a = u b \<longleftrightarrow> a = b"
  by (auto simp: u_def inj_map_eq_map inj_def)

lemmas session_run = sample_session_def new_v2v_def v2v_step_def receive_def on_control_def dispatcher_top_def
  tts_run_def tts_top_def open_sentence_def take_item_def send_def finish_def teardown_def says_def calm_def tts_config_def
  sample_limiter_def typed_def has_type_def text_arg_def client_text_def client_abort_def client_tts_flush_def client_asr_eos_def
  u_inject sentence_flush_def strip_by_def lstrip_by_def py_isspace_def pack_u32_def sample_buffer_def one_sentence_def

lemma one_sentence_runs:
  "v_frames (sample_session one_sentence) =
     [RateFrame 16000, StartedFrame [104, 105], AudioFrame [1, 2], SentenceDoneFrame [104, 105], TtsDoneFrame None]"
  "\<not> v_torn (sample_session one_sentence)"
  by (simp_all add: session_run)

section \<open>Properties\<close>



text \<open>
  C6: what the client hears is what the service said. Provided no sentence of the session was
  cancelled between writing the rate header and noting it, a client whose reader runs and that
  has no rate yet (connected afresh), decoding the frames one by one, never fails and queues
  exactly the events the frames stand for, in order, every chunk of audio intact and at the rate
  the session announced.
\<close>

theorem client_hears_the_session:
  assumes "s = fold (v2v_step cf) evs (new_v2v cf buf lim tok)" and "\<not> v_torn s"
    and "sl_reader c = ReaderRuns" and "sl_rate c = None"
  shows "sl_queue (fold (reader_message now) (map wire (v_frames s)) c) = sl_queue c @ hear None (v_frames s)"
proof -
  have "follows cf s" unfolding assms(1) by (rule v2v_protocol.run_inv [OF follows_new])
  then obtain p where p: "proto_run (vc_multi cf) (v_frames s) proto0 = Some p" using assms(2) by (auto simp: follows_def)
  show ?thesis using client_decodes [OF p assms(3)] assms(4) by (simp add: proto0_def)
qed

theorem client_hears_the_session_witness:
  "sl_queue (fold (reader_message 0) (map wire (v_frames (sample_session one_sentence))) (new_slv\<lparr>sl_reader := ReaderRuns\<rparr>))
   = [TTSStarted [104, 105], TTSAudio [1, 2] 16000, TTSSentenceDone [104, 105], TTSDone True]"
proof -
  let ?c = "new_slv\<lparr>sl_reader := ReaderRuns\<rparr>"
  have "sl_queue (fold (reader_message 0) (map wire (v_frames (sample_session one_sentence))) ?c)
      = sl_queue ?c @ hear None (v_frames (sample_session one_sentence))"
    using client_hears_the_session [OF refl one_sentence_runs(2) [unfolded sample_session_def], of ?c 0, folded sample_session_def]
    by (simp add: new_slv_def)
  then show ?thesis by (simp add: one_sentence_runs(1) new_slv_def event_of_def)
qed

text \<open>
  C20: the slot is held exactly as long as the connection. A connection that is turned away or
  fails while it opens gives its slot back at once; one that runs holds it until it is over, in
  every interleaving and whatever other connections do, and then has given it back. Once the
  dispatcher sees the client gone, the connection is over with its next step.
\<close>

theorem slot_held_while_open:
  assumes "tok \<in> live_tokens lim" and "v2v_open ow first tok lim = (out, lim1)"
  shows "case out of
      Running cf buf \<Rightarrow>
        (let s = fold (v2v_step cf) evs (new_v2v cf buf lim1 tok) in
          (tok \<in> live_tokens (v_limiter s) \<longleftrightarrow> \<not> v_over s) \<and>
          (v_dispatcher s = DReady \<and> w_msg w = None \<longrightarrow> v_over (v2v_step cf (Finishes, w') (v2v_step cf (Receives, w) s))))
    | _ \<Rightarrow> live_tokens lim1 = live_tokens lim - {tok}"
proof (cases "\<exists>cf buf. out = Running cf buf")
  case True
  then obtain cf buf where out: "out = Running cf buf" by blast
  then have lim1: "lim1 = lim" using open_slot [of tok lim ow first] assms(2) by (simp add: gives_back_def)
  have "slot_ok tok (new_v2v cf buf lim1 tok)"
    using assms(1) by (simp add: slot_ok_def new_v2v_def lim1) (simp add: live_tokens_def)
  then have ok: "slot_ok tok (fold (v2v_step cf) evs (new_v2v cf buf lim1 tok))" by (rule v2v_slot.run_inv)
  have gone: "v_over (v2v_step cf (Finishes, w') (v2v_step cf (Receives, w) s))" if "v_dispatcher s = DReady" "w_msg w = None" for s
    using that by (simp add: v2v_step_def receive_def on_disconnect_def finish_def teardown_def)
  show ?thesis using ok gone by (simp add: out slot_ok_def Let_def)
next
  case False
  then show ?thesis using open_slot [of tok lim ow first] assms(2) by (cases out) (simp_all add: gives_back_def)
qed

definition plain_opening :: opening_env where
  "plain_opening = \<lparr>ow_ok = (\<lambda>k. True), ow_numbers_ok = True, ow_asr_ready = False, ow_tts_ready = True, ow_vad = VadOff, ow_restart = True,
     ow_turn_timeout = 45000, ow_environ = (\<lambda>k. if k = ''OVS_TTS_LOW_LATENCY_CHUNKING'' then Some ''off'' else None), ow_pysbd = None\<rparr>"

theorem slot_held_while_open_witness:
  "fst (v2v_open plain_opening (FirstText (Obj [(''type'', JStr (u ''config'')), (''asr_language'', JStr (u ''zh''))])) 0 sample_limiter) = Refused 1011 \<and>
   live_tokens (snd (v2v_open plain_opening (FirstText (Obj [(''type'', JStr (u ''config'')), (''asr_language'', JStr (u ''zh''))])) 0 sample_limiter)) = {}"
proof -
  let ?first = "FirstText (Obj [(''type'', JStr (u ''config'')), (''asr_language'', JStr (u ''zh''))])"
  obtain out lim1 where o: "v2v_open plain_opening ?first 0 sample_limiter = (out, lim1)" by fastforce
  have "fst (v2v_open plain_opening ?first 0 sample_limiter) = Refused 1011"
    by (simp add: v2v_open_def v2v_configure_def plain_opening_def has_type_def client_config_def truthy_field_def refuse_def leave_open_def Let_def u_def)
  then have out: "out = Refused 1011" using o by simp
  have live: "live_tokens sample_limiter = {0}" by (auto simp: live_tokens_def sample_limiter_def)
  then have "live_tokens lim1 = {}" using slot_held_while_open [OF _ o] out by simp
  then show ?thesis using o out by simp
qed

section \<open>Where the service departs from its documentation\<close>

text \<open>
  An abort stops the sentence being spoken and drops the queued ones, but not the text still in
  the sentence buffer. The agent counts on its being dropped; here the next reply is spoken
  with the rest of the aborted one in front.
\<close>

lemma abort_keeps_buffered_text:
  assumes "w_msg w = Some (typed client_abort [])" and "v_dispatcher s = DReady" and "\<not> v_over s"
  shows "v_buffer (v2v_step cf (Receives, w) s) = v_buffer s" "v_tts_q (v2v_step cf (Receives, w) s) = []"
  using assms by (simp_all add: v2v_step_def receive_def on_control_def typed_def has_type_def client_abort_def client_text_def
      client_tts_flush_def client_asr_eos_def u_inject dispatcher_top_def cancel_sentence_def Let_def)

text \<open>A VAD onset stops the sentence in flight but leaves the queue: the task goes on with the
  next sentence while the user speaks.\<close>

lemma onset_keeps_the_queue:
  assumes "v_dispatcher s = DStart True" and "in_sentence (v_tts s)" and "\<not> v_over s"
  shows "v_tts_q (v2v_step cf (DispatcherRuns, w) s) = v_tts_q s" "v_tts (v2v_step cf (DispatcherRuns, w) s) = TTop"
  using assms by (simp_all add: v2v_step_def dispatch_run_def start_utterance_def cancel_sentence_def clear_endpoint_def Let_def
      split: option.split prod.split)

text \<open>A sentence that is given up while the rate header is being written leaves it unnoted: the next
  sentence writes it again, and the client takes it for audio.\<close>

lemma header_written_twice:
  assumes "v_tts s = THeader t" and "\<not> v_header_sent s" and "v_tts_q s = t' # ts" and "v_link s" and "\<not> v_client_closed s" and "\<not> v_over s"
  shows "v_frames (fold (v2v_step cf) [(DeadlineHits, calm), (TtsRuns, calm), (TtsRuns, calm)] s)
    = v_frames s @ [ErrorFrame SentenceDeadline, RateFrame 16000]"
  using assms by (simp add: v2v_step_def sentence_deadline_def in_sentence_def cancel_sentence_def send_def tts_run_def tts_top_def
      open_sentence_def calm_def pack_u32_def)

text \<open>An endpoint latched before an abort survives it, and is answered by an empty final transcript.\<close>

lemma final_after_abort:
  assumes "v_dispatcher s = DAbort" and "v_endpoint s = Some EndEos" and "v_endpoint_gen s = Some (v_active_gen s)"
    and "v_asr s = ATop" and "v_link s" and "\<not> v_client_closed s" and "\<not> v_over s" and "\<not> v_session_closed s"
  shows "v_frames (fold (v2v_step cf) [(DispatcherRuns, calm), (AsrRuns, calm), (AsrRuns, calm), (AsrRuns, calm)] s)
    = v_frames s @ [FinalFrame [] (if vc_multi cf then Some (False, None) else None) None]"
  using assms by (simp add: v2v_step_def dispatch_run_def dispatcher_top_def asr_run_def asr_top_def check_endpoint_def
      drop_stale_endpoint_def clear_endpoint_def begin_finalize_def emit_final_def send_def calm_def Let_def)

text \<open>In a multi-utterance session nothing ever closes the recogniser, an \<open>asr_eos\<close> of the client
  included: no final transcript carries \<open>session_complete\<close> true.\<close>

lemma multi_utterance_never_closes:
  assumes "vc_multi cf"
  shows "\<not> v_session_closed (fold (v2v_step cf) evs (new_v2v cf buf lim tok))"
  using v2v_protocol.run_inv [OF follows_new, of cf evs buf lim tok] assms by (simp add: follows_def)

text \<open>
  The dispatcher is not waited for: a text frame that is JSON but no object (or, with ASR, a
  binary frame of odd length) ends it with an exception nobody looks at, and a connection whose
  tasks wait for the client then never ends by itself. It keeps its slot.
\<close>

definition stranded :: "v2v \<Rightarrow> bool" where
  "stranded s = (v_dispatcher s = DDead \<and> v_tts s = TTop \<and> v_tts_q s = [] \<and> \<not> v_flush s \<and> \<not> v_failed s \<and> \<not> v_client_closed s
     \<and> v_asr s = AOver \<and> \<not> v_over s)"

lemma stranded_step: "stranded s \<Longrightarrow> fst e \<noteq> HandlerCancelled \<Longrightarrow> stranded (v2v_step cf e s)"
  by (cases e; cases "fst e")
     (auto simp: stranded_def v2v_step_def receive_def dispatch_run_def asr_run_def tts_run_def tts_top_def sentence_deadline_def in_sentence_def
      finish_def others_step_def split: limiter_event.split)

lemma bad_frame_keeps_the_slot:
  assumes "\<forall>e\<in>set evs. fst e \<noteq> HandlerCancelled"
  shows "\<not> v_over (sample_session (says (Text NonObject) # evs))"
proof -
  have start: "stranded (v2v_step tts_config (says (Text NonObject)) (new_v2v tts_config (Some sample_buffer) sample_limiter 0))"
    by (simp add: stranded_def v2v_step_def says_def receive_def new_v2v_def tts_config_def calm_def)
  have "stranded s \<Longrightarrow> stranded (fold (v2v_step tts_config) evs s)" for s
    using assms by (induction evs arbitrary: s) (auto intro: stranded_step)
  from this [OF start] show ?thesis by (simp add: sample_session_def stranded_def)
qed

end
