(* ===== verification/Base64.thy ===== *)
theory Base64
  imports Prelude "HOL-Library.Word"
begin

text \<open>
  What the service uses of Python's \<open>base64\<close> (3.10): \<open>b64encode\<close>, the lenient \<open>b64decode\<close>, which
  skips characters outside the alphabet and stops at a full padding, and
  \<open>b64decode(validate=True)\<close>, which first matches the text against
  \<open>[A-Za-z0-9+/]*={0,2}\<close>. Text is code points; \<open>None\<close> is the exception. Decoding is CPython's
  automaton: the position in the quadruple, the bits left over from the last character, and
  the number of padding characters seen.
\<close>

section \<open>The alphabet\<close>

definition b64_char :: "nat \<Rightarrow> nat" where
  "b64_char n = (if n < 26 then 65 + n else if n < 52 then 71 + n else if n < 62 then n - 4 else if n = 62 then 43 else 47)"

definition b64_val :: "nat \<Rightarrow> nat option" where
  "b64_val x =
     (if 65 \<le> x \<and> x \<le> 90 then Some (x - 65) else if 97 \<le> x \<and> x \<le> 122 then Some (x - 71)
      else if 48 \<le> x \<and> x \<le> 57 then Some (x + 4) else if x = 43 then Some 62 else if x = 47 then Some 63 else None)"

definition b64_pad :: nat where "b64_pad = 61"

lemma b64_val_char [simp]: "n < 64 \<Longrightarrow> b64_val (b64_char n) = Some n"
  by (auto simp: b64_val_def b64_char_def)

lemma b64_char_not_pad [simp]: "b64_char n \<noteq> b64_pad" "b64_pad \<noteq> b64_char n"
  by (auto simp: b64_char_def b64_pad_def)

lemma b64_char_ascii [simp]: "n < 64 \<Longrightarrow> b64_char n < 128"
  by (auto simp: b64_char_def)

section \<open>Encoding and decoding\<close>

fun b64encode :: "8 word list \<Rightarrow> ustr" where
  "b64encode [] = []"
| "b64encode [a] = [b64_char (unat a div 4), b64_char (unat a mod 4 * 16), b64_pad, b64_pad]"
| "b64encode [a, b] =
     [b64_char (unat a div 4), b64_char (unat a mod 4 * 16 + unat b div 16), b64_char (unat b mod 16 * 4), b64_pad]"
| "b64encode (a # b # c # r) =
     b64_char (unat a div 4) # b64_char (unat a mod 4 * 16 + unat b div 16) #
     b64_char (unat b mod 16 * 4 + unat c div 64) # b64_char (unat c mod 64) # b64encode r"

fun a2b_base64 :: "nat \<Rightarrow> nat \<Rightarrow> nat \<Rightarrow> ustr \<Rightarrow> 8 word list option" where
  "a2b_base64 quad left pads [] = (if quad = 0 then Some [] else None)"
| "a2b_base64 quad left pads (x # xs) =
     (if x = b64_pad then
        (if quad \<ge> 2 then (if quad + (pads + 1) \<ge> 4 then Some [] else a2b_base64 quad left (pads + 1) xs)
         else a2b_base64 quad left pads xs)
      else (case b64_val x of
              None \<Rightarrow> a2b_base64 quad left pads xs
            | Some v \<Rightarrow>
                if quad = 0 then a2b_base64 1 v 0 xs
                else if quad = 1 then map_option ((#) (word_of_nat (left * 4 + v div 16))) (a2b_base64 2 (v mod 16) 0 xs)
                else if quad = 2 then map_option ((#) (word_of_nat (left * 16 + v div 4))) (a2b_base64 3 (v mod 4) 0 xs)
                else map_option ((#) (word_of_nat (left * 64 + v))) (a2b_base64 0 0 0 xs)))"

definition b64decode :: "ustr \<Rightarrow> 8 word list option" where
  "b64decode s = (if list_all (\<lambda>x. x < 128) s then a2b_base64 0 0 0 s else None)"

definition b64decode_validate :: "ustr \<Rightarrow> 8 word list option" where
  "b64decode_validate s =
     (if dropWhile (\<lambda>x. b64_val x \<noteq> None) s \<in> {[], [b64_pad], [b64_pad, b64_pad]} then b64decode s else None)"

section \<open>Round trips\<close>

lemma unat_byte_less [simp]: "unat (a :: 8 word) < 256"
  using unsigned_less [of a] by simp

lemma sextet_bounds [simp]:
  "unat (a :: 8 word) div 4 < 64" "unat a mod 4 * 16 < 64" "unat a mod 16 * 4 < 64"
  "unat a mod 4 * 16 + unat (b :: 8 word) div 16 < 64" "unat a mod 16 * 4 + unat b div 64 < 64"
  using unat_byte_less [of a] unat_byte_less [of b] by linarith+

lemma nibbles [simp]:
  "unat (a :: 8 word) div 16 div 16 = 0" "unat a div 16 mod 16 = unat a div 16"
  "unat a div 64 div 4 = 0" "unat a div 64 mod 4 = unat a div 64"
  using unat_byte_less [of a] by (simp_all add: div_mult2_eq [symmetric] less_mult_imp_div_less)

lemma a2b_encode: "a2b_base64 0 0 0 (b64encode bs) = Some bs"
  by (induction bs rule: b64encode.induct) simp_all

lemma encode_ascii: "list_all (\<lambda>x. x < 128) (b64encode bs)"
  by (induction bs rule: b64encode.induct) (simp_all add: b64_pad_def)

lemma encode_alphabet: "dropWhile (\<lambda>x. b64_val x \<noteq> None) (b64encode bs) \<in> {[], [b64_pad], [b64_pad, b64_pad]}"
proof (induction bs rule: b64encode.induct)
qed (simp_all add: b64_val_def [of b64_pad] b64_pad_def)

lemma b64_roundtrip [simp]: "b64decode (b64encode bs) = Some bs" "b64decode_validate (b64encode bs) = Some bs"
  using encode_alphabet [of bs] by (simp_all add: b64decode_validate_def b64decode_def a2b_encode encode_ascii)

lemma length_b64encode: "length (b64encode bs) = 4 * ((length bs + 2) div 3)"
proof (induction bs rule: b64encode.induct)
  case (4 a b c r)
  have "(length (a # b # c # r) + 2) div 3 = (length r + 2) div 3 + 1" by simp
  then show ?case using 4 by simp
qed simp_all

lemma b64decode_validate_Some: "b64decode_validate s = Some bs \<Longrightarrow> b64decode s = Some bs"
  by (simp add: b64decode_validate_def split: if_splits)

end
