(* ===== verification/Tts_Speakers.thy ===== *)
theory Tts_Speakers
  imports Base64 "HOL-Library.AList" "HOL-Library.List_Lexorder" "HOL-Library.Char_ord"
begin

text \<open>
  The registry of TTS voices (\<open>app/core/tts_speakers.py\<close>) and the endpoints that list, add and
  delete voices (\<open>app/main.py\<close>). A model's table is layered from the presets, the JSON file of
  registered voices and the overrides of the environment, and cached. The state is the file,
  the cache and the overrides parsed at import. The file holds what the code writes, an object
  of objects (or is missing, or unreadable); the entries inside may be any JSON. \<open>str()\<close> of a
  list or object is given (\<open>ts_repr\<close>); model ids and keys are ASCII. A write may fail.
\<close>

section \<open>Data\<close>

text \<open>A JSON value; a float is given by its \<open>str\<close>, its truth and its \<open>int()\<close>.\<close>

datatype json =
    VNull
  | VBool bool
  | VInt int
  | VFloat ustr bool "int option"
  | VStr ustr
  | VList "json list"
  | VObj "(string \<times> json) list"

type_synonym fields = "(string \<times> json) list"

fun json_str :: "(json \<Rightarrow> ustr) \<Rightarrow> json \<Rightarrow> ustr" where
  "json_str repr VNull = u ''None''"
| "json_str repr (VBool b) = (if b then u ''True'' else u ''False'')"
| "json_str repr (VInt i) = u (int_str i)"
| "json_str repr (VFloat t _ _) = t"
| "json_str repr (VStr t) = t"
| "json_str repr v = repr v"

fun json_truthy :: "json \<Rightarrow> bool" where
  "json_truthy VNull = False"
| "json_truthy (VBool b) = b"
| "json_truthy (VInt i) = (i \<noteq> 0)"
| "json_truthy (VFloat _ b _) = b"
| "json_truthy (VStr t) = (t \<noteq> [])"
| "json_truthy (VList xs) = (xs \<noteq> [])"
| "json_truthy (VObj fs) = (fs \<noteq> [])"

fun json_int :: "json \<Rightarrow> int option" where
  "json_int (VBool b) = Some (if b then 1 else 0)"
| "json_int (VInt i) = Some i"
| "json_int (VFloat _ _ i) = i"
| "json_int (VStr t) = (if list_all (\<lambda>x. x < 128) t then py_int (map char_of t) else None)"
| "json_int _ = None"

definition field :: "fields \<Rightarrow> string \<Rightarrow> json \<Rightarrow> json" where
  "field d k other = (case map_of d k of None \<Rightarrow> other | Some v \<Rightarrow> v)"

datatype speaker_type = Preset | Embedding

record speaker_spec =
  sp_id :: int
  sp_type :: speaker_type
  sp_label :: ustr
  sp_payload :: ustr
  sp_meta :: json

type_synonym speaker_table = "(int \<times> speaker_spec) list"

text \<open>Every error but the last is a \<open>ValueError\<close>.\<close>

datatype speaker_error =
    BadKey string
  | BadId
  | MissingEmbedding int
  | UnsupportedType int
  | UnknownSpeaker int
  | EmptyPayload int
  | BadBase64
  | PayloadTooLarge
  | NotFloat32
  | NoEmbedding
  | PresetProtected int
  | CloneUnsupported
  | WriteFailed

section \<open>Presets\<close>

definition preset_spec :: "int \<Rightarrow> string \<Rightarrow> string \<Rightarrow> speaker_spec" where
  "preset_spec i label payload = \<lparr>sp_id = i, sp_type = Preset, sp_label = u label, sp_payload = u payload, sp_meta = VNull\<rparr>"

definition qwen3_presets :: speaker_table where
  "qwen3_presets =
     [(0, preset_spec 0 ''Default'' []),
      (2301, preset_spec 2301 ''Female 1'' ''2301''),
      (2302, preset_spec 2302 ''Female 2'' ''2302'')]"

definition qwen3_customvoice_presets :: speaker_table where
  "qwen3_customvoice_presets =
     map (\<lambda>(sid, label). (sid, preset_spec sid label (int_str sid)))
       [(3065, ''vivian''), (3061, ''ryan''), (2861, ''aiden''), (3066, ''serena''), (2878, ''dylan''),
        (2875, ''eric''), (3010, ''uncle_fu''), (2873, ''ono_anna''), (2864, ''sohee'')]"

definition kokoro_labels :: "string list" where
  "kokoro_labels =
     [''af_heart'', ''af_bella'', ''af_nicole'', ''af_aoede'', ''af_kore'', ''af_sarah'', ''af_nova'', ''af_sky'',
      ''af_alloy'', ''af_jessica'', ''af_river'', ''af_miley'', ''af_seraph'', ''af_eve'',
      ''am_adam'', ''am_echo'', ''am_eric'', ''am_fenrir'', ''am_liam'', ''am_michael'', ''am_onyx'', ''am_puck'', ''am_santa'',
      ''bf_alice'', ''bf_emma'', ''bf_isabella'', ''bf_lily'', ''bm_daniel'', ''bm_fable'', ''bm_george'', ''bm_lewis'',
      ''ef_dora'', ''em_alex'', ''ff_siwis'', ''hf_alpha'', ''hf_beta'', ''hm_omega'', ''hm_psi'', ''if_irina'', ''im_nikolai'',
      ''jf_alpha'', ''jf_nezumi'', ''jf_gorudo'', ''jm_fLEMING'', ''pf_dora'', ''pm_alex'', ''pm_santa'',
      ''zf_xiaobei'', ''zf_xiaoni'', ''zf_xiaoxiao'', ''zf_xiaoyi'', ''zm_yunyang'', ''zm_yunxi'']"

definition kokoro_presets :: speaker_table where
  "kokoro_presets =
     map (\<lambda>i. (int i, preset_spec (int i) (kokoro_labels ! i) (int_str (int i)))) [0..<length kokoro_labels]"

definition single_speaker :: speaker_table where
  "single_speaker = [(0, preset_spec 0 ''Default'' ''0'')]"

definition presets :: "string \<Rightarrow> speaker_table" where
  "presets model =
     (if model = ''qwen3-tts'' then qwen3_presets
      else if model = ''qwen3-tts-customvoice'' then qwen3_customvoice_presets
      else if model = ''kokoro-multi-lang-v1_0'' then kokoro_presets
      else if model \<in> set [''matcha-icefall-zh-en'', ''matcha-icefall-zh-en.rknn'', ''sherpa''] then single_speaker
      else [])"

section \<open>Parsing entries\<close>

definition first_truthy :: "json list \<Rightarrow> json" where
  "first_truthy vs = (case filter json_truthy vs of [] \<Rightarrow> VStr [] | v # _ \<Rightarrow> v)"

definition parse_speaker_entry :: "(json \<Rightarrow> ustr) \<Rightarrow> int \<Rightarrow> json \<Rightarrow> speaker_error + speaker_spec" where
  "parse_speaker_entry repr sid v =
     (case v of
        VObj d \<Rightarrow>
          (let typ = ascii_lower (ustrip (json_str repr (field d ''type'' (VStr (u ''preset'')))));
               label = json_str repr (field d ''label'' (field d ''name'' (VStr []))) in
           if typ = u ''embedding'' then
             (let payload = json_str repr (first_truthy [field d ''speaker_embedding_b64'' VNull, field d ''payload'' VNull,
                                                         field d ''embedding_b64'' VNull]) in
              if payload = [] then Inl (MissingEmbedding sid)
              else Inr \<lparr>sp_id = sid, sp_type = Embedding, sp_label = label, sp_payload = payload, sp_meta = field d ''meta'' VNull\<rparr>)
           else if typ \<noteq> u ''preset'' then Inl (UnsupportedType sid)
           else Inr \<lparr>sp_id = sid, sp_type = Preset, sp_label = label,
                      sp_payload = json_str repr (field d ''speaker'' (field d ''name'' (VStr []))), sp_meta = VNull\<rparr>)
      | _ \<Rightarrow> Inr \<lparr>sp_id = sid, sp_type = Preset, sp_label = json_str repr v, sp_payload = json_str repr v, sp_meta = VNull\<rparr>)"

text \<open>\<open>OVS_TTS_SPEAKERS_JSON\<close>, read once at import: unset or empty, not JSON, or a document.\<close>

datatype overrides_var = NotSet | NotJson | Document json

fun override_items :: "fields \<Rightarrow> (int \<times> json) list \<Rightarrow> speaker_error + (int \<times> json) list" where
  "override_items [] acc = Inr acc"
| "override_items ((k, v) # d) acc =
     (case py_int k of None \<Rightarrow> Inl (BadKey k) | Some i \<Rightarrow> override_items d (AList.update i v acc))"

fun override_elements :: "json list \<Rightarrow> (int \<times> json) list \<Rightarrow> speaker_error + (int \<times> json) list" where
  "override_elements [] acc = Inr acc"
| "override_elements (v # vs) acc =
     (case v of
        VObj d \<Rightarrow>
          (case map_of d ''id'' of
             None \<Rightarrow> override_elements vs acc
           | Some i \<Rightarrow> (case json_int i of None \<Rightarrow> Inl BadId | Some sid \<Rightarrow> override_elements vs (AList.update sid v acc)))
      | _ \<Rightarrow> override_elements vs acc)"

fun parse_all :: "(json \<Rightarrow> ustr) \<Rightarrow> (int \<times> json) list \<Rightarrow> speaker_error + speaker_table" where
  "parse_all repr [] = Inr []"
| "parse_all repr ((sid, v) # es) =
     (case parse_speaker_entry repr sid v of
        Inl e \<Rightarrow> Inl e
      | Inr spec \<Rightarrow> (case parse_all repr es of Inl e \<Rightarrow> Inl e | Inr t \<Rightarrow> Inr ((sid, spec) # t)))"

definition env_overrides :: "(json \<Rightarrow> ustr) \<Rightarrow> overrides_var \<Rightarrow> speaker_error + speaker_table" where
  "env_overrides repr raw =
     (let items = (case raw of Document (VObj d) \<Rightarrow> override_items d []
                   | Document (VList vs) \<Rightarrow> override_elements vs []
                   | _ \<Rightarrow> Inr [])
      in case items of Inl e \<Rightarrow> Inl e | Inr es \<Rightarrow> parse_all repr es)"

section \<open>The table of a model, and its cache\<close>

datatype speakers_file = NoFile | Unreadable | Holds "(string \<times> fields) list"

record tts_store =
  ts_file :: speakers_file
  ts_cache :: "(string \<times> speaker_table) list"
  ts_overrides :: speaker_table
  ts_env :: "string \<rightharpoonup> string"
  ts_repr :: "json \<Rightarrow> ustr"

definition entries :: "(string \<times> fields) list \<Rightarrow> string \<Rightarrow> fields" where
  "entries d model = (case map_of d model of None \<Rightarrow> [] | Some es \<Rightarrow> es)"

fun put_entries :: "(json \<Rightarrow> ustr) \<Rightarrow> fields \<Rightarrow> speaker_table \<Rightarrow> speaker_error + speaker_table" where
  "put_entries repr [] t = Inr t"
| "put_entries repr ((k, v) # es) t =
     (case py_int k of
        None \<Rightarrow> Inl (BadKey k)
      | Some sid \<Rightarrow>
          (case parse_speaker_entry repr sid v of
             Inl e \<Rightarrow> Inl e
           | Inr spec \<Rightarrow> put_entries repr es (AList.update sid spec t)))"

definition load_file_speakers :: "tts_store \<Rightarrow> string \<Rightarrow> speaker_table \<Rightarrow> speaker_error + speaker_table" where
  "load_file_speakers st model t =
     (case ts_file st of Holds d \<Rightarrow> put_entries (ts_repr st) (entries d model) t | _ \<Rightarrow> Inr t)"

definition put_table :: "speaker_table \<Rightarrow> speaker_table \<Rightarrow> speaker_table" where
  "put_table news t = fold (\<lambda>(sid, spec). AList.update sid spec) news t"

text \<open>\<open>_load_speaker_map\<close> is cut between reading the layers and storing the result: the cache's
  lock is not held across the read.\<close>

definition read_layers :: "string \<Rightarrow> tts_store \<Rightarrow> speaker_error + speaker_table" where
  "read_layers model st =
     (case load_file_speakers st model (presets model) of Inl e \<Rightarrow> Inl e | Inr t \<Rightarrow> Inr (put_table (ts_overrides st) t))"

definition store_table :: "string \<Rightarrow> speaker_table \<Rightarrow> tts_store \<Rightarrow> tts_store" where
  "store_table model t st = st\<lparr>ts_cache := AList.update model t (ts_cache st)\<rparr>"

definition load_speaker_map :: "string \<Rightarrow> tts_store \<Rightarrow> (speaker_error + speaker_table) \<times> tts_store" where
  "load_speaker_map model st =
     (case map_of (ts_cache st) model of
        Some t \<Rightarrow> (Inr t, st)
      | None \<Rightarrow> (case read_layers model st of Inl e \<Rightarrow> (Inl e, st) | Inr t \<Rightarrow> (Inr t, store_table model t st)))"

definition invalidate_cache :: "string option \<Rightarrow> tts_store \<Rightarrow> tts_store" where
  "invalidate_cache model st =
     st\<lparr>ts_cache := (case model of None \<Rightarrow> [] | Some m \<Rightarrow> AList.delete m (ts_cache st))\<rparr>"

definition reload_speakers :: "tts_store \<Rightarrow> tts_store" where
  "reload_speakers st = invalidate_cache None st"

section \<open>Queries\<close>

definition unmapped_allowed :: "tts_store \<Rightarrow> bool" where
  "unmapped_allowed st =
     (py_lower (case ts_env st ''OVS_TTS_ALLOW_UNMAPPED_SPEAKER_ID'' of None \<Rightarrow> ''1'' | Some v \<Rightarrow> v)
        \<notin> set [''0'', ''false'', ''no'', ''off''])"

definition speaker_spec_for_id :: "int option \<Rightarrow> string \<Rightarrow> tts_store \<Rightarrow> (speaker_error + speaker_spec option) \<times> tts_store" where
  "speaker_spec_for_id speaker model st =
     (case speaker of
        None \<Rightarrow> (Inr None, st)
      | Some sid \<Rightarrow>
          (case load_speaker_map model st of
             (Inl e, st1) \<Rightarrow> (Inl e, st1)
           | (Inr t, st1) \<Rightarrow>
               (case map_of t sid of
                  Some spec \<Rightarrow> (Inr (Some spec), st1)
                | None \<Rightarrow>
                    if \<not> unmapped_allowed st1 then (Inl (UnknownSpeaker sid), st1)
                    else (Inr (Some (preset_spec sid (int_str sid) (int_str sid))), st1))))"

datatype voice = NoVoice | PresetVoice int ustr | CloneVoice int "8 word list" | DirectVoice "8 word list"

definition speaker_embedding_bytes :: "speaker_spec \<Rightarrow> speaker_error + 8 word list" where
  "speaker_embedding_bytes spec =
     (if sp_payload spec = [] then Inl (EmptyPayload (sp_id spec))
      else case b64decode (sp_payload spec) of None \<Rightarrow> Inl BadBase64 | Some bs \<Rightarrow> Inr bs)"

definition voice_of_spec :: "speaker_spec option \<Rightarrow> speaker_error + voice" where
  "voice_of_spec s =
     (case s of
        None \<Rightarrow> Inr NoVoice
      | Some spec \<Rightarrow>
          (case sp_type spec of
             Embedding \<Rightarrow> (case speaker_embedding_bytes spec of Inl e \<Rightarrow> Inl e | Inr bs \<Rightarrow> Inr (CloneVoice (sp_id spec) bs))
           | Preset \<Rightarrow> Inr (PresetVoice (sp_id spec) (sp_payload spec))))"

definition speaker_kwargs_for_id :: "int option \<Rightarrow> string \<Rightarrow> tts_store \<Rightarrow> (speaker_error + voice) \<times> tts_store" where
  "speaker_kwargs_for_id speaker model st =
     (case speaker_spec_for_id speaker model st of
        (Inl e, st1) \<Rightarrow> (Inl e, st1)
      | (Inr s, st1) \<Rightarrow> (voice_of_spec s, st1))"

text \<open>\<open>os.environ.get(a) or os.environ.get(b)\<close>.\<close>

definition env_or :: "(string \<rightharpoonup> string) \<Rightarrow> string \<Rightarrow> string \<Rightarrow> string option" where
  "env_or e a b = (case e a of Some (c # cs) \<Rightarrow> Some (c # cs) | _ \<Rightarrow> e b)"

definition default_speaker_id :: "string \<Rightarrow> tts_store \<Rightarrow> int \<times> tts_store" where
  "default_speaker_id model st =
     (case env_or (ts_env st) ''OVS_TTS_DEFAULT_SPEAKER_ID'' ''TTS_DEFAULT_SID'' of
        None \<Rightarrow> (0, st)
      | Some raw \<Rightarrow>
          (case py_int raw of
             None \<Rightarrow> (0, st)
           | Some sid \<Rightarrow>
               (case speaker_spec_for_id (Some sid) model st of
                  (Inr (Some _), st1) \<Rightarrow> (sid, st1)
                | (_, st1) \<Rightarrow> (0, st1))))"

datatype listed = ListedPreset int ustr ustr | ListedEmbedding int ustr ustr "json option"

definition list_speaker :: "int \<times> speaker_spec \<Rightarrow> listed" where
  "list_speaker e =
     (case e of (sid, spec) \<Rightarrow>
        (case sp_type spec of
           Preset \<Rightarrow> ListedPreset sid (sp_label spec) (sp_payload spec)
         | Embedding \<Rightarrow>
             ListedEmbedding sid (sp_label spec)
               (if length (sp_payload spec) > 40 then take 40 (sp_payload spec) @ u ''...'' else sp_payload spec)
               (if json_truthy (sp_meta spec) then Some (sp_meta spec) else None)))"

definition available_speakers :: "string \<Rightarrow> tts_store \<Rightarrow> (speaker_error + listed list) \<times> tts_store" where
  "available_speakers model st =
     (case load_speaker_map model st of
        (Inl e, st1) \<Rightarrow> (Inl e, st1)
      | (Inr t, st1) \<Rightarrow> (Inr (map list_speaker (sort_key fst t)), st1))"

section \<open>Registering and deleting\<close>

definition validate_embedding_payload :: "ustr \<Rightarrow> speaker_error option" where
  "validate_embedding_payload payload =
     (if length payload > 4 * 1024 * 2 then Some PayloadTooLarge
      else case b64decode_validate payload of
             None \<Rightarrow> Some BadBase64
           | Some emb \<Rightarrow>
               if length emb mod 4 \<noteq> 0 then Some NotFloat32
               else if length emb = 0 then Some NoEmbedding
               else None)"

definition file_data :: "tts_store \<Rightarrow> (string \<times> fields) list" where
  "file_data st = (case ts_file st of Holds d \<Rightarrow> d | _ \<Rightarrow> [])"

text \<open>\<open>_atomic_write_json\<close>: the dump sorts the keys; a failed write leaves the file as it was.\<close>

definition atomic_write_json :: "bool \<Rightarrow> (string \<times> fields) list \<Rightarrow> tts_store \<Rightarrow> tts_store option" where
  "atomic_write_json ok d st =
     (if ok then Some (st\<lparr>ts_file := Holds (sort_key fst (map (\<lambda>(m, es). (m, sort_key fst es)) d))\<rparr>) else None)"

fun int_keys :: "string list \<Rightarrow> speaker_error + int list" where
  "int_keys [] = Inr []"
| "int_keys (k # ks) =
     (case py_int k of None \<Rightarrow> Inl (BadKey k)
      | Some i \<Rightarrow> (case int_keys ks of Inl e \<Rightarrow> Inl e | Inr is \<Rightarrow> Inr (i # is)))"

definition set_default :: "string \<Rightarrow> json \<Rightarrow> fields \<Rightarrow> fields" where
  "set_default k v d = (if map_of d k = None then d @ [(k, v)] else d)"

definition stored_entry :: "speaker_spec \<Rightarrow> json" where
  "stored_entry spec =
     VObj [(''type'', VStr (u ''embedding'')), (''label'', VStr (sp_label spec)),
           (''speaker_embedding_b64'', VStr (sp_payload spec)), (''meta'', sp_meta spec)]"

definition auto_id :: "int list \<Rightarrow> int" where
  "auto_id existing = max ((if existing = [] then 0 else Max (set existing)) + 1) 10000"

text \<open>The id a registration uses: \<open>Inl\<close> when the explicit one belongs to a preset. An explicit
  id in the file or the presets is looked up, which may fill the cache.\<close>

definition choose_id :: "string \<Rightarrow> int option \<Rightarrow> int list \<Rightarrow> tts_store \<Rightarrow> (speaker_error + int) \<times> tts_store" where
  "choose_id model wanted existing st =
     (case wanted of
        None \<Rightarrow> (Inr (auto_id existing), st)
      | Some sid \<Rightarrow>
          if sid \<notin> set existing then (Inr sid, st)
          else (case speaker_spec_for_id (Some sid) model st of
                  (Inl e, st1) \<Rightarrow> (Inl e, st1)
                | (Inr s, st1) \<Rightarrow>
                    (if (case s of None \<Rightarrow> False | Some spec \<Rightarrow> sp_type spec = Preset) then Inl (PresetProtected sid) else Inr sid, st1)))"

definition register_speaker ::
  "bool \<Rightarrow> ustr \<Rightarrow> string \<Rightarrow> ustr \<Rightarrow> ustr \<Rightarrow> fields \<Rightarrow> int option \<Rightarrow> tts_store \<Rightarrow> (speaker_error + speaker_spec) \<times> tts_store" where
  "register_speaker ok now model payload label meta wanted st =
     (case validate_embedding_payload payload of
        Some e \<Rightarrow> (Inl e, st)
      | None \<Rightarrow>
          (let meta' = set_default ''created'' (VStr now) (set_default ''model_id'' (VStr (u model)) meta); d = file_data st in
           case int_keys (map fst (entries d model)) of
             Inl e \<Rightarrow> (Inl e, st)
           | Inr ids \<Rightarrow>
               (case choose_id model wanted (map fst (presets model) @ ids) st of
                  (Inl e, st1) \<Rightarrow> (Inl e, st1)
                | (Inr sid, st1) \<Rightarrow>
                    (let spec = \<lparr>sp_id = sid, sp_type = Embedding, sp_label = (if label = [] then u (''voice-'' @ int_str sid) else label),
                                 sp_payload = payload, sp_meta = VObj meta'\<rparr>;
                         d' = AList.update model (AList.update (int_str sid) (stored_entry spec) (entries d model)) d
                     in case atomic_write_json ok d' st1 of
                          None \<Rightarrow> (Inl WriteFailed, st1)
                        | Some st2 \<Rightarrow> (Inr spec, invalidate_cache (Some model) st2)))))"

definition register_speaker_from_embedding ::
  "bool \<Rightarrow> ustr \<Rightarrow> string \<Rightarrow> 8 word list \<Rightarrow> ustr \<Rightarrow> fields \<Rightarrow> int option \<Rightarrow> tts_store
    \<Rightarrow> (speaker_error + speaker_spec) \<times> tts_store" where
  "register_speaker_from_embedding ok now model emb label meta wanted st =
     register_speaker ok now model (b64encode emb) label meta wanted st"

text \<open>Deleting an entry; an emptied model is removed with it.\<close>

definition without_entry :: "string \<Rightarrow> string \<Rightarrow> (string \<times> fields) list \<Rightarrow> (string \<times> fields) list" where
  "without_entry model k d =
     (let es = AList.delete k (entries d model) in if es = [] then AList.delete model d else AList.update model es d)"

definition unregister_speaker :: "bool \<Rightarrow> string \<Rightarrow> int \<Rightarrow> tts_store \<Rightarrow> (speaker_error + bool) \<times> tts_store" where
  "unregister_speaker ok model sid st =
     (case load_speaker_map model st of
        (Inl e, st1) \<Rightarrow> (Inl e, st1)
      | (Inr t, st1) \<Rightarrow>
          (case map_of t sid of
             None \<Rightarrow> (Inr False, st1)
           | Some spec \<Rightarrow>
               if sp_type spec \<noteq> Embedding then (Inl (PresetProtected sid), st1)
               else
                (let d = file_data st1;
                     written = (if map_of (entries d model) (int_str sid) = None then Some st1
                                else atomic_write_json ok (without_entry model (int_str sid) d) st1)
                 in case written of
                      None \<Rightarrow> (Inl WriteFailed, st1)
                    | Some st2 \<Rightarrow>
                        (Inr True,
                         case map_of (ts_cache st2) model of
                           None \<Rightarrow> st2
                         | Some t2 \<Rightarrow> store_table model (AList.delete sid t2) st2))))"

section \<open>What backends ask\<close>

definition resolve_speaker_kwargs ::
  "bool \<Rightarrow> 8 word list option \<Rightarrow> int option \<Rightarrow> string \<Rightarrow> tts_store \<Rightarrow> (speaker_error + voice) \<times> tts_store" where
  "resolve_speaker_kwargs allow_embedding emb speaker model st =
     (case emb of
        Some bs \<Rightarrow> if \<not> allow_embedding then (Inl CloneUnsupported, st) else (Inr (DirectVoice bs), st)
      | None \<Rightarrow>
          (case speaker of
             None \<Rightarrow> (Inr NoVoice, st)
           | Some sid \<Rightarrow>
               (case speaker_kwargs_for_id (Some sid) model st of
                  (Inl e, st1) \<Rightarrow> (Inl e, st1)
                | (Inr v, st1) \<Rightarrow>
                    (if \<not> allow_embedding \<and> (case v of CloneVoice _ bs \<Rightarrow> bs \<noteq> [] | _ \<Rightarrow> False)
                     then Inl CloneUnsupported else Inr v, st1))))"

section \<open>What the file and the cache keep\<close>

abbreviation override_ids :: "tts_store \<Rightarrow> int set" where
  "override_ids st \<equiv> fst ` set (ts_overrides st)"

text \<open>An entry as registration writes it, never on a preset's id unless the environment
  overrides that id.\<close>

definition good_entry :: "int set \<Rightarrow> string \<Rightarrow> string \<times> json \<Rightarrow> bool" where
  "good_entry ovs model e \<longleftrightarrow>
     (\<exists>spec bs. e = (int_str (sp_id spec), stored_entry spec) \<and> sp_type spec = Embedding \<and> sp_payload spec \<noteq> [] \<and>
        b64decode (sp_payload spec) = Some bs \<and> (sp_id spec \<in> fst ` set (presets model) \<longrightarrow> sp_id spec \<in> ovs))"

definition file_ok :: "tts_store \<Rightarrow> bool" where
  "file_ok st \<longleftrightarrow> ts_file st \<noteq> Unreadable \<and> distinct (map fst (file_data st)) \<and>
     (\<forall>m. distinct (map fst (entries (file_data st) m)) \<and>
          (\<forall>e \<in> set (entries (file_data st) m). good_entry (override_ids st) m e))"

text \<open>The voice an id stands for by the file and the presets.\<close>

definition voice_on_disk :: "tts_store \<Rightarrow> string \<Rightarrow> int \<Rightarrow> speaker_spec option" where
  "voice_on_disk st m sid =
     (case map_of (entries (file_data st) m) (int_str sid) of
        None \<Rightarrow> map_of (presets m) sid
      | Some v \<Rightarrow> (case parse_speaker_entry (ts_repr st) sid v of Inl _ \<Rightarrow> None | Inr spec \<Rightarrow> Some spec))"

definition cache_ok :: "tts_store \<Rightarrow> bool" where
  "cache_ok st \<longleftrightarrow>
     (\<forall>m t sid. map_of (ts_cache st) m = Some t \<longrightarrow> sid \<notin> override_ids st \<longrightarrow> map_of t sid = voice_on_disk st m sid)"

definition store_ok :: "tts_store \<Rightarrow> bool" where
  "store_ok st \<longleftrightarrow> file_ok st \<and> cache_ok st"

definition same_disk :: "tts_store \<Rightarrow> tts_store \<Rightarrow> bool" where
  "same_disk st st' \<longleftrightarrow> ts_file st' = ts_file st \<and> ts_overrides st' = ts_overrides st \<and> ts_env st' = ts_env st \<and> ts_repr st' = ts_repr st"

lemma same_disk_refl [simp]: "same_disk st st"
  by (simp add: same_disk_def)

lemma same_disk_trans: "same_disk a b \<Longrightarrow> same_disk b c \<Longrightarrow> same_disk a c"
  by (simp add: same_disk_def)

lemma same_disk_view: "same_disk st st' \<Longrightarrow> voice_on_disk st' m sid = voice_on_disk st m sid"
  by (simp add: same_disk_def voice_on_disk_def file_data_def cong: option.case_cong)

lemma same_disk_file_ok: "same_disk st st' \<Longrightarrow> file_ok st' = file_ok st"
  by (simp add: same_disk_def file_ok_def file_data_def)

lemma embedding_word [simp]: "ascii_lower (ustrip (u ''embedding'')) = u ''embedding''"
  by code_simp

lemma parse_stored [simp]:
  "sp_type spec = Embedding \<Longrightarrow> sp_payload spec \<noteq> [] \<Longrightarrow> parse_speaker_entry repr (sp_id spec) (stored_entry spec) = Inr spec"
  by (simp add: parse_speaker_entry_def stored_entry_def field_def first_truthy_def)

lemma parse_good:
  assumes "good_entry ovs m (int_str sid, v)"
  obtains spec bs where "parse_speaker_entry repr sid v = Inr spec" "sp_id spec = sid" "sp_type spec = Embedding"
    "sp_payload spec \<noteq> []" "b64decode (sp_payload spec) = Some bs" "sid \<in> fst ` set (presets m) \<longrightarrow> sid \<in> ovs"
proof -
  obtain spec bs where g: "(int_str sid, v) = (int_str (sp_id spec), stored_entry spec)" "sp_type spec = Embedding"
      "sp_payload spec \<noteq> []" "b64decode (sp_payload spec) = Some bs" "sp_id spec \<in> fst ` set (presets m) \<longrightarrow> sp_id spec \<in> ovs"
    using assms unfolding good_entry_def by blast
  then have sid: "sid = sp_id spec" and v: "v = stored_entry spec" by simp_all
  show thesis
    by (rule that [of spec bs]) (use g(2-5) in \<open>simp_all add: sid v\<close>)
qed

lemma put_entries_good:
  assumes "distinct (map fst es)" "\<forall>e \<in> set es. good_entry ovs m e"
  shows "\<exists>t'. put_entries repr es t = Inr t' \<and>
    (\<forall>sid. map_of t' sid = (case map_of es (int_str sid) of None \<Rightarrow> map_of t sid
        | Some v \<Rightarrow> (case parse_speaker_entry repr sid v of Inl _ \<Rightarrow> None | Inr spec \<Rightarrow> Some spec)))"
  using assms
proof (induction es arbitrary: t)
  case (Cons e es)
  obtain spec bs where e: "e = (int_str (sp_id spec), stored_entry spec)" "sp_type spec = Embedding" "sp_payload spec \<noteq> []"
    using Cons.prems(2) by (auto simp: good_entry_def)
  have fresh: "map_of es (int_str (sp_id spec)) = None" using Cons.prems(1) e(1) by (simp add: map_of_eq_None_iff)
  obtain t' where t': "put_entries repr es (AList.update (sp_id spec) spec t) = Inr t'"
      "\<forall>sid. map_of t' sid = (case map_of es (int_str sid) of None \<Rightarrow> map_of (AList.update (sp_id spec) spec t) sid
         | Some v \<Rightarrow> (case parse_speaker_entry repr sid v of Inl _ \<Rightarrow> None | Inr spec \<Rightarrow> Some spec))"
    using Cons.IH [of "AList.update (sp_id spec) spec t"] Cons.prems by auto
  then show ?case using e fresh by (auto simp: update_conv' split: option.splits)
qed simp

lemma put_table_other: "sid \<notin> fst ` set news \<Longrightarrow> map_of (put_table news t) sid = map_of t sid"
  unfolding put_table_def by (induction news arbitrary: t) (auto simp: update_conv')

lemma read_layers_ok:
  assumes "file_ok st"
  shows "\<exists>t. read_layers m st = Inr t \<and> (\<forall>sid. sid \<notin> override_ids st \<longrightarrow> map_of t sid = voice_on_disk st m sid)"
proof -
  have f: "distinct (map fst (entries (file_data st) m))" "\<forall>e \<in> set (entries (file_data st) m). good_entry (override_ids st) m e"
    using assms by (auto simp: file_ok_def)
  obtain t where t: "put_entries (ts_repr st) (entries (file_data st) m) (presets m) = Inr t"
      "\<forall>sid. map_of t sid = voice_on_disk st m sid"
    using put_entries_good [OF f, of "ts_repr st" "presets m"] by (auto simp: voice_on_disk_def)
  have "load_file_speakers st m (presets m) = Inr t"
    using t(1) by (auto simp: load_file_speakers_def file_data_def entries_def split: speakers_file.splits)
  then show ?thesis using t(2) by (simp add: read_layers_def put_table_other)
qed

lemma load_ok:
  assumes "store_ok st"
  obtains t st' where "load_speaker_map m st = (Inr t, st')" "store_ok st'" "same_disk st st'"
    "\<And>sid. sid \<notin> override_ids st \<Longrightarrow> map_of t sid = voice_on_disk st m sid" "map_of (ts_cache st') m = Some t"
proof (cases "map_of (ts_cache st) m")
  case (Some t)
  show thesis
  proof (rule that)
    show "load_speaker_map m st = (Inr t, st)" using Some by (simp add: load_speaker_map_def)
    show "\<And>sid. sid \<notin> override_ids st \<Longrightarrow> map_of t sid = voice_on_disk st m sid"
      using assms Some by (auto simp: store_ok_def cache_ok_def)
  qed (use assms Some in simp_all)
next
  case None
  obtain t where t: "read_layers m st = Inr t" "\<forall>sid. sid \<notin> override_ids st \<longrightarrow> map_of t sid = voice_on_disk st m sid"
    using read_layers_ok [of st m] assms by (auto simp: store_ok_def)
  let ?st' = "store_table m t st"
  have d: "same_disk st ?st'" by (simp add: same_disk_def store_table_def)
  have "cache_ok ?st'"
    using assms t(2) same_disk_view [OF d] by (auto simp: store_ok_def cache_ok_def store_table_def update_conv')
  then show thesis
    using that [of t ?st'] None t d assms same_disk_file_ok [OF d]
    by (auto simp: load_speaker_map_def store_ok_def store_table_def update_conv')
qed

section \<open>What the operations keep\<close>

lemma map_of_sort_fst [simp]: "distinct (map fst xs) \<Longrightarrow> map_of (sort_key fst xs) k = map_of xs (k :: 'k :: linorder)"
proof -
  assume d: "distinct (map fst xs)"
  have "distinct (map fst (sort_key fst xs))" using d by (simp add: distinct_map)
  then show ?thesis using d by (metis map_of_eq_Some_iff map_of_eq_None_iff not_None_eq set_sort image_set set_map)
qed

lemma distinct_sort_fst [simp]: "distinct (map fst (sort_key f xs)) = distinct (map fst xs)"
  by (simp add: distinct_map)

definition dumped :: "(string \<times> fields) list \<Rightarrow> (string \<times> fields) list" where
  "dumped d = sort_key fst (map (\<lambda>(m, es). (m, sort_key fst es)) d)"

lemma dumped_keys: "map fst (map (\<lambda>(m, es). (m, sort_key fst es)) d) = map fst d"
  by (induction d) auto

lemma distinct_dumped [simp]: "distinct (map fst (dumped d)) = distinct (map fst d)"
  unfolding dumped_def distinct_sort_fst dumped_keys ..

lemma entries_dumped:
  assumes "distinct (map fst d)"
  shows "entries (dumped d) m = sort_key fst (entries d m)"
proof -
  have "distinct (map fst (map (\<lambda>(m, es). (m, sort_key fst es)) d))" unfolding dumped_keys by (rule assms)
  then have "map_of (dumped d) m = map_of (map (\<lambda>(m, es). (m, sort_key fst es)) d) m" unfolding dumped_def by (rule map_of_sort_fst)
  moreover have "map_of (map (\<lambda>(m, es). (m, sort_key fst es)) d) m = map_option (sort_key fst) (map_of d m)" by (induction d) auto
  ultimately show ?thesis by (simp add: entries_def split: option.splits)
qed

lemma write_Some [simp]:
  "atomic_write_json ok d st = Some st' \<longleftrightarrow> ok \<and> st' = st\<lparr>ts_file := Holds (dumped d)\<rparr>"
  "atomic_write_json ok d st = None \<longleftrightarrow> \<not> ok"
  by (auto simp: atomic_write_json_def dumped_def)

text \<open>A written file keeps what the new contents have, model by model.\<close>

lemma written_file_ok:
  assumes "distinct (map fst d)" "\<forall>m. distinct (map fst (entries d m)) \<and> (\<forall>e \<in> set (entries d m). good_entry (override_ids st) m e)"
  shows "file_ok (st\<lparr>ts_file := Holds (dumped d), ts_cache := c\<rparr>)"
  using assms by (simp add: file_ok_def file_data_def entries_dumped)

lemma written_view:
  assumes "distinct (map fst d)" "distinct (map fst (entries d m))"
  shows "voice_on_disk (st\<lparr>ts_file := Holds (dumped d), ts_cache := c\<rparr>) m sid =
    (case map_of (entries d m) (int_str sid) of
        None \<Rightarrow> map_of (presets m) sid
      | Some v \<Rightarrow> (case parse_speaker_entry (ts_repr st) sid v of Inl _ \<Rightarrow> None | Inr spec \<Rightarrow> Some spec))"
  using assms by (simp add: voice_on_disk_def file_data_def entries_dumped cong: option.case_cong)

lemma entries_update: "entries (AList.update m es d) m' = (if m' = m then es else entries d m')"
  by (simp add: entries_def update_conv')

lemma entries_delete: "entries (AList.delete m d) m' = (if m' = m then [] else entries d m')"
  by (simp add: entries_def delete_conv')

lemma entries_without:
  "entries (without_entry m k d) m' = (if m' = m then AList.delete k (entries d m) else entries d m')"
  by (simp add: without_entry_def Let_def entries_update entries_delete)

lemma distinct_without: "distinct (map fst d) \<Longrightarrow> distinct (map fst (without_entry m k d))"
  by (simp add: without_entry_def Let_def distinct_delete distinct_update)

lemma set_update_subset: "set (AList.update k v es) \<subseteq> insert (k, v) (set es)"
  by (induction es) auto

lemma set_delete_subset: "set (AList.delete k es) \<subseteq> set es"
  by (simp add: AList.delete_eq)

lemma presets_are_presets: "map_of (presets m) sid = Some spec \<Longrightarrow> sp_type spec = Preset"
  by (auto dest!: map_of_SomeD simp: presets_def qwen3_presets_def qwen3_customvoice_presets_def kokoro_presets_def single_speaker_def
      preset_spec_def split: if_splits)

text \<open>A preset is what its id stands for, unless overridden.\<close>

lemma preset_on_disk:
  assumes "file_ok st" "sid \<in> fst ` set (presets m)" "sid \<notin> override_ids st"
  shows "voice_on_disk st m sid = map_of (presets m) sid"
proof (cases "map_of (entries (file_data st) m) (int_str sid)")
  case (Some v)
  then have "good_entry (override_ids st) m (int_str sid, v)" using assms(1) by (auto simp: file_ok_def dest: map_of_SomeD)
  then show ?thesis using assms(2,3) by (auto elim: parse_good)
qed (simp add: voice_on_disk_def)

lemma embedding_is_stored:
  assumes "file_ok st" "voice_on_disk st m sid = Some spec" "sp_type spec = Embedding"
  shows "map_of (entries (file_data st) m) (int_str sid) \<noteq> None"
  using assms(2,3) presets_are_presets [of m sid spec]
  by (cases "map_of (entries (file_data st) m) (int_str sid)") (auto simp: voice_on_disk_def)

lemma spec_ok:
  assumes "store_ok st" "speaker_spec_for_id wanted m st = (r, st')"
  shows "store_ok st' \<and> same_disk st st' \<and>
    (\<forall>sid spec. wanted = Some sid \<longrightarrow> sid \<notin> override_ids st \<longrightarrow> voice_on_disk st m sid = Some spec \<longrightarrow> r = Inr (Some spec))"
proof (cases wanted)
  case (Some sid)
  obtain t st1 where l: "load_speaker_map m st = (Inr t, st1)" "store_ok st1" "same_disk st st1"
      "\<And>sid. sid \<notin> override_ids st \<Longrightarrow> map_of t sid = voice_on_disk st m sid"
    using load_ok [OF assms(1)] by metis
  then show ?thesis using assms(2) Some by (auto simp: speaker_spec_for_id_def split: option.splits if_splits)
qed (use assms in \<open>simp add: speaker_spec_for_id_def\<close>)

lemma kwargs_ok:
  assumes "store_ok st" "speaker_kwargs_for_id wanted m st = (r, st')"
  shows "store_ok st' \<and> same_disk st st' \<and>
    (\<forall>sid spec. wanted = Some sid \<longrightarrow> sid \<notin> override_ids st \<longrightarrow> voice_on_disk st m sid = Some spec \<longrightarrow> r = voice_of_spec (Some spec))"
proof -
  obtain r1 where "speaker_spec_for_id wanted m st = (r1, st')" "r = (case r1 of Inl e \<Rightarrow> Inl e | Inr s \<Rightarrow> voice_of_spec s)"
    using assms(2) by (auto simp: speaker_kwargs_for_id_def split: prod.splits sum.splits)
  then show ?thesis using spec_ok [OF assms(1)] by fastforce
qed

lemma choose_ok:
  assumes "store_ok st" "choose_id m wanted ids st = (r, st')"
  shows "store_ok st' \<and> same_disk st st' \<and>
    (\<forall>sid. r = Inr sid \<longrightarrow> (case wanted of None \<Rightarrow> sid = auto_id ids | Some w \<Rightarrow> sid = w \<and>
       (sid \<in> set ids \<longrightarrow> sid \<in> override_ids st \<or> (\<forall>spec. voice_on_disk st m sid = Some spec \<longrightarrow> sp_type spec = Embedding))))"
proof (cases wanted)
  case (Some w)
  show ?thesis
  proof (cases "w \<in> set ids")
    case True
    obtain r1 where s: "speaker_spec_for_id (Some w) m st = (r1, st')"
      using assms(2) Some True by (auto simp: choose_id_def split: prod.splits sum.splits)
    have "sp_type spec = Embedding" if "r = Inr w" "w \<notin> override_ids st" "voice_on_disk st m w = Some spec" for spec
      using spec_ok [OF assms(1) s] that assms(2) Some True s by (cases "sp_type spec") (auto simp: choose_id_def)
    then show ?thesis using spec_ok [OF assms(1) s] assms(2) Some True s
      by (auto simp: choose_id_def split: sum.splits if_splits)
  qed (use assms Some in \<open>auto simp: choose_id_def\<close>)
qed (use assms in \<open>auto simp: choose_id_def\<close>)

lemma int_keys_set: "int_keys ks = Inr is \<Longrightarrow> set is = {i. \<exists>k \<in> set ks. py_int k = Some i}"
  by (induction ks arbitrary: "is") (auto split: option.splits sum.splits)

lemma auto_id_fresh: "10000 \<le> auto_id ids" "auto_id ids \<notin> set ids"
proof -
  show "10000 \<le> auto_id ids" by (simp add: auto_id_def)
  show "auto_id ids \<notin> set ids"
  proof
    assume i: "auto_id ids \<in> set ids"
    then have "auto_id ids \<le> Max (set ids)" by simp
    moreover have "Max (set ids) + 1 \<le> auto_id ids" using i by (auto simp: auto_id_def)
    ultimately show False by simp
  qed
qed

lemma validated:
  assumes "validate_embedding_payload payload = None"
  obtains bs where "b64decode payload = Some bs" "bs \<noteq> []" "payload \<noteq> []" "length payload \<le> 8192" "length bs mod 4 = 0"
proof -
  obtain bs where "b64decode_validate payload = Some bs" "bs \<noteq> []" "length payload \<le> 8192" "length bs mod 4 = 0"
    using assms by (auto simp: validate_embedding_payload_def split: if_splits option.splits)
  moreover from this have d: "b64decode payload = Some bs" by (simp add: b64decode_validate_Some)
  moreover have "payload \<noteq> []" using d \<open>bs \<noteq> []\<close> by (auto simp: b64decode_def)
  ultimately show thesis by (intro that [of bs])
qed

lemma unknown_on_disk:
  assumes "int_keys (map fst (entries (file_data st) m)) = Inr ids" "sid \<notin> set (map fst (presets m) @ ids)"
  shows "voice_on_disk st m sid = None"
proof -
  have "int_str sid \<notin> fst ` set (entries (file_data st) m)"
    using assms int_keys_set [OF assms(1)] by force
  then have "map_of (entries (file_data st) m) (int_str sid) = None" by (simp add: map_of_eq_None_iff)
  moreover have "map_of (presets m) sid = None" using assms(2) by (simp add: map_of_eq_None_iff)
  ultimately show ?thesis by (simp add: voice_on_disk_def)
qed

lemma cache_after_write:
  assumes "cache_ok st" "\<And>m' sid. m' \<noteq> m \<Longrightarrow> voice_on_disk st' m' sid = voice_on_disk st m' sid"
    and "ts_overrides st' = ts_overrides st" "ts_cache st' = AList.delete m (ts_cache st)"
  shows "cache_ok st'"
  using assms by (auto simp: cache_ok_def delete_conv' split: if_splits)

lemma stored_file:
  assumes "store_ok st" "sp_type spec = Embedding" "sp_payload spec \<noteq> []" "b64decode (sp_payload spec) = Some bs"
    and "sp_id spec \<in> fst ` set (presets m) \<longrightarrow> sp_id spec \<in> override_ids st"
  defines "d \<equiv> AList.update m (AList.update (int_str (sp_id spec)) (stored_entry spec) (entries (file_data st) m)) (file_data st)"
  defines "st' \<equiv> st\<lparr>ts_file := Holds (dumped d), ts_cache := AList.delete m (ts_cache st)\<rparr>"
  shows "store_ok st'"
    and "voice_on_disk st' m' sid = (if m' = m \<and> sid = sp_id spec then Some spec else voice_on_disk st m' sid)"
proof -
  have f: "distinct (map fst (file_data st))" "\<And>m. distinct (map fst (entries (file_data st) m))"
      "\<And>m e. e \<in> set (entries (file_data st) m) \<Longrightarrow> good_entry (override_ids st) m e"
    using assms(1) by (auto simp: store_ok_def file_ok_def)
  have d: "distinct (map fst d)" unfolding d_def using f(1) by (rule distinct_update)
  have e: "entries d k = (if k = m then AList.update (int_str (sp_id spec)) (stored_entry spec) (entries (file_data st) m)
      else entries (file_data st) k)" for k
    by (simp add: d_def entries_update)
  have de: "distinct (map fst (entries d k))" for k using f(2) by (simp add: e distinct_update)
  have "good_entry (override_ids st) m (int_str (sp_id spec), stored_entry spec)"
    using assms(2-5) by (auto simp: good_entry_def)
  then have g: "x \<in> set (entries d k) \<Longrightarrow> good_entry (override_ids st) k x" for k x
    using f(3) set_update_subset [of "int_str (sp_id spec)" "stored_entry spec" "entries (file_data st) m"]
    by (cases "k = m") (simp_all add: e, blast)
  have view: "voice_on_disk st' k i = (if k = m \<and> i = sp_id spec then Some spec else voice_on_disk st k i)" for k i
    unfolding st'_def written_view [OF d de] using assms(2,3)
    by (cases "k = m") (simp_all add: e update_conv' voice_on_disk_def cong: option.case_cong)
  show "voice_on_disk st' m' sid = (if m' = m \<and> sid = sp_id spec then Some spec else voice_on_disk st m' sid)" by (rule view)
  have "file_ok st'" unfolding st'_def using d de g by (intro written_file_ok) blast+
  moreover have "cache_ok st'"
    by (rule cache_after_write [where st = st and m = m]) (use assms(1) view in \<open>auto simp: store_ok_def st'_def\<close>)
  ultimately show "store_ok st'" by (simp add: store_ok_def)
qed

definition new_spec :: "ustr \<Rightarrow> string \<Rightarrow> ustr \<Rightarrow> ustr \<Rightarrow> fields \<Rightarrow> int \<Rightarrow> speaker_spec" where
  "new_spec now m payload label meta sid =
     \<lparr>sp_id = sid, sp_type = Embedding, sp_label = (if label = [] then u (''voice-'' @ int_str sid) else label),
      sp_payload = payload, sp_meta = VObj (set_default ''created'' (VStr now) (set_default ''model_id'' (VStr (u m)) meta))\<rparr>"

lemma new_spec_fields [simp]:
  "sp_id (new_spec now m payload label meta sid) = sid" "sp_type (new_spec now m payload label meta sid) = Embedding"
  "sp_payload (new_spec now m payload label meta sid) = payload"
  by (simp_all add: new_spec_def)

lemma register_writes:
  assumes "validate_embedding_payload payload = None" "int_keys (map fst (entries (file_data st) m)) = Inr ids"
    and "choose_id m wanted (map fst (presets m) @ ids) st = (Inr sid, st1)" "same_disk st st1"
    and "spec = new_spec now m payload label meta sid"
  shows "register_speaker ok now m payload label meta wanted st =
    (if ok then (Inr spec, st1\<lparr>ts_file := Holds (dumped (AList.update m (AList.update (int_str (sp_id spec)) (stored_entry spec)
        (entries (file_data st1) m)) (file_data st1))), ts_cache := AList.delete m (ts_cache st1)\<rparr>)
     else (Inl WriteFailed, st1))"
proof -
  have "file_data st1 = file_data st" using assms(4) by (simp add: same_disk_def file_data_def)
  then show ?thesis using assms(1-3)
    by (simp add: register_speaker_def Let_def assms(5) new_spec_def invalidate_cache_def atomic_write_json_def dumped_def)
qed

lemma chosen_not_preset:
  assumes "store_ok st" "choose_id m wanted (map fst (presets m) @ ids) st = (Inr sid, st1)" "sid \<in> fst ` set (presets m)"
  shows "sid \<in> override_ids st"
proof (rule ccontr)
  assume o: "sid \<notin> override_ids st"
  note ch = choose_ok [OF assms(1,2)]
  have i: "sid \<in> set (map fst (presets m) @ ids)" using assms(3) by simp
  then have "wanted = Some sid" using ch auto_id_fresh(2) [of "map fst (presets m) @ ids"] by (cases wanted) auto
  then have e: "\<forall>sp. voice_on_disk st m sid = Some sp \<longrightarrow> sp_type sp = Embedding" using ch i o by auto
  obtain sp where sp: "map_of (presets m) sid = Some sp" using assms(3) by (metis map_of_eq_None_iff not_None_eq)
  then have "voice_on_disk st m sid = Some sp" using preset_on_disk [of st sid m] assms(1,3) o by (simp add: store_ok_def)
  then show False using e presets_are_presets [OF sp] by simp
qed

lemma register_ok:
  assumes "store_ok st" "register_speaker ok now m payload label meta wanted st = (r, st')"
  shows "store_ok st' \<and> ts_overrides st' = ts_overrides st \<and> ts_env st' = ts_env st \<and> ts_repr st' = ts_repr st \<and>
    (case r of
       Inl e \<Rightarrow> same_disk st st'
     | Inr spec \<Rightarrow> sp_type spec = Embedding \<and> sp_payload spec = payload \<and> validate_embedding_payload payload = None \<and>
         (case wanted of None \<Rightarrow> 10000 \<le> sp_id spec \<and> voice_on_disk st m (sp_id spec) = None | Some w \<Rightarrow> sp_id spec = w) \<and>
         (\<forall>m' sid. voice_on_disk st' m' sid = (if m' = m \<and> sid = sp_id spec then Some spec else voice_on_disk st m' sid)))"
proof (cases "validate_embedding_payload payload")
  case None
  then obtain bs where bs: "b64decode payload = Some bs" "payload \<noteq> []" by (elim validated) simp
  show ?thesis
  proof (cases "int_keys (map fst (entries (file_data st) m))")
    case (Inr ids)
    obtain c st1 where c: "choose_id m wanted (map fst (presets m) @ ids) st = (c, st1)" by fastforce
    note ch = choose_ok [OF assms(1) c]
    show ?thesis
    proof (cases c)
      case c': (Inr sid)
      let ?spec = "new_spec now m payload label meta sid"
      have sd: "same_disk st st1" "store_ok st1" using ch by simp_all
      have p: "sp_id ?spec \<in> fst ` set (presets m) \<longrightarrow> sp_id ?spec \<in> override_ids st1"
        using chosen_not_preset [OF assms(1) c [unfolded c']] sd(1) by (simp add: same_disk_def)
      note sf = stored_file [where spec = ?spec and m = m, OF sd(2) _ _ _ p, simplified, OF bs(2,1)]
      have w: "case wanted of None \<Rightarrow> 10000 \<le> sid \<and> voice_on_disk st m sid = None | Some w \<Rightarrow> sid = w"
        using ch c' auto_id_fresh [of "map fst (presets m) @ ids"] unknown_on_disk [OF Inr, of sid]
        by (cases wanted) auto
      note rw = register_writes [OF None Inr c [unfolded c'] sd(1) refl, of ok now label meta]
      show ?thesis
      proof (cases ok)
        case True
        have rs: "r = Inr ?spec" "st' = st1\<lparr>ts_file := Holds (dumped (AList.update m (AList.update (int_str sid) (stored_entry ?spec)
            (entries (file_data st1) m)) (file_data st1))), ts_cache := AList.delete m (ts_cache st1)\<rparr>"
          using rw assms(2) True by simp_all
        show ?thesis unfolding rs using sf w None same_disk_view [OF sd(1)] sd(1)
          by (cases wanted) (simp_all add: same_disk_def)
      qed (use rw assms(2) sd in \<open>auto simp: same_disk_def\<close>)
    qed (use assms None Inr c ch in \<open>auto simp: register_speaker_def Let_def same_disk_def\<close>)
  qed (use assms None in \<open>auto simp: register_speaker_def Let_def\<close>)
qed (use assms in \<open>auto simp: register_speaker_def\<close>)

lemma cache_drop_id:
  assumes "cache_ok st" "map_of (ts_cache st) m = Some t" "ts_cache st' = AList.update m (AList.delete sid t) (ts_cache st)"
    and "ts_overrides st' = ts_overrides st" "sid \<in> override_ids st \<or> voice_on_disk st' m sid = None"
    and "\<And>k i. (k, i) \<noteq> (m, sid) \<Longrightarrow> voice_on_disk st' k i = voice_on_disk st k i"
  shows "cache_ok st'"
  unfolding cache_ok_def
proof (intro allI impI)
  fix k t' i
  assume a: "map_of (ts_cache st') k = Some t'" "i \<notin> override_ids st'"
  have c: "map_of (ts_cache st) k = Some t2 \<Longrightarrow> map_of t2 i = voice_on_disk st k i" for t2
    using assms(1,4) a(2) by (auto simp: cache_ok_def)
  show "map_of t' i = voice_on_disk st' k i"
    using a c [of t] c [of t'] assms(2-5) assms(6) [of k i]
    by (cases "k = m"; cases "i = sid") (auto simp: update_conv' delete_conv')
qed

lemma deleted_file:
  assumes "store_ok st" "map_of (entries (file_data st) m) (int_str sid) = Some v"
  defines "st' \<equiv> st\<lparr>ts_file := Holds (dumped (without_entry m (int_str sid) (file_data st)))\<rparr>"
  shows "file_ok st'"
    and "voice_on_disk st' k i = (if k = m \<and> i = sid then map_of (presets m) sid else voice_on_disk st k i)"
proof -
  have f: "distinct (map fst (file_data st))" "\<And>m. distinct (map fst (entries (file_data st) m))"
      "\<And>m e. e \<in> set (entries (file_data st) m) \<Longrightarrow> good_entry (override_ids st) m e"
    using assms(1) by (auto simp: store_ok_def file_ok_def)
  let ?d = "without_entry m (int_str sid) (file_data st)"
  have d: "distinct (map fst ?d)" using f(1) by (rule distinct_without)
  have de: "distinct (map fst (entries ?d k))" for k using f(2) by (simp add: entries_without distinct_delete)
  have g: "x \<in> set (entries ?d k) \<Longrightarrow> good_entry (override_ids st) k x" for k x
    using f(3) set_delete_subset [of "int_str sid" "entries (file_data st) m"]
    by (cases "k = m") (simp_all add: entries_without, blast)
  have s: "st' = st\<lparr>ts_file := Holds (dumped ?d), ts_cache := ts_cache st\<rparr>" by (simp add: st'_def)
  show "file_ok st'" unfolding s using d de g by (intro written_file_ok) blast+
  show "voice_on_disk st' k i = (if k = m \<and> i = sid then map_of (presets m) sid else voice_on_disk st k i)"
    unfolding s written_view [OF d de]
    by (cases "k = m") (simp_all add: entries_without delete_conv' voice_on_disk_def cong: option.case_cong)
qed

text \<open>The cache entry of a deleted voice goes with it; a voice that is on the file only because
  the environment overrides its id leaves the disk's view of other ids alone.\<close>

lemma unregister_result:
  assumes "load_speaker_map m st = (Inr t, st1)" "map_of (ts_cache st1) m = Some t"
  shows "unregister_speaker ok m sid st =
    (case map_of t sid of
       None \<Rightarrow> (Inr False, st1)
     | Some spec \<Rightarrow>
         if sp_type spec \<noteq> Embedding then (Inl (PresetProtected sid), st1)
         else if map_of (entries (file_data st1) m) (int_str sid) = None then (Inr True, store_table m (AList.delete sid t) st1)
         else if ok then
           (Inr True, store_table m (AList.delete sid t)
              (st1\<lparr>ts_file := Holds (dumped (without_entry m (int_str sid) (file_data st1)))\<rparr>))
         else (Inl WriteFailed, st1))"
  using assms by (simp add: unregister_speaker_def Let_def atomic_write_json_def dumped_def split: option.split)

lemma unregister_ok:
  assumes "store_ok st" "unregister_speaker ok m sid st = (r, st')"
  shows "store_ok st' \<and> ts_overrides st' = ts_overrides st \<and> ts_env st' = ts_env st \<and> ts_repr st' = ts_repr st \<and>
    (\<forall>k i. (k, i) \<noteq> (m, sid) \<longrightarrow> voice_on_disk st' k i = voice_on_disk st k i) \<and>
    (r = Inr True \<longrightarrow> voice_on_disk st' m sid = map_of (presets m) sid) \<and>
    (r \<noteq> Inr True \<longrightarrow> same_disk st st')"
proof -
  obtain t st1 where l: "load_speaker_map m st = (Inr t, st1)" "store_ok st1" "same_disk st st1"
      "\<And>sid. sid \<notin> override_ids st \<Longrightarrow> map_of t sid = voice_on_disk st m sid" "map_of (ts_cache st1) m = Some t"
    using load_ok [OF assms(1)] by metis
  note view = same_disk_view [OF l(3)]
  have co: "cache_ok st1" using l(2) by (simp add: store_ok_def)
  have ids: "override_ids st1 = override_ids st" using l(3) by (simp add: same_disk_def)
  consider (quiet) "r \<noteq> Inr True" "st' = st1"
    | (cached) spec where "r = Inr True" "map_of t sid = Some spec" "sp_type spec = Embedding"
        "map_of (entries (file_data st1) m) (int_str sid) = None" "st' = store_table m (AList.delete sid t) st1"
    | (stored) v where "r = Inr True" "map_of (entries (file_data st1) m) (int_str sid) = Some v"
        "st' = store_table m (AList.delete sid t) (st1\<lparr>ts_file := Holds (dumped (without_entry m (int_str sid) (file_data st1)))\<rparr>)"
  proof (cases "map_of t sid")
    case (Some spec)
    note res = assms(2) [unfolded unregister_result [OF l(1,5)] Some option.case]
    show ?thesis
    proof (cases "sp_type spec = Embedding")
      case e: True
      show ?thesis
      proof (cases "map_of (entries (file_data st1) m) (int_str sid)")
        case None
        show ?thesis by (rule cached [OF _ Some e None]) (use res e None in simp_all)
      next
        case (Some v)
        show ?thesis
        proof (cases ok)
          case True
          show ?thesis by (rule stored [OF _ Some]) (use res e Some True in simp_all)
        next
          case False
          show ?thesis by (rule quiet) (use res e Some False in auto)
        qed
      qed
    next
      case False
      show ?thesis by (rule quiet) (use res False in auto)
    qed
  next
    case None
    show ?thesis by (rule quiet) (use assms(2) [unfolded unregister_result [OF l(1,5)] None option.case] in auto)
  qed
  then show ?thesis
  proof cases
    case quiet
    then show ?thesis using l(2,3) by (auto simp: same_disk_def view)
  next
    case cached
    have sd: "same_disk st1 st'" by (simp add: cached(5) same_disk_def store_table_def)
    have c: "ts_cache st' = AList.update m (AList.delete sid t) (ts_cache st1)" "ts_overrides st' = ts_overrides st1"
      by (simp_all add: cached(5) store_table_def)
    have "sid \<in> override_ids st1"
      using l(2,4) view ids cached(2-4) embedding_is_stored [of st1 m sid spec] by (auto simp: store_ok_def)
    then have "cache_ok st'" by (intro cache_drop_id [OF co l(5) c]) (simp_all add: same_disk_view [OF sd])
    moreover have "voice_on_disk st1 m sid = map_of (presets m) sid" using cached(4) by (simp add: voice_on_disk_def)
    ultimately show ?thesis
      using cached(1) l(2,3) sd same_disk_view [OF sd] same_disk_file_ok [OF sd] view by (auto simp: store_ok_def same_disk_def)
  next
    case stored
    let ?st2 = "st1\<lparr>ts_file := Holds (dumped (without_entry m (int_str sid) (file_data st1)))\<rparr>"
    note df = deleted_file [OF l(2) stored(2)]
    have sd: "same_disk ?st2 st'" by (simp add: stored(3) same_disk_def store_table_def)
    have c: "ts_cache st' = AList.update m (AList.delete sid t) (ts_cache st1)" "ts_overrides st' = ts_overrides st1"
      by (simp_all add: stored(3) store_table_def)
    have vw: "voice_on_disk st' k i = (if k = m \<and> i = sid then map_of (presets m) sid else voice_on_disk st1 k i)" for k i
      using df(2) same_disk_view [OF sd] by simp
    have "good_entry (override_ids st1) m (int_str sid, v)"
      using l(2) stored(2) by (auto simp: store_ok_def file_ok_def dest: map_of_SomeD)
    then have "sid \<in> override_ids st1 \<or> map_of (presets m) sid = None" by (auto elim!: parse_good simp: map_of_eq_None_iff)
    then have "cache_ok st'" by (intro cache_drop_id [OF co l(5) c]) (auto simp: vw)
    then show ?thesis
      using stored(1) df(1) l(3) vw view same_disk_file_ok [OF sd] by (auto simp: store_ok_def same_disk_def stored(3) store_table_def)
  qed
qed

section \<open>Sequences of operations\<close>

datatype speaker_op =
    Register bool ustr string ustr ustr fields "int option"
  | RegisterBytes bool ustr string "8 word list" ustr fields "int option"
  | Unregister bool string int
  | LookUp "int option" string
  | AskDefault string
  | ListAll string
  | ReloadAll

fun speaker_step :: "speaker_op \<Rightarrow> tts_store \<Rightarrow> tts_store" where
  "speaker_step (Register ok now m payload label meta wanted) st = snd (register_speaker ok now m payload label meta wanted st)"
| "speaker_step (RegisterBytes ok now m emb label meta wanted) st =
     snd (register_speaker_from_embedding ok now m emb label meta wanted st)"
| "speaker_step (Unregister ok m sid) st = snd (unregister_speaker ok m sid st)"
| "speaker_step (LookUp sid m) st = snd (speaker_kwargs_for_id sid m st)"
| "speaker_step (AskDefault m) st = snd (default_speaker_id m st)"
| "speaker_step (ListAll m) st = snd (available_speakers m st)"
| "speaker_step ReloadAll st = reload_speakers st"

definition new_store :: "speaker_table \<Rightarrow> (string \<rightharpoonup> string) \<Rightarrow> (json \<Rightarrow> ustr) \<Rightarrow> tts_store" where
  "new_store ovs env repr = \<lparr>ts_file = NoFile, ts_cache = [], ts_overrides = ovs, ts_env = env, ts_repr = repr\<rparr>"

text \<open>The operations that name a model's id outright.\<close>

fun names_voice :: "string \<Rightarrow> int \<Rightarrow> speaker_op \<Rightarrow> bool" where
  "names_voice m sid (Register _ _ m' _ _ _ wanted) = (m' = m \<and> wanted = Some sid)"
| "names_voice m sid (RegisterBytes _ _ m' _ _ _ wanted) = (m' = m \<and> wanted = Some sid)"
| "names_voice m sid (Unregister _ m' sid') = (m' = m \<and> sid' = sid)"
| "names_voice m sid _ = False"

lemma new_store_ok: "store_ok (new_store ovs env repr)"
  by (simp add: store_ok_def file_ok_def cache_ok_def new_store_def file_data_def entries_def)

lemma default_quiet: "store_ok st \<Longrightarrow> store_ok (snd (default_speaker_id m st)) \<and> same_disk st (snd (default_speaker_id m st))"
  using spec_ok [of st] by (auto simp: default_speaker_id_def split: option.splits prod.splits sum.splits)

lemma available_quiet: "store_ok st \<Longrightarrow> store_ok (snd (available_speakers m st)) \<and> same_disk st (snd (available_speakers m st))"
  by (elim load_ok [of st m]) (simp add: available_speakers_def)

lemma reload_quiet: "store_ok st \<Longrightarrow> store_ok (reload_speakers st) \<and> same_disk st (reload_speakers st)"
proof -
  assume ok: "store_ok st"
  have d: "same_disk st (reload_speakers st)" by (simp add: same_disk_def reload_speakers_def invalidate_cache_def)
  moreover have "cache_ok (reload_speakers st)" by (simp add: cache_ok_def reload_speakers_def invalidate_cache_def)
  ultimately show ?thesis using ok same_disk_file_ok [OF d] by (simp add: store_ok_def)
qed

lemma speaker_step_ok:
  assumes "store_ok st"
  shows "store_ok (speaker_step op st) \<and> ts_overrides (speaker_step op st) = ts_overrides st \<and>
    (\<forall>m sid spec. \<not> names_voice m sid op \<longrightarrow> voice_on_disk st m sid = Some spec \<longrightarrow> voice_on_disk (speaker_step op st) m sid = Some spec)"
proof -
  have quiet: ?thesis if q: "store_ok (speaker_step op st) \<and> same_disk st (speaker_step op st)"
    using q same_disk_view [OF conjunct2 [OF q]] by (simp add: same_disk_def)
  have reg: ?thesis
    if op: "op = Register ok now m payload label meta wanted \<or> (\<exists>emb. op = RegisterBytes ok now m emb label meta wanted \<and> payload = b64encode emb)"
    for ok now m payload label meta wanted
  proof -
    obtain r st' where r: "register_speaker ok now m payload label meta wanted st = (r, st')" by fastforce
    note ro = register_ok [OF assms r]
    have step: "speaker_step op st = st'" using op r by (auto simp: register_speaker_from_embedding_def)
    have "voice_on_disk st' k i = Some sp" if n: "\<not> names_voice k i op" and v: "voice_on_disk st k i = Some sp" for k i sp
    proof (cases r)
      case (Inl e)
      then show ?thesis using ro v same_disk_view [of st st'] by simp
    next
      case (Inr spec)
      have w: "case wanted of None \<Rightarrow> voice_on_disk st m (sp_id spec) = None | Some w \<Rightarrow> sp_id spec = w"
        using ro Inr by (cases wanted) simp_all
      have "\<not> (k = m \<and> i = sp_id spec)" using w n v op by (cases wanted) auto
      moreover have "voice_on_disk st' k i = (if k = m \<and> i = sp_id spec then Some spec else voice_on_disk st k i)"
        using ro Inr by simp
      ultimately show ?thesis using v by auto
    qed
    then show ?thesis using ro by (simp add: step)
  qed
  show ?thesis
  proof (cases op)
    case (Register ok now m payload label meta wanted)
    then show ?thesis using reg by blast
  next
    case (RegisterBytes ok now m emb label meta wanted)
    then show ?thesis using reg by blast
  next
    case (Unregister ok m sid)
    obtain r st' where r: "unregister_speaker ok m sid st = (r, st')" by fastforce
    then show ?thesis using unregister_ok [OF assms r] Unregister by auto
  next
    case (LookUp sid m)
    then show ?thesis using kwargs_ok [OF assms, of sid m] by (intro quiet) (cases "speaker_kwargs_for_id sid m st"; simp)
  next
    case (AskDefault m)
    then show ?thesis using default_quiet [OF assms, of m] by (intro quiet) simp
  next
    case (ListAll m)
    then show ?thesis using available_quiet [OF assms, of m] by (intro quiet) simp
  next
    case ReloadAll
    then show ?thesis using reload_quiet [OF assms] by (intro quiet) simp
  qed
qed

interpretation speakers: step_system speaker_step "\<lambda>s. store_ok s \<and> ts_overrides s = ovs" for ovs
  by unfold_locales (simp add: speaker_step_ok)

lemma voice_kept:
  "store_ok st \<Longrightarrow> \<forall>op \<in> set ops. \<not> names_voice m sid op \<Longrightarrow> voice_on_disk st m sid = Some spec \<Longrightarrow>
   voice_on_disk (fold speaker_step ops st) m sid = Some spec"
  by (induction ops arbitrary: st) (simp_all add: speaker_step_ok)

section \<open>What the registry promises\<close>

text \<open>
  C26: a registered voice stays. Let the operations be those of \<open>speaker_step\<close>, one after the other,
  so that a load of a table is never split by a registration (for that see
  \<open>stale_table_hides_registration\<close>), and let the id be none the environment overrides. After any such
  operations on an empty registry, when the embedding of a speaker is registered (Base64-encoded,
  written to the file, read back, parsed and decoded on use), then whatever is registered,
  deleted, looked up or reloaded afterwards, as long as no operation names that id of that
  model, a request with the id is given exactly the registered bytes. An id chosen by the service
  is at least 10000 and stood for no voice before.
\<close>

theorem registered_voice_persists:
  assumes "s = fold speaker_step before (new_store ovs env repr)"
    and "register_speaker_from_embedding ok now m emb label meta wanted s = (Inr spec, s1)"
    and "sp_id spec \<notin> fst ` set ovs" and "\<forall>op \<in> set after. \<not> names_voice m (sp_id spec) op"
  shows "fst (speaker_kwargs_for_id (Some (sp_id spec)) m (fold speaker_step after s1)) = Inr (CloneVoice (sp_id spec) emb) \<and>
    (case wanted of None \<Rightarrow> 10000 \<le> sp_id spec \<and> voice_on_disk s m (sp_id spec) = None | Some w \<Rightarrow> sp_id spec = w)"
proof -
  have s: "store_ok s" "ts_overrides s = ovs"
    using speakers.run_inv [of "new_store ovs env repr" ovs before] new_store_ok assms(1) by (simp_all add: new_store_def)
  note r = register_ok [OF s(1) assms(2) [unfolded register_speaker_from_embedding_def]]
  then have v: "voice_on_disk s1 m (sp_id spec) = Some spec" "sp_payload spec = b64encode emb" "sp_type spec = Embedding"
      "validate_embedding_payload (b64encode emb) = None" "store_ok s1" "ts_overrides s1 = ovs"
    using s by simp_all
  let ?s2 = "fold speaker_step after s1"
  have k: "voice_on_disk ?s2 m (sp_id spec) = Some spec" using v(5) assms(4) v(1) by (rule voice_kept)
  have "store_ok ?s2 \<and> ts_overrides ?s2 = ovs" using v(5,6) by (intro speakers.run_inv) simp
  moreover obtain q s3 where q: "speaker_kwargs_for_id (Some (sp_id spec)) m ?s2 = (q, s3)" by fastforce
  ultimately have "q = voice_of_spec (Some spec)" using kwargs_ok [of ?s2] k assms(3) by blast
  moreover have "b64encode emb \<noteq> []" using v(4) by (auto elim: validated)
  ultimately show ?thesis using q v r by (simp add: voice_of_spec_def speaker_embedding_bytes_def)
qed

text \<open>The first registration for a model with no registered voices.\<close>

definition demo_entry :: speaker_spec where
  "demo_entry = new_spec [] ''qwen3-tts'' (b64encode [1, 2, 3, 4]) [] [] 10000"

abbreviation demo_registration :: "tts_store \<Rightarrow> (speaker_error + speaker_spec) \<times> tts_store" where
  "demo_registration st \<equiv> register_speaker_from_embedding True [] ''qwen3-tts'' [1, 2, 3, 4] [] [] None st"

lemma demo_registered:
  "demo_registration (new_store ovs env repr) =
     (Inr demo_entry, (new_store ovs env repr)\<lparr>ts_file := Holds [(''qwen3-tts'', [(int_str 10000, stored_entry demo_entry)])]\<rparr>)"
proof -
  let ?st = "new_store ovs env repr"
  have f: "file_data ?st = []" "ts_cache ?st = []" by (simp_all add: new_store_def file_data_def)
  have v: "validate_embedding_payload (b64encode [1, 2, 3, 4]) = None"
    by (simp add: validate_embedding_payload_def length_b64encode del: b64encode.simps)
  have "auto_id (map fst (presets ''qwen3-tts'') @ []) = 10000" by (simp add: auto_id_def presets_def qwen3_presets_def)
  then have c: "choose_id ''qwen3-tts'' None (map fst (presets ''qwen3-tts'') @ []) ?st = (Inr 10000, ?st)"
    by (simp only: choose_id_def option.case)
  have k: "int_keys (map fst (entries (file_data ?st) ''qwen3-tts'')) = Inr []" by (simp add: f entries_def)
  show ?thesis
    unfolding register_speaker_from_embedding_def register_writes [OF v k c same_disk_refl demo_entry_def]
    by (simp add: f entries_def dumped_def demo_entry_def new_store_def file_data_def del: b64encode.simps)
qed

lemma demo_entry_fields [simp]:
  "sp_id demo_entry = 10000" "sp_type demo_entry = Embedding" "parse_speaker_entry repr 10000 (stored_entry demo_entry) = Inr demo_entry"
proof -
  show f: "sp_id demo_entry = 10000" "sp_type demo_entry = Embedding" by (simp_all add: demo_entry_def)
  have "sp_payload demo_entry \<noteq> []" by (simp add: demo_entry_def)
  then show "parse_speaker_entry repr 10000 (stored_entry demo_entry) = Inr demo_entry" using parse_stored [OF f(2), of repr] f(1) by simp
qed

theorem registered_voice_persists_witness:
  "fst (speaker_kwargs_for_id (Some 10000) ''qwen3-tts''
     (fold speaker_step [ReloadAll, RegisterBytes True [] ''qwen3-tts'' [9, 9, 9, 9] [] [] None, Unregister True ''qwen3-tts'' 10001]
        (snd (demo_registration (new_store [] (\<lambda>_. None) (\<lambda>_. [])))))) = Inr (CloneVoice 10000 [1, 2, 3, 4])"
  using registered_voice_persists [OF _ demo_registered, where before = "[]" and
      after = "[ReloadAll, RegisterBytes True [] ''qwen3-tts'' [9, 9, 9, 9] [] [] None, Unregister True ''qwen3-tts'' 10001]"]
  by (simp add: demo_registered)

text \<open>
  Presets cannot be lost. Whatever is registered, deleted and reloaded, by whoever and in any
  order, with any explicit ids and failing writes, looking up the id of a preset that the
  environment does not override gives that preset.
\<close>

theorem presets_survive:
  assumes "s = fold speaker_step ops (new_store ovs env repr)" and "sid \<in> fst ` set (presets m)" and "sid \<notin> fst ` set ovs"
  shows "fst (speaker_spec_for_id (Some sid) m s) = Inr (map_of (presets m) sid)"
proof -
  have s: "store_ok s" "ts_overrides s = ovs"
    using speakers.run_inv [of "new_store ovs env repr" ovs ops] new_store_ok assms(1) by (simp_all add: new_store_def)
  obtain spec where spec: "map_of (presets m) sid = Some spec" using assms(2) by (metis map_of_eq_None_iff not_None_eq)
  then have "voice_on_disk s m sid = Some spec" using preset_on_disk [of s sid m] s assms(2,3) by (simp add: store_ok_def)
  moreover obtain r s' where "speaker_spec_for_id (Some sid) m s = (r, s')" by fastforce
  ultimately show ?thesis using spec_ok [OF s(1)] s(2) assms(3) spec by fastforce
qed

theorem presets_survive_witness:
  "fst (speaker_spec_for_id (Some 2301) ''qwen3-tts''
     (fold speaker_step [RegisterBytes True [] ''qwen3-tts'' [1, 2, 3, 4] [] [] (Some 2301), Unregister True ''qwen3-tts'' 2301]
        (new_store [] (\<lambda>_. None) (\<lambda>_. []))))
   = Inr (Some (preset_spec 2301 ''Female 1'' ''2301''))"
proof -
  have "2301 \<in> fst ` set (presets ''qwen3-tts'')" "map_of (presets ''qwen3-tts'') 2301 = Some (preset_spec 2301 ''Female 1'' ''2301'')"
    by (simp_all add: presets_def qwen3_presets_def)
  then show ?thesis by (subst presets_survive [OF refl]) simp_all
qed

section \<open>Where the registry departs from its documentation\<close>

text \<open>The id chosen for a new voice may be one the environment overrides: the registration
  succeeds and the voice cannot be reached.\<close>

lemmas lookup_eval = speaker_kwargs_for_id_def speaker_spec_for_id_def load_speaker_map_def read_layers_def load_file_speakers_def
  put_table_def store_table_def new_store_def voice_of_spec_def speaker_embedding_bytes_def entries_def presets_def
  qwen3_presets_def preset_spec_def unmapped_allowed_def reload_speakers_def invalidate_cache_def

lemma override_shadows_registration:
  "let (r, st1) = demo_registration (new_store [(10000, preset_spec 10000 ''x'' ''x'')] (\<lambda>_. None) (\<lambda>_. [])) in
   r = Inr demo_entry \<and> fst (speaker_kwargs_for_id (Some 10000) ''qwen3-tts'' st1) = Inr (PresetVoice 10000 (u ''x''))"
  unfolding demo_registered
  by (simp add: lookup_eval)

text \<open>Deleting a voice of the environment reports success and lasts until the next reload.\<close>

lemma deleted_override_returns:
  "let st = new_store [(7, preset_spec 7 [] ''AQIDBA==''\<lparr>sp_type := Embedding\<rparr>)] (\<lambda>_. None) (\<lambda>_. []);
       (r, st1) = unregister_speaker True ''qwen3-tts'' 7 st in
   r = Inr True \<and> fst (speaker_kwargs_for_id (Some 7) ''qwen3-tts'' st1) = Inr (PresetVoice 7 (u ''7'')) \<and>
   fst (speaker_kwargs_for_id (Some 7) ''qwen3-tts'' (reload_speakers st1)) = Inr (CloneVoice 7 [1, 2, 3, 4])"
  by code_simp

text \<open>A table read before a registration and stored after it hides the voice until the cache is
  dropped again: every later request gets a preset of that name instead.\<close>

lemma stale_table_hides_registration:
  "let st = new_store [] (\<lambda>_. None) (\<lambda>_. []); t = (case read_layers ''qwen3-tts'' st of Inr t \<Rightarrow> t | Inl _ \<Rightarrow> []);
       st1 = store_table ''qwen3-tts'' t (snd (demo_registration st)) in
   fst (speaker_kwargs_for_id (Some 10000) ''qwen3-tts'' st1) = Inr (PresetVoice 10000 (u (int_str 10000)))"
  unfolding Let_def demo_registered by (simp add: lookup_eval py_lower_def lower_char_def)

text \<open>The limit on the Base64 text lets through embeddings half as long again as the 4096 bytes
  the comment names.\<close>

lemma six_kilobytes_pass: "validate_embedding_payload (b64encode (replicate 6144 0)) = None"
  by (simp add: validate_embedding_payload_def length_b64encode)

text \<open>An unknown default id is used, not replaced by 0, unless unmapped ids are forbidden.\<close>

lemma unknown_default_is_used:
  "fst (default_speaker_id ''qwen3-tts'' (new_store [] [''OVS_TTS_DEFAULT_SPEAKER_ID'' \<mapsto> ''777''] (\<lambda>_. []))) = 777"
  by code_simp

end
