(* ===== verification/Tts_Runtime.thy ===== *)
theory Tts_Runtime
  imports Tts_Speakers Complex_Main
begin

text \<open>
  The operator's TTS defaults (\<open>app/core/tts_runtime.py\<close>), how a request's voice is put together
  from them (\<open>_request_voice_kwargs\<close> of \<open>app/main.py\<close>), and the endpoints that change the
  defaults and the registry. A float is a rational, an infinity or NaN. The live backend is
  given by its model id, its \<open>supports_voice_cloning\<close> attribute (if it has one) and whether it
  claims the capability.
\<close>

section \<open>The overrides\<close>

datatype pyfloat = Finite rat | Infinite bool | NotANumber

text \<open>\<open>lo <= x <= hi\<close>: a NaN compares false.\<close>

fun float_within :: "rat \<Rightarrow> rat \<Rightarrow> pyfloat \<Rightarrow> bool" where
  "float_within lo hi (Finite x) = (lo \<le> x \<and> x \<le> hi)"
| "float_within lo hi _ = False"

record tts_overrides =
  ov_speaker :: "int option"
  ov_speed :: "pyfloat option"
  ov_pitch :: "pyfloat option"
  ov_updated_at :: int

definition no_overrides :: tts_overrides where
  "no_overrides = \<lparr>ov_speaker = None, ov_speed = None, ov_pitch = None, ov_updated_at = 0\<rparr>"

definition reset_overrides :: "tts_overrides \<Rightarrow> tts_overrides" where
  "reset_overrides rt = no_overrides"

datatype 'a patch = Keep | Clear | Put 'a

datatype runtime_error = UnknownOverride int | BadSpeed | BadPitch | TableError speaker_error

definition validate_speed :: "pyfloat \<Rightarrow> bool" where
  "validate_speed x = float_within (1 / 4) 4 x"

definition validate_pitch_shift :: "pyfloat \<Rightarrow> bool" where
  "validate_pitch_shift x = float_within (- 24) 24 x"

definition validate_speaker_id :: "int \<Rightarrow> string \<Rightarrow> tts_store \<Rightarrow> runtime_error option \<times> tts_store" where
  "validate_speaker_id sid model st =
     (case load_speaker_map model st of
        (Inl e, st1) \<Rightarrow> (Some (TableError e), st1)
      | (Inr t, st1) \<Rightarrow> (if map_of t sid = None then Some (UnknownOverride sid) else None, st1))"

definition patched :: "'a patch \<Rightarrow> 'a option \<Rightarrow> 'a option" where
  "patched p old = (case p of Keep \<Rightarrow> old | Clear \<Rightarrow> None | Put x \<Rightarrow> Some x)"

definition update_overrides ::
  "int \<Rightarrow> int patch \<Rightarrow> pyfloat patch \<Rightarrow> pyfloat patch \<Rightarrow> string option \<Rightarrow> tts_overrides \<times> tts_store
    \<Rightarrow> (runtime_error + tts_overrides) \<times> (tts_overrides \<times> tts_store)" where
  "update_overrides now speaker speed pitch model rs =
     (let (rt, st) = rs;
          (err, st1) = (case (speaker, model) of (Put sid, Some m) \<Rightarrow> validate_speaker_id sid m st | _ \<Rightarrow> (None, st))
      in case err of
           Some e \<Rightarrow> (Inl e, (rt, st1))
         | None \<Rightarrow>
             if (case speed of Put x \<Rightarrow> \<not> validate_speed x | _ \<Rightarrow> False) then (Inl BadSpeed, (rt, st1))
             else if (case pitch of Put x \<Rightarrow> \<not> validate_pitch_shift x | _ \<Rightarrow> False) then (Inl BadPitch, (rt, st1))
             else (let rt' = \<lparr>ov_speaker = patched speaker (ov_speaker rt), ov_speed = patched speed (ov_speed rt),
                              ov_pitch = patched pitch (ov_pitch rt), ov_updated_at = now\<rparr>
                   in (Inr rt', (rt', st1))))"

definition merge_tts_request_kwargs ::
  "int option \<Rightarrow> pyfloat option \<Rightarrow> pyfloat option \<Rightarrow> string \<Rightarrow> tts_overrides \<times> tts_store
    \<Rightarrow> (int \<times> pyfloat option \<times> pyfloat option) \<times> tts_store" where
  "merge_tts_request_kwargs speaker speed pitch model rs =
     (let (rt, st) = rs;
          (sid, st1) = (case speaker of
                          Some i \<Rightarrow> (i, st)
                        | None \<Rightarrow> (case ov_speaker rt of Some i \<Rightarrow> (i, st) | None \<Rightarrow> default_speaker_id model st))
      in ((sid, (case speed of Some x \<Rightarrow> Some x | None \<Rightarrow> ov_speed rt),
           (case pitch of Some x \<Rightarrow> Some x | None \<Rightarrow> ov_pitch rt)), st1))"

section \<open>The voice of a request\<close>

record tts_request =
  tq_sid :: "int option"
  tq_speaker_id :: "int option"
  tq_embedding :: "ustr option"
  tq_speed :: "pyfloat option"
  tq_pitch :: "pyfloat option"

record tts_backend_info =
  be_model :: string
  be_clone_attr :: "bool option"
  be_voice_clone :: bool

datatype voice_error = BothGiven | BackendCannotClone | BadEmbedding | VoiceError speaker_error

type_synonym synth_kwargs = "voice \<times> pyfloat option \<times> pyfloat option"

definition request_voice_kwargs ::
  "tts_request \<Rightarrow> tts_backend_info option \<Rightarrow> string \<Rightarrow> tts_overrides \<times> tts_store \<Rightarrow> (voice_error + synth_kwargs) \<times> tts_store" where
  "request_voice_kwargs req backend fallback_model rs =
     (let st = snd rs;
          speaker = (case tq_speaker_id req of Some i \<Rightarrow> Some i | None \<Rightarrow> tq_sid req);
          emb = (case tq_embedding req of None \<Rightarrow> [] | Some t \<Rightarrow> t)
      in if speaker \<noteq> None \<and> emb \<noteq> [] then (Inl BothGiven, st)
         else if emb \<noteq> [] then
           (if (case backend of None \<Rightarrow> False | Some b \<Rightarrow> be_clone_attr b = Some False \<and> \<not> be_voice_clone b)
            then (Inl BackendCannotClone, st)
            else (case b64decode emb of None \<Rightarrow> (Inl BadEmbedding, st) | Some bs \<Rightarrow> (Inr (DirectVoice bs, None, None), st)))
         else
           (let model = (case backend of Some b \<Rightarrow> be_model b | None \<Rightarrow> fallback_model);
                ((sid, speed, pitch), st1) = merge_tts_request_kwargs speaker (tq_speed req) (tq_pitch req) model rs
            in case speaker_kwargs_for_id (Some sid) model st1 of
                 (Inl e, st2) \<Rightarrow> (Inl (VoiceError e), st2)
               | (Inr v, st2) \<Rightarrow> (Inr (v, speed, pitch), st2)))"

section \<open>Endpoints\<close>

datatype http_status = Http nat

definition voice_clone_unsupported_response :: "tts_backend_info \<Rightarrow> http_status option" where
  "voice_clone_unsupported_response b =
     (if be_voice_clone b then None else if be_clone_attr b = Some False then Some (Http 400) else Some (Http 501))"

text \<open>The embedding's dimension goes into the metadata. A failed write is not a \<open>ValueError\<close>.\<close>

definition tts_speakers_register ::
  "bool \<Rightarrow> ustr \<Rightarrow> tts_backend_info option \<Rightarrow> ustr \<Rightarrow> ustr option \<Rightarrow> int option \<Rightarrow> tts_store \<Rightarrow> http_status \<times> tts_store" where
  "tts_speakers_register ok now backend payload label wanted st =
     (case backend of
        None \<Rightarrow> (Http 503, st)
      | Some b \<Rightarrow>
          (case voice_clone_unsupported_response b of
             Some r \<Rightarrow> (r, st)
           | None \<Rightarrow>
               (case b64decode payload of
                  None \<Rightarrow> (Http 400, st)
                | Some emb \<Rightarrow>
                    (case register_speaker ok now (be_model b) payload (case label of None \<Rightarrow> [] | Some l \<Rightarrow> l)
                            [(''dim'', VInt (int (length emb div 4))), (''dtype'', VStr (u ''float32''))] wanted st of
                       (Inl WriteFailed, st1) \<Rightarrow> (Http 500, st1)
                     | (Inl _, st1) \<Rightarrow> (Http 400, st1)
                     | (Inr _, st1) \<Rightarrow> (Http 200, st1)))))"

definition tts_speakers_delete :: "bool \<Rightarrow> tts_backend_info option \<Rightarrow> int \<Rightarrow> tts_store \<Rightarrow> http_status \<times> tts_store" where
  "tts_speakers_delete ok backend sid st =
     (case backend of
        None \<Rightarrow> (Http 503, st)
      | Some b \<Rightarrow>
          (case unregister_speaker ok (be_model b) sid st of
             (Inl WriteFailed, st1) \<Rightarrow> (Http 500, st1)
           | (Inl _, st1) \<Rightarrow> (Http 400, st1)
           | (Inr found, st1) \<Rightarrow> (if found then Http 200 else Http 404, st1)))"

definition effective_speaker :: "string option \<Rightarrow> tts_overrides \<times> tts_store \<Rightarrow> int option \<times> tts_store" where
  "effective_speaker model rs =
     (case ov_speaker (fst rs) of
        Some i \<Rightarrow> (Some i, snd rs)
      | None \<Rightarrow> (case model of None \<Rightarrow> (None, snd rs)
                 | Some m \<Rightarrow> (case default_speaker_id m (snd rs) of (i, st) \<Rightarrow> (Some i, st))))"

definition admin_tts_runtime_patch ::
  "int \<Rightarrow> int patch \<Rightarrow> pyfloat patch \<Rightarrow> pyfloat patch \<Rightarrow> string option \<Rightarrow> tts_overrides \<times> tts_store
    \<Rightarrow> http_status \<times> (tts_overrides \<times> tts_store)" where
  "admin_tts_runtime_patch now speaker speed pitch model rs =
     (case update_overrides now speaker speed pitch model rs of
        (Inl e, rs1) \<Rightarrow> (Http 422, rs1)
      | (Inr _, (rt, st1)) \<Rightarrow> (Http 200, (rt, snd (effective_speaker model (rt, st1)))))"

definition admin_tts_speakers_reload :: "string option \<Rightarrow> tts_store \<Rightarrow> nat \<times> tts_store" where
  "admin_tts_speakers_reload model st =
     (case model of
        None \<Rightarrow> (0, reload_speakers st)
      | Some m \<Rightarrow> (case available_speakers m (reload_speakers st) of (Inl _, st1) \<Rightarrow> (0, st1) | (Inr l, st1) \<Rightarrow> (length l, st1)))"

section \<open>Operations in any order\<close>

datatype runtime_op =
    Patch int "int patch" "pyfloat patch" "pyfloat patch" "string option"
  | Reset
  | Registry speaker_op
  | Synthesise tts_request "tts_backend_info option" string
  | RegisterCall bool ustr "tts_backend_info option" ustr "ustr option" "int option"
  | DeleteCall bool "tts_backend_info option" int
  | ReloadCall "string option"

fun runtime_step :: "runtime_op \<Rightarrow> tts_overrides \<times> tts_store \<Rightarrow> tts_overrides \<times> tts_store" where
  "runtime_step (Patch now speaker speed pitch model) rs = snd (admin_tts_runtime_patch now speaker speed pitch model rs)"
| "runtime_step Reset rs = (reset_overrides (fst rs), snd rs)"
| "runtime_step (Registry op) rs = (fst rs, speaker_step op (snd rs))"
| "runtime_step (Synthesise req backend fallback) rs = (fst rs, snd (request_voice_kwargs req backend fallback rs))"
| "runtime_step (RegisterCall ok now backend payload label wanted) rs =
     (fst rs, snd (tts_speakers_register ok now backend payload label wanted (snd rs)))"
| "runtime_step (DeleteCall ok backend sid) rs = (fst rs, snd (tts_speakers_delete ok backend sid (snd rs)))"
| "runtime_step (ReloadCall model) rs = (fst rs, snd (admin_tts_speakers_reload model (snd rs)))"

definition overrides_ok :: "tts_overrides \<Rightarrow> bool" where
  "overrides_ok rt \<longleftrightarrow> (\<forall>x. ov_speed rt = Some x \<longrightarrow> validate_speed x) \<and> (\<forall>x. ov_pitch rt = Some x \<longrightarrow> validate_pitch_shift x)"

lemma patched_simps [simp]: "patched Keep old = old" "patched Clear old = None" "patched (Put x) old = Some x"
  by (simp_all add: patched_def)

lemma update_overrides_ok:
  assumes "overrides_ok (fst rs)" "update_overrides now speaker speed pitch model rs = (r, rs')"
  shows "overrides_ok (fst rs') \<and> (case r of Inl _ \<Rightarrow> fst rs' = fst rs | Inr rt \<Rightarrow> fst rs' = rt)"
  using assms
  by (auto simp: update_overrides_def overrides_ok_def patched_def Let_def split: prod.splits option.splits patch.splits if_splits)

lemma patch_overrides_ok: "overrides_ok (fst rs) \<Longrightarrow> overrides_ok (fst (snd (admin_tts_runtime_patch now speaker speed pitch model rs)))"
  using update_overrides_ok [of rs now speaker speed pitch model]
  by (cases "update_overrides now speaker speed pitch model rs") (auto simp: admin_tts_runtime_patch_def split: sum.splits prod.splits)

definition sound :: "speaker_table \<Rightarrow> tts_store \<Rightarrow> bool" where
  "sound ovs st \<longleftrightarrow> store_ok st \<and> ts_overrides st = ovs"

lemma sound_quiet: "sound ovs st \<Longrightarrow> store_ok st' \<and> same_disk st st' \<Longrightarrow> sound ovs st'"
  by (simp add: sound_def same_disk_def)

lemma validate_quiet:
  assumes "store_ok st" "validate_speaker_id sid m st = (r, st')"
  shows "store_ok st' \<and> same_disk st st' \<and> (r = None \<longrightarrow> sid \<notin> override_ids st \<longrightarrow> voice_on_disk st m sid \<noteq> None)"
proof -
  obtain t st1 where l: "load_speaker_map m st = (Inr t, st1)" "store_ok st1" "same_disk st st1"
      "\<And>sid. sid \<notin> override_ids st \<Longrightarrow> map_of t sid = voice_on_disk st m sid"
    using load_ok [OF assms(1)] by metis
  then show ?thesis using assms(2) by (auto simp: validate_speaker_id_def split: if_splits)
qed

lemma update_quiet:
  assumes "store_ok (snd rs)" "update_overrides now speaker speed pitch model rs = (r, rs')"
  shows "store_ok (snd rs') \<and> same_disk (snd rs) (snd rs')"
proof -
  obtain rt0 st0 where rs: "rs = (rt0, st0)" by (cases rs)
  obtain e st1 where v: "(case (speaker, model) of (Put sid, Some m) \<Rightarrow> validate_speaker_id sid m st0 | _ \<Rightarrow> (None, st0)) = (e, st1)"
    by (meson surj_pair)
  have "store_ok st1 \<and> same_disk (snd rs) st1"
    using v assms(1) validate_quiet [of st0] by (auto simp: rs split: patch.splits option.splits)
  moreover have "snd rs' = st1"
    using assms(2) v by (cases e) (auto simp: rs update_overrides_def Let_def split: if_splits)
  ultimately show ?thesis by simp
qed

lemma patch_quiet:
  assumes "store_ok (snd rs)"
  shows "store_ok (snd (snd (admin_tts_runtime_patch now speaker speed pitch model rs))) \<and>
    same_disk (snd rs) (snd (snd (admin_tts_runtime_patch now speaker speed pitch model rs)))"
proof -
  obtain r rt st1 where u: "update_overrides now speaker speed pitch model rs = (r, (rt, st1))" by (metis prod_cases3)
  note q = update_quiet [OF assms u]
  have "snd (effective_speaker model (rt, st1)) = st1 \<or> (\<exists>m. snd (effective_speaker model (rt, st1)) = snd (default_speaker_id m st1))"
    by (cases "ov_speaker rt"; cases model) (auto simp: effective_speaker_def case_prod_beta)
  then have "store_ok (snd (effective_speaker model (rt, st1))) \<and> same_disk st1 (snd (effective_speaker model (rt, st1)))"
    using q default_quiet [of st1] by auto
  then show ?thesis using u q by (cases r) (auto simp: admin_tts_runtime_patch_def intro: same_disk_trans)
qed

lemma request_quiet:
  assumes "store_ok (snd rs)"
  shows "store_ok (snd (request_voice_kwargs req backend fallback rs)) \<and>
    same_disk (snd rs) (snd (request_voice_kwargs req backend fallback rs))"
proof -
  have merge: "store_ok st1 \<and> same_disk (snd rs) st1"
    if "merge_tts_request_kwargs speaker speed pitch model rs = (x, st1)" for speaker speed pitch model x st1
    using that assms default_quiet [OF assms, of model]
    by (auto simp: merge_tts_request_kwargs_def Let_def split: prod.splits option.splits)
  have kw: "store_ok st2 \<and> same_disk (snd rs) st2"
    if "merge_tts_request_kwargs speaker speed pitch model rs = (x, st1)" "speaker_kwargs_for_id sid model st1 = (y, st2)"
    for speaker speed pitch model x st1 sid y st2
    using merge [OF that(1)] kwargs_ok [OF _ that(2)] same_disk_trans by blast
  show ?thesis
    using assms kw by (auto simp: request_voice_kwargs_def Let_def split: prod.splits option.splits sum.splits)
qed

lemma register_call_sound: "sound ovs st \<Longrightarrow> sound ovs (snd (tts_speakers_register ok now backend payload label wanted st))"
proof -
  assume s: "sound ovs st"
  have "sound ovs st'" if "register_speaker ok now m payload l meta wanted st = (r, st')" for m l meta r st'
    using register_ok [OF _ that] s by (simp add: sound_def)
  then show ?thesis using s
    by (auto simp: tts_speakers_register_def split: option.splits prod.splits sum.splits speaker_error.splits)
qed

lemma delete_call_sound: "sound ovs st \<Longrightarrow> sound ovs (snd (tts_speakers_delete ok backend sid st))"
proof -
  assume s: "sound ovs st"
  have "sound ovs st'" if "unregister_speaker ok m sid st = (r, st')" for m r st'
    using unregister_ok [OF _ that] s by (simp add: sound_def)
  then show ?thesis using s
    by (auto simp: tts_speakers_delete_def split: option.splits prod.splits sum.splits speaker_error.splits)
qed

lemma reload_call_sound: "sound ovs st \<Longrightarrow> sound ovs (snd (admin_tts_speakers_reload model st))"
proof -
  assume s: "sound ovs st"
  then have r: "sound ovs (reload_speakers st)" using reload_quiet [of st] sound_quiet [OF s] by (simp add: sound_def)
  then have "sound ovs (snd (available_speakers m (reload_speakers st)))" for m
    using available_quiet [of "reload_speakers st" m] sound_quiet [OF r] by (simp add: sound_def)
  moreover have "snd (admin_tts_speakers_reload model st) = (case model of None \<Rightarrow> reload_speakers st
      | Some m \<Rightarrow> snd (available_speakers m (reload_speakers st)))"
    by (simp add: admin_tts_speakers_reload_def split: option.split prod.split sum.split)
  ultimately show ?thesis using r by (cases model) simp_all
qed

lemma runtime_step_ok:
  assumes "overrides_ok (fst rs)" "sound ovs (snd rs)"
  shows "overrides_ok (fst (runtime_step op rs)) \<and> sound ovs (snd (runtime_step op rs))"
proof (cases op)
  case (Patch now speaker speed pitch model)
  have "store_ok (snd rs)" using assms(2) by (simp add: sound_def)
  then show ?thesis using assms(1) Patch patch_overrides_ok patch_quiet sound_quiet [OF assms(2)] by simp
next
  case Reset
  then show ?thesis using assms(2) by (simp add: overrides_ok_def reset_overrides_def no_overrides_def)
next
  case (Registry op)
  then show ?thesis using assms by (simp add: sound_def speaker_step_ok)
next
  case (Synthesise req backend fallback)
  have "store_ok (snd rs)" using assms(2) by (simp add: sound_def)
  then show ?thesis using assms(1) Synthesise request_quiet sound_quiet [OF assms(2)] by simp
next
  case (RegisterCall ok now backend payload label wanted)
  then show ?thesis using assms register_call_sound by simp
next
  case (DeleteCall ok backend sid)
  then show ?thesis using assms delete_call_sound by simp
next
  case (ReloadCall model)
  then show ?thesis using assms reload_call_sound by simp
qed

interpretation runtime: step_system runtime_step "\<lambda>rs. overrides_ok (fst rs) \<and> sound ovs (snd rs)" for ovs
  by unfold_locales (use runtime_step_ok in blast)

definition runtime_start :: "speaker_table \<Rightarrow> (string \<rightharpoonup> string) \<Rightarrow> (json \<Rightarrow> ustr) \<Rightarrow> tts_overrides \<times> tts_store" where
  "runtime_start ovs env repr = (no_overrides, new_store ovs env repr)"

lemma runtime_run:
  assumes "rs = fold runtime_step ops (runtime_start ovs env repr)"
  shows "overrides_ok (fst rs)" "sound ovs (snd rs)"
proof -
  have "overrides_ok (fst (runtime_start ovs env repr)) \<and> sound ovs (snd (runtime_start ovs env repr))"
    using new_store_ok by (simp add: runtime_start_def overrides_ok_def no_overrides_def sound_def, simp add: new_store_def)
  then show "overrides_ok (fst rs)" "sound ovs (snd rs)"
    unfolding assms using runtime.run_inv by blast+
qed

section \<open>What the runtime promises\<close>

text \<open>
  C27: the operator's defaults and the registry stay well formed. After any patches, resets,
  registrations, deletions, requests and reloads, failing or not, the default speed is between
  0.25 and 4, the default pitch shift between -24 and 24 (never NaN or infinite), and the file
  holds distinct ids each with a decodable embedding and none on an unoverridden preset. As the
  operations are taken one after the other, no load of a table split by a registration
  (\<open>stale_table_hides_registration\<close>), every cached table agrees with the file and the presets on
  every id the environment does not override.
\<close>

theorem defaults_and_registry_stay_valid:
  assumes "rs = fold runtime_step ops (runtime_start ovs env repr)"
  shows "(\<forall>x. ov_speed (fst rs) = Some x \<longrightarrow> float_within (1 / 4) 4 x) \<and>
    (\<forall>x. ov_pitch (fst rs) = Some x \<longrightarrow> float_within (- 24) 24 x) \<and>
    file_ok (snd rs) \<and> cache_ok (snd rs)"
  using runtime_run [OF assms] by (simp add: overrides_ok_def validate_speed_def validate_pitch_shift_def sound_def store_ok_def)

definition demo_patches :: "runtime_op list" where
  "demo_patches = [Patch 1 Keep (Put (Finite 2)) Keep None, Patch 2 Keep (Put (Finite 9)) Clear None, Patch 3 Keep (Put NotANumber) Keep None]"

theorem defaults_and_registry_stay_valid_witness:
  "ov_speed (fst (fold runtime_step demo_patches (runtime_start [] (\<lambda>_. None) (\<lambda>_. [])))) = Some (Finite 2) \<and>
   file_ok (snd (fold runtime_step demo_patches (runtime_start [] (\<lambda>_. None) (\<lambda>_. []))))"
  using defaults_and_registry_stay_valid [OF refl, of demo_patches "[]" "\<lambda>_. None" "\<lambda>_. []"]
  by (simp add: demo_patches_def runtime_start_def no_overrides_def admin_tts_runtime_patch_def update_overrides_def validate_speed_def
      effective_speaker_def Let_def)

text \<open>
  An accepted default takes effect. When the operator's patch of the default speaker is
  accepted for the live model (in any state the service can be in), the id stands for a voice,
  and every following request to that model that names no speaker and brings no embedding is
  synthesised with that voice (preset or registered embedding), with its own speed and pitch where
  it gives them and the operator's, which are within bounds, where it does not.
\<close>

theorem accepted_default_takes_effect:
  assumes "rs = fold runtime_step ops (runtime_start ovs env repr)"
    and "admin_tts_runtime_patch now (Put sid) speed pitch (Some (be_model b)) rs = (Http 200, rs1)"
    and "sid \<notin> fst ` set ovs"
    and "tq_speaker_id req = None" "tq_sid req = None" "tq_embedding req = None"
  shows "\<exists>spec. voice_on_disk (snd rs) (be_model b) sid = Some spec \<and>
    fst (request_voice_kwargs req (Some b) fallback rs1) =
      (case voice_of_spec (Some spec) of
         Inl e \<Rightarrow> Inl (VoiceError e)
       | Inr v \<Rightarrow> Inr (v, case tq_speed req of None \<Rightarrow> patched speed (ov_speed (fst rs)) | Some x \<Rightarrow> Some x,
                       case tq_pitch req of None \<Rightarrow> patched pitch (ov_pitch (fst rs)) | Some x \<Rightarrow> Some x))"
proof -
  let ?m = "be_model b"
  have s: "store_ok (snd rs)" "override_ids (snd rs) = fst ` set ovs" using runtime_run(2) [OF assms(1)] by (simp_all add: sound_def)
  obtain rt0 st0 where rs: "rs = (rt0, st0)" by (cases rs)
  obtain e st1 where v: "validate_speaker_id sid ?m (snd rs) = (e, st1)" by fastforce
  have e: "e = None" using assms(2) v
    by (cases e) (auto simp: rs admin_tts_runtime_patch_def update_overrides_def Let_def)
  note q = validate_quiet [OF s(1) v]
  then obtain spec where spec: "voice_on_disk (snd rs) ?m sid = Some spec" using e s(2) assms(3) by auto
  have st1: "snd rs1 = st1 \<and> ov_speaker (fst rs1) = Some sid \<and> ov_speed (fst rs1) = patched speed (ov_speed (fst rs)) \<and>
      ov_pitch (fst rs1) = patched pitch (ov_pitch (fst rs))"
    using assms(2) v e
    by (auto simp: rs admin_tts_runtime_patch_def update_overrides_def effective_speaker_def Let_def split: if_splits)
  obtain y st2 where k: "speaker_kwargs_for_id (Some sid) ?m st1 = (y, st2)" by fastforce
  have "y = voice_of_spec (Some spec)"
    using kwargs_ok [OF _ k] q spec s(2) assms(3) same_disk_view [of "snd rs" st1] by (auto simp: same_disk_def)
  then show ?thesis using spec st1 k assms(4-6)
    by (cases rs1; cases "tq_speed req"; cases "tq_pitch req") (auto simp: request_voice_kwargs_def merge_tts_request_kwargs_def Let_def split: sum.splits)
qed

definition demo_backend :: tts_backend_info where
  "demo_backend = \<lparr>be_model = ''qwen3-tts'', be_clone_attr = Some True, be_voice_clone = True\<rparr>"

definition demo_request :: tts_request where
  "demo_request = \<lparr>tq_sid = None, tq_speaker_id = None, tq_embedding = None, tq_speed = None, tq_pitch = None\<rparr>"

theorem accepted_default_takes_effect_witness:
  "fst (request_voice_kwargs demo_request (Some demo_backend) []
      (snd (admin_tts_runtime_patch 1 (Put 2301) (Put (Finite 2)) Keep (Some ''qwen3-tts'') (runtime_start [] (\<lambda>_. None) (\<lambda>_. [])))))
   = Inr (PresetVoice 2301 (u ''2301''), Some (Finite 2), None)"
proof -
  let ?rs = "runtime_start [] (\<lambda>_. None) (\<lambda>_. [])"
  obtain h rs1 where p: "admin_tts_runtime_patch 1 (Put 2301) (Put (Finite 2)) Keep (Some (be_model demo_backend)) ?rs = (h, rs1)" by (meson surj_pair)
  have "fst (admin_tts_runtime_patch 1 (Put 2301) (Put (Finite 2)) Keep (Some (be_model demo_backend)) ?rs) = Http 200"
    by (simp add: demo_backend_def runtime_start_def no_overrides_def admin_tts_runtime_patch_def update_overrides_def
        effective_speaker_def validate_speaker_id_def validate_speed_def Let_def lookup_eval)
  then have h: "h = Http 200" using p by simp
  have v: "voice_on_disk (snd ?rs) (be_model demo_backend) 2301 = Some (preset_spec 2301 ''Female 1'' ''2301'')"
    by (simp add: runtime_start_def new_store_def voice_on_disk_def file_data_def entries_def demo_backend_def presets_def qwen3_presets_def)
  have "tq_speaker_id demo_request = None" "tq_sid demo_request = None" "tq_embedding demo_request = None"
    by (simp_all add: demo_request_def)
  from accepted_default_takes_effect [of ?rs "[]" "[]" "\<lambda>_. None" "\<lambda>_. []", OF _ p [unfolded h] _ this, of "[]"]
  show ?thesis using p v h
    by (simp add: demo_backend_def demo_request_def voice_of_spec_def preset_spec_def runtime_start_def no_overrides_def)
qed

section \<open>Where the runtime departs from its documentation\<close>

text \<open>A request that brings an embedding is synthesised without its own speed and pitch and
  without the operator's.\<close>

lemma embedding_request_drops_speed:
  assumes "tq_embedding req = Some t" "t \<noteq> []" "b64decode t = Some bs" "tq_speaker_id req = None" "tq_sid req = None" "be_voice_clone b"
  shows "fst (request_voice_kwargs req (Some b) fallback rs) = Inr (DirectVoice bs, None, None)"
  using assms by (simp add: request_voice_kwargs_def)

end
