(* ===== verification/Tts_Endpoints.thy ===== *)
theory Tts_Endpoints
  imports Session_Limiter Backend_Manager Tts_Runtime
begin

text \<open>
  The endpoints of \<open>app/main.py\<close> that synthesise: \<open>/tts\<close>, \<open>/tts/stream\<close>, \<open>/tts/clone\<close>,
  \<open>/tts/clone/stream\<close> and \<open>/tts/clone/embedding\<close>, from their admission to the end of their
  response, over the session limiter, the TTS backend manager and the voice tables they share.
  A call that is admitted stays open while it synthesises; its end (the last chunk, a
  disconnect, an exception of the backend) is an event of its own. What the backend and its
  proxy \<open>tts_service\<close> answer is an input of the call.
\<close>

section \<open>State\<close>

text \<open>An open call: its admission token, and the backend it entered through the manager.\<close>

record open_call =
  oc_token :: "nat option"
  oc_backend :: "backend option"

record tts_server =
  ts_limiter :: "limiter option"
  ts_mgr :: "backend_manager option"
  ts_loader :: loader
  ts_voices :: "tts_overrides \<times> tts_store"
  ts_open :: "open_call list"

datatype reply = Refused nat | Crashed | Serving

text \<open>What a call meets: the capability flag and the sample rate of the backend (\<open>None\<close> is a
  raise), the outcome of a lazy start, and the backend's voice facts.\<close>

record tts_call =
  tc_streaming :: "bool option"
  tc_rate :: "nat option"
  tc_build :: build_outcome
  tc_backend :: tts_backend_info
  tc_service_ready :: bool
  tc_fallback_model :: string

section \<open>Operations\<close>

text \<open>\<open>_ensure_tts_manager_started\<close>; False is the 503.\<close>

definition ensure_tts_manager_started ::
  "build_outcome \<Rightarrow> loader \<Rightarrow> backend_manager option \<Rightarrow> bool \<times> backend_manager option" where
  "ensure_tts_manager_started bo ld mgr =
     (case mgr of
        None \<Rightarrow> (True, None)
      | Some m \<Rightarrow>
          if is_ready m then (True, Some m)
          else if bm_state m = FAILED then (False, Some m)
          else if bm_state m \<noteq> INIT then (False, Some m)
          else (case start bo ld m of
                  (StartFailed, m1) \<Rightarrow> (False, Some m1)
                | (_, m1) \<Rightarrow> (is_ready m1, Some m1)))"

text \<open>Taking a slot without queueing: a token, none needed, or 429.\<close>

definition take_slot :: "tts_server \<Rightarrow> (nat option) option \<times> tts_server" where
  "take_slot s =
     (case ts_limiter s of
        None \<Rightarrow> (Some None, s)
      | Some li \<Rightarrow>
          (case try_acquire True li of
             (None, li1) \<Rightarrow> (None, s\<lparr>ts_limiter := Some (li1\<lparr>rejected_http := rejected_http li1 + 1\<rparr>)\<rparr>)
           | (Some t, li1) \<Rightarrow> (Some (Some t), s\<lparr>ts_limiter := Some li1\<rparr>)))"

text \<open>\<open>_release_session\<close>.\<close>

definition release_session :: "nat option \<Rightarrow> tts_server \<Rightarrow> tts_server" where
  "release_session tok s =
     (case (tok, ts_limiter s) of
        (Some t, Some li) \<Rightarrow> s\<lparr>ts_limiter := Some (release True t li)\<rparr>
      | _ \<Rightarrow> s)"

text \<open>Entering \<open>mgr.acquire()\<close>, and leaving as the i-th request inside.\<close>

definition enter_manager :: "tts_server \<Rightarrow> (http_error + backend) option \<times> tts_server" where
  "enter_manager s =
     (case ts_mgr s of
        None \<Rightarrow> (None, s)
      | Some m \<Rightarrow> (case acquire m of (r, m1) \<Rightarrow> (Some r, s\<lparr>ts_mgr := Some m1\<rparr>)))"

definition leave_manager :: "nat \<Rightarrow> tts_server \<Rightarrow> tts_server" where
  "leave_manager i s = s\<lparr>ts_mgr := map_option (release_request i) (ts_mgr s)\<rparr>"

definition entered :: "open_call list \<Rightarrow> nat" where
  "entered calls = length [c \<leftarrow> calls. oc_backend c \<noteq> None]"

text \<open>\<open>_safe_cleanup_acquire_and_session\<close>: both halves run. The manager is left by the call
  that entered last.\<close>

definition safe_cleanup :: "nat option \<Rightarrow> tts_server \<Rightarrow> tts_server" where
  "safe_cleanup tok s = release_session tok (leave_manager (entered (ts_open s)) s)"

definition serve :: "nat option \<Rightarrow> backend option \<Rightarrow> tts_server \<Rightarrow> reply \<times> tts_server" where
  "serve tok b s = (Serving, s\<lparr>ts_open := ts_open s @ [\<lparr>oc_token = tok, oc_backend = b\<rparr>]\<rparr>)"

text \<open>A \<open>ValueError\<close> is answered by 400; anything else goes up.\<close>

fun voice_refusal :: "voice_error \<Rightarrow> reply" where
  "voice_refusal (VoiceError WriteFailed) = Crashed"
| "voice_refusal e = Refused 400"

definition voice_for ::
  "tts_request \<Rightarrow> tts_backend_info option \<Rightarrow> string \<Rightarrow> tts_server \<Rightarrow> (voice_error + synth_kwargs) \<times> tts_server" where
  "voice_for req backend model s =
     (case request_voice_kwargs req backend model (ts_voices s) of
        (r, st) \<Rightarrow> (r, s\<lparr>ts_voices := (fst (ts_voices s), st)\<rparr>))"

definition start_manager :: "tts_call \<Rightarrow> tts_server \<Rightarrow> bool \<times> tts_server" where
  "start_manager c s =
     (case ensure_tts_manager_started (tc_build c) (ts_loader s) (ts_mgr s) of (ok, m) \<Rightarrow> (ok, s\<lparr>ts_mgr := m\<rparr>))"

text \<open>The part of \<open>tts_stream\<close> behind the manager, and the legacy part.\<close>

definition stream_on_manager :: "tts_call \<Rightarrow> tts_request \<Rightarrow> nat option \<Rightarrow> tts_server \<Rightarrow> reply \<times> tts_server" where
  "stream_on_manager c req tok s =
     (case enter_manager s of
        (Some (Inr b), s1) \<Rightarrow>
          (case voice_for req (Some (tc_backend c)) (tc_fallback_model c) s1 of
             (Inl e, s2) \<Rightarrow> (voice_refusal e, safe_cleanup tok s2)
           | (Inr _, s2) \<Rightarrow>
               (case tc_rate c of None \<Rightarrow> (Crashed, safe_cleanup tok s2) | Some _ \<Rightarrow> serve tok (Some b) s2))
      | (_, s1) \<Rightarrow> (Refused 503, release_session tok s1))"

definition stream_legacy :: "tts_call \<Rightarrow> tts_request \<Rightarrow> nat option \<Rightarrow> tts_server \<Rightarrow> reply \<times> tts_server" where
  "stream_legacy c req tok s =
     (case tc_rate c of
        None \<Rightarrow> (Crashed, s)
      | Some _ \<Rightarrow>
          (case voice_for req (Some (tc_backend c)) (tc_fallback_model c) s of
             (Inl e, s1) \<Rightarrow>
               (case voice_refusal e of Crashed \<Rightarrow> (Crashed, s1) | r \<Rightarrow> (r, release_session tok s1))
           | (Inr _, s1) \<Rightarrow> serve tok None s1))"

definition tts_stream :: "tts_call \<Rightarrow> tts_request \<Rightarrow> tts_server \<Rightarrow> reply \<times> tts_server" where
  "tts_stream c req s =
     (case take_slot s of
        (None, s1) \<Rightarrow> (Refused 429, s1)
      | (Some tok, s1) \<Rightarrow>
          (case start_manager c s1 of
             (False, s2) \<Rightarrow> (Refused 503, release_session tok s2)
           | (True, s2) \<Rightarrow>
               (case tc_streaming c of
                  None \<Rightarrow> (Crashed, release_session tok s2)
                | Some False \<Rightarrow> (Refused 501, release_session tok s2)
                | Some True \<Rightarrow>
                    if ts_mgr s2 \<noteq> None then stream_on_manager c req tok s2 else stream_legacy c req tok s2)))"

text \<open>\<open>tts_clone_stream\<close>; the embedding is decoded before the slot is taken.\<close>

definition tts_clone_stream :: "tts_call \<Rightarrow> ustr \<Rightarrow> tts_server \<Rightarrow> reply \<times> tts_server" where
  "tts_clone_stream c embedding s =
     (case voice_clone_unsupported_response (tc_backend c) of
        Some (Http n) \<Rightarrow> (Refused n, s)
      | None \<Rightarrow>
          (case tc_streaming c of
             None \<Rightarrow> (Crashed, s)
           | Some False \<Rightarrow> (Refused 501, s)
           | Some True \<Rightarrow>
               if b64decode embedding = None then (Refused 400, s)
               else (case take_slot s of
                       (None, s1) \<Rightarrow> (Refused 429, s1)
                     | (Some tok, s1) \<Rightarrow>
                         (case start_manager c s1 of
                            (False, s2) \<Rightarrow> (Refused 503, release_session tok s2)
                          | (True, s2) \<Rightarrow>
                              (case enter_manager s2 of
                                 (None, s3) \<Rightarrow> (case tc_rate c of None \<Rightarrow> (Crashed, s3) | Some _ \<Rightarrow> serve tok None s3)
                               | (Some (Inl _), s3) \<Rightarrow> (Refused 503, release_session tok s3)
                               | (Some (Inr b), s3) \<Rightarrow>
                                   (case tc_rate c of None \<Rightarrow> (Crashed, safe_cleanup tok s3) | Some _ \<Rightarrow> serve tok (Some b) s3))))))"

text \<open>\<open>/tts\<close>, \<open>/tts/clone\<close> and \<open>/tts/clone/embedding\<close> run inside \<open>acquire_http\<close>, which needs a
  limiter and releases on every exit.\<close>

definition within_slot :: "(nat option \<Rightarrow> tts_server \<Rightarrow> reply \<times> tts_server) \<Rightarrow> tts_server \<Rightarrow> reply \<times> tts_server" where
  "within_slot body s =
     (if ts_limiter s = None then (Refused 503, s)
      else (case take_slot s of
              (None, s1) \<Rightarrow> (Refused 429, s1)
            | (Some tok, s1) \<Rightarrow>
                (case body tok s1 of
                   (Serving, s2) \<Rightarrow> (Serving, s2)
                 | (r, s2) \<Rightarrow> (r, release_session tok s2))))"

definition tts_synthesize :: "tts_call \<Rightarrow> tts_request \<Rightarrow> nat option \<Rightarrow> tts_server \<Rightarrow> reply \<times> tts_server" where
  "tts_synthesize c req tok s =
     (case start_manager c s of
        (False, s1) \<Rightarrow> (Refused 503, s1)
      | (True, s1) \<Rightarrow>
          (case enter_manager s1 of
             (Some (Inl _), s2) \<Rightarrow> (Refused 503, s2)
           | (Some (Inr b), s2) \<Rightarrow>
               (case voice_for req (Some (tc_backend c)) (tc_fallback_model c) s2 of
                  (Inl e, s3) \<Rightarrow> (voice_refusal e, leave_manager (entered (ts_open s3)) s3)
                | (Inr _, s3) \<Rightarrow> serve tok (Some b) s3)
           | (None, s2) \<Rightarrow>
               (case voice_for req (if tc_service_ready c then Some (tc_backend c) else None) (tc_fallback_model c) s2 of
                  (Inl e, s3) \<Rightarrow> (voice_refusal e, s3)
                | (Inr _, s3) \<Rightarrow> serve tok None s3)))"

definition tts :: "tts_call \<Rightarrow> tts_request \<Rightarrow> tts_server \<Rightarrow> reply \<times> tts_server" where
  "tts c req s = within_slot (tts_synthesize c req) s"

definition tts_clone_impl :: "tts_call \<Rightarrow> ustr \<Rightarrow> nat option \<Rightarrow> tts_server \<Rightarrow> reply \<times> tts_server" where
  "tts_clone_impl c embedding tok s =
     (case voice_clone_unsupported_response (tc_backend c) of
        Some (Http n) \<Rightarrow> (Refused n, s)
      | None \<Rightarrow>
          if b64decode embedding = None then (Refused 400, s)
          else (case start_manager c s of
                  (False, s1) \<Rightarrow> (Refused 503, s1)
                | (True, s1) \<Rightarrow>
                    (case enter_manager s1 of
                       (Some (Inl _), s2) \<Rightarrow> (Refused 503, s2)
                     | (Some (Inr b), s2) \<Rightarrow> serve tok (Some b) s2
                     | (None, s2) \<Rightarrow> serve tok None s2)))"

definition tts_clone :: "tts_call \<Rightarrow> ustr \<Rightarrow> tts_server \<Rightarrow> reply \<times> tts_server" where
  "tts_clone c embedding s = within_slot (tts_clone_impl c embedding) s"

text \<open>The extraction goes to the backend of \<open>tts_service\<close>, not through the manager.\<close>

definition tts_extract_embedding :: "tts_call \<Rightarrow> tts_server \<Rightarrow> reply \<times> tts_server" where
  "tts_extract_embedding c s =
     (case voice_clone_unsupported_response (tc_backend c) of
        Some (Http n) \<Rightarrow> (Refused n, s)
      | None \<Rightarrow> within_slot (\<lambda>tok. serve tok None) s)"

text \<open>The end of the i-th open call: the \<open>finally\<close> of its generator, or the exits of its context
  managers.\<close>

definition end_call :: "nat \<Rightarrow> tts_server \<Rightarrow> tts_server" where
  "end_call i s =
     (if i < length (ts_open s)
      then (let c = ts_open s ! i;
                s1 = (if oc_backend c \<noteq> None then leave_manager (entered (take i (ts_open s))) s else s)
            in (release_session (oc_token c) s1)\<lparr>ts_open := drop_nth i (ts_open s)\<rparr>)
      else s)"

datatype endpoint_event =
    Synthesize tts_call tts_request
  | StreamCall tts_call tts_request
  | CloneCall tts_call ustr
  | CloneStream tts_call ustr
  | EmbeddingCall tts_call
  | EndCall nat
  | ManagerCall manager_event

text \<open>Starts, reloads, drains and WebSockets of the manager come from elsewhere; its requests
  come from the endpoints alone.\<close>

fun request_event :: "manager_event \<Rightarrow> bool" where
  "request_event AcquireRequest = True"
| "request_event (ReleaseRequest i) = True"
| "request_event e = False"

definition manager_call ::
  "(string \<Rightarrow> (profile \<times> string) option) \<Rightarrow> string \<Rightarrow> (string \<Rightarrow> bool) \<Rightarrow> manager_event \<Rightarrow> tts_server \<Rightarrow> tts_server" where
  "manager_call load tier px e s =
     (case ts_mgr s of
        None \<Rightarrow> s
      | Some m \<Rightarrow>
          if request_event e then s
          else (let g = manager_step load tier px e \<lparr>g_mgr = m, g_loader = ts_loader s\<rparr>
                in s\<lparr>ts_mgr := Some (g_mgr g), ts_loader := g_loader g\<rparr>))"

fun server_step ::
  "(string \<Rightarrow> (profile \<times> string) option) \<Rightarrow> string \<Rightarrow> (string \<Rightarrow> bool) \<Rightarrow> endpoint_event \<Rightarrow> tts_server \<Rightarrow> tts_server" where
  "server_step load tier px (Synthesize c req) s = snd (tts c req s)"
| "server_step load tier px (StreamCall c req) s = snd (tts_stream c req s)"
| "server_step load tier px (CloneCall c e) s = snd (tts_clone c e s)"
| "server_step load tier px (CloneStream c e) s = snd (tts_clone_stream c e s)"
| "server_step load tier px (EmbeddingCall c) s = snd (tts_extract_embedding c s)"
| "server_step load tier px (EndCall i) s = end_call i s"
| "server_step load tier px (ManagerCall e) s = manager_call load tier px e s"

section \<open>What the calls hold\<close>

definition backends_of :: "open_call list \<Rightarrow> backend list" where
  "backends_of calls = concat (map (\<lambda>c. case oc_backend c of None \<Rightarrow> [] | Some b \<Rightarrow> [b]) calls)"

lemma entered_backends: "entered calls = length (backends_of calls)"
  by (induction calls) (auto simp: entered_def backends_of_def)

text \<open>The live tokens are the given ones and the requests inside the manager the given
  backends, with the given calls open.\<close>

definition holds :: "tts_server \<Rightarrow> nat list \<Rightarrow> backend list \<Rightarrow> open_call list \<Rightarrow> bool" where
  "holds s ts bs calls \<longleftrightarrow>
     ts_open s = calls \<and> distinct ts
     \<and> (\<exists>li. ts_limiter s = Some li \<and> limiter_inv li \<and> live_tokens li = set ts)
     \<and> (\<exists>m. ts_mgr s = Some m \<and> bm_inflight m = bs)"

definition accounted :: "tts_server \<Rightarrow> bool" where
  "accounted s \<longleftrightarrow> (\<exists>ts. map oc_token (ts_open s) = map Some ts \<and> holds s ts (backends_of (ts_open s)) (ts_open s))"

lemma take_slot_holds:
  assumes "holds s ts bs calls"
  obtains s' where "take_slot s = (None, s')" "holds s' ts bs calls"
  | t s' where "take_slot s = (Some (Some t), s')" "holds s' (ts @ [t]) bs calls"
proof -
  obtain li m where s: "ts_limiter s = Some li" "limiter_inv li" "live_tokens li = set ts" "ts_open s = calls"
      "distinct ts" "ts_mgr s = Some m" "bm_inflight m = bs"
    using assms by (auto simp: holds_def)
  show ?thesis
  proof (cases "active li \<ge> limit li")
    case True
    then have "take_slot s = (None, s\<lparr>ts_limiter := Some (li\<lparr>rejected_http := rejected_http li + 1\<rparr>)\<rparr>)"
      using s(1) by (simp add: take_slot_def try_acquire_def)
    moreover have "live_tokens (li\<lparr>rejected_http := rejected_http li + 1\<rparr>) = live_tokens li"
      by (simp add: live_tokens_def)
    ultimately show ?thesis
      using s by (intro that(1)) (auto simp: holds_def limiter_inv_def)
  next
    case False
    define li1 where "li1 = snd (try_acquire True li)"
    have "try_acquire True li = (Some (length (tokens li)), li1)"
      using False by (simp add: li1_def try_acquire_def Let_def)
    then have "take_slot s = (Some (Some (length (tokens li))), s\<lparr>ts_limiter := Some li1\<rparr>)"
      using s(1) by (simp add: take_slot_def)
    moreover have "limiter_inv li1" "live_tokens li1 = insert (length (tokens li)) (set ts)"
      using try_acquire_inv [OF s(2)] live_try_acquire [of True li] False s(3) by (auto simp: li1_def)
    moreover have "length (tokens li) \<notin> set ts" using fresh_token [of li] s(3) by simp
    ultimately show ?thesis
      using s by (intro that(2)) (auto simp: holds_def)
  qed
qed

lemma release_session_holds:
  assumes "holds s (xs @ t # ys) bs calls"
  shows "holds (release_session (Some t) s) (xs @ ys) bs calls"
  using assms by (auto simp: holds_def release_session_def release_inv)

lemma release_last: "holds s (ts @ [t]) bs calls \<Longrightarrow> holds (release_session (Some t) s) ts bs calls"
  using release_session_holds [of s ts t "[]"] by simp

lemma enter_holds:
  assumes "holds s ts bs calls"
  obtains e s' where "enter_manager s = (Some (Inl e), s')" "holds s' ts bs calls"
  | b s' where "enter_manager s = (Some (Inr b), s')" "holds s' ts (bs @ [b]) calls"
proof -
  obtain m where m: "ts_mgr s = Some m" "bm_inflight m = bs" using assms by (auto simp: holds_def)
  show ?thesis
  proof (cases "bm_current m")
    case (Some b)
    show ?thesis
    proof (cases "bm_state m = READY")
      case True
      then have "enter_manager s = (Some (Inr b), s\<lparr>ts_mgr := Some (m\<lparr>bm_inflight := bs @ [b]\<rparr>)\<rparr>)"
        using Some m by (simp add: enter_manager_def acquire_def)
      then show ?thesis by (rule that(2)) (use assms in \<open>simp add: holds_def\<close>)
    next
      case False
      then have "enter_manager s = (Some (Inl (BackendUnavailable (bm_state m))), s)"
        using Some m by (simp add: enter_manager_def acquire_def)
      then show ?thesis using assms by (rule that(1))
    qed
  next
    case None
    then have "enter_manager s = (Some (Inl (BackendUnavailable (bm_state m))), s)"
      using m by (simp add: enter_manager_def acquire_def)
    then show ?thesis using assms by (rule that(1))
  qed
qed

lemma leave_holds:
  "holds s ts (xs @ b # ys) calls \<Longrightarrow> i = length xs \<Longrightarrow> holds (leave_manager i s) ts (xs @ ys) calls"
  by (auto simp: holds_def leave_manager_def release_request_def drop_nth_def)

lemma leave_last: "holds s ts (backends_of calls @ [b]) calls \<Longrightarrow> holds (leave_manager (entered (ts_open s)) s) ts (backends_of calls) calls"
  using leave_holds [of s ts "backends_of calls" b "[]"] by (simp add: entered_backends holds_def)

lemma safe_cleanup_holds:
  "holds s (ts @ [t]) (backends_of calls @ [b]) calls \<Longrightarrow> holds (safe_cleanup (Some t) s) ts (backends_of calls) calls"
  unfolding safe_cleanup_def by (intro release_last leave_last)

lemma voice_holds: "holds s ts bs calls \<Longrightarrow> voice_for req b model s = (r, s') \<Longrightarrow> holds s' ts bs calls"
  by (auto simp: voice_for_def holds_def split: prod.splits)

lemma start_manager_holds: "holds s ts bs calls \<Longrightarrow> start_manager c s = (ok, s') \<Longrightarrow> holds s' ts bs calls"
  using start_frame(1) [of "tc_build c" "ts_loader s" "the (ts_mgr s)"]
  by (auto simp: start_manager_def ensure_tts_manager_started_def holds_def split: prod.splits if_splits start_result.splits)

text \<open>A call that is not served leaves everything as it was; one that is holds its token and
  its backend.\<close>

definition settled :: "nat list \<Rightarrow> nat list \<Rightarrow> nat \<Rightarrow> open_call list \<Rightarrow> reply \<times> tts_server \<Rightarrow> bool" where
  "settled ts back t calls out \<longleftrightarrow>
     (case out of
        (Serving, s) \<Rightarrow> (\<exists>b. holds s (ts @ [t]) (backends_of (calls @ [\<lparr>oc_token = Some t, oc_backend = b\<rparr>]))
                               (calls @ [\<lparr>oc_token = Some t, oc_backend = b\<rparr>]))
      | (_, s) \<Rightarrow> holds s back (backends_of calls) calls)"

lemma settled_serve:
  "holds s (ts @ [t]) (backends_of calls @ [b]) calls \<Longrightarrow> settled ts back t calls (serve (Some t) (Some b) s)"
  "holds s (ts @ [t]) (backends_of calls) calls \<Longrightarrow> settled ts back t calls (serve (Some t) None s)"
  by (auto simp: settled_def serve_def holds_def backends_of_def split: option.splits
      intro: exI [of _ "Some b"] exI [of _ "None :: backend option"])

lemma settled_refuse:
  "holds s back (backends_of calls) calls \<Longrightarrow> r \<noteq> Serving \<Longrightarrow> settled ts back t calls (r, s)"
  by (cases r) (auto simp: settled_def)

lemma voice_refusal_neq [simp]: "voice_refusal e \<noteq> Serving"
  by (cases e rule: voice_refusal.cases) auto

lemma stream_on_manager_settled:
  assumes "holds s (ts @ [t]) (backends_of calls) calls"
  shows "settled ts ts t calls (stream_on_manager c req (Some t) s)"
  using assms
proof (cases rule: enter_holds)
  case (1 e s')
  then show ?thesis by (simp add: stream_on_manager_def settled_refuse release_last)
next
  case (2 b s')
  then show ?thesis
    by (auto simp: stream_on_manager_def settled_refuse settled_serve safe_cleanup_holds
             split: prod.splits sum.splits option.splits dest: voice_holds)
qed

text \<open>From any state of account, an endpoint's call settles.\<close>

definition keeps_account :: "(tts_server \<Rightarrow> reply \<times> tts_server) \<Rightarrow> bool" where
  "keeps_account f \<longleftrightarrow> (\<forall>s ts calls. holds s ts (backends_of calls) calls \<longrightarrow>
     (\<exists>t. settled ts ts t calls (f s)))"

lemma tts_stream_settled: "keeps_account (tts_stream c req)"
  unfolding keeps_account_def
proof (intro allI impI)
  fix s ts calls
  assume h: "holds s ts (backends_of calls) calls"
  from h show "\<exists>t. settled ts ts t calls (tts_stream c req s)"
  proof (cases rule: take_slot_holds)
    case (1 s')
    then show ?thesis by (auto simp: tts_stream_def intro: settled_refuse)
  next
    case (2 t s')
    obtain ok s2 where s2: "start_manager c s' = (ok, s2)" by (meson surj_pair)
    from start_manager_holds [OF 2(2) s2] have h2: "holds s2 (ts @ [t]) (backends_of calls) calls" .
    then have "ts_mgr s2 \<noteq> None" by (auto simp: holds_def)
    then have "settled ts ts t calls (tts_stream c req s)"
      using 2(1) s2 h2 stream_on_manager_settled [OF h2]
      by (cases ok; cases "tc_streaming c") (auto simp: tts_stream_def settled_refuse release_last split: bool.splits)
    then show ?thesis ..
  qed
qed

lemma tts_clone_stream_settled: "keeps_account (tts_clone_stream c emb)"
  unfolding keeps_account_def
proof (intro allI impI)
  fix s ts calls
  assume h: "holds s ts (backends_of calls) calls"
  show "\<exists>t. settled ts ts t calls (tts_clone_stream c emb s)"
  proof (cases "voice_clone_unsupported_response (tc_backend c) = None \<and> tc_streaming c = Some True \<and> b64decode emb \<noteq> None")
    case False
    then have "fst (tts_clone_stream c emb s) \<noteq> Serving \<and> snd (tts_clone_stream c emb s) = s"
      by (auto simp: tts_clone_stream_def split: option.splits bool.splits http_status.splits)
    then show ?thesis using h by (cases "tts_clone_stream c emb s") (auto intro: settled_refuse)
  next
    case True
    from h show ?thesis
    proof (cases rule: take_slot_holds)
      case (1 s')
      then show ?thesis using True by (auto simp: tts_clone_stream_def intro: settled_refuse)
    next
      case (2 t s')
      obtain ok s2 where s2: "start_manager c s' = (ok, s2)" by (meson surj_pair)
      from start_manager_holds [OF 2(2) s2] have h2: "holds s2 (ts @ [t]) (backends_of calls) calls" .
      then have "settled ts ts t calls (tts_clone_stream c emb s)"
      proof (cases rule: enter_holds)
        case (1 e s3)
        then show ?thesis
          using True 2(1) s2 h2 by (cases ok) (auto simp: tts_clone_stream_def settled_refuse release_last)
      next
        case (2 b s3)
        then show ?thesis
          using True \<open>take_slot s = _\<close> s2 h2
          by (cases ok) (auto simp: tts_clone_stream_def settled_refuse settled_serve release_last safe_cleanup_holds split: option.splits)
      qed
      then show ?thesis ..
    qed
  qed
qed

lemma within_slot_settled:
  assumes "\<And>s ts t calls. holds s (ts @ [t]) (backends_of calls) calls \<Longrightarrow> settled ts (ts @ [t]) t calls (body (Some t) s)"
  shows "keeps_account (within_slot body)"
  unfolding keeps_account_def
proof (intro allI impI)
  fix s ts calls
  assume h: "holds s ts (backends_of calls) calls"
  then have some: "ts_limiter s \<noteq> None" by (auto simp: holds_def)
  from h show "\<exists>t. settled ts ts t calls (within_slot body s)"
  proof (cases rule: take_slot_holds)
    case (1 s')
    then show ?thesis using some by (auto simp: within_slot_def intro: settled_refuse)
  next
    case (2 t s')
    obtain r s2 where b: "body (Some t) s' = (r, s2)" by (meson surj_pair)
    have "settled ts ts t calls (within_slot body s)"
      using assms [OF 2(2)] 2(1) b some
      by (cases r) (auto simp: within_slot_def settled_def intro: release_last)
    then show ?thesis ..
  qed
qed

lemma tts_settled: "keeps_account (tts c req)"
proof -
  have "settled ts (ts @ [t]) t calls (tts_synthesize c req (Some t) s)"
    if "holds s (ts @ [t]) (backends_of calls) calls" for s ts t calls
  proof -
    obtain ok s1 where s1: "start_manager c s = (ok, s1)" by (meson surj_pair)
    from start_manager_holds [OF that s1] have h: "holds s1 (ts @ [t]) (backends_of calls) calls" .
    then show ?thesis
    proof (cases rule: enter_holds)
      case (1 e s2)
      then show ?thesis using s1 h by (cases ok) (auto simp: tts_synthesize_def settled_refuse)
    next
      case (2 b s2)
      then show ?thesis
        using s1 h
        by (cases ok) (auto simp: tts_synthesize_def settled_refuse settled_serve leave_last
              split: prod.splits sum.splits dest: voice_holds)
    qed
  qed
  then show ?thesis unfolding tts_def by (rule within_slot_settled)
qed

lemma tts_clone_settled: "keeps_account (tts_clone c emb)"
proof -
  have "settled ts (ts @ [t]) t calls (tts_clone_impl c emb (Some t) s)"
    if "holds s (ts @ [t]) (backends_of calls) calls" for s ts t calls
  proof (cases "voice_clone_unsupported_response (tc_backend c) = None \<and> b64decode emb \<noteq> None")
    case False
    then show ?thesis
      using that by (auto simp: tts_clone_impl_def settled_refuse split: option.splits http_status.splits)
  next
    case True
    obtain ok s1 where s1: "start_manager c s = (ok, s1)" by (meson surj_pair)
    from start_manager_holds [OF that s1] have h: "holds s1 (ts @ [t]) (backends_of calls) calls" .
    then show ?thesis
    proof (cases rule: enter_holds)
      case (1 e s2)
      then show ?thesis using True s1 h by (cases ok) (auto simp: tts_clone_impl_def settled_refuse)
    next
      case (2 b s2)
      then show ?thesis using True s1 h by (cases ok) (auto simp: tts_clone_impl_def settled_refuse settled_serve)
    qed
  qed
  then show ?thesis unfolding tts_clone_def by (rule within_slot_settled)
qed

lemma tts_extract_settled: "keeps_account (tts_extract_embedding c)"
proof -
  have slot: "keeps_account (within_slot (\<lambda>tok. serve tok None))"
    by (rule within_slot_settled) (rule settled_serve(2))
  show ?thesis
  proof (cases "voice_clone_unsupported_response (tc_backend c)")
    case None
    then have "tts_extract_embedding c = within_slot (\<lambda>tok. serve tok None)"
      by (intro ext) (simp add: tts_extract_embedding_def)
    then show ?thesis using slot by simp
  next
    case (Some r)
    then show ?thesis
      by (cases r) (auto simp: keeps_account_def tts_extract_embedding_def intro: settled_refuse)
  qed
qed

lemma keeps_account_step:
  assumes "keeps_account f" "accounted s"
  shows "accounted (snd (f s))"
proof -
  obtain ts where ts: "map oc_token (ts_open s) = map Some ts" "holds s ts (backends_of (ts_open s)) (ts_open s)"
    using assms(2) by (auto simp: accounted_def)
  then obtain t where t: "settled ts ts t (ts_open s) (f s)"
    using assms(1) unfolding keeps_account_def by blast
  obtain r s' where f: "f s = (r, s')" by (meson surj_pair)
  show ?thesis
  proof (cases "r = Serving")
    case True
    then obtain b where h: "holds s' (ts @ [t]) (backends_of (ts_open s @ [\<lparr>oc_token = Some t, oc_backend = b\<rparr>]))
        (ts_open s @ [\<lparr>oc_token = Some t, oc_backend = b\<rparr>])"
      using t f by (auto simp: settled_def)
    then have open': "ts_open s' = ts_open s @ [\<lparr>oc_token = Some t, oc_backend = b\<rparr>]" by (simp add: holds_def)
    show ?thesis
      unfolding accounted_def f snd_conv open' using h ts(1) by (intro exI [of _ "ts @ [t]"]) simp
  next
    case False
    then have "holds s' ts (backends_of (ts_open s)) (ts_open s)"
      using t f by (cases r) (auto simp: settled_def)
    moreover from this have "ts_open s' = ts_open s" by (simp add: holds_def)
    ultimately show ?thesis using ts(1) f by (auto simp: accounted_def)
  qed
qed

lemma end_call_accounted:
  assumes "accounted s"
  shows "accounted (end_call i s)"
proof (cases "i < length (ts_open s)")
  case True
  obtain ts where ts: "map oc_token (ts_open s) = map Some ts" "holds s ts (backends_of (ts_open s)) (ts_open s)"
    using assms by (auto simp: accounted_def)
  define pre c post where "pre = take i (ts_open s)" "c = ts_open s ! i" "post = drop (Suc i) (ts_open s)"
  have op: "ts_open s = pre @ c # post" "length pre = i" "drop_nth i (ts_open s) = pre @ post"
    using True id_take_nth_drop [OF True] by (simp_all add: pre_c_post_def drop_nth_def)
  define xs t ys where "xs = take i ts" "t = ts ! i" "ys = drop (Suc i) ts"
  have len: "i < length ts" using True map_eq_imp_length_eq [OF ts(1)] by simp
  have tok: "ts = xs @ t # ys" "length xs = i"
    using len id_take_nth_drop [OF len] by (simp_all add: xs_t_ys_def)
  have parts: "map oc_token pre = map Some xs" "oc_token c = Some t" "map oc_token post = map Some ys"
    using ts(1) unfolding op(1) tok(1) using op(2) tok(2) by simp_all
  define s1 where "s1 = (if oc_backend c \<noteq> None then leave_manager (entered pre) s else s)"
  have "holds s1 ts (backends_of (pre @ post)) (ts_open s)"
  proof (cases "oc_backend c")
    case None
    then show ?thesis using ts(2) by (simp add: s1_def op(1) backends_of_def)
  next
    case (Some b)
    then have "backends_of (ts_open s) = backends_of pre @ b # backends_of post"
      by (simp add: op(1) backends_of_def)
    then show ?thesis
      using leave_holds [of s ts "backends_of pre" b "backends_of post" "ts_open s"] ts(2) Some
      by (simp add: s1_def entered_backends) (simp add: backends_of_def)
  qed
  then have "holds (release_session (oc_token c) s1) (xs @ ys) (backends_of (pre @ post)) (ts_open s)"
    unfolding tok(1) parts(2) by (rule release_session_holds)
  then have "holds ((release_session (oc_token c) s1)\<lparr>ts_open := pre @ post\<rparr>) (xs @ ys) (backends_of (pre @ post)) (pre @ post)"
    by (simp add: holds_def)
  moreover have "end_call i s = (release_session (oc_token c) s1)\<lparr>ts_open := pre @ post\<rparr>"
    using True op(3) by (simp add: end_call_def Let_def s1_def pre_c_post_def)
  ultimately show ?thesis
    using parts(1,3) unfolding accounted_def by (intro exI [of _ "xs @ ys"]) simp
next
  case False
  then show ?thesis using assms by (simp add: end_call_def)
qed

lemma swap_inflight: "swap load tier ref bo ld m = (r, ld', m') \<Longrightarrow> bm_inflight m' = bm_inflight m"
  by (auto simp: swap_def build_def Let_def split: option.splits prod.splits sum.splits bool.splits if_splits)

lemma rollback_inflight: "rollback load tier f bo ld m = (r, ld', m') \<Longrightarrow> bm_inflight m' = bm_inflight m"
  by (auto simp: rollback_def split: prod.splits sum.splits dest: swap_inflight)

lemma reload_finish_inflight: "reload_finish load tier d o1 o2 f ld m = (r, ld', m') \<Longrightarrow> bm_inflight m' = bm_inflight m"
  by (auto simp: reload_finish_def Let_def unload_def split: prod.splits sum.splits option.splits
      dest!: swap_inflight rollback_inflight)

lemma end_drain_inflight: "bm_inflight (g_mgr (end_drain load tier d o1 o2 g)) = bm_inflight (g_mgr g)"
  by (auto simp: end_drain_def split: option.splits prod.splits dest: reload_finish_inflight)

lemma other_events_inflight:
  "\<not> request_event e \<Longrightarrow> bm_inflight (g_mgr (manager_step load tier px e g)) = bm_inflight (g_mgr g)"
  by (cases e) (auto simp: start_frame reload_begin_frame close_ws_frame end_drain_inflight register_ws_def
      unregister_ws_def shutdown_def unload_def Let_def split: option.splits)

lemma manager_call_accounted:
  assumes "accounted s"
  shows "accounted (manager_call load tier px e s)"
proof (cases "ts_mgr s")
  case (Some m)
  then show ?thesis
    using assms other_events_inflight [of e load tier px "\<lparr>g_mgr = m, g_loader = ts_loader s\<rparr>"]
    by (auto simp: manager_call_def accounted_def holds_def Let_def)
qed (use assms in \<open>simp add: manager_call_def\<close>)

interpretation endpoint_steps: step_system "server_step load tier px" accounted for load tier px
proof
  fix s e
  assume "accounted s"
  then show "accounted (server_step load tier px e s)"
    by (cases e) (simp_all add: keeps_account_step tts_settled tts_stream_settled tts_clone_settled
        tts_clone_stream_settled tts_extract_settled end_call_accounted manager_call_accounted)
qed

section \<open>No call on an unloaded backend\<close>

definition safe_server :: "tts_server \<Rightarrow> bool" where
  "safe_server s \<longleftrightarrow> (\<exists>m. ts_mgr s = Some m \<and> requests_safe \<lparr>g_mgr = m, g_loader = ts_loader s\<rparr>)"

lemma safe_same: "safe_server s \<Longrightarrow> ts_mgr s' = ts_mgr s \<Longrightarrow> ts_loader s' = ts_loader s \<Longrightarrow> safe_server s'"
  by (simp add: safe_server_def)

lemma safe_step:
  assumes "safe_server s" "ts_mgr s = Some m" "orderly e"
    "ts_mgr s' = Some (g_mgr (manager_step load tier px e \<lparr>g_mgr = m, g_loader = ts_loader s\<rparr>))"
  shows "safe_server s'"
  using requests_safe_step [of "\<lparr>g_mgr = m, g_loader = ts_loader s\<rparr>" e load tier px] assms
  by (auto simp: safe_server_def requests_safe_def)

lemma safe_release_session: "safe_server s \<Longrightarrow> safe_server (release_session tok s)"
  by (erule safe_same) (simp_all add: release_session_def split: option.split)

lemma safe_take_slot: "take_slot s = (r, s') \<Longrightarrow> safe_server s \<Longrightarrow> safe_server s'"
  by (erule safe_same) (auto simp: take_slot_def split: option.splits prod.splits)

lemma safe_voice: "voice_for req b model s = (r, s') \<Longrightarrow> safe_server s \<Longrightarrow> safe_server s'"
  by (erule safe_same) (auto simp: voice_for_def split: prod.splits)

lemma safe_open [simp]: "safe_server (s\<lparr>ts_open := calls\<rparr>) = safe_server s"
  by (simp add: safe_server_def)

lemma safe_serve_snd [simp]: "safe_server (snd (serve tok b s)) = safe_server s"
  by (simp add: serve_def)

lemma safe_serve: "serve tok b s = (r, s') \<Longrightarrow> safe_server s \<Longrightarrow> safe_server s'"
  by (auto simp: serve_def)

lemma safe_enter:
  assumes "enter_manager s = (r, s')" "safe_server s"
  shows "safe_server s'"
proof -
  obtain m where m: "ts_mgr s = Some m" using assms(2) by (auto simp: safe_server_def)
  show ?thesis
    using safe_step [OF assms(2) m, of AcquireRequest s'] assms(1) m by (auto simp: enter_manager_def split: prod.splits)
qed

lemma safe_leave:
  assumes "safe_server s"
  shows "safe_server (leave_manager i s)"
proof -
  obtain m where m: "ts_mgr s = Some m" using assms by (auto simp: safe_server_def)
  show ?thesis
    using safe_step [OF assms m, of "ReleaseRequest i" "leave_manager i s"] m by (simp add: leave_manager_def)
qed

lemma safe_cleanup_safe: "safe_server s \<Longrightarrow> safe_server (safe_cleanup tok s)"
  by (simp add: safe_cleanup_def safe_release_session safe_leave)

lemma safe_start:
  assumes "start_manager c s = (ok, s')" "safe_server s"
  shows "safe_server s'"
proof -
  obtain m where m: "ts_mgr s = Some m" using assms(2) by (auto simp: safe_server_def)
  then have "s' = s \<or> ts_mgr s' = Some (snd (start (tc_build c) (ts_loader s) m))"
    using assms(1)
    by (auto simp: start_manager_def ensure_tts_manager_started_def split: if_splits prod.splits start_result.splits)
  then show ?thesis
    using safe_step [OF assms(2) m, of "Start (tc_build c)" s'] assms(2) by auto
qed

lemmas safe_parts = safe_take_slot safe_voice safe_serve safe_enter safe_start

lemma safe_stream_on_manager: "safe_server s \<Longrightarrow> safe_server (snd (stream_on_manager c req tok s))"
  by (auto simp: stream_on_manager_def split: prod.splits sum.splits option.splits
      intro: safe_release_session safe_cleanup_safe dest: safe_parts)

lemma safe_stream_legacy: "safe_server s \<Longrightarrow> safe_server (snd (stream_legacy c req tok s))"
  by (auto simp: stream_legacy_def split: prod.splits sum.splits option.splits reply.splits
      intro: safe_release_session dest: safe_parts)

lemma safe_tts_stream: "safe_server s \<Longrightarrow> safe_server (snd (tts_stream c req s))"
  by (auto simp: tts_stream_def split: prod.splits option.splits bool.splits
      intro: safe_release_session safe_stream_on_manager safe_stream_legacy dest: safe_parts)

lemma safe_within:
  assumes "safe_server s" "\<And>tok s r s'. body tok s = (r, s') \<Longrightarrow> safe_server s \<Longrightarrow> safe_server s'"
  shows "safe_server (snd (within_slot body s))"
proof -
  obtain r s1 where s1: "take_slot s = (r, s1)" by (meson surj_pair)
  obtain r2 s2 where s2: "body (the r) s1 = (r2, s2)" by (meson surj_pair)
  have "safe_server s1" "safe_server s2" using safe_take_slot [OF s1 assms(1)] assms(2) [OF s2] by simp_all
  then show ?thesis
    using s1 s2 assms(1) by (cases r; cases r2) (auto simp: within_slot_def safe_release_session)
qed

lemma safe_tts_synthesize: "tts_synthesize c req tok s = (r, s') \<Longrightarrow> safe_server s \<Longrightarrow> safe_server s'"
  by (auto simp: tts_synthesize_def split: prod.splits sum.splits option.splits bool.splits if_splits
      intro: safe_leave dest: safe_parts)

lemma safe_tts_clone_impl: "tts_clone_impl c e tok s = (r, s') \<Longrightarrow> safe_server s \<Longrightarrow> safe_server s'"
  by (auto simp: tts_clone_impl_def split: prod.splits sum.splits option.splits bool.splits if_splits http_status.splits
      dest: safe_parts)

lemma safe_end_call:
  assumes "safe_server s"
  shows "safe_server (end_call i s)"
proof -
  have "safe_server (release_session tok (if b then leave_manager j s else s))" for tok b j
    using assms by (simp add: safe_release_session safe_leave)
  then show ?thesis using assms by (simp add: end_call_def Let_def)
qed

fun orderly_event :: "endpoint_event \<Rightarrow> bool" where
  "orderly_event (ManagerCall e) = orderly e"
| "orderly_event e = True"

lemma safe_manager_call:
  assumes "safe_server s" "orderly e"
  shows "safe_server (manager_call load tier px e s)"
proof -
  obtain m where m: "ts_mgr s = Some m" "requests_safe \<lparr>g_mgr = m, g_loader = ts_loader s\<rparr>"
    using assms(1) by (auto simp: safe_server_def)
  from requests_safe_step [OF m(2) assms(2), of load tier px] show ?thesis
    using m assms(1) by (auto simp: manager_call_def safe_server_def requests_safe_def Let_def)
qed

lemma safe_server_step:
  assumes "safe_server s" "orderly_event e"
  shows "safe_server (server_step load tier px e s)"
proof (cases e)
  case (CloneStream c emb)
  have "safe_server (snd (tts_clone_stream c emb s))"
    using assms(1)
    by (auto simp: tts_clone_stream_def split: prod.splits sum.splits option.splits bool.splits http_status.splits
        intro: safe_release_session safe_cleanup_safe dest: safe_parts)
  then show ?thesis using CloneStream by simp
next
  case (EmbeddingCall c)
  have "safe_server (snd (tts_extract_embedding c s))"
    using assms(1) safe_within [OF assms(1), of "\<lambda>tok. serve tok None"]
    by (auto simp: tts_extract_embedding_def dest: safe_serve split: option.splits http_status.splits)
  then show ?thesis using EmbeddingCall by simp
qed (use assms in \<open>auto simp: tts_def tts_clone_def intro!: safe_within safe_tts_stream safe_end_call safe_manager_call
       dest: safe_tts_synthesize safe_tts_clone_impl\<close>)

lemma safe_server_run:
  "safe_server s \<Longrightarrow> \<forall>e \<in> set es. orderly_event e \<Longrightarrow> safe_server (fold (server_step load tier px) es s)"
  by (induction es arbitrary: s) (simp_all add: safe_server_step del: server_step.simps)

section \<open>Properties\<close>

definition new_server :: "limiter \<Rightarrow> backend_manager \<Rightarrow> loader \<Rightarrow> tts_overrides \<times> tts_store \<Rightarrow> tts_server" where
  "new_server li m ld voices =
     \<lparr>ts_limiter = Some li, ts_mgr = Some m, ts_loader = ld, ts_voices = voices, ts_open = []\<rparr>"

lemma new_server_accounted:
  assumes "new_limiter n = Inr li" "new_backend_manager name ref = Some m"
  shows "accounted (new_server li m ld voices)" "safe_server (new_server li m ld voices)"
proof -
  have "tokens li = []" using assms(1) by (auto simp: new_limiter_def split: if_splits)
  then have li: "limiter_inv li" "live_tokens li = {}"
    using new_limiter_inv [OF assms(1)] by (simp_all add: live_tokens_def)
  have m: "bm_inflight m = []" "manager_inv m"
    using assms(2) new_manager_inv [OF assms(2)] by (auto simp: new_backend_manager_def split: if_splits)
  show "accounted (new_server li m ld voices)"
    using li m(1) by (simp add: accounted_def new_server_def holds_def backends_of_def)
  show "safe_server (new_server li m ld voices)"
    using m by (simp add: safe_server_def new_server_def requests_safe_def)
qed

text \<open>
  C10: over any sequence of calls of the five synthesis endpoints, whatever each meets (no slot,
  a manager that is down or fails to start, a missing capability, a bad voice or embedding, a
  raise before the response), ends of open calls, and starts, reloads and drains of the
  manager: every open call holds one admission token of its own, these are all the live
  tokens of the limiter, and the requests the manager counts as inside are exactly the open
  calls that entered it, with their backends. No refusal and no end leaks either.
\<close>

theorem calls_hold_their_slots:
  assumes "new_limiter n = Inr li" "new_backend_manager name ref = Some m"
  shows "\<exists>li' m' ts. (let s = fold (server_step load tier px) es (new_server li m ld voices) in
           ts_limiter s = Some li' \<and> ts_mgr s = Some m'
           \<and> map oc_token (ts_open s) = map Some ts \<and> distinct ts \<and> live_tokens li' = set ts
           \<and> active li' = int (length (ts_open s)) \<and> active li' \<le> limit li'
           \<and> bm_inflight m' = backends_of (ts_open s))"
proof -
  let ?s = "fold (server_step load tier px) es (new_server li m ld voices)"
  have "accounted ?s" by (rule endpoint_steps.run_inv [OF new_server_accounted(1) [OF assms]])
  then obtain ts li' m' where h: "map oc_token (ts_open ?s) = map Some ts" "distinct ts" "ts_limiter ?s = Some li'"
      "limiter_inv li'" "live_tokens li' = set ts" "ts_mgr ?s = Some m'" "bm_inflight m' = backends_of (ts_open ?s)"
    by (auto simp: accounted_def holds_def)
  have "active li' = int (length (ts_open ?s))"
    using h(2,4,5) map_eq_imp_length_eq [OF h(1)] by (simp add: limiter_inv_def distinct_card)
  then show ?thesis using h by (auto simp: Let_def limiter_inv_def)
qed

text \<open>
  C32: while no drain times out and nobody shuts the manager down, no call is open on a backend
  that has been unloaded, however its stream, the other calls and the reloads interleave.
\<close>

theorem open_calls_on_live_backends:
  assumes "new_limiter n = Inr li" "new_backend_manager name ref = Some m" "\<forall>e \<in> set es. orderly_event e"
    "fold (server_step load tier px) es (new_server li m ld voices) = s"
    "c \<in> set (ts_open s)" "oc_backend c = Some b"
  shows "\<exists>m'. ts_mgr s = Some m' \<and> b \<in> set (bm_inflight m') \<and> bk_id b \<notin> set (bm_unloaded m')"
proof -
  have acc: "accounted s" using endpoint_steps.run_inv [OF new_server_accounted(1) [OF assms(1,2)]] assms(4) by blast
  have "safe_server s" using safe_server_run [OF new_server_accounted(2) [OF assms(1,2)] assms(3)] assms(4) by blast
  then obtain m' where m': "ts_mgr s = Some m'" "requests_safe \<lparr>g_mgr = m', g_loader = ts_loader s\<rparr>"
    by (auto simp: safe_server_def)
  have "bm_inflight m' = backends_of (ts_open s)" using acc m'(1) by (auto simp: accounted_def holds_def)
  moreover have "b \<in> set (backends_of (ts_open s))" using assms(5,6) by (force simp: backends_of_def)
  ultimately show ?thesis using m' by (auto simp: requests_safe_def)
qed

definition demo_call :: tts_call where
  "demo_call = \<lparr>tc_streaming = Some True, tc_rate = Some 24000, tc_build = good_build,
     tc_backend = \<lparr>be_model = ''qwen3-tts'', be_clone_attr = Some True, be_voice_clone = True\<rparr>,
     tc_service_ready = True, tc_fallback_model = ''qwen3-tts''\<rparr>"

definition demo_limiter :: limiter where
  "demo_limiter = \<lparr>limit = 1, active = 0, tokens = [], sessions_gauge = 0, rejected_http = 0, rejected_ws = 0\<rparr>"

lemma demo_limiter_new: "new_limiter 1 = Inr demo_limiter"
  by (simp add: new_limiter_def demo_limiter_def)

definition demo_calls :: "endpoint_event list" where
  "demo_calls = [CloneStream demo_call (b64encode [1]), CloneStream demo_call (b64encode [1]),
     ManagerCall (manager_event.ReloadCall None), ManagerCall ReloadCloseWs, ManagerCall (DrainDone good_build good_build)]"

definition demo_server :: tts_server where
  "demo_server =
     fold (server_step demo_load ''unknown'' (\<lambda>_. True)) demo_calls
       (new_server demo_limiter demo_manager (import_loader Map.empty)
         (no_overrides, \<lparr>ts_file = NoFile, ts_cache = [], ts_overrides = [], ts_env = Map.empty, ts_repr = (\<lambda>_. [])\<rparr>))"

lemma demo_server_run:
  "map (\<lambda>c. (oc_token c, map_option bk_id (oc_backend c))) (ts_open (demo_server)) = [(Some 0, Some 0)]
   \<and> map_option bm_state (ts_mgr (demo_server)) = Some DRAINING
   \<and> map_option rejected_http (ts_limiter (demo_server)) = Some 1"
  by (simp add: demo_server_def demo_calls_def new_server_def tts_clone_stream_def voice_clone_unsupported_response_def
      demo_call_def take_slot_def try_acquire_def demo_limiter_def start_manager_def ensure_tts_manager_started_def
      is_ready_def enter_manager_def serve_def manager_call_def manager_run del: b64encode.simps)

theorem calls_hold_their_slots_witness:
  "\<exists>li' m' ts. (let s = demo_server in
     ts_limiter s = Some li' \<and> ts_mgr s = Some m'
     \<and> map oc_token (ts_open s) = map Some ts \<and> distinct ts \<and> live_tokens li' = set ts
     \<and> active li' = int (length (ts_open s)) \<and> active li' \<le> limit li'
     \<and> bm_inflight m' = backends_of (ts_open s))"
  unfolding demo_server_def by (rule calls_hold_their_slots [OF demo_limiter_new demo_manager_new])

theorem open_calls_on_live_backends_witness:
  "\<exists>c b m'. ts_open (demo_server) = [c] \<and> oc_backend c = Some b \<and> ts_mgr (demo_server) = Some m'
     \<and> b \<in> set (bm_inflight m') \<and> bk_id b \<notin> set (bm_unloaded m')"
proof -
  obtain c b where c: "ts_open (demo_server) = [c]" "oc_backend c = Some b"
    using demo_server_run by (auto simp: map_eq_Cons_conv)
  have "\<forall>e \<in> set demo_calls. orderly_event e" by (simp add: demo_calls_def)
  from open_calls_on_live_backends [OF demo_limiter_new demo_manager_new this demo_server_def [symmetric]] c
  show ?thesis by auto
qed

section \<open>Observations\<close>

text \<open>The extraction of an embedding is not a request of the manager: a drain does not wait for it.\<close>

theorem extraction_invisible_to_manager:
  "tts_extract_embedding c s = (Serving, s') \<Longrightarrow> ts_mgr s' = ts_mgr s \<and> length (ts_open s') = length (ts_open s) + 1"
  by (auto simp: tts_extract_embedding_def within_slot_def serve_def take_slot_def
      split: option.splits http_status.splits if_splits prod.splits reply.splits)

text \<open>On the legacy path the sample rate and the voice are read outside every \<open>try\<close>: a raise there
  keeps the slot for ever.\<close>

theorem legacy_raise_keeps_slot:
  assumes "ts_limiter s = Some li" "try_acquire True li = (Some t, li1)" "ts_mgr s = None"
    "tc_streaming c = Some True" "tc_rate c = None"
  shows "\<exists>s'. tts_stream c req s = (Crashed, s') \<and> ts_limiter s' = Some li1 \<and> ts_open s' = ts_open s"
  using assms
  by (simp add: tts_stream_def take_slot_def start_manager_def ensure_tts_manager_started_def stream_legacy_def)

end
