(* ===== verification/Api_Auth.thy ===== *)
theory Api_Auth
  imports Prelude
begin

text \<open>
  Who may use the service (\<open>app/core/api_auth.py\<close>, \<open>app/core/admin_auth.py\<close>): API keys for the
  voice endpoints, a shared secret or the loopback interface for the admin routes. Header
  values, query parameters and the configured keys are code points; \<open>hmac.compare_digest\<close>
  raises on text outside ASCII. Counting and logging a rejection are left out.
\<close>

section \<open>Keys and credentials\<close>

definition parse_keys :: "ustr option \<Rightarrow> ustr list" where
  "parse_keys raw =
     (case raw of None \<Rightarrow> [] | Some r \<Rightarrow> filter (\<lambda>k. k \<noteq> []) (map ustrip (split_on 44 r)))"

definition is_enabled :: "ustr option \<Rightarrow> bool" where
  "is_enabled raw = (length (parse_keys raw) > 0)"

definition all_ascii :: "ustr \<Rightarrow> bool" where
  "all_ascii t = list_all (\<lambda>x. x < 128) t"

text \<open>\<open>None\<close> stands for the \<open>TypeError\<close>.\<close>

definition compare_digest :: "ustr \<Rightarrow> ustr \<Rightarrow> bool option" where
  "compare_digest a b = (if all_ascii a \<and> all_ascii b then Some (a = b) else None)"

fun match_loop :: "ustr \<Rightarrow> ustr list \<Rightarrow> bool \<Rightarrow> bool option" where
  "match_loop candidate [] matched = Some matched"
| "match_loop candidate (k # ks) matched =
     (case compare_digest candidate k of
        None \<Rightarrow> None
      | Some eq \<Rightarrow> match_loop candidate ks (if eq then True else matched))"

definition matches_key :: "ustr \<Rightarrow> ustr list \<Rightarrow> bool option" where
  "matches_key candidate keys = (if candidate = [] then Some False else match_loop candidate keys False)"

text \<open>\<open>s.split(None, 1)\<close>.\<close>

definition split_first :: "ustr \<Rightarrow> ustr list" where
  "split_first s =
     (let a = dropWhile py_isspace s;
          word = takeWhile (\<lambda>c. \<not> py_isspace c) a;
          rest = dropWhile py_isspace (dropWhile (\<lambda>c. \<not> py_isspace c) a)
      in if a = [] then [] else if rest = [] then [word] else [word, rest])"

definition extract_bearer :: "ustr option \<Rightarrow> ustr option" where
  "extract_bearer authorization =
     (case authorization of
        None \<Rightarrow> None
      | Some a \<Rightarrow>
          if a = [] then None
          else (case split_first a of
                  [scheme, token] \<Rightarrow> if ascii_lower scheme \<noteq> u ''bearer'' then None else Some (ustrip token)
                | _ \<Rightarrow> None))"

section \<open>The checks\<close>

datatype auth_result = Admitted | Rejected nat | AuthRaises

definition verdict :: "nat \<Rightarrow> ustr option \<Rightarrow> ustr list \<Rightarrow> auth_result" where
  "verdict code token keys =
     (case token of
        None \<Rightarrow> Rejected code
      | Some t \<Rightarrow>
          if t = [] then Rejected code
          else (case matches_key t keys of None \<Rightarrow> AuthRaises | Some b \<Rightarrow> if b then Admitted else Rejected code))"

definition check_http :: "ustr option \<Rightarrow> ustr option \<Rightarrow> auth_result" where
  "check_http env authorization =
     (let keys = parse_keys env in
      if keys = [] then Admitted else verdict 401 (extract_bearer authorization) keys)"

text \<open>A refused socket is accepted and closed with 4401; failing to do so changes nothing for the
  caller, which must return.\<close>

definition check_ws :: "ustr option \<Rightarrow> ustr option \<Rightarrow> ustr option \<Rightarrow> auth_result" where
  "check_ws env authorization query_token =
     (let keys = parse_keys env in
      if keys = [] then Admitted
      else verdict 4401
        (case authorization of
           Some a \<Rightarrow> extract_bearer (Some a)
         | None \<Rightarrow> map_option ustrip query_token) keys)"

text \<open>The peer of an admin request, as \<open>ipaddress\<close> classifies its host: none, no address, or an
  address with its \<open>is_loopback\<close>.\<close>

datatype peer = NoHost | NotAnAddress | Address bool

definition is_loopback :: "peer \<Rightarrow> bool" where
  "is_loopback p = (case p of Address b \<Rightarrow> b | _ \<Rightarrow> False)"

definition admin_key :: "ustr option \<Rightarrow> ustr option" where
  "admin_key env = (case env of None \<Rightarrow> None | Some raw \<Rightarrow> if ustrip raw = [] then None else Some (ustrip raw))"

definition require_admin :: "ustr option \<Rightarrow> peer \<Rightarrow> ustr option \<Rightarrow> auth_result" where
  "require_admin env client header =
     (if is_loopback client then Admitted
      else (case admin_key env of
              None \<Rightarrow> Rejected 403
            | Some expected \<Rightarrow>
                (case compare_digest (case header of None \<Rightarrow> [] | Some h \<Rightarrow> h) expected of
                   None \<Rightarrow> AuthRaises
                 | Some eq \<Rightarrow> if eq then Admitted else Rejected 401)))"

section \<open>Masking\<close>

definition mask_key_max_len :: nat where "mask_key_max_len = 4096"

text \<open>\<open>digest\<close> is the first six hexadecimal digits of SHA-256.\<close>

definition mask_key :: "(ustr \<Rightarrow> string) \<Rightarrow> ustr option \<Rightarrow> string" where
  "mask_key digest v =
     (case v of
        None \<Rightarrow> ''<missing>''
      | Some t \<Rightarrow> (let s = take mask_key_max_len t in if ustrip s = [] then ''<missing>'' else ''<masked:'' @ digest s @ ''>''))"

section \<open>What a key must look like\<close>

text \<open>A configured key has text, and no white space around it.\<close>

definition trimmed :: "ustr \<Rightarrow> bool" where
  "trimmed k \<longleftrightarrow> k \<noteq> [] \<and> \<not> py_isspace (hd k) \<and> \<not> py_isspace (last k)"

lemma strip_by_ends:
  assumes "strip_by P xs \<noteq> []"
  shows "\<not> P (hd (strip_by P xs)) \<and> \<not> P (last (strip_by P xs))"
proof -
  let ?d = "dropWhile P xs"
  have d: "?d \<noteq> []" using assms by (metis strip_by_def strip_while_Nil)
  have l: "strip_by P xs = rev (dropWhile P (rev ?d))" by (simp add: strip_by_def strip_while_def)
  have "\<not> P (last (strip_by P xs))"
    using assms unfolding l by (simp add: last_rev hd_dropWhile)
  moreover obtain ys where ys: "?d = strip_by P xs @ ys"
    unfolding l by (metis rev_append rev_rev_ident takeWhile_dropWhile_id)
  then have "hd (strip_by P xs) = hd ?d" using assms by (simp add: hd_append)
  then have "\<not> P (hd (strip_by P xs))" using hd_dropWhile [OF d] by simp
  ultimately show ?thesis by simp
qed

lemma parsed_keys_trimmed: "k \<in> set (parse_keys raw) \<Longrightarrow> trimmed k"
  using strip_by_ends [of py_isspace] by (auto simp: parse_keys_def trimmed_def split: option.splits)

lemma dropWhile_padding: "\<forall>c \<in> set pre. P c \<Longrightarrow> k \<noteq> [] \<Longrightarrow> \<not> P (hd k) \<Longrightarrow> dropWhile P (pre @ k) = k"
  by (cases k) (simp_all add: dropWhile_append2)

lemma strip_padded:
  assumes "trimmed k" "\<forall>c \<in> set pre. py_isspace c" "\<forall>c \<in> set post. py_isspace c"
  shows "ustrip (pre @ k @ post) = k"
proof -
  have "dropWhile py_isspace (pre @ k @ post) = k @ post"
    using assms(1,2) by (intro dropWhile_padding) (auto simp: trimmed_def)
  moreover have "dropWhile py_isspace (rev post @ rev k) = rev k"
    using assms(1,3) by (intro dropWhile_padding) (auto simp: trimmed_def hd_rev)
  ultimately show ?thesis by (simp add: strip_by_def strip_while_def)
qed

lemma match_loop_spec:
  "all_ascii c \<Longrightarrow> \<forall>k \<in> set ks. all_ascii k \<Longrightarrow> match_loop c ks m = Some (m \<or> c \<in> set ks)"
  by (induction c ks m rule: match_loop.induct) (auto simp: compare_digest_def)

lemma match_loop_raises: "\<not> all_ascii c \<Longrightarrow> ks \<noteq> [] \<Longrightarrow> match_loop c ks m = None"
  by (cases ks) (auto simp: compare_digest_def)

lemma matches_key_spec:
  "all_ascii c \<Longrightarrow> \<forall>k \<in> set ks. all_ascii k \<Longrightarrow> matches_key c ks = Some (c \<noteq> [] \<and> c \<in> set ks)"
  by (simp add: matches_key_def match_loop_spec)

text \<open>A token is admitted exactly if it is a key.\<close>

lemma verdict_spec:
  assumes "\<forall>k \<in> set keys. all_ascii k \<and> k \<noteq> []" "keys \<noteq> []"
  shows "verdict code token keys = Admitted \<longleftrightarrow> (\<exists>k \<in> set keys. token = Some k)"
proof (cases token)
  case (Some t)
  then show ?thesis
    using assms match_loop_raises [of t keys False] matches_key_spec [of t keys]
    by (cases "all_ascii t") (auto simp: verdict_def matches_key_def split: if_splits)
qed (simp add: verdict_def)

section \<open>Bearer credentials\<close>

text \<open>A header value that presents a key: white space, a word that is \<open>bearer\<close> in any case, white
  space, the key, white space.\<close>

definition bearer_of :: "ustr \<Rightarrow> ustr \<Rightarrow> bool" where
  "bearer_of k a \<longleftrightarrow>
     (\<exists>pre scheme sep post. a = pre @ scheme @ sep @ k @ post \<and> list_all py_isspace (pre @ sep @ post) \<and> sep \<noteq> [] \<and>
        list_all (\<lambda>c. \<not> py_isspace c) scheme \<and> ascii_lower scheme = u ''bearer'')"

lemma bearer_word: "ascii_lower scheme = u ''bearer'' \<Longrightarrow> scheme \<noteq> []"
  by (auto simp: ascii_lower_def u_def)

lemma split_first_two:
  assumes "list_all py_isspace pre" "list_all (\<lambda>c. \<not> py_isspace c) scheme" "scheme \<noteq> []" "list_all py_isspace sep" "sep \<noteq> []"
    and "rest \<noteq> []" "\<not> py_isspace (hd rest)"
  shows "split_first (pre @ scheme @ sep @ rest) = [scheme, rest]"
proof -
  have a: "dropWhile py_isspace (pre @ scheme @ sep @ rest) = scheme @ sep @ rest"
    using assms(1-3) by (intro dropWhile_padding) (auto simp: list_all_iff)
  have h: "py_isspace (hd (sep @ rest))" "sep @ rest \<noteq> []" using assms(4,5) by (auto simp: list_all_iff)
  have w: "takeWhile (\<lambda>c. \<not> py_isspace c) (scheme @ sep @ rest) = scheme"
    using assms(2) h by (cases "sep @ rest") (auto simp: list_all_iff takeWhile_append2)
  have d: "dropWhile (\<lambda>c. \<not> py_isspace c) (scheme @ sep @ rest) = sep @ rest"
    using assms(2) h by (intro dropWhile_padding) (auto simp: list_all_iff)
  have "dropWhile py_isspace (sep @ rest) = rest"
    using assms(4,6,7) by (intro dropWhile_padding) (auto simp: list_all_iff)
  then show ?thesis using assms(3,6) by (simp add: split_first_def a w d)
qed

lemma split_first_parts:
  assumes "split_first s = [scheme, rest]"
  obtains pre sep where "s = pre @ scheme @ sep @ rest" "list_all py_isspace pre" "list_all py_isspace sep" "sep \<noteq> []"
    "list_all (\<lambda>c. \<not> py_isspace c) scheme" "rest \<noteq> []" "\<not> py_isspace (hd rest)"
proof -
  define a where "a = dropWhile py_isspace s"
  define b where "b = dropWhile (\<lambda>c. \<not> py_isspace c) a"
  define r where "r = dropWhile py_isspace b"
  have "scheme = takeWhile (\<lambda>c. \<not> py_isspace c) a \<and> rest = r \<and> rest \<noteq> []"
    using assms unfolding split_first_def Let_def a_def [symmetric] b_def [symmetric] r_def [symmetric] by (simp split: if_splits)
  then have p: "scheme = takeWhile (\<lambda>c. \<not> py_isspace c) a" "rest = dropWhile py_isspace b" "rest \<noteq> []" unfolding r_def by blast+
  have b: "b \<noteq> []" using p(2,3) by auto
  then have hb: "py_isspace (hd b)" using hd_dropWhile [of "\<lambda>c. \<not> py_isspace c" a] by (simp add: b_def)
  have "s = takeWhile py_isspace s @ a" "a = scheme @ b" "b = takeWhile py_isspace b @ rest"
    by (simp_all add: a_def b_def p(1,2))
  then have "s = takeWhile py_isspace s @ scheme @ takeWhile py_isspace b @ rest" by metis
  moreover have "takeWhile py_isspace b \<noteq> []" using b hb by (cases b) simp_all
  moreover have "list_all py_isspace (takeWhile py_isspace s)" "list_all py_isspace (takeWhile py_isspace b)"
      "list_all (\<lambda>c. \<not> py_isspace c) scheme"
    unfolding p(1) by (auto simp: list_all_iff dest: set_takeWhileD)
  moreover have "\<not> py_isspace (hd rest)" using p(2,3) hd_dropWhile [of py_isspace b] by simp
  ultimately show thesis using that [of "takeWhile py_isspace s" "takeWhile py_isspace b"] p(3) by simp
qed

lemma extract_bearer_spec:
  assumes "trimmed k"
  shows "extract_bearer (Some a) = Some k \<longleftrightarrow> bearer_of k a"
proof
  assume e: "extract_bearer (Some a) = Some k"
  then obtain scheme rest where s: "split_first a = [scheme, rest]" "ascii_lower scheme = u ''bearer''" "ustrip rest = k"
    by (auto simp: extract_bearer_def split: if_splits list.splits)
  obtain pre sep where p: "a = pre @ scheme @ sep @ rest" "list_all py_isspace pre" "list_all py_isspace sep" "sep \<noteq> []"
      "list_all (\<lambda>c. \<not> py_isspace c) scheme" "rest \<noteq> []" "\<not> py_isspace (hd rest)"
    by (rule split_first_parts [OF s(1)])
  have "dropWhile py_isspace rest = rest" using p(6,7) by (cases rest) simp_all
  then have k: "k = rev (dropWhile py_isspace (rev rest))" using s(3) by (simp add: strip_by_def strip_while_def)
  have "rest = k @ rev (takeWhile py_isspace (rev rest))"
    unfolding k by (metis rev_append rev_rev_ident takeWhile_dropWhile_id)
  moreover have "list_all py_isspace (rev (takeWhile py_isspace (rev rest)))" by (auto simp: list_all_iff dest: set_takeWhileD)
  ultimately show "bearer_of k a" unfolding bearer_of_def using p(1-5) s(2)
    by (intro exI [of _ pre] exI [of _ scheme] exI [of _ sep] exI [of _ "rev (takeWhile py_isspace (rev rest))"]) simp
next
  assume "bearer_of k a"
  then obtain pre scheme sep post where a: "a = pre @ scheme @ sep @ k @ post" "list_all py_isspace (pre @ sep @ post)" "sep \<noteq> []"
      "list_all (\<lambda>c. \<not> py_isspace c) scheme" "ascii_lower scheme = u ''bearer''"
    by (auto simp: bearer_of_def)
  have "split_first a = [scheme, k @ post]"
    unfolding a(1) using a(2-5) bearer_word assms by (intro split_first_two) (auto simp: trimmed_def list_all_iff)
  moreover have "ustrip (k @ post) = k" using strip_padded [OF assms, of "[]" post] a(2) by (simp add: list_all_iff)
  moreover have "a \<noteq> []" unfolding a(1) using a(3) by simp
  ultimately show "extract_bearer (Some a) = Some k" using a(5) by (simp add: extract_bearer_def)
qed

section \<open>Who gets in\<close>

text \<open>
  C25: only key holders get in. With ASCII keys configured, an HTTP request passes exactly if its
  Authorization header presents one of them as a bearer token (in any letter case of the scheme and
  with any white space around the two words); a WebSocket passes exactly if it has such a header or,
  having no Authorization header at all, a query token that is a key up to surrounding white
  space: a bad header is not rescued by a good query token. Without keys everything passes.
\<close>

theorem only_key_holders_get_in:
  assumes "\<forall>k \<in> set (parse_keys env). all_ascii k"
  shows "(check_http env header = Admitted \<longleftrightarrow>
      \<not> is_enabled env \<or> (\<exists>k \<in> set (parse_keys env). \<exists>a. header = Some a \<and> bearer_of k a)) \<and>
    (check_ws env header query = Admitted \<longleftrightarrow>
      \<not> is_enabled env \<or> (\<exists>k \<in> set (parse_keys env). case header of
          Some a \<Rightarrow> bearer_of k a | None \<Rightarrow> (\<exists>q. query = Some q \<and> ustrip q = k)))"
proof -
  let ?keys = "parse_keys env"
  have k: "\<forall>k \<in> set ?keys. all_ascii k \<and> k \<noteq> []" using assms parsed_keys_trimmed by (auto simp: trimmed_def)
  have b: "k \<in> set ?keys \<Longrightarrow> extract_bearer (Some a) = Some k \<longleftrightarrow> bearer_of k a" for k a
    by (rule extract_bearer_spec [OF parsed_keys_trimmed])
  have e: "is_enabled env \<longleftrightarrow> ?keys \<noteq> []" by (simp add: is_enabled_def)
  have n: "extract_bearer None = None" by (simp add: extract_bearer_def)
  have h: "check_http env header = Admitted \<longleftrightarrow> \<not> is_enabled env \<or> (\<exists>k \<in> set ?keys. \<exists>a. header = Some a \<and> bearer_of k a)"
  proof (cases "?keys = []")
    case False
    then show ?thesis using verdict_spec [OF k False] b n by (cases header) (auto simp: check_http_def e)
  qed (simp add: check_http_def e)
  have w: "check_ws env header query = Admitted \<longleftrightarrow> \<not> is_enabled env \<or>
      (\<exists>k \<in> set ?keys. case header of Some a \<Rightarrow> bearer_of k a | None \<Rightarrow> (\<exists>q. query = Some q \<and> ustrip q = k))"
  proof (cases "?keys = []")
    case False
    then show ?thesis using verdict_spec [OF k False] b by (cases header) (auto simp: check_ws_def e)
  qed (simp add: check_ws_def e)
  show ?thesis using h w by blast
qed

theorem only_key_holders_get_in_witness:
  "check_http (Some (u '' k1 ,k2'')) (Some (u ''bearer  k2 '')) = Admitted \<and>
   check_ws (Some (u ''k1'')) (Some (u ''Basic k1'')) (Some (u ''k1'')) \<noteq> Admitted"
proof -
  have k: "parse_keys (Some (u '' k1 ,k2'')) = [u ''k1'', u ''k2'']" "parse_keys (Some (u ''k1'')) = [u ''k1'']"
    by (simp_all add: parse_keys_def u_def strip_by_def strip_while_def py_isspace_def)
  have a: "\<forall>k \<in> set [u ''k1'', u ''k2'']. all_ascii k" by (simp add: all_ascii_def u_def)
  have "bearer_of (u ''k2'') (u ''bearer  k2 '')"
    unfolding bearer_of_def
    by (intro exI [of _ "[]"] exI [of _ "u ''bearer''"] exI [of _ "u ''  ''"] exI [of _ "u '' ''"])
      (simp add: u_def py_isspace_def ascii_lower_def)
  then have "\<exists>k \<in> set (parse_keys (Some (u '' k1 ,k2''))). \<exists>a. Some (u ''bearer  k2 '') = Some a \<and> bearer_of k a"
    unfolding k(1) by (intro bexI [of _ "u ''k2''"] exI conjI) (rule refl, assumption, simp)
  then have "check_http (Some (u '' k1 ,k2'')) (Some (u ''bearer  k2 '')) = Admitted"
    using only_key_holders_get_in [OF a [folded k(1)]] by blast
  moreover have "extract_bearer (Some (u ''Basic k1'')) \<noteq> Some (u ''k1'')" "trimmed (u ''k1'')"
    by (simp_all add: extract_bearer_def split_first_def ascii_lower_def trimmed_def u_def py_isspace_def)
  then have "\<not> bearer_of (u ''k1'') (u ''Basic k1'')" using extract_bearer_spec by blast
  then have "check_ws (Some (u ''k1'')) (Some (u ''Basic k1'')) (Some (u ''k1'')) \<noteq> Admitted"
    using only_key_holders_get_in [of "Some (u ''k1'')" "Some (u ''Basic k1'')" "Some (u ''k1'')"] a
    by (simp add: is_enabled_def k(2))
  ultimately show ?thesis by simp
qed

text \<open>The admin routes: the loopback interface, or the exact secret when one is set.\<close>

theorem admin_needs_loopback_or_secret:
  "require_admin env client header = Admitted \<longleftrightarrow>
     is_loopback client \<or>
     (\<exists>raw. env = Some raw \<and> ustrip raw \<noteq> [] \<and> header = Some (ustrip raw) \<and> all_ascii (ustrip raw))"
  by (cases header) (auto simp: require_admin_def admin_key_def compare_digest_def split: option.splits)

section \<open>Where the checks depart from their documentation\<close>

text \<open>A token outside ASCII is not rejected with 401 or 4401: the comparison raises. The same
  happens to every credential once a configured key is outside ASCII.\<close>

lemma non_ascii_token_raises:
  assumes "parse_keys env = k # ks" "trimmed t" "\<not> all_ascii t"
  shows "check_http env (Some (u ''Bearer '' @ t)) = AuthRaises"
proof -
  have "bearer_of t (u ''Bearer '' @ t)"
    unfolding bearer_of_def
    by (intro exI [of _ "[]"] exI [of _ "u ''Bearer''"] exI [of _ "u '' ''"]) (simp add: u_def py_isspace_def ascii_lower_def)
  then have "extract_bearer (Some (u ''Bearer '' @ t)) = Some t" using extract_bearer_spec [OF assms(2)] by simp
  then show ?thesis
    using assms match_loop_raises [of t "k # ks" False]
    by (simp add: check_http_def verdict_def matches_key_def trimmed_def del: match_loop.simps)
qed

lemma non_ascii_key_locks_everyone_out:
  assumes "parse_keys env = [k]" "\<not> all_ascii k"
  shows "check_http env header \<noteq> Admitted"
  using assms by (auto simp: check_http_def verdict_def matches_key_def compare_digest_def split: option.splits)

end
