(* ===== verification/Tts_Stream.thy ===== *)
theory Tts_Stream
  imports Slv_Client Tts_Text "HOL-Library.Sublist"
begin

text \<open>
  The sentence pipeline of \<open>POST /tts/stream\<close> (\<open>tts_stream\<close> in \<open>app/main.py\<close>, the branch
  behind the backend manager). The response generator yields the sample rate, then drains one
  queue per sentence in order; each sentence is synthesised by a thread of an executor, and
  the next one is submitted when the current one gives its first chunk or ends. The generator,
  the threads and the disconnect watcher interleave; a step of the model is what one of them
  does between two awaits or two items of a backend's generator (the test of the cancel flag
  and the \<open>put\<close> after it are one step). The backend is a parameter: the chunks it gives for a
  sentence when nothing goes wrong.
\<close>

section \<open>State\<close>

type_synonym chunk = "byte list"

record stream_cfg =
  sc_rate :: nat
  sc_sentences :: "ustr list"
  sc_synth :: "ustr \<Rightarrow> chunk list"
  sc_max_workers :: nat
  sc_prefetch :: "string option"

text \<open>A sentence's thread: not submitted, in the executor's queue, iterating the backend's
  generator (with the chunks still to come), or finished.\<close>

datatype worker = NotSubmitted | InLine | Running "chunk list" | Returned

text \<open>Where the response generator is: before its first item, after the header, at the top of
  the loop over the sentences, at \<open>q.get()\<close> (with \<open>first_chunk_seen\<close>), or closed.\<close>

datatype drain = AtHeader | AtStart | AtTop nat | AtQueue nat bool | Finished

record stream_state =
  p_wire :: "chunk list"
  p_drain :: drain
  p_next :: nat
  p_queues :: "chunk option list list"
  p_workers :: "worker list"
  p_cancel :: bool
  p_failed :: "nat list"
  p_raised :: bool

definition sentence_count :: "stream_cfg \<Rightarrow> nat" where
  "sentence_count c = length (sc_sentences c)"

definition stream_init :: "stream_cfg \<Rightarrow> stream_state" where
  "stream_init c =
     \<lparr>p_wire = [], p_drain = AtHeader, p_next = 0, p_queues = replicate (sentence_count c) [],
      p_workers = replicate (sentence_count c) NotSubmitted, p_cancel = False, p_failed = [], p_raised = False\<rparr>"

section \<open>Operations\<close>

text \<open>\<open>prefetch_max\<close>; \<open>None\<close> is the \<open>ValueError\<close> of \<open>int\<close>.\<close>

definition stream_window :: "stream_cfg \<Rightarrow> int option" where
  "stream_window c =
     map_option (\<lambda>k. min k (int (sentence_count c)))
       (case sc_prefetch c of None \<Rightarrow> Some (int (sc_max_workers c)) | Some t \<Rightarrow> py_int t)"

definition submit :: "nat \<Rightarrow> stream_state \<Rightarrow> stream_state" where
  "submit i s = s\<lparr>p_workers := (p_workers s)[i := InLine]\<rparr>"

definition maybe_prefetch :: "stream_cfg \<Rightarrow> nat \<Rightarrow> stream_state \<Rightarrow> stream_state" where
  "maybe_prefetch c cur s =
     (if p_next s < sentence_count c \<and> \<not> p_cancel s
         \<and> (case stream_window c of None \<Rightarrow> False | Some k \<Rightarrow> int (p_next s) - int cur < k)
      then (submit (p_next s) s)\<lparr>p_next := p_next s + 1\<rparr> else s)"

text \<open>The generator ends by an exception, by being closed, or by reaching its end.\<close>

definition end_raised :: "stream_state \<Rightarrow> stream_state" where
  "end_raised s = s\<lparr>p_drain := Finished, p_raised := True\<rparr>"

text \<open>One step of \<open>stream()\<close>; \<open>None\<close> is waiting on an empty queue, or closed.\<close>

definition consume :: "stream_cfg \<Rightarrow> stream_state \<Rightarrow> stream_state option" where
  "consume c s =
     (case p_drain s of
        AtHeader \<Rightarrow>
          (case pack_u32 (sc_rate c) of
             None \<Rightarrow> Some (end_raised s)
           | Some h \<Rightarrow> Some (s\<lparr>p_wire := p_wire s @ [h], p_drain := AtStart\<rparr>))
      | AtStart \<Rightarrow>
          if sc_sentences c = [] then Some (s\<lparr>p_drain := Finished\<rparr>)
          else (case stream_window c of
                  None \<Rightarrow> Some (end_raised s)
                | Some k \<Rightarrow> Some ((submit 0 s)\<lparr>p_next := 1, p_drain := AtTop 0\<rparr>))
      | AtTop i \<Rightarrow>
          if i < sentence_count c \<and> \<not> p_cancel s then Some (s\<lparr>p_drain := AtQueue i False\<rparr>)
          else Some (s\<lparr>p_drain := Finished\<rparr>)
      | AtQueue i seen \<Rightarrow>
          (case p_queues s ! i of
             [] \<Rightarrow> None
           | None # q \<Rightarrow>
               Some ((maybe_prefetch c i (s\<lparr>p_queues := (p_queues s)[i := q]\<rparr>))\<lparr>p_drain := AtTop (i + 1)\<rparr>)
           | Some x # q \<Rightarrow>
               (let s1 = s\<lparr>p_queues := (p_queues s)[i := q]\<rparr>;
                    s2 = (if seen then s1 else maybe_prefetch c i s1)
                in Some (s2\<lparr>p_wire := p_wire s2 @ [x], p_drain := AtQueue i True\<rparr>)))
      | Finished \<Rightarrow> None)"

definition running :: "stream_state \<Rightarrow> nat" where
  "running s = length [w \<leftarrow> p_workers s. (case w of Running _ \<Rightarrow> True | _ \<Rightarrow> False)]"

text \<open>The executor runs its queue in order, with at most \<open>max_workers\<close> threads.\<close>

definition start_worker :: "stream_cfg \<Rightarrow> nat \<Rightarrow> stream_state \<Rightarrow> stream_state option" where
  "start_worker c i s =
     (if i < sentence_count c \<and> p_workers s ! i = InLine \<and> InLine \<notin> set (take i (p_workers s))
         \<and> running s < sc_max_workers c
      then Some (s\<lparr>p_workers := (p_workers s)[i := Running (sc_synth c (sc_sentences c ! i))]\<rparr>) else None)"

definition put :: "nat \<Rightarrow> chunk option \<Rightarrow> worker \<Rightarrow> stream_state \<Rightarrow> stream_state" where
  "put i x w s = s\<lparr>p_queues := (p_queues s)[i := p_queues s ! i @ [x]], p_workers := (p_workers s)[i := w]\<rparr>"

text \<open>A chunk of the loop in \<open>_run\<close>.\<close>

definition emit_chunk :: "stream_cfg \<Rightarrow> nat \<Rightarrow> stream_state \<Rightarrow> stream_state option" where
  "emit_chunk c i s =
     (if i < sentence_count c \<and> \<not> p_cancel s
      then (case p_workers s ! i of Running (x # rest) \<Rightarrow> Some (put i (Some x) (Running rest) s) | _ \<Rightarrow> None)
      else None)"

text \<open>The loop is left: the generator is exhausted, or the client is gone and the flag is seen
  or the watcher closed the generator. The \<open>finally\<close> puts the sentinel.\<close>

definition end_worker :: "stream_cfg \<Rightarrow> nat \<Rightarrow> stream_state \<Rightarrow> stream_state option" where
  "end_worker c i s =
     (if i < sentence_count c
      then (case p_workers s ! i of
              Running rest \<Rightarrow> if rest = [] \<or> p_cancel s then Some (put i None Returned s) else None
            | _ \<Rightarrow> None)
      else None)"

text \<open>The backend raises: the sentence is logged, and the \<open>finally\<close> puts the sentinel.\<close>

definition fail_worker :: "stream_cfg \<Rightarrow> nat \<Rightarrow> stream_state \<Rightarrow> stream_state option" where
  "fail_worker c i s =
     (if i < sentence_count c
      then (case p_workers s ! i of
              Running rest \<Rightarrow> Some ((put i None Returned s)\<lparr>p_failed := i # p_failed s\<rparr>) | _ \<Rightarrow> None)
      else None)"

text \<open>\<open>http.disconnect\<close> reaches the watcher, which runs from the first submission to the end.\<close>

definition disconnect :: "stream_state \<Rightarrow> stream_state option" where
  "disconnect s =
     (if p_cancel s \<or> p_drain s \<in> {AtHeader, AtStart, Finished} then None else Some (s\<lparr>p_cancel := True\<rparr>))"

text \<open>The server closes or cancels the response generator.\<close>

definition abandon_stream :: "stream_state \<Rightarrow> stream_state option" where
  "abandon_stream s = (if p_drain s = Finished then None else Some (end_raised s))"

datatype stream_event = Consume | Starts nat | Emits nat | Ends nat | Fails nat | Disconnects | Abandons

fun stream_step :: "stream_cfg \<Rightarrow> stream_event \<Rightarrow> stream_state \<Rightarrow> stream_state option" where
  "stream_step c Consume s = consume c s"
| "stream_step c (Starts i) s = start_worker c i s"
| "stream_step c (Emits i) s = emit_chunk c i s"
| "stream_step c (Ends i) s = end_worker c i s"
| "stream_step c (Fails i) s = fail_worker c i s"
| "stream_step c Disconnects s = disconnect s"
| "stream_step c Abandons s = abandon_stream s"

fun stream_run :: "stream_cfg \<Rightarrow> stream_event list \<Rightarrow> stream_state \<Rightarrow> stream_state option" where
  "stream_run c [] s = Some s"
| "stream_run c (e # es) s = (case stream_step c e s of None \<Rightarrow> None | Some s1 \<Rightarrow> stream_run c es s1)"

section \<open>One sentence\<close>

text \<open>
  The thread, the queue and what has been delivered of one sentence: together they hold the
  sentence's audio in order; \<open>popped\<close> says that the sentinel was taken, \<open>clean\<close> that the
  thread had no reason to stop early.
\<close>

fun lane_ok :: "chunk list \<Rightarrow> bool \<Rightarrow> bool \<Rightarrow> worker \<Rightarrow> chunk option list \<Rightarrow> chunk list \<Rightarrow> bool" where
  "lane_ok audio clean popped (Running rest) q d \<longleftrightarrow> \<not> popped \<and> (\<exists>m. q = map Some m \<and> d @ m @ rest = audio)"
| "lane_ok audio clean popped Returned q d \<longleftrightarrow>
     (\<exists>m. q = map Some m @ (if popped then [] else [None]) \<and> (popped \<longrightarrow> m = []) \<and> prefix (d @ m) audio
          \<and> (clean \<longrightarrow> d @ m = audio))"
| "lane_ok audio clean popped _ q d \<longleftrightarrow> \<not> popped \<and> q = [] \<and> d = []"

lemma lane_start: "lane_ok a cl p InLine q d \<Longrightarrow> lane_ok a cl p (Running a) q d"
  by simp

lemma lane_emit: "lane_ok a cl p (Running (x # r)) q d \<Longrightarrow> lane_ok a cl p (Running r) (q @ [Some x]) d"
  by (auto intro: exI [of _ "m @ [x]" for m])

lemma lane_end: "lane_ok a cl p (Running r) q d \<Longrightarrow> r = [] \<or> \<not> cl' \<Longrightarrow> lane_ok a cl' p Returned (q @ [None]) d"
  by (auto simp: prefix_def)

lemma lane_take: "lane_ok a cl p w (Some x # q) d \<Longrightarrow> lane_ok a cl p w q (d @ [x])"
  by (cases w) (auto simp: Cons_eq_map_conv Cons_eq_append_conv split: if_splits)

lemma lane_close: "lane_ok a cl p w (None # q) d \<Longrightarrow> lane_ok a cl True w q d"
  by (cases w) (auto simp: Cons_eq_map_conv Cons_eq_append_conv split: if_splits)

lemma lane_weaken: "lane_ok a cl p w q d \<Longrightarrow> (cl' \<longrightarrow> cl) \<Longrightarrow> lane_ok a cl' p w q d"
  by (cases w) auto

lemma lane_prefix: "lane_ok a cl p w q d \<Longrightarrow> prefix d a"
  by (cases w) (auto simp: prefix_def)

lemma lane_done: "lane_ok a cl True w q d \<Longrightarrow> cl \<Longrightarrow> d = a"
  by (cases w) auto

lemma lane_waiting: "lane_ok a cl False w [] d \<Longrightarrow> w \<noteq> Returned"
  by (cases w) auto

declare lane_ok.simps [simp del]

section \<open>The invariant\<close>

abbreviation audio :: "stream_cfg \<Rightarrow> nat \<Rightarrow> chunk list" where
  "audio c j \<equiv> sc_synth c (sc_sentences c ! j)"

abbreviation clean :: "stream_state \<Rightarrow> nat \<Rightarrow> bool" where
  "clean s j \<equiv> \<not> p_cancel s \<and> j \<notin> set (p_failed s)"

definition lanes_ok :: "stream_cfg \<Rightarrow> stream_state \<Rightarrow> nat \<Rightarrow> chunk list list \<Rightarrow> bool" where
  "lanes_ok c s k ds \<longleftrightarrow>
     length (p_workers s) = sentence_count c \<and> length (p_queues s) = sentence_count c \<and> length ds = sentence_count c
     \<and> (\<forall>j < sentence_count c. lane_ok (audio c j) (clean s j) (j < k) (p_workers s ! j) (p_queues s ! j) (ds ! j))
     \<and> (\<forall>j < sentence_count c. p_workers s ! j = NotSubmitted \<longleftrightarrow> p_next s \<le> j)"

definition sent :: "stream_cfg \<Rightarrow> stream_state \<Rightarrow> chunk list list \<Rightarrow> bool" where
  "sent c s ds \<longleftrightarrow> (\<exists>h. pack_u32 (sc_rate c) = Some h \<and> p_wire s = h # concat ds)"

text \<open>\<open>k\<close> sentences are drained, and \<open>ds\<close> is what each of them has put on the wire.\<close>

definition stream_ok :: "stream_cfg \<Rightarrow> stream_state \<Rightarrow> nat \<Rightarrow> chunk list list \<Rightarrow> bool" where
  "stream_ok c s k ds \<longleftrightarrow>
     lanes_ok c s k ds \<and> k \<le> sentence_count c \<and> p_next s \<le> sentence_count c
     \<and> (\<forall>j < sentence_count c. k < j \<longrightarrow> ds ! j = [])
     \<and> (case p_drain s of
          AtHeader \<Rightarrow> k = 0 \<and> p_next s = 0 \<and> p_wire s = [] \<and> concat ds = []
        | AtStart \<Rightarrow> k = 0 \<and> p_next s = 0 \<and> sent c s ds
        | AtTop i \<Rightarrow> k = i \<and> sent c s ds \<and> 0 < p_next s
        | AtQueue i seen \<Rightarrow> k = i \<and> i < sentence_count c \<and> sent c s ds \<and> 0 < p_next s
        | Finished \<Rightarrow> (p_wire s = [] \<and> concat ds = [] \<or> sent c s ds)
                      \<and> (p_raised s \<or> sent c s ds \<and> (p_cancel s \<or> k = sentence_count c)))"

lemma concat_deliver:
  assumes "i < length ds" "\<forall>j < length ds. i < j \<longrightarrow> ds ! j = []"
  shows "concat (ds[i := ds ! i @ [x]]) = concat ds @ [x]"
proof -
  have rest: "concat (drop (Suc i) ds) = []"
    using assms(2) by (auto simp: concat_eq_Nil_conv in_set_conv_nth)
  have "concat ds = concat (take i ds) @ ds ! i"
    using id_take_nth_drop [OF assms(1)] rest by (metis append_Nil2 concat.simps(2) concat_append)
  then show ?thesis
    using rest by (simp add: upd_conv_take_nth_drop [OF assms(1)])
qed

lemma stream_ok_init: "stream_ok c (stream_init c) 0 (replicate (sentence_count c) [])"
  by (auto simp: stream_ok_def lanes_ok_def stream_init_def concat_replicate_trivial lane_ok.simps)

lemma lanes_put:
  assumes "lanes_ok c s k ds" "i < sentence_count c" "p_workers s ! i \<noteq> NotSubmitted" "w \<noteq> NotSubmitted"
    "lane_ok (audio c i) (clean s i) (i < k) w (p_queues s ! i @ [x]) (ds ! i)"
  shows "lanes_ok c (put i x w s) k ds"
  using assms by (auto simp: lanes_ok_def put_def nth_list_update)

lemma lanes_frame:
  assumes "lanes_ok c s k ds" "p_workers s' = p_workers s" "p_queues s' = p_queues s" "p_next s' = p_next s"
    "\<And>j. clean s' j \<Longrightarrow> clean s j"
  shows "lanes_ok c s' k ds"
  using assms unfolding lanes_ok_def by (auto intro: lane_weaken)

lemma lanes_lane:
  "lanes_ok c s k ds \<Longrightarrow> j < sentence_count c
    \<Longrightarrow> lane_ok (audio c j) (clean s j) (j < k) (p_workers s ! j) (p_queues s ! j) (ds ! j)"
  by (simp add: lanes_ok_def)

lemma stream_ok_lanes:
  assumes "stream_ok c s k ds" "lanes_ok c s' k ds" "p_next s' = p_next s" "p_drain s' = p_drain s"
    "p_wire s' = p_wire s" "p_cancel s \<longrightarrow> p_cancel s'" "p_raised s' = p_raised s"
  shows "stream_ok c s' k ds"
  using assms by (auto simp: stream_ok_def sent_def split: drain.splits)

lemma start_worker_ok:
  assumes "stream_ok c s k ds" "start_worker c i s = Some s'"
  shows "stream_ok c s' k ds"
proof (rule stream_ok_lanes [OF assms(1)])
  have l: "lanes_ok c s k ds" using assms(1) by (simp add: stream_ok_def)
  have i: "i < sentence_count c" "p_workers s ! i = InLine"
    and s': "s' = s\<lparr>p_workers := (p_workers s)[i := Running (audio c i)]\<rparr>"
    using assms(2) by (auto simp: start_worker_def split: if_splits)
  show "lanes_ok c s' k ds"
    using l i lane_start [OF lanes_lane [OF l i(1), unfolded i(2)]]
    by (auto simp: s' lanes_ok_def nth_list_update)
qed (use assms(2) in \<open>auto simp: start_worker_def split: if_splits\<close>)

lemma emit_chunk_ok:
  assumes "stream_ok c s k ds" "emit_chunk c i s = Some s'"
  shows "stream_ok c s' k ds"
proof -
  obtain x rest where i: "i < sentence_count c" "p_workers s ! i = Running (x # rest)"
      and s': "s' = put i (Some x) (Running rest) s"
    using assms(2) by (auto simp: emit_chunk_def split: if_splits worker.splits list.splits)
  have l: "lanes_ok c s k ds" using assms(1) by (simp add: stream_ok_def)
  have "lanes_ok c s' k ds"
    unfolding s' using i by (intro lanes_put [OF l i(1)] lane_emit [OF lanes_lane [OF l i(1), unfolded i(2)]]) auto
  then show ?thesis
    by (rule stream_ok_lanes [OF assms(1)]) (simp_all add: s' put_def)
qed

lemma end_worker_ok:
  assumes "stream_ok c s k ds" "end_worker c i s = Some s'"
  shows "stream_ok c s' k ds"
proof -
  obtain rest where i: "i < sentence_count c" "p_workers s ! i = Running rest"
      and r: "rest = [] \<or> p_cancel s" and s': "s' = put i None Returned s"
    using assms(2) by (auto simp: end_worker_def split: if_splits worker.splits)
  have l: "lanes_ok c s k ds" using assms(1) by (simp add: stream_ok_def)
  have "lanes_ok c s' k ds"
    unfolding s' using i r by (intro lanes_put [OF l i(1)] lane_end [OF lanes_lane [OF l i(1), unfolded i(2)]]) auto
  then show ?thesis
    by (rule stream_ok_lanes [OF assms(1)]) (simp_all add: s' put_def)
qed

lemma fail_worker_ok:
  assumes "stream_ok c s k ds" "fail_worker c i s = Some s'"
  shows "stream_ok c s' k ds"
proof -
  obtain rest where i: "i < sentence_count c" "p_workers s ! i = Running rest"
      and s': "s' = (put i None Returned s)\<lparr>p_failed := i # p_failed s\<rparr>"
    using assms(2) by (auto simp: fail_worker_def split: if_splits worker.splits)
  let ?f = "s\<lparr>p_failed := i # p_failed s\<rparr>"
  have l: "lanes_ok c s k ds" using assms(1) by (simp add: stream_ok_def)
  then have f: "lanes_ok c ?f k ds" by (rule lanes_frame) auto
  have w: "p_workers ?f ! i = Running rest" using i by simp
  have "lanes_ok c (put i None Returned ?f) k ds"
    using w by (intro lanes_put [OF f i(1)] lane_end [OF lanes_lane [OF f i(1), unfolded w]]) auto
  moreover have "s' = put i None Returned ?f" by (simp add: s' put_def)
  ultimately show ?thesis
    by (intro stream_ok_lanes [OF assms(1)]) (simp_all add: put_def)
qed

lemma submit_lanes:
  assumes "lanes_ok c s k ds" "p_next s < sentence_count c"
  shows "lanes_ok c ((submit (p_next s) s)\<lparr>p_next := p_next s + 1\<rparr>) k ds"
proof -
  have "p_workers s ! p_next s = NotSubmitted" using assms by (simp add: lanes_ok_def)
  with lanes_lane [OF assms] show ?thesis
    using assms by (auto simp: lanes_ok_def submit_def nth_list_update lane_ok.simps)
qed

lemma maybe_prefetch_lanes: "lanes_ok c s k ds \<Longrightarrow> lanes_ok c (maybe_prefetch c i s) k ds"
  using submit_lanes [of c s k ds] by (simp add: maybe_prefetch_def)

lemma maybe_prefetch_frame [simp]:
  "p_wire (maybe_prefetch c i s) = p_wire s" "p_queues (maybe_prefetch c i s) = p_queues s"
  "p_cancel (maybe_prefetch c i s) = p_cancel s" "p_failed (maybe_prefetch c i s) = p_failed s"
  "p_drain (maybe_prefetch c i s) = p_drain s" "p_raised (maybe_prefetch c i s) = p_raised s"
  by (simp_all add: maybe_prefetch_def submit_def)

lemma maybe_prefetch_next:
  "p_next s \<le> sentence_count c \<Longrightarrow> p_next s \<le> p_next (maybe_prefetch c i s) \<and> p_next (maybe_prefetch c i s) \<le> sentence_count c"
  by (simp add: maybe_prefetch_def)

lemma lanes_pop:
  assumes "lanes_ok c s k ds" "i < sentence_count c"
    "lane_ok (audio c i) (clean s i) (i < k') (p_workers s ! i) q d" "\<And>j. j \<noteq> i \<Longrightarrow> (j < k') = (j < k)"
  shows "lanes_ok c (s\<lparr>p_queues := (p_queues s)[i := q]\<rparr>) k' (ds[i := d])"
  using assms by (auto simp: lanes_ok_def nth_list_update)

lemma consume_chunk_ok:
  assumes ok: "stream_ok c s k ds" and at: "p_drain s = AtQueue i seen" "p_queues s ! i = Some x # q"
    and s': "consume c s = Some s'"
  shows "stream_ok c s' k (ds[i := ds ! i @ [x]])"
proof -
  let ?s1 = "s\<lparr>p_queues := (p_queues s)[i := q]\<rparr>" and ?ds = "ds[i := ds ! i @ [x]]"
  let ?s2 = "if seen then ?s1 else maybe_prefetch c i ?s1"
  have l: "lanes_ok c s k ds" and i: "i < sentence_count c" "k = i"
    using ok at by (auto simp: stream_ok_def)
  have "lanes_ok c ?s1 k ?ds"
    by (intro lanes_pop [OF l i(1)] lane_take [OF lanes_lane [OF l i(1), unfolded at(2)]]) simp
  then have l2: "lanes_ok c ?s2 k ?ds" by (simp add: maybe_prefetch_lanes)
  have s2: "s' = ?s2\<lparr>p_wire := p_wire ?s2 @ [x], p_drain := AtQueue i True\<rparr>"
    using s' at by (simp add: consume_def Let_def)
  have "lanes_ok c s' k ?ds" unfolding s2 by (rule lanes_frame [OF l2]) simp_all
  moreover have "concat ?ds = concat ds @ [x]"
    using ok i by (intro concat_deliver) (auto simp: stream_ok_def lanes_ok_def)
  ultimately show ?thesis
    using ok at i maybe_prefetch_next [of ?s1 c i] unfolding s2 by (auto simp: stream_ok_def sent_def)
qed

lemma consume_end_ok:
  assumes ok: "stream_ok c s k ds" and at: "p_drain s = AtQueue i seen" "p_queues s ! i = None # q"
    and s': "consume c s = Some s'"
  shows "stream_ok c s' (k + 1) ds"
proof -
  let ?s1 = "s\<lparr>p_queues := (p_queues s)[i := q]\<rparr>"
  have l: "lanes_ok c s k ds" and i: "i < sentence_count c" "k = i"
    using ok at by (auto simp: stream_ok_def)
  have "lane_ok (audio c i) (clean s i) (i < k + 1) (p_workers s ! i) q (ds ! i)"
    using lane_close [OF lanes_lane [OF l i(1), unfolded at(2)]] i by simp
  then have "lanes_ok c ?s1 (k + 1) (ds[i := ds ! i])"
    using i by (intro lanes_pop [OF l i(1)]) auto
  then have "lanes_ok c (maybe_prefetch c i ?s1) (k + 1) ds"
    by (simp add: maybe_prefetch_lanes)
  moreover have s2: "s' = (maybe_prefetch c i ?s1)\<lparr>p_drain := AtTop (i + 1)\<rparr>"
    using s' at by (simp add: consume_def)
  ultimately have "lanes_ok c s' (k + 1) ds" by (auto intro: lanes_frame)
  then show ?thesis
    using ok at i maybe_prefetch_next [of ?s1 c i] unfolding s2 by (auto simp: stream_ok_def sent_def)
qed

lemma consume_ok:
  assumes ok: "stream_ok c s k ds" and s': "consume c s = Some s'"
  shows "\<exists>k ds. stream_ok c s' k ds"
proof (cases "p_drain s")
  case AtHeader
  then have "stream_ok c s' k ds"
    using ok s' by (auto simp: consume_def stream_ok_def end_raised_def sent_def split: option.splits intro: lanes_frame)
  then show ?thesis by blast
next
  case AtStart
  have "lanes_ok c ((submit 0 s)\<lparr>p_next := 1\<rparr>) k ds" if "sc_sentences c \<noteq> []"
  proof -
    have "0 < sentence_count c" using that by (simp add: sentence_count_def)
    then show ?thesis using submit_lanes [of c s k ds] ok AtStart by (auto simp: stream_ok_def)
  qed
  then have "stream_ok c s' k ds"
    using ok s' AtStart
    by (auto simp: consume_def stream_ok_def end_raised_def sent_def sentence_count_def submit_def Suc_leI
             split: option.splits if_splits intro: lanes_frame)
  then show ?thesis by blast
next
  case (AtTop i)
  then have "stream_ok c s' k ds"
    using ok s' by (auto simp: consume_def stream_ok_def sent_def split: if_splits intro: lanes_frame)
  then show ?thesis by blast
next
  case (AtQueue i seen)
  then show ?thesis
    using consume_chunk_ok [OF ok AtQueue] consume_end_ok [OF ok AtQueue] s'
    by (cases "p_queues s ! i") (auto simp: consume_def split: option.splits)
next
  case Finished
  then show ?thesis using s' by (simp add: consume_def)
qed

lemma stream_step_ok:
  assumes "stream_ok c s k ds" "stream_step c e s = Some s'"
  shows "\<exists>k ds. stream_ok c s' k ds"
proof (cases e)
  case Disconnects
  then have "s' = s\<lparr>p_cancel := True\<rparr>" using assms(2) by (simp add: disconnect_def split: if_splits)
  then have "stream_ok c s' k ds"
    using assms(1) by (intro stream_ok_lanes [OF assms(1)]) (auto simp: stream_ok_def intro: lanes_frame)
  then show ?thesis by blast
next
  case Abandons
  then have "s' = end_raised s" using assms(2) by (simp add: abandon_stream_def split: if_splits)
  then have "stream_ok c s' k ds"
    using assms(1) by (auto simp: stream_ok_def end_raised_def sent_def split: drain.splits intro: lanes_frame)
  then show ?thesis by blast
qed (use assms in \<open>auto dest: consume_ok start_worker_ok emit_chunk_ok end_worker_ok fail_worker_ok\<close>)

lemma stream_run_ok: "stream_ok c s k ds \<Longrightarrow> stream_run c es s = Some t \<Longrightarrow> \<exists>k ds. stream_ok c t k ds"
proof (induction es arbitrary: s k ds)
  case (Cons e es)
  then show ?case by (auto split: option.splits dest: stream_step_ok)
qed auto

section \<open>Progress\<close>

text \<open>How much is left to do: every step of anybody makes it smaller.\<close>

fun worker_left :: "nat \<Rightarrow> worker \<Rightarrow> nat" where
  "worker_left n NotSubmitted = 2 * n + 5"
| "worker_left n InLine = 2 * n + 4"
| "worker_left n (Running rest) = 2 * length rest + 3"
| "worker_left n Returned = 0"

fun drain_left :: "nat \<Rightarrow> drain \<Rightarrow> nat" where
  "drain_left n AtHeader = 2 * n + 4"
| "drain_left n AtStart = 2 * n + 3"
| "drain_left n (AtTop i) = 2 * (n - i) + 2"
| "drain_left n (AtQueue i seen) = 2 * (n - i) + 1"
| "drain_left n Finished = 0"

definition lanes_left :: "stream_cfg \<Rightarrow> worker list \<Rightarrow> chunk option list list \<Rightarrow> nat" where
  "lanes_left c ws qs = (\<Sum>j < sentence_count c. worker_left (length (audio c j)) (ws ! j) + length (qs ! j))"

definition stream_left :: "stream_cfg \<Rightarrow> stream_state \<Rightarrow> nat" where
  "stream_left c s =
     lanes_left c (p_workers s) (p_queues s) + drain_left (sentence_count c) (p_drain s) + (if p_cancel s then 0 else 1)"

lemma lanes_left_update:
  assumes "i < sentence_count c" "length ws = sentence_count c" "length qs = sentence_count c"
  shows "lanes_left c (ws[i := w]) (qs[i := q]) + worker_left (length (audio c i)) (ws ! i) + length (qs ! i)
         = lanes_left c ws qs + worker_left (length (audio c i)) w + length q"
proof -
  have "lanes_left c vs rs = worker_left (length (audio c i)) (vs ! i) + length (rs ! i)
          + (\<Sum>j \<in> {..<sentence_count c} - {i}. worker_left (length (audio c j)) (vs ! j) + length (rs ! j))" for vs rs
    unfolding lanes_left_def using assms(1) by (simp add: sum.remove [of "{..<sentence_count c}" i])
  note split = this
  have "(\<Sum>j \<in> {..<sentence_count c} - {i}. worker_left (length (audio c j)) (ws[i := w] ! j) + length (qs[i := q] ! j))
      = (\<Sum>j \<in> {..<sentence_count c} - {i}. worker_left (length (audio c j)) (ws ! j) + length (qs ! j))"
    by (intro sum.cong) auto
  then show ?thesis
    using assms by (simp add: split [of "ws[i := w]"] split [of ws])
qed

lemma lanes_left_worker:
  "i < sentence_count c \<Longrightarrow> length ws = sentence_count c \<Longrightarrow> length qs = sentence_count c
    \<Longrightarrow> lanes_left c (ws[i := w]) qs + worker_left (length (audio c i)) (ws ! i)
       = lanes_left c ws qs + worker_left (length (audio c i)) w"
  using lanes_left_update [of i c ws qs w "qs ! i"] by simp

lemma lanes_left_queue:
  "i < sentence_count c \<Longrightarrow> length ws = sentence_count c \<Longrightarrow> length qs = sentence_count c
    \<Longrightarrow> lanes_left c ws (qs[i := q]) + length (qs ! i) = lanes_left c ws qs + length q"
  using lanes_left_update [of i c ws qs "ws ! i" q] by simp

lemma lanes_lengths:
  "lanes_ok c s k ds \<Longrightarrow> length (p_workers s) = sentence_count c \<and> length (p_queues s) = sentence_count c"
  by (simp add: lanes_ok_def)

lemma submit_left:
  assumes "lanes_ok c s k ds" "p_next s < sentence_count c"
  shows "lanes_left c (p_workers (submit (p_next s) s)) (p_queues s) < lanes_left c (p_workers s) (p_queues s)"
proof -
  have "p_workers s ! p_next s = NotSubmitted" using assms by (simp add: lanes_ok_def)
  then show ?thesis
    using lanes_left_worker [of "p_next s" c "p_workers s" "p_queues s" InLine] lanes_lengths [OF assms(1)] assms(2)
    by (simp add: submit_def)
qed

lemma prefetch_left:
  assumes "lanes_ok c s k ds"
  shows "lanes_left c (p_workers (maybe_prefetch c i s)) (p_queues s) \<le> lanes_left c (p_workers s) (p_queues s)"
  using submit_left [OF assms] by (auto simp: maybe_prefetch_def)

lemma put_left:
  assumes "lanes_ok c s k ds" "i < sentence_count c"
    "worker_left (length (audio c i)) w + 1 < worker_left (length (audio c i)) (p_workers s ! i)"
  shows "stream_left c (put i x w s) < stream_left c s"
  using lanes_left_update [of i c "p_workers s" "p_queues s" w "p_queues s ! i @ [x]"] lanes_lengths [OF assms(1)] assms(2,3)
  by (simp add: stream_left_def put_def)

lemma queue_left:
  assumes "stream_ok c s k ds" "p_drain s = AtQueue i seen" "p_queues s ! i = x # q"
  shows "lanes_left c (p_workers (maybe_prefetch c i (s\<lparr>p_queues := (p_queues s)[i := q]\<rparr>))) ((p_queues s)[i := q])
           < lanes_left c (p_workers s) (p_queues s)"
    and "lanes_left c (p_workers s) ((p_queues s)[i := q]) < lanes_left c (p_workers s) (p_queues s)"
proof -
  have i: "i < sentence_count c" and l: "lanes_ok c s k ds"
    using assms by (auto simp: stream_ok_def)
  show less: "lanes_left c (p_workers s) ((p_queues s)[i := q]) < lanes_left c (p_workers s) (p_queues s)"
    using lanes_left_queue [of i c "p_workers s" "p_queues s" q] lanes_lengths [OF l] i assms(3) by simp
  have "lanes_left c (p_workers (maybe_prefetch c i (s\<lparr>p_queues := (p_queues s)[i := q]\<rparr>))) ((p_queues s)[i := q])
          \<le> lanes_left c (p_workers s) ((p_queues s)[i := q])"
    using lanes_left_worker [of "p_next s" c "p_workers s" "(p_queues s)[i := q]" InLine] lanes_lengths [OF l] l
    by (auto simp: maybe_prefetch_def submit_def lanes_ok_def)
  with less show "lanes_left c (p_workers (maybe_prefetch c i (s\<lparr>p_queues := (p_queues s)[i := q]\<rparr>))) ((p_queues s)[i := q])
           < lanes_left c (p_workers s) (p_queues s)" by simp
qed

lemma consume_left:
  assumes ok: "stream_ok c s k ds" and s': "consume c s = Some s'"
  shows "stream_left c s' < stream_left c s"
proof (cases "p_drain s")
  case AtHeader
  then show ?thesis
    using s' by (auto simp: consume_def end_raised_def stream_left_def split: option.splits)
next
  case AtStart
  have "lanes_left c (p_workers (submit 0 s)) (p_queues s) < lanes_left c (p_workers s) (p_queues s)" if "sc_sentences c \<noteq> []"
  proof -
    have "0 < sentence_count c" using that by (simp add: sentence_count_def)
    then show ?thesis using submit_left [of c s k ds] ok AtStart by (auto simp: stream_ok_def)
  qed
  then show ?thesis
    using s' AtStart
    by (auto simp: consume_def end_raised_def stream_left_def submit_def split: option.splits if_splits)
next
  case (AtTop i)
  then show ?thesis
    using ok s' by (auto simp: consume_def stream_ok_def stream_left_def split: if_splits)
next
  case (AtQueue i seen)
  have "i < sentence_count c" using ok AtQueue by (simp add: stream_ok_def)
  then show ?thesis
    using s' AtQueue queue_left [OF ok AtQueue]
    by (cases "p_queues s ! i") (auto simp: consume_def stream_left_def Let_def split: option.splits if_splits)
next
  case Finished
  then show ?thesis using s' by (simp add: consume_def)
qed

lemma stream_step_left:
  assumes ok: "stream_ok c s k ds" and s': "stream_step c e s = Some s'"
  shows "stream_left c s' < stream_left c s"
proof -
  have l: "lanes_ok c s k ds" using ok by (simp add: stream_ok_def)
  show ?thesis
  proof (cases e)
    case Consume
    then show ?thesis using consume_left [OF ok] s' by simp
  next
    case (Starts i)
    then show ?thesis
      using s' lanes_left_worker [of i c "p_workers s" "p_queues s" "Running (audio c i)"] lanes_lengths [OF l]
      by (auto simp: start_worker_def stream_left_def split: if_splits)
  next
    case (Emits i)
    then show ?thesis
      using s' put_left [OF l, of i] by (auto simp: emit_chunk_def split: if_splits worker.splits list.splits)
  next
    case (Ends i)
    then show ?thesis
      using s' put_left [OF l, of i Returned None] by (auto simp: end_worker_def split: if_splits worker.splits)
  next
    case (Fails i)
    then show ?thesis
      using s' put_left [OF l, of i Returned None]
      by (auto simp: fail_worker_def stream_left_def split: if_splits worker.splits)
  next
    case Disconnects
    then show ?thesis using s' by (auto simp: disconnect_def stream_left_def split: if_splits)
  next
    case Abandons
    then show ?thesis
      using s' by (cases "p_drain s") (auto simp: abandon_stream_def end_raised_def stream_left_def split: if_splits)
  qed
qed

lemma stream_run_left: "stream_ok c s k ds \<Longrightarrow> stream_run c es s = Some t \<Longrightarrow> length es + stream_left c t \<le> stream_left c s"
proof (induction es arbitrary: s k ds)
  case (Cons e es)
  then obtain s1 where s1: "stream_step c e s = Some s1" "stream_run c es s1 = Some t"
    by (auto split: option.splits)
  obtain k1 ds1 where "stream_ok c s1 k1 ds1" using stream_step_ok [OF Cons.prems(1) s1(1)] by blast
  then show ?case using Cons.IH [OF _ s1(2)] stream_step_left [OF Cons.prems(1) s1(1)] by fastforce
qed simp

text \<open>With a window of two or more, the sentence to be drained has been submitted.\<close>

definition pipelined :: "stream_cfg \<Rightarrow> bool" where
  "pipelined c =
     (0 < sc_max_workers c \<and> (case stream_window c of None \<Rightarrow> True | Some k \<Rightarrow> 2 \<le> k \<or> sentence_count c \<le> 1))"

definition fed :: "stream_cfg \<Rightarrow> stream_state \<Rightarrow> bool" where
  "fed c s \<longleftrightarrow>
     (case p_drain s of
        AtTop i \<Rightarrow> stream_window c \<noteq> None \<and> (p_cancel s \<or> i = sentence_count c \<or> i < p_next s)
      | AtQueue i seen \<Rightarrow> stream_window c \<noteq> None \<and> i < p_next s
      | _ \<Rightarrow> True)"

lemma prefetch_feeds:
  assumes "pipelined c" "stream_window c \<noteq> None" "i < p_next s" "i < sentence_count c"
  shows "p_cancel s \<or> i + 1 = sentence_count c \<or> i + 1 < p_next (maybe_prefetch c i s)"
  using assms by (auto simp: pipelined_def maybe_prefetch_def)

lemma consume_fed:
  assumes "pipelined c" "stream_ok c s k ds" "fed c s" "consume c s = Some s'"
  shows "fed c s'"
proof (cases "p_drain s")
  case (AtQueue i seen)
  then have i: "i < sentence_count c" "i < p_next s" "stream_window c \<noteq> None"
    using assms(2,3) by (auto simp: stream_ok_def fed_def)
  have next_le: "p_next s \<le> sentence_count c" using assms(2) by (simp add: stream_ok_def)
  let ?s1 = "s\<lparr>p_queues := (p_queues s)[i := tl (p_queues s ! i)]\<rparr>"
  have grown: "i < p_next (maybe_prefetch c i ?s1)"
    using maybe_prefetch_next [of ?s1 c i] i next_le by simp
  have fed: "p_cancel s \<or> i + 1 = sentence_count c \<or> i + 1 < p_next (maybe_prefetch c i ?s1)"
    using prefetch_feeds [OF assms(1) i(3), of i ?s1] i by simp
  show ?thesis
  proof (cases "p_queues s ! i")
    case Nil
    then show ?thesis using assms(4) AtQueue by (simp add: consume_def)
  next
    case (Cons x q)
    then show ?thesis
      using assms(4) AtQueue i grown fed by (cases x) (auto simp: consume_def fed_def Let_def)
  qed
qed (use assms in \<open>auto simp: consume_def fed_def end_raised_def submit_def split: option.splits if_splits\<close>)

lemma stream_step_fed:
  assumes "pipelined c" "stream_ok c s k ds" "fed c s" "stream_step c e s = Some s'"
  shows "fed c s'"
proof (cases e)
  case Consume
  then show ?thesis using consume_fed [OF assms(1-3)] assms(4) by simp
qed (use assms in \<open>auto simp: fed_def start_worker_def emit_chunk_def end_worker_def fail_worker_def disconnect_def
       abandon_stream_def end_raised_def put_def split: if_splits worker.splits list.splits drain.splits\<close>)

lemma stream_run_fed:
  "pipelined c \<Longrightarrow> stream_ok c s k ds \<Longrightarrow> fed c s \<Longrightarrow> stream_run c es s = Some t \<Longrightarrow> fed c t"
proof (induction es arbitrary: s k ds)
  case (Cons e es)
  then obtain s1 where s1: "stream_step c e s = Some s1" "stream_run c es s1 = Some t"
    by (auto split: option.splits)
  then show ?case
    using Cons.IH [OF Cons.prems(1) _ _ s1(2)] stream_step_ok [OF Cons.prems(2) s1(1)]
      stream_step_fed [OF Cons.prems(1-3) s1(1)] by blast
qed simp

text \<open>The steps of the response generator, the executor and its threads: not a failure of the
  backend, nor the client's leaving, nor the server's closing the response.\<close>

fun server_event :: "stream_event \<Rightarrow> bool" where
  "server_event Consume = True"
| "server_event (Starts _) = True"
| "server_event (Emits _) = True"
| "server_event (Ends _) = True"
| "server_event _ = False"

lemma running_steps:
  assumes "i < sentence_count c" "p_workers s ! i = Running rest"
  shows "\<exists>e. server_event e \<and> stream_step c e s \<noteq> None"
proof (cases "rest = [] \<or> p_cancel s")
  case True
  then have "server_event (Ends i) \<and> stream_step c (Ends i) s \<noteq> None" using assms by (simp add: end_worker_def)
  then show ?thesis by blast
next
  case False
  then have "server_event (Emits i) \<and> stream_step c (Emits i) s \<noteq> None" using assms by (simp add: emit_chunk_def split: list.splits)
  then show ?thesis by blast
qed

lemma some_worker_steps:
  assumes "length (p_workers s) = sentence_count c" "0 < sc_max_workers c" "i < sentence_count c" "p_workers s ! i = InLine"
  shows "\<exists>e. server_event e \<and> stream_step c e s \<noteq> None"
proof (cases "running s = 0")
  case False
  then obtain w where "w \<in> set (p_workers s)" "case w of Running _ \<Rightarrow> True | _ \<Rightarrow> False"
    unfolding running_def by (auto simp: filter_empty_conv)
  then obtain rest where "Running rest \<in> set (p_workers s)" by (auto split: worker.splits)
  then show ?thesis using running_steps assms(1) by (metis in_set_conv_nth)
next
  case True
  define j where "j = (LEAST j. p_workers s ! j = InLine)"
  have j: "p_workers s ! j = InLine" "j \<le> i" "\<And>l. l < j \<Longrightarrow> p_workers s ! l \<noteq> InLine"
    using assms(4) unfolding j_def by (auto intro: LeastI Least_le dest: not_less_Least)
  then have "InLine \<notin> set (take j (p_workers s))" by (auto simp: in_set_conv_nth)
  then have "server_event (Starts j) \<and> stream_step c (Starts j) s \<noteq> None"
    using j True assms by (simp add: start_worker_def)
  then show ?thesis by blast
qed

lemma stream_progress:
  assumes "pipelined c" "stream_ok c s k ds" "fed c s" "p_drain s \<noteq> Finished"
  shows "\<exists>e. server_event e \<and> stream_step c e s \<noteq> None"
proof (cases "\<exists>i seen. p_drain s = AtQueue i seen \<and> p_queues s ! i = []")
  case False
  then have "consume c s \<noteq> None"
    using assms(4) by (auto simp: consume_def Let_def split: drain.splits option.splits list.splits)
  then have "server_event Consume \<and> stream_step c Consume s \<noteq> None" by simp
  then show ?thesis by blast
next
  case True
  then obtain i seen where at: "p_drain s = AtQueue i seen" "p_queues s ! i = []" by blast
  have i: "i < sentence_count c" "i = k" "i < p_next s" and l: "lanes_ok c s k ds"
    using assms(2,3) at by (auto simp: stream_ok_def fed_def)
  have "p_workers s ! i \<noteq> Returned"
    using lanes_lane [OF l i(1)] at i lane_waiting by fastforce
  moreover have "p_workers s ! i \<noteq> NotSubmitted" using l i by (auto simp: lanes_ok_def)
  ultimately show ?thesis
    using running_steps [OF i(1)] some_worker_steps [OF _ _ i(1)] lanes_lengths [OF l] assms(1)
    by (cases "p_workers s ! i") (auto simp: pipelined_def)
qed

section \<open>A window of one\<close>

definition one_slot :: "stream_cfg \<Rightarrow> stream_state \<Rightarrow> bool" where
  "one_slot c s \<longleftrightarrow>
     p_next s \<le> 1 \<and>
     (case p_drain s of
        AtTop i \<Rightarrow> i \<le> 1 \<and> p_next s = 1
      | AtQueue i seen \<Rightarrow> i \<le> 1 \<and> p_next s = 1
      | AtStart \<Rightarrow> p_next s = 0
      | Finished \<Rightarrow> p_cancel s \<or> p_raised s
      | AtHeader \<Rightarrow> p_next s = 0)"

lemma other_step_frame:
  assumes "e \<noteq> Consume" "stream_step c e s = Some s'"
  shows "s' = end_raised s
         \<or> p_next s' = p_next s \<and> p_drain s' = p_drain s \<and> p_raised s' = p_raised s \<and> (p_cancel s \<longrightarrow> p_cancel s')"
  using assms
  by (cases e) (auto simp: start_worker_def emit_chunk_def end_worker_def fail_worker_def disconnect_def
      abandon_stream_def put_def split: if_splits worker.splits list.splits)

lemma one_slot_step:
  assumes "stream_ok c s k ds" "one_slot c s" "stream_window c = Some w" "w \<le> 1" "2 \<le> sentence_count c"
    "stream_step c e s = Some s'"
  shows "one_slot c s'"
proof -
  have l: "lanes_ok c s k ds" using assms(1) by (simp add: stream_ok_def)
  have queue: "p_queues s ! 1 = []" if "p_next s = 1"
  proof -
    have "p_workers s ! 1 = NotSubmitted" using l that assms(5) by (auto simp: lanes_ok_def)
    then show ?thesis using lanes_lane [OF l, of 1] assms(5) by (simp add: lane_ok.simps)
  qed
  have no_prefetch: "maybe_prefetch c 0 s1 = s1" if "p_next s1 = 1" for s1
    using that assms(3,4) by (simp add: maybe_prefetch_def)
  have some: "sc_sentences c \<noteq> []" using assms(5) by (auto simp: sentence_count_def)
  show ?thesis
  proof (cases "e = Consume")
    case False
    from other_step_frame [OF this assms(6)] assms(2) show ?thesis
      by (auto simp: one_slot_def end_raised_def split: drain.splits)
  next
    case True
    then have s': "consume c s = Some s'" using assms(6) by simp
    show ?thesis
    proof (cases "p_drain s")
      case (AtQueue i seen)
      then have at: "p_next s = 1" "i \<le> 1" using assms(2) by (simp_all add: one_slot_def)
      then have "i = 0" using s' AtQueue queue by (cases i) (auto simp: consume_def)
      then show ?thesis
        using s' AtQueue at no_prefetch
        by (cases "p_queues s ! 0"; cases "hd (p_queues s ! 0)") (auto simp: consume_def one_slot_def Let_def)
    qed (use s' assms(2,3,5) some in \<open>auto simp: consume_def one_slot_def end_raised_def submit_def
           split: option.splits if_splits\<close>)
  qed
qed

lemma one_slot_run:
  "stream_ok c s k ds \<Longrightarrow> one_slot c s \<Longrightarrow> stream_window c = Some w \<Longrightarrow> w \<le> 1 \<Longrightarrow> 2 \<le> sentence_count c
    \<Longrightarrow> stream_run c es s = Some t \<Longrightarrow> one_slot c t"
proof (induction es arbitrary: s k ds)
  case (Cons e es)
  then obtain s1 where s1: "stream_step c e s = Some s1" "stream_run c es s1 = Some t"
    by (auto split: option.splits)
  then show ?case
    using Cons.IH [OF _ _ Cons.prems(3-5) s1(2)] stream_step_ok [OF Cons.prems(1) s1(1)]
      one_slot_step [OF Cons.prems(1-5) s1(1)] by blast
qed simp

section \<open>Properties\<close>

text \<open>The response of a loop that synthesises the sentences one after the other.\<close>

definition wire_header :: "stream_cfg \<Rightarrow> chunk list" where
  "wire_header c = (case pack_u32 (sc_rate c) of None \<Rightarrow> [] | Some h \<Rightarrow> [h])"

definition serial_wire :: "stream_cfg \<Rightarrow> chunk list" where
  "serial_wire c = wire_header c @ concat (map (sc_synth c) (sc_sentences c))"

lemma sent_header: "sent c s ds \<Longrightarrow> p_wire s = wire_header c @ concat ds"
  by (auto simp: sent_def wire_header_def)

lemma stream_wire:
  "stream_ok c s k ds \<Longrightarrow> p_wire s = [] \<and> concat ds = [] \<or> p_wire s = wire_header c @ concat ds"
  by (auto simp: stream_ok_def split: drain.splits dest: sent_header)

lemma stream_complete_before:
  assumes "stream_ok c s k ds" "i < k" "clean s i"
  shows "ds ! i = audio c i"
proof -
  have l: "lanes_ok c s k ds" and "i < sentence_count c" using assms(1,2) by (simp_all add: stream_ok_def)
  from lanes_lane [OF l this(2)] show ?thesis using assms(2,3) by (auto dest: lane_done)
qed

lemma stream_finished:
  assumes "stream_ok c s k ds" "p_drain s = Finished" "\<not> p_raised s" "\<not> p_cancel s" "p_failed s = []"
  shows "p_wire s = serial_wire c"
proof -
  have "sent c s ds" "k = sentence_count c" "length ds = length (sc_sentences c)"
    using assms by (auto simp: stream_ok_def lanes_ok_def sentence_count_def)
  moreover have "ds = map (sc_synth c) (sc_sentences c)"
  proof (rule nth_equalityI)
    show "length ds = length (map (sc_synth c) (sc_sentences c))" using calculation by simp
    show "ds ! i = map (sc_synth c) (sc_sentences c) ! i" if "i < length ds" for i
      using that calculation stream_complete_before [OF assms(1), of i] assms(4,5) by (simp add: sentence_count_def)
  qed
  ultimately show ?thesis by (simp add: serial_wire_def sent_header)
qed

text \<open>
  C1: in every interleaving of the response generator, the threads of the executor, their
  failures and the client's departure, what \<open>/tts/stream\<close> has sent is the sample rate and then,
  in the order of the sentences, a beginning of each one's audio; a sentence is not left for
  the next before all of it is sent, unless its synthesis failed or the client went away. If
  nothing fails and the client stays, the finished response is byte for byte that of
  synthesising one sentence after the other, whatever was prefetched.
\<close>

theorem stream_equals_serial:
  assumes "stream_run c es (stream_init c) = Some s"
  shows "(\<exists>ds. length ds = sentence_count c
            \<and> (p_wire s = [] \<or> p_wire s = wire_header c @ concat ds)
            \<and> (\<forall>j < sentence_count c. prefix (ds ! j) (sc_synth c (sc_sentences c ! j)))
            \<and> (\<forall>i j. i < j \<and> j < sentence_count c \<and> ds ! j \<noteq> [] \<and> \<not> p_cancel s \<and> i \<notin> set (p_failed s)
                  \<longrightarrow> ds ! i = sc_synth c (sc_sentences c ! i)))
         \<and> (p_drain s = Finished \<and> \<not> p_raised s \<and> \<not> p_cancel s \<and> p_failed s = [] \<longrightarrow> p_wire s = serial_wire c)"
proof -
  obtain k ds where ok: "stream_ok c s k ds" using stream_run_ok [OF stream_ok_init assms] by blast
  then have l: "lanes_ok c s k ds" and quiet: "\<forall>j < sentence_count c. k < j \<longrightarrow> ds ! j = []"
    by (simp_all add: stream_ok_def)
  have "length ds = sentence_count c" using l by (simp add: lanes_ok_def)
  moreover have "p_wire s = [] \<or> p_wire s = wire_header c @ concat ds" using stream_wire [OF ok] by blast
  moreover have "\<forall>j < sentence_count c. prefix (ds ! j) (audio c j)" using lanes_lane [OF l] lane_prefix by blast
  moreover have "\<forall>i j. i < j \<and> j < sentence_count c \<and> ds ! j \<noteq> [] \<and> \<not> p_cancel s \<and> i \<notin> set (p_failed s) \<longrightarrow> ds ! i = audio c i"
    using quiet stream_complete_before [OF ok] by (meson leI less_le_trans)
  ultimately show ?thesis using stream_finished [OF ok] by blast
qed

text \<open>
  C31: with at least one thread and a window of at least two (or a single sentence), the
  response never gets stuck: until it is closed the generator, the executor or a thread has a
  step to make, without any failure, disconnect or closing from outside; and every run, of any
  interleaving, has at most \<open>2 * chunks + 7 * sentences + 5\<close> steps. So the response ends as long
  as those that can step do. (With a window of one and two sentences it does not:
  \<open>one_slot_stream_hangs\<close>.)
\<close>

theorem stream_always_ends:
  assumes "pipelined c" "stream_run c es (stream_init c) = Some s"
  shows "length es \<le> 2 * length (concat (map (sc_synth c) (sc_sentences c))) + 7 * sentence_count c + 5
         \<and> (p_drain s = Finished \<or> (\<exists>e. server_event e \<and> stream_step c e s \<noteq> None))"
proof -
  obtain k ds where ok: "stream_ok c s k ds" using stream_run_ok [OF stream_ok_init assms(2)] by blast
  have "fed c s" by (rule stream_run_fed [OF assms(1) stream_ok_init _ assms(2)]) (simp add: fed_def stream_init_def)
  have "lanes_left c (p_workers (stream_init c)) (p_queues (stream_init c)) = (\<Sum>j < sentence_count c. 2 * length (audio c j) + 5)"
    by (simp add: lanes_left_def stream_init_def)
  also have "\<dots> = 2 * length (concat (map (sc_synth c) (sc_sentences c))) + 5 * sentence_count c"
    by (simp add: length_concat sum_list_sum_nth sum.distrib sum_distrib_left sentence_count_def lessThan_atLeast0 comp_def)
  finally have "stream_left c (stream_init c) = 2 * length (concat (map (sc_synth c) (sc_sentences c))) + 7 * sentence_count c + 5"
    by (simp add: stream_left_def) (simp add: stream_init_def)
  then show ?thesis
    using stream_run_left [OF stream_ok_init assms(2)] stream_progress [OF assms(1) ok \<open>fed c s\<close>] by fastforce
qed

text \<open>
  With a window of one (\<open>OVS_TTS_STREAM_MAX_WORKERS=1\<close>, \<open>OVS_TTS_STREAM_PREFETCH=1\<close>, or a
  backend whose capability allows one request) and two sentences or more, the second sentence
  is never submitted: no byte of it is ever sent, and the response does not end unless the
  client leaves or the server closes it.
\<close>

theorem one_slot_stream_hangs:
  assumes "stream_window c = Some w" "w \<le> 1" "2 \<le> sentence_count c" "stream_run c es (stream_init c) = Some s"
  shows "p_next s \<le> 1 \<and> prefix (p_wire s) (wire_header c @ sc_synth c (sc_sentences c ! 0))
         \<and> (p_drain s = Finished \<longrightarrow> p_cancel s \<or> p_raised s)"
proof -
  obtain k ds where ok: "stream_ok c s k ds" using stream_run_ok [OF stream_ok_init assms(4)] by blast
  then have l: "lanes_ok c s k ds" by (simp add: stream_ok_def)
  have slot: "one_slot c s"
    by (rule one_slot_run [OF stream_ok_init _ assms(1-4)]) (simp add: one_slot_def stream_init_def)
  then have next1: "p_next s \<le> 1" by (simp add: one_slot_def)
  have "ds ! j = []" if "0 < j" "j < length ds" for j
  proof -
    have "p_workers s ! j = NotSubmitted" using l that next1 by (simp add: lanes_ok_def)
    then show ?thesis using lanes_lane [OF l, of j] that l by (simp add: lane_ok.simps lanes_ok_def)
  qed
  then have "concat (tl ds) = []" by (auto simp: concat_eq_Nil_conv in_set_conv_nth nth_tl)
  moreover have "ds \<noteq> []" using l assms(3) by (auto simp: lanes_ok_def)
  ultimately have "concat ds = ds ! 0" by (cases ds) auto
  moreover have "prefix (ds ! 0) (audio c 0)"
    using lane_prefix [OF lanes_lane [OF l, of 0]] assms(3) by simp
  ultimately have "prefix (p_wire s) (wire_header c @ audio c 0)" using stream_wire [OF ok] by auto
  then show ?thesis using next1 slot by (auto simp: one_slot_def)
qed

definition demo_stream :: "nat \<Rightarrow> stream_cfg" where
  "demo_stream w = \<lparr>sc_rate = 1, sc_sentences = [[1], [2]], sc_synth = (\<lambda>t. [map word_of_nat t]),
                    sc_max_workers = w, sc_prefetch = None\<rparr>"

definition demo_schedule :: "stream_event list" where
  "demo_schedule = [Consume, Consume, Consume, Starts 0, Emits 0, Consume, Starts 1, Emits 1, Ends 1, Ends 0,
                    Consume, Consume, Consume, Consume, Consume]"

lemmas stream_ops = consume_def start_worker_def emit_chunk_def end_worker_def fail_worker_def disconnect_def
  abandon_stream_def put_def submit_def maybe_prefetch_def stream_window_def running_def sentence_count_def
  stream_init_def end_raised_def Let_def

lemma demo_stream_run:
  "stream_run (demo_stream 2) demo_schedule (stream_init (demo_stream 2)) =
     Some \<lparr>p_wire = [[1, 0, 0, 0], [1], [2]], p_drain = Finished, p_next = 2, p_queues = [[], []],
           p_workers = [Returned, Returned], p_cancel = False, p_failed = [], p_raised = False\<rparr>"
  by (simp add: demo_stream_def demo_schedule_def stream_ops pack_u32_def)

lemma demo_hang_run:
  "stream_run (demo_stream 1) [Consume, Consume, Consume, Starts 0, Emits 0, Consume, Ends 0, Consume, Consume]
      (stream_init (demo_stream 1)) =
     Some \<lparr>p_wire = [[1, 0, 0, 0], [1]], p_drain = AtQueue 1 False, p_next = 1, p_queues = [[], []],
           p_workers = [Returned, NotSubmitted], p_cancel = False, p_failed = [], p_raised = False\<rparr>"
  by (simp add: demo_stream_def stream_ops pack_u32_def)

theorem stream_equals_serial_witness:
  "\<exists>s. stream_run (demo_stream 2) demo_schedule (stream_init (demo_stream 2)) = Some s
       \<and> p_wire s = serial_wire (demo_stream 2) \<and> serial_wire (demo_stream 2) = [[1, 0, 0, 0], [1], [2]]"
  using stream_equals_serial [OF demo_stream_run] by (simp add: demo_stream_run)

lemma demo_half_run:
  "stream_run (demo_stream 2) [Consume, Consume, Consume] (stream_init (demo_stream 2)) =
     Some \<lparr>p_wire = [[1, 0, 0, 0]], p_drain = AtQueue 0 False, p_next = 1, p_queues = [[], []],
           p_workers = [InLine, NotSubmitted], p_cancel = False, p_failed = [], p_raised = False\<rparr>"
  by (simp add: demo_stream_def stream_ops pack_u32_def)

theorem stream_always_ends_witness:
  "\<exists>s. stream_run (demo_stream 2) [Consume, Consume, Consume] (stream_init (demo_stream 2)) = Some s
     \<and> p_drain s \<noteq> Finished \<and> (\<exists>e. server_event e \<and> stream_step (demo_stream 2) e s \<noteq> None)"
proof -
  have "pipelined (demo_stream 2)" by (simp add: pipelined_def stream_window_def demo_stream_def sentence_count_def)
  from stream_always_ends [OF this demo_half_run] show ?thesis
    unfolding demo_half_run by simp
qed

text \<open>The configuration that hangs has no step left but the client's and the server's closing.\<close>

lemma one_slot_has_no_step:
  "\<exists>s. stream_run (demo_stream 1) [Consume, Consume, Consume, Starts 0, Emits 0, Consume, Ends 0, Consume, Consume]
      (stream_init (demo_stream 1)) = Some s \<and> p_drain s \<noteq> Finished \<and> (\<forall>e. server_event e \<longrightarrow> stream_step (demo_stream 1) e s = None)"
proof -
  have two: "i < Suc (Suc 0) \<Longrightarrow> i = 0 \<or> i = Suc 0" for i by linarith
  have "server_event e \<Longrightarrow> stream_step (demo_stream 1) e
      \<lparr>p_wire = [[1, 0, 0, 0], [1]], p_drain = AtQueue 1 False, p_next = 1, p_queues = [[], []],
       p_workers = [Returned, NotSubmitted], p_cancel = False, p_failed = [], p_raised = False\<rparr> = None" for e
    by (cases e) (simp_all add: stream_ops demo_stream_def, auto dest!: two)
  then show ?thesis unfolding demo_hang_run by simp
qed

theorem one_slot_stream_hangs_witness:
  "prefix [[1, 0, 0, 0], [1]] (wire_header (demo_stream 1) @ [[1]]) \<and> stream_window (demo_stream 1) = Some 1"
  using one_slot_stream_hangs [OF _ _ _ demo_hang_run, of 1]
  by (simp add: stream_window_def demo_stream_def sentence_count_def)

text \<open>After the client has left, the response can be closed, and its request ended at the
  backend manager, while a thread still iterates the backend's generator.\<close>

theorem closed_stream_leaves_thread:
  "\<exists>s. stream_run (demo_stream 2)
         [Consume, Consume, Consume, Starts 0, Emits 0, Consume, Starts 1, Disconnects, Ends 0, Consume, Consume]
         (stream_init (demo_stream 2)) = Some s
       \<and> p_drain s = Finished \<and> p_workers s ! 1 = Running [[2]]"
  by (simp add: demo_stream_def stream_ops pack_u32_def)

end
