(* ===== verification/Asr_Split.thy ===== *)
theory Asr_Split
  imports Prelude
begin

text \<open>
  How long recordings are cut before they are transcribed: the two splitters of
  \<open>app/backends/jetson/qwen3_asr.py\<close> (\<open>_split_at_silence_vad\<close>, \<open>_split_at_silence_energy\<close>) and
  \<open>_transcribe_segmented\<close>, and those of \<open>app/backends/jetson/trt_edge_llm_asr.py\<close>
  (\<open>_split_offline_audio\<close> and its VAD variant), with what is done to the transcripts. The
  sample rate is 16000 in every call. A classifier judges a frame with the frames before it
  (WebRTC's detector has a state), the acoustic model is a function from audio to text; both
  are parameters.
\<close>

section \<open>Finding the silences\<close>

definition max_seg :: nat where "max_seg = 72000"
definition min_seg :: nat where "min_seg = 8000"
definition frame_len :: nat where "frame_len = 320"
definition min_frag :: nat where "min_frag = 16000"
definition min_tail :: nat where "min_tail = 32000"

definition frames_of :: "'a list \<Rightarrow> 'a list list" where
  "frames_of audio = map (\<lambda>i. take frame_len (drop (i * frame_len) audio)) [0..<length audio div frame_len]"

text \<open>\<open>is_speech\<close>: one verdict per frame.\<close>

definition speech_flags :: "('a list list \<Rightarrow> bool) \<Rightarrow> 'a list \<Rightarrow> bool list" where
  "speech_flags hear audio =
     (let fs = frames_of audio in map (\<lambda>i. hear (take (i + 1) fs)) [0..<length fs])"

definition run_cut :: "nat \<Rightarrow> nat option \<Rightarrow> nat \<Rightarrow> nat list" where
  "run_cut min_run start i =
     (case start of None \<Rightarrow> [] | Some r \<Rightarrow> if min_run \<le> i - r then [((r + i) div 2) * frame_len] else [])"

fun scan_runs :: "nat \<Rightarrow> nat \<Rightarrow> nat option \<Rightarrow> bool list \<Rightarrow> nat list" where
  "scan_runs min_run i start [] = run_cut min_run start i"
| "scan_runs min_run i start (speech # flags) =
     (if speech then run_cut min_run start i @ scan_runs min_run (i + 1) None flags
      else scan_runs min_run (i + 1) (case start of None \<Rightarrow> Some i | Some r \<Rightarrow> Some r) flags)"

definition cut_candidates :: "nat \<Rightarrow> ('a list list \<Rightarrow> bool) \<Rightarrow> 'a list \<Rightarrow> nat list" where
  "cut_candidates min_run hear audio = scan_runs min_run 0 None (speech_flags hear audio)"

section \<open>Placing the cuts\<close>

definition pick_cut :: "nat list \<Rightarrow> nat \<Rightarrow> nat" where
  "pick_cut cands c =
     (let window = [x \<leftarrow> cands. c + min_seg \<le> x \<and> x \<le> c + max_seg]
      in if window = [] then c + max_seg else foldr max window 0)"

lemma foldr_max_in: "xs \<noteq> [] \<Longrightarrow> foldr max xs (0::nat) \<in> set xs"
proof (induction xs)
  case (Cons x xs)
  then show ?case by (cases "xs = []") (auto simp: max_def)
qed simp

lemma foldr_max_ge: "x \<in> set xs \<Longrightarrow> x \<le> foldr max xs (0::nat)"
  by (induction xs) (auto simp: le_max_iff_disj)

lemma pick_cut_range: "c + min_seg \<le> pick_cut cands c \<and> pick_cut cands c \<le> c + max_seg"
  using foldr_max_in [of "[x \<leftarrow> cands. c + min_seg \<le> x \<and> x \<le> c + max_seg]"]
  by (auto simp: pick_cut_def Let_def min_seg_def max_seg_def)

lemma pick_cut_latest:
  assumes "x \<in> set cands" "c + min_seg \<le> x" "x \<le> c + max_seg"
  shows "x \<le> pick_cut cands c"
proof -
  have "x \<in> set [x \<leftarrow> cands. c + min_seg \<le> x \<and> x \<le> c + max_seg]" using assms by simp
  from foldr_max_ge [OF this] this show ?thesis by (auto simp: pick_cut_def Let_def)
qed

lemma pick_cut_cand: "pick_cut cands c = c + max_seg \<or> pick_cut cands c \<in> set cands"
  using foldr_max_in [of "[x \<leftarrow> cands. c + min_seg \<le> x \<and> x \<le> c + max_seg]"]
  by (auto simp: pick_cut_def Let_def)

text \<open>\<open>while len(audio) - cuts[-1] > max_seg\<close>, from the cut \<open>c\<close>.\<close>

function place_cuts :: "nat list \<Rightarrow> nat \<Rightarrow> nat \<Rightarrow> nat list" where
  "place_cuts cands n c = (if max_seg < n - c then c # place_cuts cands n (pick_cut cands c) else [c, n])"
  by pat_completeness auto
termination
proof (relation "measure (\<lambda>(cands, n, c). n - c)", goal_cases)
  case (2 cands n c)
  then show ?case using pick_cut_range [of c cands] by (auto simp: min_seg_def max_seg_def)
qed simp

declare place_cuts.simps [simp del]

text \<open>The two clean-up loops: a fragment shorter than a second goes to its predecessor, a
  tail shorter than two seconds too. The second pops the last but one cut.\<close>

fun merge_fragments :: "nat list \<Rightarrow> nat list" where
  "merge_fragments (a # b # c # cs) =
     (if c - b < min_frag then merge_fragments (a # c # cs) else a # merge_fragments (b # c # cs))"
| "merge_fragments cs = cs"

fun drop_short_tail :: "nat list \<Rightarrow> nat list" where
  "drop_short_tail (z # y # x # cs) = (if z - y < min_tail then drop_short_tail (z # x # cs) else z # y # x # cs)"
| "drop_short_tail cs = cs"

definition merge_tail :: "nat list \<Rightarrow> nat list" where
  "merge_tail cs = rev (drop_short_tail (rev cs))"

fun pieces :: "'a list \<Rightarrow> nat list \<Rightarrow> 'a list list" where
  "pieces audio (a # b # cs) = take (b - a) (drop a audio) # pieces audio (b # cs)"
| "pieces audio cs = []"

definition split_with :: "nat \<Rightarrow> ('a list list \<Rightarrow> bool) \<Rightarrow> 'a list \<Rightarrow> 'a list list" where
  "split_with min_run hear audio =
     (if length audio \<le> max_seg then [audio]
      else pieces audio (merge_tail (merge_fragments (place_cuts (cut_candidates min_run hear audio) (length audio) 0))))"

definition split_at_silence_vad :: "('a list list \<Rightarrow> bool) \<Rightarrow> 'a list \<Rightarrow> 'a list list" where
  "split_at_silence_vad hear audio = split_with 7 hear audio"

text \<open>A frame is silent when its energy is below the threshold; the shortest silence is an
  environment variable in milliseconds.\<close>

definition split_at_silence_energy :: "('a list \<Rightarrow> bool) \<Rightarrow> nat \<Rightarrow> 'a list \<Rightarrow> 'a list list" where
  "split_at_silence_energy silent min_silence_ms audio =
     split_with (max 1 (min_silence_ms div 20)) (\<lambda>fs. \<not> silent (last fs)) audio"

section \<open>What the cuts satisfy\<close>

text \<open>Increasing cuts, apart by at most \<open>A\<close> but for the last two, which are apart by at most
  \<open>B\<close>.\<close>

fun gaps :: "nat \<Rightarrow> nat \<Rightarrow> nat list \<Rightarrow> bool" where
  "gaps A B (a # b # c # cs) \<longleftrightarrow> a < b \<and> b - a \<le> A \<and> gaps A B (b # c # cs)"
| "gaps A B [a, b] \<longleftrightarrow> a < b \<and> b - a \<le> B"
| "gaps A B _ \<longleftrightarrow> False"

text \<open>Three successive cuts span more than the maximum, unless the third is the end.\<close>

fun wide :: "nat list \<Rightarrow> bool" where
  "wide (a # b # c # d # cs) \<longleftrightarrow> max_seg < c - a \<and> wide (b # c # d # cs)"
| "wide _ \<longleftrightarrow> True"

lemma place_cuts_shape: "\<exists>b cs. place_cuts cands n c = c # b # cs"
  by (induction cands n c rule: place_cuts.induct) (subst place_cuts.simps, auto)

lemma place_cuts_last: "last (place_cuts cands n c) = n"
proof (induction cands n c rule: place_cuts.induct)
  case (1 cands n c)
  then show ?case using place_cuts_shape [of cands n "pick_cut cands c"] by (subst place_cuts.simps) auto
qed

lemma place_cuts_gaps: "c < n \<Longrightarrow> gaps max_seg max_seg (place_cuts cands n c)"
proof (induction cands n c rule: place_cuts.induct)
  case (1 cands n c)
  show ?case
  proof (cases "max_seg < n - c")
    case True
    have r: "c < pick_cut cands c" "pick_cut cands c - c \<le> max_seg" "pick_cut cands c < n"
      using pick_cut_range [of c cands] True by (auto simp: min_seg_def max_seg_def)
    obtain b cs where "place_cuts cands n (pick_cut cands c) = pick_cut cands c # b # cs"
      using place_cuts_shape by blast
    then show ?thesis using 1(1) [OF True r(3)] True r by (subst place_cuts.simps) simp
  next
    case False
    then show ?thesis using 1(2) by (subst place_cuts.simps) simp
  qed
qed

lemma next_pick_far: "max_seg < pick_cut cands (pick_cut cands c) - c"
proof -
  let ?b = "pick_cut cands c" and ?d = "pick_cut cands (pick_cut cands c)"
  have b: "c + min_seg \<le> ?b" and d: "?b + min_seg \<le> ?d" using pick_cut_range by blast+
  show ?thesis
  proof (rule ccontr)
    assume "\<not> ?thesis"
    then have near: "?d \<le> c + max_seg" using b d by (auto simp: min_seg_def max_seg_def)
    then have "?d \<noteq> ?b + max_seg" using b by (auto simp: min_seg_def)
    then have "?d \<in> set cands" using pick_cut_cand by blast
    then have "?d \<le> ?b" using near b d by (intro pick_cut_latest [of ?d cands c]) auto
    then show False using d by (simp add: min_seg_def)
  qed
qed

lemma place_cuts_wide: "wide (place_cuts cands n c)"
proof (induction cands n c rule: place_cuts.induct)
  case (1 cands n c)
  let ?b = "pick_cut cands c" and ?d = "pick_cut cands (pick_cut cands c)"
  show ?case
  proof (cases "max_seg < n - c \<and> max_seg < n - ?b")
    case True
    then have eq: "place_cuts cands n c = c # ?b # place_cuts cands n ?d"
      by (subst place_cuts.simps, subst place_cuts.simps) simp
    obtain e es where e: "place_cuts cands n ?d = ?d # e # es" using place_cuts_shape by blast
    have "wide (place_cuts cands n ?b)" using 1 True by simp
    then have "wide (?b # ?d # e # es)" using True e by (subst (asm) place_cuts.simps) simp
    then show ?thesis unfolding eq e using next_pick_far [of cands c] by simp
  next
    case False
    then show ?thesis by (subst place_cuts.simps, subst place_cuts.simps) auto
  qed
qed

lemma merge_shape: "\<exists>x xs. merge_fragments (a # b # cs) = a # x # xs"
  by (induction "a # b # cs" arbitrary: a b cs rule: merge_fragments.induct) auto

lemma merge_last: "cs \<noteq> [] \<Longrightarrow> last (merge_fragments cs) = last cs"
proof (induction cs rule: merge_fragments.induct)
  case (1 a b c cs)
  then show ?case using merge_shape [of b c cs] by auto
qed auto

text \<open>After a merge the next fragment is long, or the last.\<close>

lemma merge_gaps_aux:
  assumes "a < b" "cs \<noteq> [] \<longrightarrow> gaps max_seg max_seg (b # cs) \<and> wide (b # cs)"
    "b - a \<le> max_seg \<and> wide (a # b # cs)
     \<or> b - a \<le> max_seg + min_frag \<and> (\<forall>d e r. cs = d # e # r \<longrightarrow> min_frag \<le> d - b)"
  shows "gaps (max_seg + min_frag) (max_seg + 2 * min_frag) (merge_fragments (a # b # cs))"
  using assms
proof (induction cs arbitrary: a b)
  case Nil
  then show ?case by auto
next
  case (Cons c r)
  have bc: "b < c" "c - b \<le> max_seg" "r \<noteq> [] \<longrightarrow> gaps max_seg max_seg (c # r)"
    using Cons.prems(2) by (cases r; auto)+
  have wr: "r \<noteq> [] \<longrightarrow> wide (c # r)"
    using Cons.prems(2) by (cases r; cases "tl r"; cases "tl (tl r)") auto
  show ?case
  proof (cases "c - b < min_frag")
    case True
    show ?thesis
    proof (cases "b - a \<le> max_seg \<and> wide (a # b # c # r)")
      case normal: True
      have "min_frag \<le> d - c" if "r = d # e # r'" for d e r'
      proof -
        have "max_seg < d - b" using Cons.prems(2) that by auto
        then show ?thesis using True bc by (simp add: max_seg_def min_frag_def)
      qed
      then have "gaps (max_seg + min_frag) (max_seg + 2 * min_frag) (merge_fragments (a # c # r))"
        using Cons.prems(1) bc wr normal True by (intro Cons.IH) auto
      then show ?thesis using True by simp
    next
      case False
      then have "r = []" using Cons.prems(3) True by (cases r) auto
      then show ?thesis using True bc Cons.prems(1,3) by auto
    qed
  next
    case False
    have "gaps (max_seg + min_frag) (max_seg + 2 * min_frag) (merge_fragments (b # c # r))"
      using bc wr Cons.prems(2) by (intro Cons.IH) auto
    moreover obtain x xs where "merge_fragments (b # c # r) = b # x # xs" using merge_shape by blast
    ultimately show ?thesis using False Cons.prems(1,3) by auto
  qed
qed

lemma merge_gaps:
  assumes "gaps max_seg max_seg (a # b # cs)" "wide (a # b # cs)"
  shows "gaps (max_seg + min_frag) (max_seg + 2 * min_frag) (merge_fragments (a # b # cs))"
proof (rule merge_gaps_aux)
  show "a < b" using assms(1) by (cases cs) auto
  show "cs \<noteq> [] \<longrightarrow> gaps max_seg max_seg (b # cs) \<and> wide (b # cs)"
    using assms by (cases cs; cases "tl cs"; cases "tl (tl cs)") auto
  show "b - a \<le> max_seg \<and> wide (a # b # cs)
     \<or> b - a \<le> max_seg + min_frag \<and> (\<forall>d e r. cs = d # e # r \<longrightarrow> min_frag \<le> d - b)"
    using assms by (cases cs) auto
qed

lemma gaps_Cons2: "zs \<noteq> [] \<Longrightarrow> gaps A B (x # a # zs) \<longleftrightarrow> x < a \<and> a - x \<le> A \<and> gaps A B (a # zs)"
  by (cases zs) auto

lemma gaps_append:
  "gaps A B (xs @ [y, z]) \<longleftrightarrow> successively (\<lambda>a b. a < b \<and> b - a \<le> A) (xs @ [y]) \<and> y < z \<and> z - y \<le> B"
proof (induction xs)
  case (Cons x xs)
  then show ?case by (cases xs) (auto simp: gaps_Cons2)
qed auto

lemma gaps_rev:
  assumes "gaps A B cs"
  obtains y z r where "rev cs = z # y # r" "y < z" "z - y \<le> B" "successively (\<lambda>a b. b < a \<and> a - b \<le> A) (y # r)"
proof -
  have two: "2 \<le> length cs" using assms by (cases "(A, B, cs)" rule: gaps.cases) auto
  obtain ys z where ys: "cs = ys @ [z]" using two by (cases cs rule: rev_cases) auto
  obtain xs y where cs: "cs = xs @ [y, z]" using two ys by (cases ys rule: rev_cases) auto
  have "successively (\<lambda>a b. a < b \<and> b - a \<le> A) (rev (y # rev xs))" "y < z" "z - y \<le> B"
    using assms unfolding cs gaps_append by simp_all
  then show ?thesis unfolding successively_rev by (intro that [of z y "rev xs"]) (simp_all add: cs)
qed

lemma drop_tail_spec:
  assumes "y < z" "z - y \<le> B" "successively (\<lambda>a b. b < a \<and> a - b \<le> A) (y # r)"
  shows "\<exists>y' r'. drop_short_tail (z # y # r) = z # y' # r' \<and> y' < z \<and> z - y' \<le> max B (A + min_tail)
           \<and> successively (\<lambda>a b. b < a \<and> a - b \<le> A) (y' # r') \<and> (r' \<noteq> [] \<longrightarrow> min_tail \<le> z - y')
           \<and> (\<exists>pre. y # r = pre @ y' # r')"
  using assms
proof (induction r arbitrary: y B)
  case (Cons x r)
  show ?case
  proof (cases "z - y < min_tail")
    case True
    have xy: "x < y" "y - x \<le> A" "successively (\<lambda>a b. b < a \<and> a - b \<le> A) (x # r)" using Cons.prems(3) by auto
    have "z - x \<le> A + min_tail" "x < z" using True xy Cons.prems(1) by auto
    from Cons.IH [OF this(2,1) xy(3)] obtain y' r' where
        d: "drop_short_tail (z # x # r) = z # y' # r'" "y' < z" "z - y' \<le> A + min_tail"
        "successively (\<lambda>a b. b < a \<and> a - b \<le> A) (y' # r')" "r' \<noteq> [] \<longrightarrow> min_tail \<le> z - y'" "\<exists>pre. x # r = pre @ y' # r'"
      unfolding max.idem by blast
    then have "\<exists>pre. y # x # r = pre @ y' # r'" by (metis append_Cons)
    then show ?thesis using True d by (intro exI [of _ y'] exI [of _ r']) auto
  next
    case False
    then show ?thesis using Cons.prems by auto
  qed
qed auto

text \<open>Every fragment but the first is long after the first clean-up.\<close>

lemma merge_second:
  assumes "sorted (b # c # cs)"
  shows "\<exists>x xs. merge_fragments (b # c # cs) = b # x # xs \<and> c \<le> x"
  using assms
proof (induction "b # c # cs" arbitrary: b c cs rule: merge_fragments.induct)
  case (1 a b c cs)
  then show ?case using merge_shape [of b c cs] by fastforce
qed auto

lemma merge_long:
  assumes "sorted cs"
  shows "successively (\<lambda>x y. min_frag \<le> y - x) (tl (merge_fragments cs))"
  using assms
proof (induction cs rule: merge_fragments.induct)
  case (1 a b c cs)
  show ?case
  proof (cases "c - b < min_frag")
    case False
    obtain x xs where x: "merge_fragments (b # c # cs) = b # x # xs" "c \<le> x"
      using merge_second [of b c cs] 1(3) by auto
    then show ?thesis using 1(2) [OF False] 1(3) False by (auto simp: successively_Cons)
  qed (use 1 in auto)
qed auto

lemma gaps_sorted: "gaps A B cs \<Longrightarrow> sorted cs"
  by (induction A B cs rule: gaps.induct) auto

lemma merge_tail_spec:
  assumes g: "gaps A B cs" and long: "successively (\<lambda>x y. min_frag \<le> y - x) (tl cs)"
  obtains xs y z where "merge_tail cs = xs @ [y, z]" "gaps A (max B (A + min_tail)) (xs @ [y, z])"
    "xs \<noteq> [] \<longrightarrow> min_tail \<le> z - y" "successively (\<lambda>x y. min_frag \<le> y - x) (tl (xs @ [y, z]))"
    "hd (xs @ [y, z]) = hd cs" "z = last cs"
proof -
  obtain y0 z r where r: "rev cs = z # y0 # r" "y0 < z" "z - y0 \<le> B" "successively (\<lambda>a b. b < a \<and> a - b \<le> A) (y0 # r)"
    using gaps_rev [OF g] by blast
  from drop_tail_spec [OF r(2-4)] obtain y r' pre where d: "drop_short_tail (z # y0 # r) = z # y # r'" "y < z"
      "z - y \<le> max B (A + min_tail)" "successively (\<lambda>a b. b < a \<and> a - b \<le> A) (y # r')"
      "r' \<noteq> [] \<longrightarrow> min_tail \<le> z - y" "y0 # r = pre @ y # r'"
    by blast
  have cs: "cs = rev (pre @ y # r') @ [z]" using r(1) d(6) by (metis rev.simps(2) rev_rev_ident)
  have first: "successively (\<lambda>a b. a < b \<and> b - a \<le> A) (rev (y # r'))" using d(4) unfolding successively_rev .
  have "tl cs = tl (rev r' @ [y]) @ rev pre @ [z]" by (cases "rev r'") (simp_all add: cs)
  then have "successively (\<lambda>x y. min_frag \<le> y - x) (tl (rev r' @ [y]))"
    using long by (simp add: successively_append_iff)
  then have "successively (\<lambda>x y. min_frag \<le> y - x) (tl (rev r' @ [y, z]))"
    using d(5) by (cases "rev r'") (auto simp: successively_append_iff min_tail_def min_frag_def successively_Cons)
  moreover have "merge_tail cs = rev r' @ [y, z]" by (simp add: merge_tail_def r(1) d(1))
  moreover have "gaps A (max B (A + min_tail)) (rev r' @ [y, z])" using first d(2,3) by (simp add: gaps_append)
  moreover have "hd (rev r' @ [y, z]) = hd cs" by (cases "rev r'") (simp_all add: cs)
  ultimately show ?thesis using d(5) by (intro that [of "rev r'" y z]) (simp_all add: cs)
qed

fun diffs :: "nat list \<Rightarrow> nat list" where
  "diffs (a # b # cs) = (b - a) # diffs (b # cs)"
| "diffs _ = []"

lemma pieces_concat: "sorted cs \<Longrightarrow> cs \<noteq> [] \<Longrightarrow> concat (pieces audio cs) = take (last cs - hd cs) (drop (hd cs) audio)"
proof (induction audio cs rule: pieces.induct)
  case (1 audio a b cs)
  then have "a \<le> b" "b \<le> last (b # cs)" by auto
  then have "take (last (b # cs) - a) (drop a audio) = take (b - a + (last (b # cs) - b)) (drop a audio)" by simp
  also have "\<dots> = take (b - a) (drop a audio) @ take (last (b # cs) - b) (drop b audio)"
    using \<open>a \<le> b\<close> by (simp only: take_add) simp
  finally show ?case using 1 by simp
qed auto

lemma pieces_lengths: "sorted cs \<Longrightarrow> \<forall>x \<in> set cs. x \<le> length audio \<Longrightarrow> map length (pieces audio cs) = diffs cs"
  by (induction audio cs rule: pieces.induct) auto

lemma diffs_append: "diffs (xs @ [y, z]) = diffs (xs @ [y]) @ [z - y]"
  by (induction xs rule: diffs.induct) auto

lemma diffs_successively: "successively (\<lambda>a b. P (b - a)) cs \<longleftrightarrow> (\<forall>d \<in> set (diffs cs). P d)"
  by (induction cs rule: diffs.induct) auto

lemma diffs_tl: "tl (diffs cs) = diffs (tl cs)"
  by (induction cs rule: diffs.induct) auto

definition well_split :: "'a list \<Rightarrow> 'a list list \<Rightarrow> bool" where
  "well_split audio ps \<longleftrightarrow>
     concat ps = audio
     \<and> (\<forall>p \<in> set (butlast ps). length p \<le> max_seg + min_frag)
     \<and> length (last ps) \<le> max_seg + min_frag + min_tail
     \<and> (\<forall>p \<in> set (tl ps). min_frag \<le> length p)
     \<and> (2 \<le> length ps \<longrightarrow> min_tail \<le> length (last ps))"

lemma split_well:
  assumes "max_seg < length audio"
  shows "well_split audio (split_with min_run hear audio)"
proof -
  let ?cs0 = "merge_fragments (place_cuts (cut_candidates min_run hear audio) (length audio) 0)"
  obtain b cs where shape: "place_cuts (cut_candidates min_run hear audio) (length audio) 0 = 0 # b # cs"
    using place_cuts_shape by blast
  have "0 < length audio" using assms by linarith
  then have g: "gaps max_seg max_seg (0 # b # cs)" "wide (0 # b # cs)" "last (0 # b # cs) = length audio"
    using place_cuts_gaps [of 0 "length audio" "cut_candidates min_run hear audio"] assms
      place_cuts_wide [of "cut_candidates min_run hear audio" "length audio" 0]
      place_cuts_last [of "cut_candidates min_run hear audio" "length audio" 0] by (auto simp: shape)
  from merge_tail_spec [OF merge_gaps [OF g(1,2)] merge_long [OF gaps_sorted [OF g(1)]]]
  obtain xs y z where m: "merge_tail ?cs0 = xs @ [y, z]"
      "gaps (max_seg + min_frag) (max_seg + min_frag + min_tail) (xs @ [y, z])"
      "xs \<noteq> [] \<longrightarrow> min_tail \<le> z - y" "successively (\<lambda>x y. min_frag \<le> y - x) (tl (xs @ [y, z]))"
      "hd (xs @ [y, z]) = hd ?cs0" "z = last ?cs0"
    unfolding shape by (auto simp: min_tail_def min_frag_def max_seg_def)
  have ends: "hd (xs @ [y, z]) = 0" "z = length audio"
    using m(5,6) merge_shape [of 0 b cs] merge_last [of "0 # b # cs"] g(3) by (auto simp: shape)
  define ps where "ps = pieces audio (xs @ [y, z])"
  have ps: "split_with min_run hear audio = ps" using assms m(1) by (simp add: split_with_def ps_def)
  have srt: "sorted (xs @ [y, z])" using gaps_sorted [OF m(2)] .
  then have "\<forall>x \<in> set (xs @ [y, z]). x \<le> length audio" using ends by (auto simp: sorted_append)
  from pieces_lengths [OF srt this] have len: "map length ps = diffs (xs @ [y]) @ [z - y]"
    unfolding ps_def diffs_append .
  have whole: "concat ps = audio" using pieces_concat [OF srt, of audio] ends by (simp add: ps_def)
  have "map length (butlast ps) = diffs (xs @ [y])" using len by (simp add: map_butlast)
  then have "\<forall>p \<in> set (butlast ps). length p \<in> set (diffs (xs @ [y]))" by (metis image_eqI set_map)
  moreover have "successively (\<lambda>a b. b - a \<le> max_seg + min_frag) (xs @ [y])"
    by (rule successively_mono [of "\<lambda>a b. a < b \<and> b - a \<le> max_seg + min_frag"]) (use m(2) in \<open>simp_all add: gaps_append\<close>)
  ultimately have "\<forall>p \<in> set (butlast ps). length p \<le> max_seg + min_frag"
    using diffs_successively [of "\<lambda>d. d \<le> max_seg + min_frag" "xs @ [y]"] by blast
  moreover have "ps \<noteq> []" using len by auto
  moreover from this have "length (last ps) = z - y" using len by (metis last_map last_snoc)
  moreover have "map length (tl ps) = diffs (tl (xs @ [y, z]))"
    using len by (simp add: map_tl diffs_append [symmetric] diffs_tl)
  then have "\<forall>p \<in> set (tl ps). min_frag \<le> length p"
    using m(4) diffs_successively [of "\<lambda>d. min_frag \<le> d" "tl (xs @ [y, z])"] by (metis image_eqI set_map)
  moreover have "2 \<le> length ps \<longrightarrow> xs \<noteq> []" using arg_cong [OF len, of length] by (cases xs) auto
  ultimately show ?thesis using m(2,3) whole unfolding ps well_split_def by (simp add: gaps_append)
qed

section \<open>Transcripts\<close>

definition urstrip :: "ustr \<Rightarrow> ustr" where
  "urstrip t = strip_while py_isspace t"

definition join_segments :: "ustr list \<Rightarrow> ustr" where
  "join_segments parts = (case parts of [] \<Rightarrow> [] | p # ps \<Rightarrow> urstrip p @ concat (map ustrip ps))"

text \<open>\<open>transcribe_audio\<close>: up to six seconds in one piece. Without the VAD package (or when it
  raises) the energy splitter takes over.\<close>

definition segments_for :: "('a list list \<Rightarrow> bool) option \<Rightarrow> ('a list \<Rightarrow> bool) \<Rightarrow> nat \<Rightarrow> 'a list \<Rightarrow> 'a list list" where
  "segments_for hear silent min_silence_ms audio =
     (case hear of Some h \<Rightarrow> split_at_silence_vad h audio | None \<Rightarrow> split_at_silence_energy silent min_silence_ms audio)"

definition transcribe_audio ::
  "('a list \<Rightarrow> ustr) \<Rightarrow> ('a list list \<Rightarrow> bool) option \<Rightarrow> ('a list \<Rightarrow> bool) \<Rightarrow> nat \<Rightarrow> 'a list \<Rightarrow> ustr" where
  "transcribe_audio decode hear silent min_silence_ms audio =
     (if length audio \<le> 96000 then decode audio
      else join_segments [x \<leftarrow> map decode [s \<leftarrow> segments_for hear silent min_silence_ms audio. 800 \<le> length s]. x \<noteq> []])"

text \<open>\<open>_strip_language_prefix\<close> of the EdgeLLM backend: the text after the model's language tag,
  and the language.\<close>

definition known_languages :: "string list" where
  "known_languages = [''Chinese'', ''English'', ''Cantonese'', ''Japanese'', ''Korean'', ''French'', ''German'', ''Italian'',
     ''Portuguese'', ''Russian'', ''Spanish'']"

fun first_known :: "string list \<Rightarrow> ustr \<Rightarrow> string option" where
  "first_known [] text = None"
| "first_known (n # ns) text = (if starts_with (u ''language '' @ u n) text then Some n else first_known ns text)"

definition strip_language_prefix :: "ustr \<Rightarrow> ustr \<times> ustr option" where
  "strip_language_prefix text =
     (if length text < 9 \<or> \<not> starts_with (u ''language '') text then (text, None)
      else (case first_known known_languages text of
              Some n \<Rightarrow> (ulstrip (drop (9 + length n) text), Some (u n))
            | None \<Rightarrow>
                (let name = takeWhile (\<lambda>c. c \<noteq> 32) (drop 9 text);
                     rest = dropWhile (\<lambda>c. c \<noteq> 32) (drop 9 text)
                 in if rest = [] then ([], Some name) else (ulstrip (tl rest), Some name))))"

definition trail_punct :: "nat list" where
  "trail_punct = [12290, 65292, 12289, 65281, 65311, 65307, 44, 46, 33, 63, 59]"

definition cjk_languages :: "string list" where
  "cjk_languages = [''Chinese'', ''Japanese'', ''Korean'', ''Cantonese'', ''zh'', ''ja'', ''ko'']"

definition trim_trailing :: "ustr list \<Rightarrow> ustr list" where
  "trim_trailing texts =
     (if 1 < length texts
      then map (\<lambda>t. urstrip (strip_while (\<lambda>c. c \<in> set trail_punct) t)) (butlast texts) @ [last texts] else texts)"

fun join_with :: "ustr \<Rightarrow> ustr list \<Rightarrow> ustr" where
  "join_with sep [] = []"
| "join_with sep [t] = t"
| "join_with sep (t # ts) = t @ sep @ join_with sep ts"

definition join_segment_texts :: "ustr list \<Rightarrow> ustr option \<Rightarrow> ustr" where
  "join_segment_texts texts language =
     (let ts = trim_trailing [t \<leftarrow> map ustrip texts. t \<noteq> []];
          lang = (case language of None \<Rightarrow> [] | Some l \<Rightarrow> l);
          cjk = (lang \<in> set (map u cjk_languages) \<or> starts_with (u ''zh'') lang \<or> starts_with (u ''ja'') lang
                 \<or> starts_with (u ''ko'') lang)
      in ustrip (join_with (if cjk then [] else [32]) ts))"

section \<open>The offline splitter of the EdgeLLM backend\<close>

text \<open>\<open>range(0, len(seg), max_samples)\<close>.\<close>

function chop :: "nat \<Rightarrow> 'a list \<Rightarrow> 'a list list" where
  "chop n xs = (if length xs \<le> n \<or> n = 0 then [xs] else take n xs # chop n (drop n xs))"
  by pat_completeness auto
termination by (relation "measure (\<lambda>(n, xs). length xs)") auto

declare chop.simps [simp del]

text \<open>The configured VAD hears 20 ms at a time, each with the chunks since its last reset, and
  tells the end of speech. The chunks come with the position of their end.\<close>

definition vad_chunks :: "nat \<Rightarrow> 'a list \<Rightarrow> ('a list \<times> nat) list" where
  "vad_chunks n audio =
     map (\<lambda>i. (take n (drop (i * n) audio), min ((i + 1) * n) (length audio))) [0..<(length audio + n - 1) div n]"

fun vad_cuts :: "('a list list \<Rightarrow> bool) \<Rightarrow> nat \<Rightarrow> nat \<Rightarrow> ('a list \<times> nat) list \<Rightarrow> 'a list list \<Rightarrow> nat \<Rightarrow> nat list" where
  "vad_cuts speech_end hi lo [] heard last_cut = []"
| "vad_cuts speech_end hi lo ((chunk, e) # chunks) heard last_cut =
     (if speech_end (heard @ [chunk]) \<and> lo \<le> e - last_cut then e # vad_cuts speech_end hi lo chunks [] e
      else (let k = (e - last_cut) div hi
            in map (\<lambda>j. last_cut + (j + 1) * hi) [0..<k]
               @ vad_cuts speech_end hi lo chunks (if 0 < k then [] else heard @ [chunk]) (last_cut + k * hi)))"

definition configured_segments :: "('a list list \<Rightarrow> bool) \<Rightarrow> nat \<Rightarrow> nat \<Rightarrow> 'a list \<Rightarrow> 'a list list" where
  "configured_segments speech_end hi lo audio =
     (let cuts = 0 # vad_cuts speech_end hi lo (vad_chunks 320 audio) [] 0
      in pieces audio (if last cuts = length audio then cuts else cuts @ [length audio]))"

definition split_offline_audio_with_configured_vad ::
  "('a list list \<Rightarrow> bool) option \<Rightarrow> nat \<Rightarrow> nat \<Rightarrow> 'a list \<Rightarrow> 'a list list" where
  "split_offline_audio_with_configured_vad speech_end hi lo audio =
     (case speech_end of None \<Rightarrow> [] | Some ev \<Rightarrow> [s \<leftarrow> configured_segments ev hi lo audio. lo \<le> length s])"

text \<open>The silence splitter may be missing or raise; then the whole audio is one segment.\<close>

definition split_offline_audio ::
  "('a list list \<Rightarrow> bool) option \<Rightarrow> nat \<Rightarrow> nat \<Rightarrow> ('a list \<Rightarrow> 'a list list) option \<Rightarrow> 'a list \<Rightarrow> 'a list list" where
  "split_offline_audio speech_end hi lo splitter audio =
     (let configured = split_offline_audio_with_configured_vad speech_end hi lo audio
      in if configured \<noteq> [] then configured
         else [s \<leftarrow> concat (map (chop hi) (case splitter of None \<Rightarrow> [audio] | Some f \<Rightarrow> f audio)). s \<noteq> []])"

section \<open>Properties\<close>

text \<open>
  C15: on audio longer than 4.5 s (at 16 kHz), whatever the detector says, the silence splitter
  loses and repeats nothing: its pieces, in order, are the audio. Every piece but the last is at
  most 5.5 s, the last at most 7.5 s; every piece but the first has a second at least, and the
  last of several two seconds.
\<close>

theorem split_keeps_audio:
  assumes "max_seg < length audio"
  shows "concat (split_at_silence_vad hear audio) = audio
    \<and> (\<forall>p \<in> set (butlast (split_at_silence_vad hear audio)). length p \<le> 88000)
    \<and> length (last (split_at_silence_vad hear audio)) \<le> 120000
    \<and> (\<forall>p \<in> set (tl (split_at_silence_vad hear audio)). 16000 \<le> length p)
    \<and> (2 \<le> length (split_at_silence_vad hear audio) \<longrightarrow> 32000 \<le> length (last (split_at_silence_vad hear audio)))"
  using split_well [OF assms, of 7 hear]
  by (simp add: split_at_silence_vad_def well_split_def max_seg_def min_frag_def min_tail_def)

lemma chop_spec: "concat (chop n xs) = xs \<and> (0 < n \<longrightarrow> (\<forall>p \<in> set (chop n xs). length p \<le> n))"
proof (induction n xs rule: chop.induct)
  case (1 n xs)
  then show ?case by (subst (1 2) chop.simps) auto
qed

lemma speech_flags_all: "speech_flags (\<lambda>_. True) audio = replicate (length audio div frame_len) True"
  by (simp add: speech_flags_def frames_of_def Let_def map_replicate_const)

lemma scan_all_speech: "scan_runs m i None (replicate k True) = []"
  by (induction k arbitrary: i) (simp_all add: run_cut_def)

text \<open>Six seconds and a half of uninterrupted speech stay one piece, longer than the six seconds
  above which the audio is split because the decoder then stops early.\<close>

theorem continuous_speech_stays_whole:
  assumes "72000 < length audio" "length audio < 104000"
  shows "split_at_silence_vad (\<lambda>_. True) audio = [audio]"
proof -
  have "cut_candidates 7 (\<lambda>_. True) audio = []"
    by (simp add: cut_candidates_def speech_flags_all scan_all_speech)
  moreover have "place_cuts [] (length audio) 0 = [0, 72000, length audio]"
    using assms by (subst place_cuts.simps, subst place_cuts.simps) (auto simp: pick_cut_def max_seg_def)
  ultimately show ?thesis
    using assms by (simp add: split_at_silence_vad_def split_with_def merge_tail_def max_seg_def min_frag_def min_tail_def)
qed

theorem split_keeps_audio_witness:
  "concat (split_at_silence_vad (\<lambda>_. True) (replicate 102400 (0::int))) = replicate 102400 0
   \<and> length (last (split_at_silence_vad (\<lambda>_. True) (replicate 102400 (0::int)))) = 102400"
  using split_keeps_audio [of "replicate 102400 (0::int)" "\<lambda>_. True"]
    continuous_speech_stays_whole [of "replicate 102400 (0::int)"]
  by (simp add: max_seg_def)

text \<open>Without a configured VAD the offline pieces cover what the splitter gives, none over the
  limit.\<close>

theorem offline_pieces_bounded:
  assumes "0 < hi" "concat (f audio) = audio"
  shows "concat (split_offline_audio None hi lo (Some f) audio) = audio
    \<and> (\<forall>p \<in> set (split_offline_audio None hi lo (Some f) audio). 0 < length p \<and> length p \<le> hi)"
proof -
  have c: "concat (chop hi xs) = xs" for xs :: "'a list" using chop_spec [of hi xs] by blast
  have "concat (concat (map (chop hi) xss)) = concat xss" for xss :: "'a list list"
    by (induction xss) (simp_all add: c)
  moreover have ne: "concat [s \<leftarrow> xss. s \<noteq> []] = concat xss" for xss :: "'a list list"
    by (induction xss) auto
  ultimately show ?thesis
    using assms chop_spec [of hi]
    by (auto simp: split_offline_audio_def split_offline_audio_with_configured_vad_def Let_def ne)
qed

end
