(* ===== verification/Qwen3_Stream.thy ===== *)
theory Qwen3_Stream
  imports Asr_Split
begin

text \<open>
  The streaming recogniser \<open>Qwen3StreamingASRStream\<close> of \<open>app/backends/jetson/qwen3_asr.py\<close>, and the
  accumulating one beside it. Audio comes in at 16 kHz. The networks (encoder, decoder, offline
  transcription), the tokenizer and the voice detector are parameters; the detector has a state,
  so it judges a frame with every frame given to it before. The timing counters and the CUDA
  synchronisation are left out.
\<close>

section \<open>State\<close>

definition chunk_size :: nat where "chunk_size = 6400"
definition left_context :: nat where "left_context = 16000"
definition encoder_hop :: nat where "encoder_hop = 1280"
definition max_encoder_frames :: nat where "max_encoder_frames = 65"

record ('a, 'f) model =
  m_encode :: "'a list \<Rightarrow> 'f list"
  m_decode :: "'f list \<Rightarrow> nat \<Rightarrow> nat list"
  m_text :: "nat list \<Rightarrow> ustr"
  m_transcribe :: "'a list \<Rightarrow> ustr"
  m_vad :: "('a list list \<Rightarrow> bool) option"
  m_loud :: "'a list \<Rightarrow> bool"
  m_silence_ms :: nat
  m_partials :: bool
  m_reuse :: bool

record ('a, 'f) qstream =
  q_audio :: "'a list"
  q_utt :: "'a list list"
  q_processed :: nat
  q_frames :: "'f list list"
  q_total :: nat
  q_archive :: ustr
  q_partial :: ustr
  q_partial_ids :: "nat list"
  q_final :: bool
  q_vad_heard :: "'a list list"
  q_vad_speech :: nat
  q_vad_silence :: nat
  q_cancelled :: bool
  q_cache :: ustr

definition new_stream :: "('a, 'f) qstream" where
  "new_stream =
     \<lparr>q_audio = [], q_utt = [], q_processed = 0, q_frames = [], q_total = 0, q_archive = [], q_partial = [],
      q_partial_ids = [], q_final = False, q_vad_heard = [], q_vad_speech = 0, q_vad_silence = 0,
      q_cancelled = False, q_cache = []\<rparr>"

section \<open>Operations\<close>

text \<open>\<open>decoded.split("<asr_text>", 1)[1]\<close> if the marker is there, and \<open>strip()\<close>.\<close>

fun after_marker :: "ustr \<Rightarrow> ustr \<Rightarrow> ustr option" where
  "after_marker p [] = (if p = [] then Some [] else None)"
| "after_marker p (x # xs) = (if starts_with p (x # xs) then Some (drop (length p) (x # xs)) else after_marker p xs)"

definition asr_text :: ustr where "asr_text = u ''<asr_text>''"

definition decoded_text :: "('a, 'f) model \<Rightarrow> nat list \<Rightarrow> ustr" where
  "decoded_text m ids = ustrip (case after_marker asr_text (m_text m ids) of None \<Rightarrow> m_text m ids | Some t \<Rightarrow> t)"

text \<open>The audio before a chunk, and how much of it there is.\<close>

definition get_left_context :: "nat \<Rightarrow> ('a, 'f) qstream \<Rightarrow> 'a list \<times> nat" where
  "get_left_context start s =
     (let from = start - left_context in (take (start - from) (drop from (q_audio s)), start - from))"

definition encode_with_context :: "('a, 'f) model \<Rightarrow> 'a list \<Rightarrow> 'a list \<Rightarrow> nat \<Rightarrow> 'f list option" where
  "encode_with_context m ctx new n =
     (let enc = m_encode m (if ctx \<noteq> [] then ctx @ new else new); cut = n div encoder_hop
      in if length enc \<le> cut then None else Some (drop cut enc))"

text \<open>The rolling buffer of encoder output: the oldest chunks go, but never the last.\<close>

fun roll :: "'f list list \<Rightarrow> nat \<Rightarrow> 'f list list \<times> nat" where
  "roll (x # y # xs) n =
     (if max_encoder_frames < n then roll (y # xs) (n - length x) else (x # y # xs, n))"
| "roll xs n = (xs, n)"

definition push_frames :: "'f list \<Rightarrow> ('a, 'f) qstream \<Rightarrow> ('a, 'f) qstream" where
  "push_frames enc s =
     (case roll (q_frames s @ [enc]) (q_total s + length enc) of
        (fs, n) \<Rightarrow> s\<lparr>q_frames := fs, q_total := n\<rparr>)"

definition partial_decode :: "('a, 'f) model \<Rightarrow> ('a, 'f) qstream \<Rightarrow> ('a, 'f) qstream" where
  "partial_decode m s =
     (if q_final s \<or> q_frames s = [] \<or> \<not> m_partials m then s
      else (case m_decode m (concat (q_frames s)) 12 of
              [] \<Rightarrow> s
            | ids \<Rightarrow> s\<lparr>q_partial_ids := ids, q_partial := decoded_text m ids\<rparr>))"

definition process_chunk :: "('a, 'f) model \<Rightarrow> ('a, 'f) qstream \<Rightarrow> ('a, 'f) qstream" where
  "process_chunk m s =
     (let start = q_processed s; new = take chunk_size (drop start (q_audio s));
          (ctx, n) = get_left_context start s
      in case encode_with_context m ctx new n of
           None \<Rightarrow> s\<lparr>q_processed := start + chunk_size\<rparr>
         | Some enc \<Rightarrow> partial_decode m ((push_frames enc s)\<lparr>q_processed := start + chunk_size\<rparr>))"

lemma push_frames_frame [simp]:
  "q_audio (push_frames enc s) = q_audio s" "q_processed (push_frames enc s) = q_processed s"
  "q_utt (push_frames enc s) = q_utt s" "q_archive (push_frames enc s) = q_archive s"
  "q_final (push_frames enc s) = q_final s" "q_cancelled (push_frames enc s) = q_cancelled s"
  "q_cache (push_frames enc s) = q_cache s" "q_vad_heard (push_frames enc s) = q_vad_heard s"
  by (simp_all add: push_frames_def split: prod.split)

lemma partial_decode_frame [simp]:
  "q_audio (partial_decode m s) = q_audio s" "q_processed (partial_decode m s) = q_processed s"
  "q_utt (partial_decode m s) = q_utt s" "q_archive (partial_decode m s) = q_archive s"
  "q_final (partial_decode m s) = q_final s" "q_cancelled (partial_decode m s) = q_cancelled s"
  "q_cache (partial_decode m s) = q_cache s" "q_vad_heard (partial_decode m s) = q_vad_heard s"
  "q_frames (partial_decode m s) = q_frames s" "q_total (partial_decode m s) = q_total s"
  by (simp_all add: partial_decode_def split: list.split)

lemma process_chunk_frame [simp]:
  "q_audio (process_chunk m s) = q_audio s" "q_processed (process_chunk m s) = q_processed s + chunk_size"
  "q_utt (process_chunk m s) = q_utt s" "q_archive (process_chunk m s) = q_archive s"
  "q_final (process_chunk m s) = q_final s" "q_cancelled (process_chunk m s) = q_cancelled s"
  "q_cache (process_chunk m s) = q_cache s" "q_vad_heard (process_chunk m s) = q_vad_heard s"
  by (simp_all add: process_chunk_def Let_def split: prod.split option.split)

text \<open>\<open>while len(audio) - processed >= chunk\<close>.\<close>

function drain :: "('a, 'f) model \<Rightarrow> ('a, 'f) qstream \<Rightarrow> ('a, 'f) qstream" where
  "drain m s = (if q_processed s + chunk_size \<le> length (q_audio s) then drain m (process_chunk m s) else s)"
  by pat_completeness auto
termination
  by (relation "measure (\<lambda>(m, s). length (q_audio s) - q_processed s)") (auto simp: chunk_size_def)

declare drain.simps [simp del]

text \<open>The voice detector hears the whole frames of a chunk.\<close>

definition vad_frame :: "('a list list \<Rightarrow> bool) \<Rightarrow> 'a list \<Rightarrow> ('a, 'f) qstream \<Rightarrow> ('a, 'f) qstream" where
  "vad_frame hear f s =
     (if hear (q_vad_heard s @ [f])
      then s\<lparr>q_vad_heard := q_vad_heard s @ [f], q_vad_speech := q_vad_speech s + frame_len, q_vad_silence := 0\<rparr>
      else s\<lparr>q_vad_heard := q_vad_heard s @ [f], q_vad_silence := q_vad_silence s + frame_len\<rparr>)"

definition run_vad :: "('a, 'f) model \<Rightarrow> 'a list \<Rightarrow> ('a, 'f) qstream \<Rightarrow> ('a, 'f) qstream" where
  "run_vad m samples s =
     (case m_vad m of None \<Rightarrow> s | Some hear \<Rightarrow> fold (vad_frame hear) (frames_of samples) s)"

text \<open>The search for speech stops at the first frame that has it.\<close>

fun find_speech :: "('a list list \<Rightarrow> bool) \<Rightarrow> 'a list list \<Rightarrow> 'a list list \<Rightarrow> bool \<times> 'a list list" where
  "find_speech hear heard [] = (False, heard)"
| "find_speech hear heard (f # fs) =
     (if hear (heard @ [f]) then (True, heard @ [f]) else find_speech hear (heard @ [f]) fs)"

definition new_utterance :: "('a, 'f) qstream \<Rightarrow> ('a, 'f) qstream" where
  "new_utterance s =
     s\<lparr>q_utt := [], q_partial := [], q_partial_ids := [], q_frames := [], q_total := 0, q_vad_speech := 0,
       q_vad_silence := 0, q_archive := [], q_final := False\<rparr>"

definition check_new_utterance_resume :: "('a, 'f) model \<Rightarrow> 'a list \<Rightarrow> ('a, 'f) qstream \<Rightarrow> ('a, 'f) qstream" where
  "check_new_utterance_resume m samples s =
     (if \<not> q_final s then s
      else (case m_vad m of
              Some hear \<Rightarrow>
                (case find_speech hear (q_vad_heard s) (frames_of samples) of
                   (speech, heard) \<Rightarrow>
                     (let s1 = s\<lparr>q_vad_heard := heard\<rparr> in if speech then new_utterance s1 else s1))
            | None \<Rightarrow> if samples \<noteq> [] \<and> m_loud m samples then new_utterance s else s))"

definition check_vad_endpoint :: "('a, 'f) model \<Rightarrow> ('a, 'f) qstream \<Rightarrow> bool" where
  "check_vad_endpoint m s =
     (m_vad m \<noteq> None \<and> \<not> q_final s \<and> 16000 \<le> q_vad_speech s \<and> m_silence_ms m * 16 \<le> q_vad_silence s)"

definition offline_final_text :: "('a, 'f) model \<Rightarrow> ('a, 'f) qstream \<Rightarrow> ustr" where
  "offline_final_text m s = (if q_utt s = [] then [] else m_transcribe m (concat (q_utt s)))"

text \<open>The decoding budget grows with the audio: 15 tokens a second at 13 frames a second.\<close>

definition streaming_final_text :: "('a, 'f) model \<Rightarrow> ('a, 'f) qstream \<Rightarrow> ustr" where
  "streaming_final_text m s =
     (if q_frames s = [] then []
      else (let fs = concat (q_frames s)
            in case m_decode m fs (min 200 (max 20 (length fs * 15 div 13))) of
                 [] \<Rightarrow> q_partial s
               | ids \<Rightarrow> decoded_text m ids))"

definition final_text :: "('a, 'f) model \<Rightarrow> ('a, 'f) qstream \<Rightarrow> ustr" where
  "final_text m s =
     (if m_reuse m \<and> streaming_final_text m s \<noteq> [] then streaming_final_text m s else offline_final_text m s)"

definition do_final_decode :: "('a, 'f) model \<Rightarrow> ('a, 'f) qstream \<Rightarrow> ('a, 'f) qstream" where
  "do_final_decode m s =
     s\<lparr>q_archive := final_text m s, q_partial := [], q_partial_ids := [], q_frames := [], q_total := 0,
       q_vad_speech := 0, q_vad_silence := 0, q_utt := [], q_final := True\<rparr>"

text \<open>Old audio goes once there is twice the headroom.\<close>

definition trim_audio :: "('a, 'f) qstream \<Rightarrow> ('a, 'f) qstream" where
  "trim_audio s =
     (let max_prefix = left_context + chunk_size
      in if max_prefix * 2 < q_processed s
         then (let t = q_processed s - max_prefix
               in s\<lparr>q_audio := drop t (q_audio s), q_processed := q_processed s - t\<rparr>)
         else s)"

definition hear_chunk :: "('a, 'f) model \<Rightarrow> 'a list \<Rightarrow> ('a, 'f) qstream \<Rightarrow> ('a, 'f) qstream" where
  "hear_chunk m samples s =
     (let s1 = check_new_utterance_resume m samples s;
          s2 = s1\<lparr>q_utt := q_utt s1 @ [samples], q_audio := q_audio s1 @ samples\<rparr>;
          s3 = drain m (run_vad m samples s2)
      in if check_vad_endpoint m s3 then do_final_decode m s3 else s3)"

definition accept_waveform :: "('a, 'f) model \<Rightarrow> 'a list \<Rightarrow> ('a, 'f) qstream \<Rightarrow> ('a, 'f) qstream" where
  "accept_waveform m samples s = (if q_cancelled s then s else trim_audio (hear_chunk m samples s))"

definition is_cjk :: "nat \<Rightarrow> bool" where
  "is_cjk c = ((19968 \<le> c \<and> c \<le> 40959) \<or> (12352 \<le> c \<and> c \<le> 12543) \<or> (44032 \<le> c \<and> c \<le> 55215))"

definition partial_text :: "('a, 'f) qstream \<Rightarrow> ustr" where
  "partial_text s =
     (if q_partial s \<noteq> [] \<and> \<not> q_final s
      then ustrip (q_archive s @ (if q_archive s \<noteq> [] \<and> is_cjk (last (q_archive s)) then [] else [32]) @ q_partial s)
      else q_archive s)"

definition get_partial :: "('a, 'f) qstream \<Rightarrow> ustr \<times> bool" where
  "get_partial s = (partial_text s, q_final s)"

definition cancel_and_finalize :: "('a, 'f) qstream \<Rightarrow> ('a, 'f) qstream" where
  "cancel_and_finalize s =
     (if q_cancelled s then s
      else s\<lparr>q_cache := ustrip (partial_text s), q_cancelled := True, q_audio := [], q_frames := [], q_total := 0, q_utt := []\<rparr>)"

definition finalize :: "('a, 'f) model \<Rightarrow> ('a, 'f) qstream \<Rightarrow> ustr \<times> ('a, 'f) qstream" where
  "finalize m s =
     (if q_cancelled s then (q_cache s, s)
      else
        (let s1 = drain m s;
             s2 = (if q_processed s1 < length (q_audio s1)
                   then (let (ctx, n) = get_left_context (q_processed s1) s1;
                             s' = (case encode_with_context m ctx (drop (q_processed s1) (q_audio s1)) n of
                                     None \<Rightarrow> s1
                                   | Some enc \<Rightarrow> s1\<lparr>q_frames := q_frames s1 @ [enc], q_total := q_total s1 + length enc\<rparr>)
                         in s'\<lparr>q_processed := length (q_audio s1)\<rparr>)
                   else s1);
             s3 = (if q_final s2 then s2 else s2\<lparr>q_archive := offline_final_text m s2, q_final := True\<rparr>)
         in (ustrip (q_archive s3), s3)))"

definition force_endpoint :: "('a, 'f) model \<Rightarrow> ('a, 'f) qstream \<Rightarrow> ustr \<times> ('a, 'f) qstream" where
  "force_endpoint m s = (let s1 = (if q_final s then s else do_final_decode m s) in (q_archive s1, s1))"

section \<open>Forgetting old audio is invisible\<close>

text \<open>A stream that has dropped the first \<open>d\<close> samples, with the left context still there.\<close>

definition rebase :: "nat \<Rightarrow> ('a, 'f) qstream \<Rightarrow> ('a, 'f) qstream" where
  "rebase d s = s\<lparr>q_audio := drop d (q_audio s), q_processed := q_processed s - d\<rparr>"

definition enough :: "nat \<Rightarrow> ('a, 'f) qstream \<Rightarrow> bool" where
  "enough d s \<longleftrightarrow> d \<le> q_processed s \<and> q_processed s \<le> length (q_audio s) \<and> (d = 0 \<or> d + left_context \<le> q_processed s)"

lemma rebase_fields [simp]:
  "q_audio (rebase d s) = drop d (q_audio s)" "q_processed (rebase d s) = q_processed s - d"
  "q_utt (rebase d s) = q_utt s" "q_frames (rebase d s) = q_frames s" "q_total (rebase d s) = q_total s"
  "q_archive (rebase d s) = q_archive s" "q_partial (rebase d s) = q_partial s" "q_final (rebase d s) = q_final s"
  "q_vad_heard (rebase d s) = q_vad_heard s" "q_vad_speech (rebase d s) = q_vad_speech s"
  "q_vad_silence (rebase d s) = q_vad_silence s" "q_cancelled (rebase d s) = q_cancelled s" "q_cache (rebase d s) = q_cache s"
  by (simp_all add: rebase_def)

lemma context_rebase:
  assumes "enough d s"
  shows "get_left_context (q_processed s - d) (rebase d s) = get_left_context (q_processed s) s"
proof (cases "d = 0")
  case False
  then have "d + left_context \<le> q_processed s" using assms by (simp add: enough_def)
  then show ?thesis by (simp add: get_left_context_def Let_def)
qed (simp add: get_left_context_def)

lemma rebase_push: "rebase d (push_frames enc s) = push_frames enc (rebase d s)"
  by (simp add: push_frames_def rebase_def split: prod.split)

lemma rebase_partial: "rebase d (partial_decode m s) = partial_decode m (rebase d s)"
  by (simp add: partial_decode_def rebase_def split: list.split)

lemma rebase_processed:
  "d \<le> n \<Longrightarrow> rebase d (s\<lparr>q_processed := n\<rparr>) = (rebase d s)\<lparr>q_processed := n - d\<rparr>"
  by (simp add: rebase_def)

lemma process_rebase:
  assumes "enough d s"
  shows "process_chunk m (rebase d s) = rebase d (process_chunk m s)"
proof -
  have d: "d \<le> q_processed s" using assms by (simp add: enough_def)
  then have "drop (q_processed s - d) (drop d (q_audio s)) = drop (q_processed s) (q_audio s)" by simp
  then show ?thesis
    using d by (simp add: process_chunk_def Let_def context_rebase [OF assms] rebase_partial rebase_push rebase_processed
        split: prod.split option.split)
qed

lemma process_enough:
  "enough d s \<Longrightarrow> q_processed s + chunk_size \<le> length (q_audio s) \<Longrightarrow> enough d (process_chunk m s)"
  by (auto simp: enough_def)

lemma drain_rebase: "enough d s \<Longrightarrow> drain m (rebase d s) = rebase d (drain m s) \<and> enough d (drain m s)"
proof (induction m s rule: drain.induct)
  case (1 m s)
  have iff: "q_processed (rebase d s) + chunk_size \<le> length (q_audio (rebase d s)) \<longleftrightarrow>
      q_processed s + chunk_size \<le> length (q_audio s)"
    using 1(2) by (auto simp: enough_def)
  show ?case
  proof (cases "q_processed s + chunk_size \<le> length (q_audio s)")
    case True
    then have "enough d (process_chunk m s)" by (rule process_enough [OF 1(2)])
    from 1(1) [OF True this] show ?thesis
      using True iff by (subst (1 2 3) drain.simps) (simp add: process_rebase [OF 1(2)])
  next
    case False
    then show ?thesis using iff 1(2) by (subst (1 2 3) drain.simps) auto
  qed
qed

lemma vad_frame_rebase: "vad_frame hear f (rebase d s) = rebase d (vad_frame hear f s)"
  by (simp add: vad_frame_def rebase_def)

lemma vad_frame_frame [simp]:
  "q_audio (vad_frame hear f s) = q_audio s" "q_processed (vad_frame hear f s) = q_processed s"
  "q_cancelled (vad_frame hear f s) = q_cancelled s" "q_utt (vad_frame hear f s) = q_utt s"
  "q_frames (vad_frame hear f s) = q_frames s" "q_total (vad_frame hear f s) = q_total s"
  by (simp_all add: vad_frame_def)

lemma vad_frames_frame [simp]:
  "q_audio (fold (vad_frame hear) fs s) = q_audio s" "q_processed (fold (vad_frame hear) fs s) = q_processed s"
  "q_cancelled (fold (vad_frame hear) fs s) = q_cancelled s" "q_utt (fold (vad_frame hear) fs s) = q_utt s"
  "q_frames (fold (vad_frame hear) fs s) = q_frames s" "q_total (fold (vad_frame hear) fs s) = q_total s"
  by (induction fs arbitrary: s; simp)+

lemma run_vad_rebase: "run_vad m samples (rebase d s) = rebase d (run_vad m samples s)"
proof -
  have "fold (vad_frame hear) fs (rebase d s) = rebase d (fold (vad_frame hear) fs s)" for hear fs
    by (induction fs arbitrary: s) (simp_all add: vad_frame_rebase)
  then show ?thesis by (simp add: run_vad_def split: option.split)
qed

lemma run_vad_frame [simp]:
  "q_audio (run_vad m samples s) = q_audio s" "q_processed (run_vad m samples s) = q_processed s"
  "q_cancelled (run_vad m samples s) = q_cancelled s" "q_utt (run_vad m samples s) = q_utt s"
  "q_frames (run_vad m samples s) = q_frames s" "q_total (run_vad m samples s) = q_total s"
  by (simp_all add: run_vad_def split: option.split)

lemma resume_rebase: "check_new_utterance_resume m samples (rebase d s) = rebase d (check_new_utterance_resume m samples s)"
  by (auto simp: check_new_utterance_resume_def new_utterance_def rebase_def Let_def split: option.split prod.split)

lemma resume_frame [simp]:
  "q_audio (check_new_utterance_resume m samples s) = q_audio s"
  "q_processed (check_new_utterance_resume m samples s) = q_processed s"
  "q_cancelled (check_new_utterance_resume m samples s) = q_cancelled s"
  by (auto simp: check_new_utterance_resume_def new_utterance_def Let_def split: option.split prod.split)

lemma final_text_rebase: "final_text m (rebase d s) = final_text m s"
proof -
  have "streaming_final_text m (rebase d s) = streaming_final_text m s"
    by (simp add: streaming_final_text_def Let_def cong: list.case_cong)
  then show ?thesis by (simp add: final_text_def offline_final_text_def)
qed

lemma do_final_rebase: "do_final_decode m (rebase d s) = rebase d (do_final_decode m s)"
  by (simp add: do_final_decode_def final_text_rebase) (simp add: rebase_def)

lemma do_final_frame [simp]:
  "q_audio (do_final_decode m s) = q_audio s" "q_processed (do_final_decode m s) = q_processed s"
  "q_cancelled (do_final_decode m s) = q_cancelled s"
  by (simp_all add: do_final_decode_def)

lemma drain_frame [simp]:
  "q_audio (drain m s) = q_audio s" "q_cancelled (drain m s) = q_cancelled s" "q_utt (drain m s) = q_utt s"
  by (induction m s rule: drain.induct; subst drain.simps; simp)+

lemma drain_processed:
  "q_processed s \<le> length (q_audio s) \<Longrightarrow>
     q_processed (drain m s) \<le> length (q_audio s) \<and> length (q_audio s) < q_processed (drain m s) + chunk_size"
proof (induction m s rule: drain.induct)
  case (1 m s)
  then show ?case by (cases "q_processed s + chunk_size \<le> length (q_audio s)") (subst (1 2) drain.simps, simp)+
qed

lemma hear_chunk_rebase:
  assumes "enough d s"
  shows "hear_chunk m samples (rebase d s) = rebase d (hear_chunk m samples s) \<and> enough d (hear_chunk m samples s)"
proof -
  let ?s1 = "check_new_utterance_resume m samples s"
  let ?s2 = "?s1\<lparr>q_utt := q_utt ?s1 @ [samples], q_audio := q_audio ?s1 @ samples\<rparr>"
  define s3 where "s3 = drain m (run_vad m samples ?s2)"
  have d: "d \<le> length (q_audio s)" using assms by (simp add: enough_def)
  have s2: "(rebase d ?s1)\<lparr>q_utt := q_utt (rebase d ?s1) @ [samples], q_audio := q_audio (rebase d ?s1) @ samples\<rparr> = rebase d ?s2"
    using d by (simp add: rebase_def)
  have "enough d (run_vad m samples ?s2)" using assms by (simp add: enough_def)
  from drain_rebase [OF this, of m] have s3: "drain m (run_vad m samples (rebase d ?s2)) = rebase d s3" "enough d s3"
    by (simp_all add: s3_def run_vad_rebase)
  have "hear_chunk m samples (rebase d s) = (if check_vad_endpoint m (rebase d s3) then do_final_decode m (rebase d s3) else rebase d s3)"
    unfolding hear_chunk_def Let_def resume_rebase s2 s3(1) ..
  moreover have "hear_chunk m samples s = (if check_vad_endpoint m s3 then do_final_decode m s3 else s3)"
    unfolding hear_chunk_def Let_def s3_def ..
  moreover have "check_vad_endpoint m (rebase d s3) = check_vad_endpoint m s3" by (simp add: check_vad_endpoint_def)
  moreover have "enough d (do_final_decode m s3)" using s3(2) by (simp add: enough_def)
  ultimately show ?thesis using s3(2) by (simp add: do_final_rebase)
qed

text \<open>The stream as it would be if it kept all its audio.\<close>

definition accept_keeping :: "('a, 'f) model \<Rightarrow> 'a list \<Rightarrow> ('a, 'f) qstream \<Rightarrow> ('a, 'f) qstream" where
  "accept_keeping m samples s = (if q_cancelled s then s else hear_chunk m samples s)"

datatype 'a stream_op = Accept "'a list" | Finalize | ForceEndpoint | Cancel

text \<open>An operation's result and what \<open>get_partial\<close> says after it.\<close>

fun do_op ::
  "('a list \<Rightarrow> ('a, 'f) qstream \<Rightarrow> ('a, 'f) qstream) \<Rightarrow> ('a, 'f) model \<Rightarrow> 'a stream_op \<Rightarrow> ('a, 'f) qstream
     \<Rightarrow> ustr \<times> ('a, 'f) qstream" where
  "do_op accept m (Accept samples) s = ([], accept samples s)"
| "do_op accept m Finalize s = finalize m s"
| "do_op accept m ForceEndpoint s = force_endpoint m s"
| "do_op accept m Cancel s = ([], cancel_and_finalize s)"

fun stream_outputs ::
  "('a list \<Rightarrow> ('a, 'f) qstream \<Rightarrow> ('a, 'f) qstream) \<Rightarrow> ('a, 'f) model \<Rightarrow> 'a stream_op list \<Rightarrow> ('a, 'f) qstream
     \<Rightarrow> (ustr \<times> ustr \<times> bool) list" where
  "stream_outputs accept m [] s = []"
| "stream_outputs accept m (e # es) s =
     (case do_op accept m e s of (out, s1) \<Rightarrow> (out, get_partial s1) # stream_outputs accept m es s1)"

definition same_stream :: "('a, 'f) qstream \<Rightarrow> ('a, 'f) qstream \<Rightarrow> bool" where
  "same_stream s r \<longleftrightarrow> (\<exists>d. s = rebase d r \<and> (q_cancelled r \<or> enough d r))"

lemma trim_rebase:
  assumes "enough d r"
  shows "\<exists>e. trim_audio (rebase d r) = rebase e r \<and> enough e r"
proof (cases "(left_context + chunk_size) * 2 < q_processed r - d")
  case True
  define t where "t = q_processed r - d - (left_context + chunk_size)"
  have "trim_audio (rebase d r) = rebase (d + t) r"
    using True by (simp add: trim_audio_def t_def Let_def rebase_def add.commute)
  moreover have "enough (d + t) r" using assms True by (auto simp: enough_def t_def left_context_def chunk_size_def)
  ultimately show ?thesis by blast
next
  case False
  then have "trim_audio (rebase d r) = rebase d r" by (simp add: trim_audio_def Let_def)
  then show ?thesis using assms by auto
qed

lemma finalize_rebase:
  assumes "enough d r" "\<not> q_cancelled r"
  shows "finalize m (rebase d r) = (fst (finalize m r), rebase d (snd (finalize m r))) \<and> enough d (snd (finalize m r))"
proof -
  define s1 where "s1 = drain m r"
  define tail where "tail = (\<lambda>s. if q_processed s < length (q_audio s)
       then (let (ctx, n) = get_left_context (q_processed s) s;
                 s' = (case encode_with_context m ctx (drop (q_processed s) (q_audio s)) n of
                         None \<Rightarrow> s
                       | Some enc \<Rightarrow> s\<lparr>q_frames := q_frames s @ [enc], q_total := q_total s + length enc\<rparr>)
             in s'\<lparr>q_processed := length (q_audio s)\<rparr>)
       else s)"
  define close where "close = (\<lambda>s. if q_final s then s else s\<lparr>q_archive := offline_final_text m s, q_final := True\<rparr>)"
  have fin: "finalize m s = (ustrip (q_archive (close (tail (drain m s)))), close (tail (drain m s)))" if "\<not> q_cancelled s" for s
    using that by (simp add: finalize_def tail_def close_def Let_def)
  from drain_rebase [OF assms(1), of m] have s1: "drain m (rebase d r) = rebase d s1" "enough d s1"
    by (simp_all add: s1_def)
  have same: "drop (q_processed s1 - d) (drop d (q_audio s1)) = drop (q_processed s1) (q_audio s1)"
    "(q_processed s1 - d < length (q_audio s1) - d) = (q_processed s1 < length (q_audio s1))"
    using s1(2) by (auto simp: enough_def)
  have tail: "tail (rebase d s1) = rebase d (tail s1)" "enough d (tail s1)"
    using s1(2) unfolding tail_def
    by (simp_all add: Let_def context_rebase [OF s1(2)] same split: prod.split option.split)
       (auto simp: rebase_def enough_def)
  have "close (rebase d s) = rebase d (close s)" for s
    by (simp add: close_def offline_final_text_def) (simp add: rebase_def)
  moreover have "enough d (close (tail s1))" using tail(2) by (simp add: close_def enough_def)
  ultimately show ?thesis
    using assms(2) tail by (simp add: fin s1(1) s1_def [symmetric])
qed

lemma partial_rebase [simp]: "get_partial (rebase d s) = get_partial s"
  by (simp add: get_partial_def partial_text_def)

lemma do_op_same:
  assumes "same_stream s r"
  shows "fst (do_op (accept_waveform m) m e s) = fst (do_op (accept_keeping m) m e r)
         \<and> same_stream (snd (do_op (accept_waveform m) m e s)) (snd (do_op (accept_keeping m) m e r))"
proof -
  obtain d where d: "s = rebase d r" "q_cancelled r \<or> enough d r" using assms by (auto simp: same_stream_def)
  show ?thesis
  proof (cases "q_cancelled r")
    case True
    have "force_endpoint m (rebase d r) = (fst (force_endpoint m r), rebase d (snd (force_endpoint m r)))"
      "q_cancelled (snd (force_endpoint m r))"
      using True by (simp_all add: force_endpoint_def Let_def do_final_rebase)
    then show ?thesis
      using True d(1)
      by (cases e) (auto simp: accept_waveform_def accept_keeping_def finalize_def cancel_and_finalize_def same_stream_def)
  next
    case False
    then have ok: "enough d r" using d(2) by simp
    show ?thesis
    proof (cases e)
      case (Accept samples)
      have "enough d (hear_chunk m samples r)" using hear_chunk_rebase [OF ok] by blast
      from trim_rebase [OF this] obtain k where "trim_audio (rebase d (hear_chunk m samples r)) = rebase k (hear_chunk m samples r)"
          "enough k (hear_chunk m samples r)" by blast
      then show ?thesis
        using Accept False d(1) hear_chunk_rebase [OF ok, of m samples]
        by (auto simp: accept_waveform_def accept_keeping_def same_stream_def)
    next
      case Finalize
      then show ?thesis using finalize_rebase [OF ok False, of m] d(1) by (auto simp: same_stream_def)
    next
      case ForceEndpoint
      have "enough d (do_final_decode m r)" using ok by (simp add: enough_def)
      then show ?thesis
        using ForceEndpoint ok d(1) by (auto simp: force_endpoint_def Let_def do_final_rebase same_stream_def)
    next
      case Cancel
      have "cancel_and_finalize (rebase d r) = rebase (q_processed r - (q_processed r - d)) (cancel_and_finalize r)"
        using False ok by (simp add: cancel_and_finalize_def partial_text_def) (simp add: rebase_def enough_def)
      then show ?thesis
        using Cancel False d(1) by (auto simp: same_stream_def cancel_and_finalize_def)
    qed
  qed
qed

lemma outputs_same:
  "same_stream s r \<Longrightarrow> stream_outputs (accept_waveform m) m es s = stream_outputs (accept_keeping m) m es r"
proof (induction es arbitrary: s r)
  case (Cons e es)
  obtain o1 s1 where s1: "do_op (accept_waveform m) m e s = (o1, s1)" by (meson surj_pair)
  obtain o2 r1 where r1: "do_op (accept_keeping m) m e r = (o2, r1)" by (meson surj_pair)
  have *: "o1 = o2" "same_stream s1 r1" using do_op_same [OF Cons.prems, of m e] s1 r1 by simp_all
  then have "get_partial s1 = get_partial r1" by (auto simp: same_stream_def)
  then show ?case using Cons.IH [OF *(2)] * s1 r1 by simp
qed simp

section \<open>Bounds\<close>

definition audio_bounded :: "('a, 'f) qstream \<Rightarrow> bool" where
  "audio_bounded s \<longleftrightarrow> length (q_audio s) < 51200 \<and> (q_cancelled s \<or> q_processed s \<le> length (q_audio s))"

lemma hear_chunk_lengths:
  assumes "q_processed s \<le> length (q_audio s)"
  shows "q_processed (hear_chunk m samples s) \<le> length (q_audio (hear_chunk m samples s))
         \<and> length (q_audio (hear_chunk m samples s)) < q_processed (hear_chunk m samples s) + chunk_size"
  using assms drain_processed [of "run_vad m samples (check_new_utterance_resume m samples s
    \<lparr>q_utt := q_utt (check_new_utterance_resume m samples s) @ [samples],
     q_audio := q_audio (check_new_utterance_resume m samples s) @ samples\<rparr>)" m]
  by (simp add: hear_chunk_def Let_def)

lemma accept_bounded:
  assumes "audio_bounded s"
  shows "audio_bounded (accept_waveform m samples s)"
proof (cases "q_cancelled s")
  case False
  then show ?thesis
    using assms hear_chunk_lengths [of s m samples]
    by (auto simp: accept_waveform_def audio_bounded_def trim_audio_def Let_def left_context_def chunk_size_def)
qed (use assms in \<open>simp add: accept_waveform_def\<close>)

lemma finalize_frame:
  "q_audio (snd (finalize m s)) = q_audio s" "q_cancelled (snd (finalize m s)) = q_cancelled s"
  "q_processed s \<le> length (q_audio s) \<Longrightarrow> \<not> q_cancelled s \<Longrightarrow> q_processed (snd (finalize m s)) \<le> length (q_audio s)"
  using drain_processed [of s m]
  by (auto simp: finalize_def Let_def split: prod.split option.split)

lemma do_op_bounded: "audio_bounded s \<Longrightarrow> audio_bounded (snd (do_op (accept_waveform m) m e s))"
proof (cases e)
  case Finalize
  assume "audio_bounded s"
  then show ?thesis
    using Finalize finalize_frame [where m = m and s = s] by (auto simp: audio_bounded_def)
next
  case (Accept samples)
  assume "audio_bounded s"
  then show ?thesis using Accept accept_bounded by auto
qed (auto simp: audio_bounded_def force_endpoint_def Let_def cancel_and_finalize_def)

fun stream_state_after :: "('a, 'f) model \<Rightarrow> 'a stream_op list \<Rightarrow> ('a, 'f) qstream \<Rightarrow> ('a, 'f) qstream" where
  "stream_state_after m [] s = s"
| "stream_state_after m (e # es) s = stream_state_after m es (snd (do_op (accept_waveform m) m e s))"

lemma state_after_bounded: "audio_bounded s \<Longrightarrow> audio_bounded (stream_state_after m es s)"
  by (induction es arbitrary: s) (simp_all add: do_op_bounded del: do_op.simps)

section \<open>Properties\<close>

text \<open>
  C2: dropping old audio is invisible: over any sequence of chunks (of any sizes), finalizations,
  forced endpoints and cancels, the texts returned and every partial are those of a stream
  that keeps all its audio, while the buffer never holds 51200 samples (3.2 s).
\<close>

theorem trimming_is_invisible:
  "stream_outputs (accept_waveform m) m es new_stream = stream_outputs (accept_keeping m) m es new_stream
   \<and> length (q_audio (stream_state_after m es new_stream)) < 51200"
proof -
  have "same_stream new_stream (new_stream :: ('a, 'f) qstream)"
    unfolding same_stream_def by (intro exI [of _ 0]) (simp add: rebase_def enough_def new_stream_def)
  moreover have "audio_bounded (stream_state_after m es new_stream)"
    by (rule state_after_bounded) (simp add: audio_bounded_def new_stream_def)
  ultimately show ?thesis using outputs_same by (auto simp: audio_bounded_def)
qed

section \<open>Other facts\<close>

text \<open>A cancelled stream keeps the text it had, whatever is done to it.\<close>

theorem cancelled_stream_is_inert:
  assumes "\<not> q_cancelled s"
  shows "fst (finalize m (fold (accept_waveform m) chunks (cancel_and_finalize s))) = ustrip (fst (get_partial s))"
proof -
  have "fold (accept_waveform m) chunks c = c" if "q_cancelled c" for c
    using that by (induction chunks) (simp_all add: accept_waveform_def)
  then show ?thesis using assms by (simp add: cancel_and_finalize_def finalize_def get_partial_def)
qed

text \<open>The detector is given whole frames of each chunk only: chunks shorter than 20 ms are never
  heard, so no silence ends the utterance.\<close>

lemma short_frames: "length samples < 320 \<Longrightarrow> frames_of samples = []"
  by (simp add: frames_of_def frame_len_def)

lemma process_vad [simp]:
  "q_vad_speech (process_chunk m s) = q_vad_speech s" "q_vad_silence (process_chunk m s) = q_vad_silence s"
  by (simp_all add: process_chunk_def push_frames_def partial_decode_def Let_def split: prod.split option.split list.split)

lemma drain_vad [simp]: "q_vad_speech (drain m s) = q_vad_speech s" "q_final (drain m s) = q_final s"
  by (induction m s rule: drain.induct; subst drain.simps; simp)+

theorem short_chunks_never_endpoint:
  fixes m :: "('a, 'f) model"
  assumes "\<forall>c \<in> set chunks. length c < 320"
  shows "\<not> q_final (fold (accept_waveform m) chunks new_stream)"
proof -
  define quiet where "quiet = (\<lambda>s :: ('a, 'f) qstream. \<not> q_final s \<and> q_vad_speech s = 0)"
  have "quiet (accept_waveform m c s)" if "quiet s" "length c < 320" for c s
    using that unfolding quiet_def
    by (auto simp: accept_waveform_def hear_chunk_def check_new_utterance_resume_def run_vad_def check_vad_endpoint_def
        trim_audio_def short_frames Let_def split: option.split)
  then have "quiet (fold (accept_waveform m) chunks s)" if "quiet s" for s
    using that assms by (induction chunks arbitrary: s) auto
  then show ?thesis by (auto simp: quiet_def new_stream_def)
qed

text \<open>Without a detector nothing ends the utterance before \<open>finalize\<close>, which transcribes all of it.\<close>

theorem final_text_of_everything:
  fixes m :: "('a, 'f) model"
  assumes "m_vad m = None" "chunks \<noteq> []"
  shows "fst (finalize m (fold (accept_waveform m) chunks new_stream)) = ustrip (m_transcribe m (concat chunks))"
proof -
  have step: "\<not> q_final (accept_waveform m c s) \<and> \<not> q_cancelled (accept_waveform m c s) \<and> q_utt (accept_waveform m c s) = q_utt s @ [c]"
    if "\<not> q_final s" "\<not> q_cancelled s" for c s
    using that assms(1)
    by (simp add: accept_waveform_def hear_chunk_def check_new_utterance_resume_def run_vad_def check_vad_endpoint_def
        trim_audio_def Let_def)
  have "\<not> q_final (fold (accept_waveform m) chunks s) \<and> \<not> q_cancelled (fold (accept_waveform m) chunks s)
      \<and> q_utt (fold (accept_waveform m) chunks s) = q_utt s @ chunks"
    if "\<not> q_final s" "\<not> q_cancelled s" for s
    using that step by (induction chunks arbitrary: s) auto
  from this [of new_stream] have f: "\<not> q_final (fold (accept_waveform m) chunks new_stream)"
      "\<not> q_cancelled (fold (accept_waveform m) chunks new_stream)" "q_utt (fold (accept_waveform m) chunks new_stream) = chunks"
    by (simp_all add: new_stream_def)
  define s where "s = fold (accept_waveform m) chunks (new_stream :: ('a, 'f) qstream)"
  have "q_utt (drain m s) = chunks" "\<not> q_final (drain m s)" using f by (simp_all add: s_def)
  then show ?thesis
    using f(2) assms(2) unfolding s_def [symmetric]
    by (auto simp: finalize_def offline_final_text_def Let_def split: prod.split option.split)
qed

end
