(* ===== verification/Qwen3_Decode.thy ===== *)
theory Qwen3_Decode
  imports Qwen3_Stream
begin

text \<open>
  The token level of \<open>app/backends/jetson/qwen3_asr.py\<close>: the prompt, the greedy decoding loop
  over the TensorRT or the ONNX engine with the pruned vocabulary, the removal of tokens
  repeated across a boundary, the stabilisation helpers, and the accumulating stream used when
  the streaming one is not available. An engine is a function from the prompt and the tokens
  fed to it so far to the token with the largest logit; the ONNX one is told the position of
  each token, the TensorRT one counts them itself.
\<close>

section \<open>Prompt and decoding\<close>

definition im_start :: nat where "im_start = 151644"
definition im_end :: nat where "im_end = 151645"
definition audio_start :: nat where "audio_start = 151669"
definition audio_end :: nat where "audio_end = 151670"
definition audio_pad :: nat where "audio_pad = 151676"
definition asr_anchor :: nat where "asr_anchor = 151704"
definition eos_ids :: "nat list" where "eos_ids = [151643, 151645]"

text \<open>The tokens of \<open>language X\<close> come from the tokenizer, when there is one and the language is not
  \<open>auto\<close>.\<close>

definition build_prompt :: "nat \<Rightarrow> nat list option \<Rightarrow> nat list" where
  "build_prompt audio_len lang_ids =
     [im_start, 9125, 198, im_end, 198, im_start, 882, 198, audio_start] @ replicate audio_len audio_pad
     @ [audio_end, im_end, 198, im_start, 77091, 198]
     @ (case lang_ids of None \<Rightarrow> [] | Some ids \<Rightarrow> ids) @ [asr_anchor]"

fun greedy :: "(nat list \<Rightarrow> nat) \<Rightarrow> nat list \<Rightarrow> nat \<Rightarrow> nat list \<Rightarrow> nat list" where
  "greedy next eos 0 out = out"
| "greedy next eos (Suc n) out = (let t = next out in if t \<in> set eos then out else greedy next eos n (out @ [t]))"

record engine =
  e_trt :: "(nat list \<Rightarrow> nat list \<Rightarrow> nat) option"
  e_ort :: "(nat list \<Rightarrow> (nat \<times> nat) list \<Rightarrow> nat) option"
  e_max_seq :: nat
  e_pruned :: bool
  e_eos_red :: "nat list"
  e_red2orig :: "nat \<Rightarrow> nat"

definition positioned :: "(nat \<Rightarrow> nat) \<Rightarrow> ((nat \<times> nat) list \<Rightarrow> nat) \<Rightarrow> nat list \<Rightarrow> nat" where
  "positioned pos step out = step (zip out (map pos [0..<length out]))"

text \<open>Prefill and decode. The pruned vocabulary is mapped back on the TensorRT path. On the ONNX
  path a token's position is computed after it has been appended to the output.\<close>

definition decode_window_internal :: "engine \<Rightarrow> nat list \<Rightarrow> nat \<Rightarrow> nat list" where
  "decode_window_internal e prompt max_tokens =
     (case (if length prompt \<le> e_max_seq e then e_trt e else None) of
        Some next \<Rightarrow>
          if e_pruned e then map (e_red2orig e) (greedy (next prompt) (e_eos_red e) max_tokens [])
          else greedy (next prompt) eos_ids max_tokens []
      | None \<Rightarrow> (case e_ort e of
                    Some next \<Rightarrow> greedy (positioned (\<lambda>i. length prompt + (i + 1)) (next prompt)) eos_ids max_tokens []
                  | None \<Rightarrow> []))"

text \<open>The offline \<open>_transcribe_python\<close>, from the prompt: the position is computed from the step.
  Without a tokenizer the text is the number of tokens.\<close>

definition transcribe_ids :: "engine \<Rightarrow> nat list \<Rightarrow> nat list" where
  "transcribe_ids e prompt =
     (case (if length prompt \<le> e_max_seq e then e_trt e else None) of
        Some next \<Rightarrow>
          if e_pruned e then map (e_red2orig e) (greedy (next prompt) (e_eos_red e) 200 [])
          else greedy (next prompt) eos_ids 200 []
      | None \<Rightarrow> (case e_ort e of
                    Some next \<Rightarrow> greedy (positioned (\<lambda>i. length prompt + i) (next prompt)) eos_ids 200 []
                  | None \<Rightarrow> []))"

definition transcribe_python :: "(nat \<Rightarrow> ustr) \<Rightarrow> (nat list \<Rightarrow> ustr) option \<Rightarrow> engine \<Rightarrow> nat list \<Rightarrow> ustr" where
  "transcribe_python digits tokenizer e prompt =
     (let ids = transcribe_ids e prompt;
          text = (case tokenizer of Some dec \<Rightarrow> dec ids | None \<Rightarrow> u ''['' @ digits (length ids) @ u '' tokens]'')
      in ustrip (case after_marker asr_text text of None \<Rightarrow> text | Some t \<Rightarrow> t))"

section \<open>Boundaries\<close>

fun longest_overlap :: "nat list \<Rightarrow> nat list \<Rightarrow> nat \<Rightarrow> nat" where
  "longest_overlap old new 0 = 0"
| "longest_overlap old new (Suc k) =
     (if drop (length old - Suc k) old = take (Suc k) new then Suc k else longest_overlap old new k)"

definition dedup_boundary_tokens :: "nat \<Rightarrow> nat list \<Rightarrow> nat list \<Rightarrow> nat list" where
  "dedup_boundary_tokens max_overlap archive new =
     (if archive = [] \<or> new = [] then new
      else drop (longest_overlap archive new (min (min (length archive) (length new)) max_overlap)) new)"

text \<open>\<open>_apply_rollback\<close>, on the tokens of a text: at most three go, at least one.\<close>

definition apply_rollback :: "(ustr \<Rightarrow> nat list) \<Rightarrow> (nat list \<Rightarrow> ustr) \<Rightarrow> ustr \<Rightarrow> ustr" where
  "apply_rollback enc dec t =
     (if t = [] then t
      else (let ids = enc t; n = min 3 (max 1 (length ids div 3))
            in if length ids \<le> n then [] else dec (take (length ids - n) ids)))"

fun agree :: "ustr \<Rightarrow> ustr \<Rightarrow> nat" where
  "agree (x # xs) (y # ys) = (if x = y then Suc (agree xs ys) else 0)"
| "agree _ _ = 0"

text \<open>\<open>rfind(" ")\<close>, as the length of the text up to it.\<close>

definition last_space :: "ustr \<Rightarrow> nat option" where
  "last_space t = (let r = dropWhile (\<lambda>c. c \<noteq> 32) (rev t) in if r = [] then None else Some (length r - 1))"

definition local_agreement :: "ustr \<Rightarrow> ustr \<Rightarrow> ustr" where
  "local_agreement prev cur =
     (if prev = [] then cur
      else (let i = agree prev cur; result = take i cur
            in if i < length cur \<and> 0 < i \<and> \<not> is_cjk (cur ! (i - 1))
               then (case last_space result of
                       Some k \<Rightarrow> if 0 < k then take (k + 1) result else result
                     | None \<Rightarrow> result)
               else result))"

section \<open>The accumulating stream\<close>

record 'a accumulator =
  ac_chunks :: "'a list list"
  ac_cancelled :: bool
  ac_cache :: ustr

definition accumulator_accept :: "'a list \<Rightarrow> 'a accumulator \<Rightarrow> 'a accumulator" where
  "accumulator_accept samples s = (if ac_cancelled s then s else s\<lparr>ac_chunks := ac_chunks s @ [samples]\<rparr>)"

definition accumulator_finalize :: "('a list \<Rightarrow> ustr) \<Rightarrow> 'a accumulator \<Rightarrow> ustr" where
  "accumulator_finalize transcribe s =
     (if ac_cancelled s then ac_cache s
      else if ac_chunks s = [] then [] else transcribe (concat (ac_chunks s)))"

definition accumulator_cancel :: "'a accumulator \<Rightarrow> 'a accumulator" where
  "accumulator_cancel s = (if ac_cancelled s then s else \<lparr>ac_chunks = [], ac_cancelled = True, ac_cache = []\<rparr>)"

datatype stream_kind = NotReady | RealStreaming | Accumulating

definition create_stream :: "bool \<Rightarrow> bool \<Rightarrow> bool \<Rightarrow> bool \<Rightarrow> stream_kind" where
  "create_stream ready has_encoder has_decoder has_embeds =
     (if \<not> ready then NotReady else if has_encoder \<and> has_decoder \<and> has_embeds then RealStreaming else Accumulating)"

section \<open>Facts\<close>

lemma greedy_spec: "\<exists>ts. greedy next eos n out = out @ ts \<and> length ts \<le> n \<and> set ts \<inter> set eos = {}"
proof (induction n arbitrary: out)
  case (Suc n)
  show ?case
  proof (cases "next out \<in> set eos")
    case False
    obtain ts where "greedy next eos n (out @ [next out]) = (out @ [next out]) @ ts" "length ts \<le> n" "set ts \<inter> set eos = {}"
      using Suc by blast
    then show ?thesis using False by (intro exI [of _ "next out # ts"]) auto
  qed simp
qed simp

theorem decode_within_budget:
  "length (decode_window_internal e prompt n) \<le> n
   \<and> (\<not> e_pruned e \<longrightarrow> set (decode_window_internal e prompt n) \<inter> set eos_ids = {})"
proof -
  have "length (greedy next eos n []) \<le> n \<and> set (greedy next eos n []) \<inter> set eos = {}" for "next" eos
    using greedy_spec [of "next" eos n "[]"] by auto
  then show ?thesis by (simp add: decode_window_internal_def split: option.split)
qed

text \<open>With the TensorRT engine the streaming and the offline decoding agree on the budget they
  share. With the ONNX engine the streaming loop gives every generated token a position one
  too high, so an engine that looks at positions answers differently.\<close>

theorem trt_streaming_is_offline:
  "length prompt \<le> e_max_seq e \<Longrightarrow> e_trt e \<noteq> None \<Longrightarrow> decode_window_internal e prompt 200 = transcribe_ids e prompt"
  by (auto simp: decode_window_internal_def transcribe_ids_def)

definition position_engine :: engine where
  "position_engine = \<lparr>e_trt = None,
     e_ort = Some (\<lambda>prompt fed. if fed = [] then 7 else if snd (last fed) + 1 = length prompt + length fed then 151645 else 8),
     e_max_seq = 500, e_pruned = False, e_eos_red = [], e_red2orig = id\<rparr>"

lemma greedy_numeral:
  "greedy next eos (numeral k) out =
     (let t = next out in if t \<in> set eos then out else greedy next eos (pred_numeral k) (out @ [t]))"
  by (simp add: numeral_eq_Suc)

theorem streaming_positions_skip_one:
  "transcribe_ids position_engine prompt = [7]" "decode_window_internal position_engine prompt 3 = [7, 8, 8]"
  by (simp_all add: transcribe_ids_def decode_window_internal_def position_engine_def positioned_def eos_ids_def
      greedy_numeral greedy.simps(2) [where n = 0] del: greedy.simps(2))

lemma longest_overlap_le: "longest_overlap old new k \<le> k"
  by (induction k) (auto simp: le_SucI)

lemma longest_overlap_match:
  "0 < longest_overlap old new k \<Longrightarrow>
     drop (length old - longest_overlap old new k) old = take (longest_overlap old new k) new"
  by (induction k) (auto split: if_splits)

lemma longest_overlap_max:
  "j \<le> k \<Longrightarrow> 0 < j \<Longrightarrow> drop (length old - j) old = take j new \<Longrightarrow> j \<le> longest_overlap old new k"
proof (induction k)
  case (Suc k)
  then show ?case by (cases "j = Suc k") (auto simp: le_SucI)
qed simp

theorem dedup_removes_longest_overlap:
  assumes "archive \<noteq> []" "new \<noteq> []"
  shows "\<exists>k. dedup_boundary_tokens m archive new = drop k new
     \<and> k \<le> m \<and> (0 < k \<longrightarrow> (\<exists>pre. archive = pre @ take k new))
     \<and> (\<forall>j pre. j \<le> m \<and> j \<le> length new \<and> 0 < j \<and> archive = pre @ take j new \<longrightarrow> j \<le> k)"
proof -
  define lim where "lim = min (min (length archive) (length new)) m"
  define k where "k = longest_overlap archive new lim"
  have "j \<le> k" if "j \<le> m" "j \<le> length new" "0 < j" "archive = pre @ take j new" for j pre
    unfolding k_def using that by (intro longest_overlap_max) (auto simp: lim_def)
  moreover have "\<exists>pre. archive = pre @ take k new" if "0 < k"
    using longest_overlap_match [of archive new lim] that by (metis append_take_drop_id k_def)
  moreover have "k \<le> m" using longest_overlap_le [of archive new lim] by (simp add: k_def lim_def)
  ultimately show ?thesis
    using assms by (intro exI [of _ k]) (auto simp: dedup_boundary_tokens_def k_def lim_def)
qed

lemma agree_prefix: "take (agree p c) p = take (agree p c) c"
  by (induction p c rule: agree.induct) auto

theorem agreement_is_common_prefix:
  "prev \<noteq> [] \<Longrightarrow> \<exists>k. local_agreement prev cur = take k cur \<and> take k cur = take k prev"
proof -
  assume "prev \<noteq> []"
  have "\<exists>k \<le> agree prev cur. local_agreement prev cur = take k cur"
    using \<open>prev \<noteq> []\<close>
    by (auto simp: local_agreement_def Let_def min_def split: option.split
        intro: exI [of _ "min (k + 1) (agree prev cur)" for k])
  then obtain k where "k \<le> agree prev cur" "local_agreement prev cur = take k cur" by blast
  moreover from this(1) have "take k cur = take k prev"
    using agree_prefix [of prev cur] by (metis min.absorb1 take_take)
  ultimately show ?thesis by (intro exI [of _ k]) simp
qed

end
