(* ===== verification/Edge_Asr.thy ===== *)
theory Edge_Asr
  imports Asr_Split Asr_Session
begin

text \<open>
  The EdgeLLM recogniser, \<open>app/backends/jetson/trt_edge_llm_asr.py\<close>: how a worker's reply becomes an
  exception or an event, the stream that sends the worker its audio as it comes, the stream
  that collects it, and \<open>transcribe\<close> with the splitting of long uploads. The worker, the silence
  detectors, the resampler and the mel spectrogram are parameters; the process itself (spawn,
  kill) is the worker pipe's matter.
\<close>

section \<open>Replies of the worker\<close>

text \<open>A JSON object: its event, its \<open>ok\<close>, the values of \<open>error\<close>, \<open>message\<close>, \<open>reason\<close> and \<open>detail\<close> that are
  strings, its text, its carry-over in samples, and \<open>str\<close> of all of it.\<close>

record reply =
  r_event :: string
  r_ok :: "bool option"
  r_messages :: "ustr option list"
  r_text :: ustr
  r_carry :: "nat option"
  r_repr :: ustr

definition protocol_error :: exc where
  "protocol_error = [''WorkerProtocolError'', ''RuntimeError'']"
definition no_active_session :: exc where "no_active_session = ''NoActiveSessionError'' # protocol_error"
definition already_active :: exc where "already_active = ''SessionAlreadyActiveError'' # protocol_error"
definition worker_exit :: exc where "worker_exit = ''WorkerExitError'' # protocol_error"

fun first_message :: "ustr option list \<Rightarrow> ustr" where
  "first_message [] = []"
| "first_message (None # ms) = first_message ms"
| "first_message (Some m # ms) = (if m = [] then first_message ms else m)"

definition mentions :: "ustr \<Rightarrow> string list \<Rightarrow> bool" where
  "mentions low words = list_ex (\<lambda>w. contains (u w) low) words"

definition classify_worker_response :: "(ustr \<Rightarrow> ustr) \<Rightarrow> reply \<Rightarrow> exc option" where
  "classify_worker_response lower r =
     (if r_event r \<noteq> ''error'' \<and> r_ok r \<noteq> Some False then None
      else (let m = first_message (r_messages r); low = lower (if m = [] then r_repr r else m)
            in if mentions low [''no active session'', ''no_active_session'', ''unknown session''] then Some no_active_session
               else if mentions low [''already active'', ''session_already_active'', ''already exists''] then Some already_active
               else if mentions low [''exit'', ''terminated'', ''worker dead''] then Some worker_exit
               else None))"

text \<open>A request's answer: the first event of the worker, the end of the worker (an exit, a broken
  pipe, no event at all), or another exception, such as a timeout of the pipe.\<close>

datatype answer = Reply reply | WorkerGone | Failed exc

definition worker_request :: "(ustr \<Rightarrow> ustr) \<Rightarrow> answer \<Rightarrow> exc + reply" where
  "worker_request lower a =
     (case a of
        WorkerGone \<Rightarrow> Inl worker_exit
      | Failed e \<Rightarrow> Inl e
      | Reply r \<Rightarrow>
          (case classify_worker_response lower r of
             Some e \<Rightarrow> Inl e
           | None \<Rightarrow> if r_event r = ''error'' \<or> r_ok r = Some False then Inl protocol_error else Inr r))"

section \<open>The streaming session\<close>

record 'a edge_stream =
  es_hop :: nat
  es_accum :: "'a list"
  es_since :: nat
  es_partial :: ustr
  es_final :: ustr
  es_lang :: "ustr option"
  es_cancelled :: bool
  es_closed :: bool
  es_sent :: "('a list \<times> bool) list"
  es_answers :: "answer list"

text \<open>\<open>es_sent\<close> is what has been sent to the worker, \<open>es_answers\<close> what it will answer; a worker that has
  no answer left is gone. \<open>hop\<close> is \<open>int(stream_chunk_sec * 16000)\<close>.\<close>

definition ask :: "(ustr \<Rightarrow> ustr) \<Rightarrow> 'a edge_stream \<Rightarrow> (exc + reply) \<times> 'a edge_stream" where
  "ask lower s = (worker_request lower (case es_answers s of [] \<Rightarrow> WorkerGone | a # as \<Rightarrow> a), s\<lparr>es_answers := tl (es_answers s)\<rparr>)"

definition begin_stream :: "(ustr \<Rightarrow> ustr) \<Rightarrow> nat \<Rightarrow> answer list \<Rightarrow> exc + 'a edge_stream" where
  "begin_stream lower hop answers =
     (case ask lower \<lparr>es_hop = max 1 hop, es_accum = [], es_since = 0, es_partial = [], es_final = [], es_lang = None,
              es_cancelled = False, es_closed = False, es_sent = [], es_answers = answers\<rparr> of
        (Inl e, s) \<Rightarrow> Inl e
      | (Inr r, s) \<Rightarrow> if r_event r = ''begin_ack'' then Inr s else Inl [''RuntimeError''])"

definition note_language :: "ustr option \<Rightarrow> 'a edge_stream \<Rightarrow> 'a edge_stream" where
  "note_language lang s = (case lang of None \<Rightarrow> s | Some l \<Rightarrow> if l = [] then s else s\<lparr>es_lang := Some l\<rparr>)"

definition take_reply :: "reply \<Rightarrow> 'a edge_stream \<Rightarrow> exc option \<times> 'a edge_stream" where
  "take_reply r s =
     (if r_event r = ''segment_rotation'' then
        (let carry = (case r_carry r of None \<Rightarrow> 16000 | Some n \<Rightarrow> n)
         in (None, if 0 < carry \<and> carry < length (es_accum s)
                   then s\<lparr>es_accum := drop (length (es_accum s) - carry) (es_accum s)\<rparr> else s))
      else if r_event r = ''partial'' then
        (case strip_language_prefix (r_text r) of
           (t, lang) \<Rightarrow> (None, note_language lang (s\<lparr>es_partial := ustrip t\<rparr>)))
      else if r_event r = ''final'' then
        (case strip_language_prefix (r_text r) of
           (t, lang) \<Rightarrow> (None, (note_language lang (s\<lparr>es_final := ustrip t\<rparr>))\<lparr>es_closed := True\<rparr>))
      else (Some [''RuntimeError''], s))"

definition send_chunk :: "(ustr \<Rightarrow> ustr) \<Rightarrow> bool \<Rightarrow> 'a edge_stream \<Rightarrow> exc option \<times> 'a edge_stream" where
  "send_chunk lower is_last s =
     (case ask lower (s\<lparr>es_sent := es_sent s @ [(es_accum s, is_last)]\<rparr>) of
        (Inl e, s1) \<Rightarrow> (Some e, s1)
      | (Inr r, s1) \<Rightarrow> take_reply r s1)"

text \<open>\<open>while since >= hop\<close>, with the number of rounds as the recursion argument.\<close>

fun send_hops :: "(ustr \<Rightarrow> ustr) \<Rightarrow> nat \<Rightarrow> 'a edge_stream \<Rightarrow> exc option \<times> 'a edge_stream" where
  "send_hops lower 0 s = (None, s)"
| "send_hops lower (Suc k) s =
     (case send_chunk lower False s of
        (Some e, s1) \<Rightarrow> (Some e, s1)
      | (None, s1) \<Rightarrow> send_hops lower k (s1\<lparr>es_since := es_since s1 - es_hop s1\<rparr>))"

definition edge_accept :: "(ustr \<Rightarrow> ustr) \<Rightarrow> 'a list \<Rightarrow> 'a edge_stream \<Rightarrow> exc option \<times> 'a edge_stream" where
  "edge_accept lower samples s =
     (if es_cancelled s \<or> es_closed s then (None, s)
      else (let s1 = s\<lparr>es_accum := es_accum s @ samples, es_since := es_since s + length samples\<rparr>
            in send_hops lower (es_since s1 div es_hop s1) s1))"

definition edge_finalize :: "(ustr \<Rightarrow> ustr) \<Rightarrow> 'a edge_stream \<Rightarrow> (exc + ustr \<times> ustr option) \<times> 'a edge_stream" where
  "edge_finalize lower s =
     (if es_cancelled s \<or> es_closed s then (Inr (es_final s, es_lang s), s)
      else if es_accum s = [] then
        (case ask lower s of (Inl e, s1) \<Rightarrow> (Inl e, s1) | (Inr r, s1) \<Rightarrow> (Inr ([], es_lang s1), s1\<lparr>es_closed := True\<rparr>))
      else (case send_chunk lower True s of
              (Some e, s1) \<Rightarrow> (Inl e, s1)
            | (None, s1) \<Rightarrow> (Inr (es_final s1, es_lang s1), s1)))"

text \<open>The end event is given half a second. \<open>None\<close>: no answer in time.\<close>

definition edge_cancel :: "(ustr \<Rightarrow> ustr) \<Rightarrow> answer option \<Rightarrow> 'a edge_stream \<Rightarrow> exc option \<times> 'a edge_stream" where
  "edge_cancel lower ack s =
     (let s1 = s\<lparr>es_final := es_partial s, es_cancelled := True, es_closed := True\<rparr>
      in case ack of
           None \<Rightarrow> (Some worker_exit, s1)
         | Some a \<Rightarrow> (case worker_request lower a of
                        Inl e \<Rightarrow> (if ''WorkerProtocolError'' \<in> set e then Some e else None, s1)
                      | Inr r \<Rightarrow> (None, s1)))"

definition edge_partial :: "'a edge_stream \<Rightarrow> ustr \<times> bool" where
  "edge_partial s = (if es_closed s then (es_final s, True) else (es_partial s, False))"

section \<open>The collecting session\<close>

datatype 'a splitter = SplitVad "'a list list \<Rightarrow> bool" | SplitEnergy "'a list \<Rightarrow> bool" nat | SplitRaised

definition finalize_segments :: "'a splitter \<Rightarrow> 'a list \<Rightarrow> 'a list list" where
  "finalize_segments sp audio =
     (case sp of
        SplitVad hear \<Rightarrow> split_at_silence_vad hear audio
      | SplitEnergy silent ms \<Rightarrow> split_at_silence_energy silent ms audio
      | SplitRaised \<Rightarrow> [audio])"

fun first_language :: "(ustr \<times> ustr option) list \<Rightarrow> ustr option" where
  "first_language [] = None"
| "first_language ((t, lang) # rs) = (if lang \<noteq> None \<and> lang \<noteq> Some [] then lang else first_language rs)"

text \<open>The segments' transcripts, those that raise or have no text left out; the language asked for
  (not the one heard) chooses the separator.\<close>

fun successes :: "(exc + ustr \<times> ustr option) list \<Rightarrow> (ustr \<times> ustr option) list" where
  "successes [] = []"
| "successes (Inl e # rs) = successes rs"
| "successes (Inr x # rs) = x # successes rs"

definition join_collected :: "ustr \<Rightarrow> ustr list \<Rightarrow> ustr" where
  "join_collected language texts =
     ustrip (join_with (if language \<in> set (map u cjk_languages) then [] else [32]) (trim_trailing texts))"

definition collected_finalize ::
  "'a splitter \<Rightarrow> ('a list \<Rightarrow> exc + ustr \<times> ustr option) \<Rightarrow> ustr \<Rightarrow> 'a list list \<Rightarrow> bool \<Rightarrow> ustr \<times> ustr option" where
  "collected_finalize sp transcribe language chunks cancelled =
     (if cancelled \<or> chunks = [] then ([], None)
      else (let segments = [s \<leftarrow> finalize_segments sp (concat chunks). 6400 \<le> length s];
                results = [x \<leftarrow> successes (map transcribe segments). fst x \<noteq> []]
            in (join_collected language (map fst results), first_language results)))"

section \<open>Transcription\<close>

text \<open>What the resident worker or the one-shot binary gives for an upload.\<close>

datatype worker_output = Crashed exc | NotOk | NoResponses | OutputText ustr

definition cannot_handle :: ustr where
  "cannot_handle = u ''TensorRT Edge LLM cannot handle this request. Fails.''"

definition read_output :: "worker_output \<Rightarrow> exc + ustr \<times> ustr option" where
  "read_output w =
     (case w of
        Crashed e \<Rightarrow> Inl e
      | NotOk \<Rightarrow> Inl [''RuntimeError'']
      | NoResponses \<Rightarrow> Inl [''RuntimeError'']
      | OutputText t \<Rightarrow> if t = cannot_handle then Inl [''RuntimeError''] else Inr (strip_language_prefix t))"

text \<open>\<open>cf_limit\<close> is the threshold (6 s), \<open>cf_min\<close> the shortest segment (0.4 s), both in samples of 16 kHz. The
  detector of the configured VAD and the silence splitter may be missing; a segment is
  written to 16-bit WAV and read back (\<open>cf_requantize\<close>).\<close>

record 'a asr_config =
  cf_segment :: bool
  cf_limit :: nat
  cf_min :: nat
  cf_vad :: "('a list list \<Rightarrow> bool) option"
  cf_splitter :: "('a list \<Rightarrow> 'a list list) option"
  cf_resample :: "nat \<Rightarrow> 'a list \<Rightarrow> 'a list"
  cf_requantize :: "'a \<Rightarrow> 'a"
  cf_mel_frames :: "nat \<Rightarrow> 'a list \<Rightarrow> nat"
  cf_max_mel :: nat
  cf_run :: "nat \<Rightarrow> 'a list \<Rightarrow> worker_output"

definition transcribe_once :: "'a asr_config \<Rightarrow> nat \<Rightarrow> 'a list \<Rightarrow> exc + ustr \<times> ustr option" where
  "transcribe_once cf rate audio =
     (if cf_max_mel cf < cf_mel_frames cf rate audio then Inl [''ValueError''] else read_output (cf_run cf rate audio))"

fun last_language :: "ustr option \<Rightarrow> (ustr \<times> ustr option) list \<Rightarrow> ustr option" where
  "last_language lang [] = lang"
| "last_language lang ((t, l) # rs) = last_language (if l \<noteq> None \<and> l \<noteq> Some [] then l else lang) rs"

definition offline_segments :: "'a asr_config \<Rightarrow> nat \<Rightarrow> 'a list \<Rightarrow> 'a list list" where
  "offline_segments cf rate audio =
     (let resampled = (if rate = 16000 then audio else cf_resample cf rate audio)
      in [s \<leftarrow> split_offline_audio (cf_vad cf) (max 1 (cf_limit cf)) (max 1 (cf_min cf)) (cf_splitter cf) resampled.
            cf_min cf \<le> length s])"

text \<open>\<open>transcribe\<close> and \<open>_transcribe_segmented_offline\<close> call each other; the depth is the fuel, and running
  out of it is Python's \<open>RecursionError\<close>. Only uploads
  that parse as WAV are modelled.\<close>

fun transcribe :: "nat \<Rightarrow> 'a asr_config \<Rightarrow> bool \<Rightarrow> ustr \<Rightarrow> nat \<Rightarrow> 'a list \<Rightarrow> exc + ustr \<times> ustr option" where
  "transcribe 0 cf ready language rate audio = Inl [''RecursionError'', ''RuntimeError'']"
| "transcribe (Suc d) cf ready language rate audio =
     (if \<not> ready then Inl [''RuntimeError'']
      else if cf_segment cf \<and> cf_limit cf * max rate 1 < length audio * 16000 then
        (let results = successes (map (\<lambda>s. transcribe d cf True language 16000 (map (cf_requantize cf) s))
                                      (offline_segments cf rate audio));
             lang = last_language (Some language) results
         in Inr (join_segment_texts (map fst results) lang, lang))
      else transcribe_once cf rate audio)"

section \<open>Long uploads are split once\<close>

fun ends_from :: "nat \<Rightarrow> nat list \<Rightarrow> bool" where
  "ends_from p [] \<longleftrightarrow> True"
| "ends_from p (e # es) \<longleftrightarrow> 320 dvd p \<and> p \<le> e \<and> e \<le> p + 320 \<and> ends_from e es"

lemma vad_cuts_bounded:
  assumes "ends_from p (map snd chunks)" "chunks \<noteq> [] \<Longrightarrow> 320 dvd c" "c \<le> p" "p - c < hi" "320 dvd hi"
  shows "successively (\<lambda>a b. a \<le> b \<and> b - a \<le> hi) (c # vad_cuts ev hi lo chunks heard c)
    \<and> last (c # vad_cuts ev hi lo chunks heard c) \<le> last (p # map snd chunks)
    \<and> last (p # map snd chunks) - last (c # vad_cuts ev hi lo chunks heard c) < hi"
  using assms
proof (induction chunks arbitrary: p c heard)
  case (Cons ch chunks)
  obtain x e where ch: "ch = (x, e)" by (cases ch)
  have e: "320 dvd p" "p \<le> e" "e \<le> p + 320" "ends_from e (map snd chunks)" using Cons.prems(1) by (simp_all add: ch)
  have c: "320 dvd c" "c \<le> p" "p - c < hi" using Cons.prems by simp_all
  have "320 dvd p - c" using e(1) c(1) by simp
  then have "p - c + 320 \<le> hi" using c(3) Cons.prems(5) by (auto elim!: dvdE)
  then have near: "c \<le> e" "e - c \<le> hi" using e(2,3) c(2) by linarith+
  have later: "chunks \<noteq> [] \<Longrightarrow> 320 dvd e" using e(4) by (cases chunks) auto
  have cut: ?case if "vad_cuts ev hi lo (ch # chunks) heard c = e # vad_cuts ev hi lo chunks [] e"
    using Cons.IH [OF e(4) later, of "[]"] near Cons.prems(4,5) unfolding that by (simp add: ch)
  show ?case
  proof (cases "(ev (heard @ [x]) \<and> lo \<le> e - c) \<or> \<not> e - c < hi")
    case True
    then have "(ev (heard @ [x]) \<and> lo \<le> e - c) \<or> (e - c) div hi = 1 \<and> e = c + hi" using near c(3) by auto
    then show ?thesis by (intro cut) (auto simp: ch)
  next
    case False
    then show ?thesis using Cons.IH [OF e(4) _ near(1), of "heard @ [x]"] near c(1) Cons.prems(5) by (auto simp: ch)
  qed
qed simp

lemma vad_chunks_ends: "ends_from 0 (map snd (vad_chunks 320 audio))"
proof -
  let ?n = "length audio"
  have "ends_from (a * 320) (map (\<lambda>i. min ((i + 1) * 320) ?n) [a..<a + k])" if "(a + k) * 320 < ?n + 320" for a k
    using that
  proof (induction k arbitrary: a)
    case (Suc k)
    have f: "[a..<a + Suc k] = a # [Suc a..<Suc a + k]" by (simp add: upt_conv_Cons)
    have IH: "ends_from (Suc a * 320) (map (\<lambda>i. min ((i + 1) * 320) ?n) [Suc a..<Suc a + k])"
      using Suc.IH [of "Suc a"] Suc.prems by simp
    show ?case
    proof (cases "Suc a * 320 \<le> ?n")
      case True
      then show ?thesis using IH unfolding f by (simp add: min_def)
    next
      case False
      then have "k = 0" using Suc.prems by auto
      then show ?thesis using Suc.prems by (auto simp: min_def)
    qed
  qed simp
  from this [of 0 "(?n + 320 - 1) div 320"] show ?thesis by (simp add: vad_chunks_def comp_def)
qed

lemma last_end: "last (0 # map snd (vad_chunks 320 audio)) = length audio"
proof (cases "audio = []")
  case False
  let ?k = "(length audio + 320 - 1) div 320"
  have "0 < ?k" using False by (cases audio) auto
  then obtain j where j: "?k = Suc j" by (cases ?k) auto
  have "length audio \<le> ?k * 320" by linarith
  then have "length audio \<le> Suc j * 320" by (simp only: j)
  then show ?thesis unfolding vad_chunks_def j by (simp add: min_def)
qed (simp add: vad_chunks_def)

lemma diffs_bounded: "successively (\<lambda>a b. a \<le> b \<and> b - a \<le> hi) cs \<Longrightarrow> x \<in> set (pieces audio cs) \<Longrightarrow> length x \<le> hi"
  by (induction audio cs rule: pieces.induct) auto

lemma configured_bounded:
  assumes "0 < hi" "320 dvd hi" "x \<in> set (configured_segments ev hi lo audio)"
  shows "length x \<le> hi"
proof -
  let ?cuts = "0 # vad_cuts ev hi lo (vad_chunks 320 audio) [] 0"
  have *: "successively (\<lambda>a b. a \<le> b \<and> b - a \<le> hi) ?cuts" "last ?cuts \<le> length audio" "length audio - last ?cuts < hi"
    using vad_cuts_bounded [OF vad_chunks_ends, of audio 0 hi ev lo "[]"] assms(1,2) unfolding last_end by simp_all
  have "successively (\<lambda>a b. a \<le> b \<and> b - a \<le> hi) (cs @ [n])"
    if "successively (\<lambda>a b. a \<le> b \<and> b - a \<le> hi) cs" "last cs \<le> n" "n - last cs < hi" "cs \<noteq> []" for cs n
    using that by (simp add: successively_append_iff)
  from this [OF *] *(1)
  have "successively (\<lambda>a b. a \<le> b \<and> b - a \<le> hi) (if last ?cuts = length audio then ?cuts else ?cuts @ [length audio])"
    by (simp del: last.simps)
  from diffs_bounded [OF this] assms(3) show ?thesis by (simp add: configured_segments_def Let_def)
qed

lemma offline_bounded:
  assumes "0 < hi" "ev = None \<or> 320 dvd hi" "x \<in> set (split_offline_audio ev hi lo f audio)"
  shows "length x \<le> hi"
  using assms chop_spec [of hi] configured_bounded [OF assms(1)]
  by (auto simp: split_offline_audio_def split_offline_audio_with_configured_vad_def Let_def split: option.splits if_splits)

lemma segments_short:
  assumes "0 < cf_limit cf" "cf_vad cf = None \<or> 320 dvd cf_limit cf" "s \<in> set (offline_segments cf rate audio)"
  shows "length s \<le> cf_limit cf"
  using assms offline_bounded [of "max 1 (cf_limit cf)" "cf_vad cf"]
  by (auto simp: offline_segments_def Let_def max_def split: if_splits)

text \<open>
  C18: with a threshold that is a whole number of detector frames (or no configured detector) no
  segment of a long upload is over the threshold, so the mutual recursion of \<open>transcribe\<close> ends at
  the second level: however much deeper it may go, the answer is the same.
\<close>

theorem long_uploads_split_once:
  assumes "0 < cf_limit cf" "cf_vad cf = None \<or> 320 dvd cf_limit cf"
  shows "transcribe (Suc (Suc d)) cf ready language rate audio = transcribe 2 cf ready language rate audio"
proof -
  have once: "transcribe (Suc k) cf True language 16000 (map (cf_requantize cf) s) = transcribe_once cf 16000 (map (cf_requantize cf) s)"
    if "s \<in> set (offline_segments cf rate audio)" for k s
    using segments_short [OF assms that] by simp
  have "map (\<lambda>s. transcribe (Suc k) cf True language 16000 (map (cf_requantize cf) s)) (offline_segments cf rate audio)
      = map (\<lambda>s. transcribe_once cf 16000 (map (cf_requantize cf) s)) (offline_segments cf rate audio)" for k
    using once by simp
  from this [of d] this [of 0] show ?thesis
    by (simp only: transcribe.simps(2) numeral_2_eq_2 Let_def)
qed

definition plain_config :: "int asr_config" where
  "plain_config = \<lparr>cf_segment = True, cf_limit = 960, cf_min = 320, cf_vad = Some (\<lambda>heard. length heard = 2),
     cf_splitter = None, cf_resample = (\<lambda>rate audio. audio), cf_requantize = id,
     cf_mel_frames = (\<lambda>rate audio. 1), cf_max_mel = 100, cf_run = (\<lambda>rate audio. OutputText (u ''word''))\<rparr>"

theorem long_uploads_split_once_witness:
  "transcribe (Suc (Suc 7)) plain_config True (u ''en'') 16000 (replicate 2000 0)
   = transcribe 2 plain_config True (u ''en'') 16000 (replicate 2000 0)"
  by (rule long_uploads_split_once) (simp_all add: plain_config_def)

text \<open>With a threshold of 30 ms the detector may end a segment of 40 ms, which is over the
  threshold and is split the same way again, until Python gives up: the upload is answered by
  an empty text, whatever the recogniser would have said.\<close>

definition uneven_config :: "int asr_config" where
  "uneven_config = plain_config\<lparr>cf_limit := 480\<rparr>"

lemma uneven_segments: "length audio = 640 \<Longrightarrow> offline_segments uneven_config 16000 audio = [audio]"
  by (simp add: offline_segments_def uneven_config_def plain_config_def split_offline_audio_def
      split_offline_audio_with_configured_vad_def configured_segments_def vad_chunks_def numeral_2_eq_2)

theorem uneven_threshold_loses_upload:
  "length audio = 640 \<Longrightarrow> transcribe (Suc d) uneven_config True lang 16000 audio = Inr ([], Some lang)"
proof (induction d)
  case 0
  then show ?case
    by (simp add: uneven_segments) (simp add: uneven_config_def plain_config_def join_segment_texts_def trim_trailing_def
        strip_by_def Let_def)
next
  case (Suc d)
  have "map (cf_requantize uneven_config) audio = audio" by (simp add: uneven_config_def plain_config_def)
  moreover have "join_segment_texts [[]] x = []" for x
    by (simp add: join_segment_texts_def trim_trailing_def strip_by_def Let_def)
  ultimately show ?case using Suc
    by (subst transcribe.simps) (simp add: uneven_segments del: transcribe.simps, simp add: uneven_config_def plain_config_def)
qed

section \<open>What the worker hears\<close>

definition is_partial :: "answer \<Rightarrow> bool" where
  "is_partial a = (case a of Reply r \<Rightarrow> r_event r = ''partial'' \<and> r_ok r \<noteq> Some False | _ \<Rightarrow> False)"

definition is_final :: "answer \<Rightarrow> bool" where
  "is_final a = (case a of Reply r \<Rightarrow> r_event r = ''final'' \<and> r_ok r \<noteq> Some False | _ \<Rightarrow> False)"

lemma note_language_frame [simp]:
  "es_hop (note_language l s) = es_hop s" "es_accum (note_language l s) = es_accum s" "es_since (note_language l s) = es_since s"
  "es_cancelled (note_language l s) = es_cancelled s" "es_closed (note_language l s) = es_closed s"
  "es_sent (note_language l s) = es_sent s" "es_answers (note_language l s) = es_answers s"
  "es_final (note_language l s) = es_final s" "es_partial (note_language l s) = es_partial s"
  by (simp_all add: note_language_def split: option.split)

lemma send_partial:
  assumes "es_answers s = a # as" "is_partial a" "send_chunk lower l s = (e, s1)"
  shows "e = None" "es_hop s1 = es_hop s" "es_accum s1 = es_accum s" "es_since s1 = es_since s"
    "es_cancelled s1 = es_cancelled s" "es_closed s1 = es_closed s" "es_sent s1 = es_sent s @ [(es_accum s, l)]"
    "es_answers s1 = as"
  using assms
  by (auto simp: send_chunk_def ask_def worker_request_def is_partial_def classify_worker_response_def take_reply_def
      split: answer.splits prod.splits)

lemma send_hops_partials:
  assumes "k \<le> length (es_answers s)" "\<forall>a \<in> set (take k (es_answers s)). is_partial a" "send_hops lower k s = (e, s1)"
  shows "e = None \<and> es_hop s1 = es_hop s \<and> es_accum s1 = es_accum s \<and> es_since s1 = es_since s - k * es_hop s
    \<and> es_cancelled s1 = es_cancelled s \<and> es_closed s1 = es_closed s
    \<and> es_sent s1 = es_sent s @ replicate k (es_accum s, False) \<and> es_answers s1 = drop k (es_answers s)"
  using assms
proof (induction k arbitrary: s)
  case (Suc k)
  then obtain a as where a: "es_answers s = a # as" by (cases "es_answers s") auto
  obtain e0 s0 where s0: "send_chunk lower False s = (e0, s0)" by (meson surj_pair)
  note f = send_partial [OF a _ s0]
  have "is_partial a" using Suc.prems(2) a by simp
  note f = f [OF this]
  from Suc.IH [of "s0\<lparr>es_since := es_since s0 - es_hop s0\<rparr>"] Suc.prems a s0 f
  show ?case by (auto simp: algebra_simps)
qed simp

definition edge_run :: "(ustr \<Rightarrow> ustr) \<Rightarrow> 'a list list \<Rightarrow> 'a edge_stream \<Rightarrow> 'a edge_stream" where
  "edge_run lower chunks s = fold (\<lambda>c s. snd (edge_accept lower c s)) chunks s"

definition heard_so_far :: "answer list \<Rightarrow> 'a list \<Rightarrow> 'a edge_stream \<Rightarrow> bool" where
  "heard_so_far answers audio s \<longleftrightarrow>
     0 < es_hop s \<and> es_accum s = audio \<and> es_since s = length audio mod es_hop s \<and> \<not> es_cancelled s \<and> \<not> es_closed s
     \<and> length (es_sent s) = length audio div es_hop s \<and> es_answers s = drop (length audio div es_hop s) answers
     \<and> (\<forall>(a, l) \<in> set (es_sent s). \<not> l \<and> (\<exists>rest. audio = a @ rest))"

lemma hops_of_chunk: "0 < (h::nat) \<Longrightarrow> (n mod h + c) div h + n div h = (n + c) div h"
proof -
  assume "0 < h"
  have "n + c = (n mod h + c) + n div h * h" by simp
  then show ?thesis using \<open>0 < h\<close> by (metis add.commute div_mult_self1 less_not_refl2)
qed

lemma accept_heard:
  assumes "heard_so_far answers audio s" "(length audio + length c) div es_hop s \<le> length answers"
    "\<forall>a \<in> set (take ((length audio + length c) div es_hop s) answers). is_partial a"
  shows "heard_so_far answers (audio @ c) (snd (edge_accept lower c s)) \<and> es_hop (snd (edge_accept lower c s)) = es_hop s"
proof -
  let ?h = "es_hop s" and ?n = "length audio"
  define k where "k = (?n mod ?h + length c) div ?h"
  define s0 where "s0 = s\<lparr>es_accum := audio @ c, es_since := ?n mod ?h + length c\<rparr>"
  have h: "0 < ?h" and sum: "k + ?n div ?h = (?n + length c) div ?h"
    using assms(1) hops_of_chunk [of ?h ?n "length c"] by (auto simp: heard_so_far_def k_def)
  have ans: "es_answers s0 = drop (?n div ?h) answers" using assms(1) by (simp add: s0_def heard_so_far_def)
  have "take k (es_answers s0) = drop (?n div ?h) (take ((?n + length c) div ?h) answers)"
    using sum by (simp add: ans take_drop add.commute)
  then have ps: "\<forall>a \<in> set (take k (es_answers s0)). is_partial a" using assms(3) by (metis in_set_dropD)
  have enough: "k \<le> length (es_answers s0)" using assms(2) sum ans by simp
  obtain e s1 where s1: "send_hops lower k s0 = (e, s1)" by (meson surj_pair)
  have acc: "edge_accept lower c s = (e, s1)"
    using assms(1) s1 by (simp add: edge_accept_def heard_so_far_def s0_def k_def Let_def)
  from send_hops_partials [OF enough ps s1] have f: "es_hop s1 = ?h" "es_accum s1 = audio @ c"
      "es_since s1 = (?n mod ?h + length c) - k * ?h" "\<not> es_cancelled s1" "\<not> es_closed s1"
      "es_sent s1 = es_sent s @ replicate k (audio @ c, False)" "es_answers s1 = drop k (drop (?n div ?h) answers)"
    using assms(1) by (simp_all add: s0_def heard_so_far_def)
  have "es_since s1 = (?n + length c) mod ?h"
    unfolding f(3) k_def by (simp add: minus_div_mult_eq_mod mod_add_left_eq)
  moreover have "length (es_sent s1) = (?n + length c) div ?h"
    using assms(1) sum by (simp add: f(6) heard_so_far_def add.commute)
  moreover have "es_answers s1 = drop ((?n + length c) div ?h) answers" using f(7) sum by simp
  moreover have "\<forall>(a, l) \<in> set (es_sent s1). \<not> l \<and> (\<exists>rest. audio @ c = a @ rest)"
    using assms(1) by (fastforce simp: f(6) heard_so_far_def)
  ultimately show ?thesis using h f acc by (simp add: heard_so_far_def)
qed

lemma run_heard:
  assumes "heard_so_far answers audio s" "(length audio + length (concat chunks)) div es_hop s \<le> length answers"
    "\<forall>a \<in> set (take ((length audio + length (concat chunks)) div es_hop s) answers). is_partial a"
  shows "heard_so_far answers (audio @ concat chunks) (edge_run lower chunks s) \<and> es_hop (edge_run lower chunks s) = es_hop s"
  using assms
proof (induction chunks arbitrary: audio s)
  case (Cons c chunks)
  let ?s1 = "snd (edge_accept lower c s)"
  have le: "(length audio + length c) div es_hop s \<le> (length audio + length (concat (c # chunks))) div es_hop s"
    by (intro div_le_mono) simp
  have "heard_so_far answers (audio @ c) ?s1 \<and> es_hop ?s1 = es_hop s"
    by (rule accept_heard [OF Cons.prems(1)]) (use le Cons.prems(2,3) set_take_subset_set_take [OF le, of answers] in auto)
  then show ?case using Cons.IH [of "audio @ c" ?s1] Cons.prems(2,3) by (simp add: edge_run_def add.assoc)
qed (simp add: edge_run_def)

lemma begin_heard:
  assumes "begin_stream lower hop (a # answers) = Inr s"
  shows "heard_so_far answers [] s \<and> es_hop s = max 1 hop \<and> es_final s = []"
  using assms by (auto simp: begin_stream_def ask_def heard_so_far_def split: prod.splits sum.splits if_splits)

text \<open>
  C17: while the worker answers every hop by a partial, the streaming session sends it, for any
  cutting of the audio into chunks, one message per full hop, each with all the audio of a
  prefix of the utterance, and at the end all of it, marked as the last; \<open>finalize\<close> then returns
  the text of the worker's final without its language tag.
\<close>

theorem worker_hears_everything:
  assumes "begin_stream lower hop (a # partials @ [Reply r]) = Inr s" "concat chunks \<noteq> []"
    "length partials = length (concat chunks) div max 1 hop" "\<forall>p \<in> set partials. is_partial p" "is_final (Reply r)"
    "edge_finalize lower (edge_run lower chunks s) = (result, s1)"
  shows "(\<exists>sent. es_sent s1 = sent @ [(concat chunks, True)] \<and> length sent = length partials
            \<and> (\<forall>(x, l) \<in> set sent. \<not> l \<and> (\<exists>rest. concat chunks = x @ rest)))
    \<and> es_closed s1 \<and> (\<exists>lang. result = Inr (ustrip (fst (strip_language_prefix (r_text r))), lang))"
proof -
  let ?s = "edge_run lower chunks s"
  have b: "heard_so_far (partials @ [Reply r]) [] s" "es_hop s = max 1 hop" using begin_heard [OF assms(1)] by auto
  have "heard_so_far (partials @ [Reply r]) ([] @ concat chunks) ?s \<and> es_hop ?s = es_hop s"
    by (rule run_heard [OF b(1)]) (use assms(3,4) b(2) in simp_all)
  then have h: "heard_so_far (partials @ [Reply r]) (concat chunks) ?s" "es_hop ?s = max 1 hop" using b(2) by simp_all
  from h have ans: "es_answers ?s = [Reply r]" using assms(3) by (simp add: heard_so_far_def)
  have r: "worker_request lower (Reply r) = Inr r" "r_event r = ''final''"
    using assms(5) by (simp_all add: worker_request_def is_final_def classify_worker_response_def)
  obtain t lang where tl: "strip_language_prefix (r_text r) = (t, lang)" by (meson surj_pair)
  have "edge_finalize lower ?s =
     (let s2 = (note_language lang (?s\<lparr>es_sent := es_sent ?s @ [(concat chunks, True)], es_answers := [], es_final := ustrip t\<rparr>))
                 \<lparr>es_closed := True\<rparr>
      in (Inr (es_final s2, es_lang s2), s2))"
    using h(1) assms(2) ans r tl
    by (auto simp: edge_finalize_def heard_so_far_def send_chunk_def ask_def take_reply_def Let_def)
  then show ?thesis
    using assms(3,6) h tl by (auto simp: Let_def heard_so_far_def)
qed

definition reply_of :: "string \<Rightarrow> ustr \<Rightarrow> answer" where
  "reply_of event text = Reply \<lparr>r_event = event, r_ok = None, r_messages = [], r_text = text, r_carry = None, r_repr = []\<rparr>"

theorem worker_hears_everything_witness:
  "\<exists>s. begin_stream id 2 [reply_of ''begin_ack'' [], reply_of ''partial'' (u ''h''), reply_of ''final'' (u ''hi'')] = Inr s
     \<and> es_closed (snd (edge_finalize id (edge_run id [[1::int], [2, 3]] s)))"
proof -
  obtain s where s: "begin_stream id 2 (reply_of ''begin_ack'' [] # [reply_of ''partial'' (u ''h'')] @ [reply_of ''final'' (u ''hi'')])
      = Inr (s :: int edge_stream)"
    by (simp add: begin_stream_def ask_def worker_request_def classify_worker_response_def reply_of_def)
  obtain result s1 where f: "edge_finalize id (edge_run id [[1::int], [2, 3]] s) = (result, s1)" by (meson surj_pair)
  have "es_closed s1"
    using worker_hears_everything [OF s [unfolded reply_of_def [of "''final''"]] _ _ _ _ f]
    by (simp add: is_partial_def is_final_def reply_of_def le_div_geq)
  then show ?thesis using s f by auto
qed

section \<open>Odd behaviours\<close>

text \<open>A chunk of two hops is sent twice, with the same audio.\<close>

theorem long_chunk_is_sent_twice:
  assumes "heard_so_far answers audio s" "length c = 2 * es_hop s" "length answers = length audio div es_hop s + 2"
    "\<forall>a \<in> set answers. is_partial a"
  shows "es_sent (snd (edge_accept lower c s)) = es_sent s @ [(audio @ c, False), (audio @ c, False)]"
proof -
  let ?s0 = "s\<lparr>es_accum := audio @ c, es_since := es_since s + length c\<rparr>"
  have k: "es_since ?s0 div es_hop s = Suc (Suc 0)" using assms(1,2) by (simp add: heard_so_far_def)
  have "\<forall>a \<in> set (take (Suc (Suc 0)) (es_answers ?s0)). is_partial a"
    using assms by (auto simp: heard_so_far_def dest!: in_set_takeD in_set_dropD)
  moreover have "Suc (Suc 0) \<le> length (es_answers ?s0)" using assms by (simp add: heard_so_far_def)
  moreover obtain e s1 where s1: "send_hops lower (Suc (Suc 0)) ?s0 = (e, s1)" by (meson surj_pair)
  ultimately have "es_sent s1 = es_sent ?s0 @ replicate (Suc (Suc 0)) (es_accum ?s0, False)"
    using send_hops_partials by blast
  then show ?thesis using assms(1) s1 k by (simp add: edge_accept_def heard_so_far_def Let_def del: send_hops.simps)
qed

text \<open>A cancel after the final replaces the final by the last partial.\<close>

theorem cancel_overwrites_final:
  "fst (edge_partial (snd (edge_cancel lower ack s))) = es_partial s"
  by (simp add: edge_cancel_def edge_partial_def Let_def split: option.split sum.split)

text \<open>Of the same two Chinese segments recognised without a language asked for, the uploads' path
  makes one text and the collecting stream one with a space in it.\<close>

theorem detected_chinese_joined_differently:
  "join_collected (u ''auto'') [[20320], [22909]] = [20320, 32, 22909]"
  "join_segment_texts [[20320], [22909]] (last_language (Some (u ''auto'')) [([20320], Some (u ''Chinese'')), ([22909], Some (u ''Chinese''))])
   = [20320, 22909]"
  by (simp_all add: join_collected_def join_segment_texts_def cjk_languages_def u_def trim_trailing_def trail_punct_def
      strip_by_def urstrip_def py_isspace_def Let_def starts_with_def)

end
