(* ===== verification/Edge_Tts_Text.thy ===== *)
theory Edge_Tts_Text
  imports Prelude
begin

text \<open>
  The text side of the EdgeLLM synthesiser, \<open>app/backends/jetson/trt_edge_llm_tts.py\<close>: the language
  guess, \<open>_split_tts_text\<close> with its packing and merging, the pauses between segments, and the
  concatenation of their WAV files. A WAV file is its parameters and its frames; the byte
  layout is the \<open>wave\<close> module's.
\<close>

section \<open>Characters\<close>

definition chinese_char :: "nat \<Rightarrow> bool" where "chinese_char c \<longleftrightarrow> 19968 \<le> c \<and> c \<le> 40959"
definition japanese_char :: "nat \<Rightarrow> bool" where "japanese_char c \<longleftrightarrow> 12352 \<le> c \<and> c \<le> 12543"
definition korean_char :: "nat \<Rightarrow> bool" where "korean_char c \<longleftrightarrow> 44032 \<le> c \<and> c \<le> 55215"

fun detect_language :: "ustr \<Rightarrow> string" where
  "detect_language [] = ''english''"
| "detect_language (c # cs) =
     (if chinese_char c then ''chinese'' else if japanese_char c then ''japanese''
      else if korean_char c then ''korean'' else detect_language cs)"

definition contains_cjk :: "ustr \<Rightarrow> bool" where
  "contains_cjk t = list_ex (\<lambda>c. chinese_char c \<or> japanese_char c \<or> korean_char c) t"

definition hard_breaks :: "nat list" where
  "hard_breaks = [12290, 65281, 65311, 33, 63, 65307, 59, 10]"

definition soft_breaks :: "nat list" where
  "soft_breaks = [65292, 44, 12289, 65306, 58]"

section \<open>Splitting\<close>

text \<open>\<open>text.split()\<close>: the words between runs of white space.\<close>

function py_words :: "ustr \<Rightarrow> ustr list" where
  "py_words t =
     (case dropWhile py_isspace t of
        [] \<Rightarrow> []
      | c # cs \<Rightarrow> (c # takeWhile (\<lambda>x. \<not> py_isspace x) cs) # py_words (dropWhile (\<lambda>x. \<not> py_isspace x) cs))"
  by pat_completeness auto
termination
proof (relation "measure length", goal_cases)
  case (2 t c cs)
  have "length (dropWhile (\<lambda>x. \<not> py_isspace x) cs) < length (dropWhile py_isspace t)"
    using length_dropWhile_le [of "\<lambda>x. \<not> py_isspace x" cs] by (simp add: 2)
  then show ?case using length_dropWhile_le [of py_isspace t] by simp
qed simp

declare py_words.simps [simp del]

fun join_spaces :: "ustr list \<Rightarrow> ustr" where
  "join_spaces [] = []"
| "join_spaces [w] = w"
| "join_spaces (w # ws) = w @ [32] @ join_spaces ws"

definition normalize_text :: "ustr \<Rightarrow> ustr" where
  "normalize_text t = (if contains_cjk t then ustrip t else join_spaces (py_words t))"

text \<open>The limit asked for, or the environment's (\<open>int\<close> of which may raise), at least eight.\<close>

definition segment_limit :: "(string \<Rightarrow> string option) \<Rightarrow> int option \<Rightarrow> bool \<Rightarrow> nat option" where
  "segment_limit env given cjk =
     map_option (\<lambda>n. nat (max 8 n))
       (case given of
          Some n \<Rightarrow> Some n
        | None \<Rightarrow>
            (case env (if cjk then ''EDGE_LLM_TTS_CJK_SEGMENT_MAX_CHARS'' else ''EDGE_LLM_TTS_SEGMENT_MAX_CHARS'') of
               Some v \<Rightarrow> py_int v
             | None \<Rightarrow> Some (if cjk then 48 else 120)))"

definition abbreviations :: "string list" where
  "abbreviations = [''mr.'', ''mrs.'', ''ms.'', ''dr.'', ''prof.'', ''sr.'', ''jr.'', ''st.'', ''vs.'', ''etc.'', ''e.g.'', ''i.e.'']"

text \<open>\<open>lower\<close> and \<open>isdigit\<close> are Python's. The next character is none at the end of the text.\<close>

definition is_nonterminal_period :: "(ustr \<Rightarrow> ustr) \<Rightarrow> (nat \<Rightarrow> bool) \<Rightarrow> ustr \<Rightarrow> nat option \<Rightarrow> bool" where
  "is_nonterminal_period lower isdigit buffer next_ch =
     (let stripped = lower (ustrip buffer)
      in (case next_ch of Some c \<Rightarrow> isdigit c | None \<Rightarrow> False) \<and> 2 \<le> length stripped
           \<and> isdigit (stripped ! (length stripped - 2))
         \<or> list_ex (\<lambda>a. ends_with (u a) stripped) abbreviations)"

definition flush :: "ustr list \<times> ustr \<Rightarrow> ustr list \<times> ustr" where
  "flush st = (case st of (segs, cur) \<Rightarrow> (if ustrip cur = [] then segs else segs @ [ustrip cur], []))"

text \<open>The position of the last soft break, as the number of characters up to it (0: none).\<close>

definition upto_soft :: "ustr \<Rightarrow> nat" where
  "upto_soft t = length (dropWhile (\<lambda>c. c \<notin> set soft_breaks) (rev t))"

definition cut_at :: "nat \<Rightarrow> ustr list \<times> ustr \<Rightarrow> ustr list \<times> ustr" where
  "cut_at n st =
     (case st of (segs, cur) \<Rightarrow>
        (if ustrip (take n cur) = [] then segs else segs @ [ustrip (take n cur)], ulstrip (drop n cur)))"

definition scan_char ::
  "(ustr \<Rightarrow> ustr) \<Rightarrow> (nat \<Rightarrow> bool) \<Rightarrow> bool \<Rightarrow> nat \<Rightarrow> nat \<times> nat option \<Rightarrow> ustr list \<times> ustr \<Rightarrow> ustr list \<times> ustr" where
  "scan_char lower isdigit cjk limit c st =
     (case (c, st) of ((ch, next_ch), segs, cur0) \<Rightarrow>
        (let cur = cur0 @ [ch]; overrun = (if cjk then 0 else max 2 (min 8 (limit div 2)))
         in if ch \<in> set hard_breaks then
              (if \<not> cjk \<and> ch = 46 \<and> is_nonterminal_period lower isdigit cur next_ch then (segs, cur) else flush (segs, cur))
            else if limit \<le> length (ustrip cur) then
              (let n = upto_soft cur
               in if 0 < n \<and> limit div 3 \<le> n - 1 then cut_at n (segs, cur)
                  else if cjk \<and> length (ustrip cur) < limit + overrun then (segs, cur)
                  else flush (segs, cur))
            else (segs, cur)))"

definition with_next :: "ustr \<Rightarrow> (nat \<times> nat option) list" where
  "with_next t = zip t (map Some (tl t) @ [None])"

definition scan_text :: "(ustr \<Rightarrow> ustr) \<Rightarrow> (nat \<Rightarrow> bool) \<Rightarrow> bool \<Rightarrow> nat \<Rightarrow> ustr \<Rightarrow> ustr list" where
  "scan_text lower isdigit cjk limit t =
     fst (flush (fold (scan_char lower isdigit cjk limit) (with_next t) ([], [])))"

text \<open>Words are packed again into segments of a part that came out too long.\<close>

fun pack_words :: "nat \<Rightarrow> ustr list \<Rightarrow> ustr list \<Rightarrow> ustr list" where
  "pack_words limit buf [] = (if buf = [] then [] else [join_spaces buf])"
| "pack_words limit buf (w # ws) =
     (if buf \<noteq> [] \<and> limit < length (ustrip (join_spaces (buf @ [w])))
      then join_spaces buf # pack_words limit [w] ws
      else pack_words limit (buf @ [w]) ws)"

definition pack_part :: "nat \<Rightarrow> ustr \<Rightarrow> ustr list" where
  "pack_part limit part = (if length part \<le> limit then [part] else pack_words limit [] (split_on 32 part))"

definition only_breaks :: "ustr \<Rightarrow> bool" where
  "only_breaks t = list_all (\<lambda>c. c \<in> set hard_breaks \<or> c \<in> set soft_breaks) t"

text \<open>The merged list is kept in reverse.\<close>

definition merge_part :: "nat \<Rightarrow> ustr \<Rightarrow> ustr list \<Rightarrow> ustr list" where
  "merge_part limit part merged =
     (case merged of
        [] \<Rightarrow> [part]
      | m # ms \<Rightarrow>
          if only_breaks part then (m @ part) # ms
          else (let sep = (if contains_cjk (part @ m) then [] else [32])
                in if length part < max 4 (min 12 (limit div 3)) \<and> length m + length sep + length part \<le> limit
                   then (m @ sep @ part) # ms
                   else part # m # ms))"

definition merge_parts :: "nat \<Rightarrow> ustr list \<Rightarrow> ustr list" where
  "merge_parts limit parts = rev (fold (merge_part limit) parts [])"

definition split_with_limit :: "(ustr \<Rightarrow> ustr) \<Rightarrow> (nat \<Rightarrow> bool) \<Rightarrow> nat \<Rightarrow> ustr \<Rightarrow> ustr list" where
  "split_with_limit lower isdigit limit normalized =
     (let segs = scan_text lower isdigit (contains_cjk normalized) limit normalized
      in merge_parts limit (if contains_cjk normalized then segs else concat (map (pack_part limit) segs)))"

text \<open>\<open>_split_tts_text\<close>. \<open>None\<close>: the environment's limit is no number.\<close>

definition split_tts_text ::
  "(ustr \<Rightarrow> ustr) \<Rightarrow> (nat \<Rightarrow> bool) \<Rightarrow> (string \<Rightarrow> string option) \<Rightarrow> int option \<Rightarrow> ustr \<Rightarrow> ustr list option" where
  "split_tts_text lower isdigit env given text =
     (let normalized = normalize_text text
      in if normalized = [] then Some []
         else map_option (\<lambda>limit. split_with_limit lower isdigit limit normalized)
                (segment_limit env given (contains_cjk normalized)))"

section \<open>Pauses and audio\<close>

definition ends_in :: "nat list \<Rightarrow> ustr \<Rightarrow> bool" where
  "ends_in cs t = (t \<noteq> [] \<and> last t \<in> set cs)"

definition segment_pause_ms :: "int \<Rightarrow> int \<Rightarrow> ustr \<Rightarrow> nat" where
  "segment_pause_ms pause hard_pause segment =
     (let stripped = strip_while py_isspace segment
      in if segment = [] then 0
         else if ends_in [12290, 65281, 65311, 33, 63, 59, 65307] stripped then nat hard_pause
         else if ends_in [65292, 44, 12289, 65306, 58] stripped then nat pause
         else 0)"

record wav_format =
  wf_channels :: nat
  wf_width :: nat
  wf_rate :: nat
  wf_comp :: string

record wav =
  wv_format :: wav_format
  wv_frames :: "nat list"

definition silence :: "wav_format \<Rightarrow> nat \<Rightarrow> nat list" where
  "silence f ms = replicate (wf_rate f * ms div 1000 * wf_channels f * wf_width f) 0"

text \<open>The frames of the files with the pauses between them; an earlier format that differs is an
  error.\<close>

fun concat_frames :: "wav_format \<Rightarrow> nat list \<Rightarrow> wav list \<Rightarrow> nat list option" where
  "concat_frames f pauses [] = Some []"
| "concat_frames f pauses [w] = (if wv_format w = f then Some (wv_frames w) else None)"
| "concat_frames f pauses (w # ws) =
     (if wv_format w = f
      then map_option (\<lambda>rest. wv_frames w @ (case pauses of [] \<Rightarrow> [] | p # ps \<Rightarrow> silence f p) @ rest)
             (concat_frames f (tl pauses) ws)
      else None)"

text \<open>\<open>_concat_wav_bytes\<close>: a part without bytes is \<open>None\<close>; the result is empty, a file, or an error.\<close>

datatype concat_result = NoAudio | Audio wav | FormatError

definition concat_wav_bytes :: "wav option list \<Rightarrow> nat list \<Rightarrow> concat_result" where
  "concat_wav_bytes parts pauses =
     (case [w. Some w \<leftarrow> parts] of
        [] \<Rightarrow> NoAudio
      | [w] \<Rightarrow> Audio w
      | w # ws \<Rightarrow> (case concat_frames (wv_format w) pauses (w # ws) of
                     None \<Rightarrow> FormatError
                   | Some fs \<Rightarrow> Audio \<lparr>wv_format = wv_format w, wv_frames = fs\<rparr>))"

definition wav_samples :: "wav option \<Rightarrow> nat" where
  "wav_samples w = (case w of None \<Rightarrow> 0 | Some x \<Rightarrow> length (wv_frames x) div (wf_channels (wv_format x) * wf_width (wv_format x)))"

text \<open>\<open>synthesize\<close> of a text in several segments: the first segment that raises ends it.\<close>

fun synthesize_parts :: "(ustr \<Rightarrow> 'e + wav option) \<Rightarrow> ustr list \<Rightarrow> 'e + wav option list" where
  "synthesize_parts single [] = Inr []"
| "synthesize_parts single (s # ss) =
     (case single s of
        Inl e \<Rightarrow> Inl e
      | Inr w \<Rightarrow> (case synthesize_parts single ss of Inl e \<Rightarrow> Inl e | Inr ws \<Rightarrow> Inr (w # ws)))"

text \<open>The \<open>samples\<close> entry of the reply counts the pauses at the backend's rate.\<close>

definition synthesize_segments ::
  "int \<Rightarrow> int \<Rightarrow> (ustr \<Rightarrow> 'e + wav option) \<Rightarrow> ustr list \<Rightarrow> 'e + concat_result \<times> nat" where
  "synthesize_segments pause hard_pause single segments =
     (case synthesize_parts single segments of
        Inl e \<Rightarrow> Inl e
      | Inr ws \<Rightarrow>
          (let pauses = map (segment_pause_ms pause hard_pause) (butlast segments)
           in Inr (concat_wav_bytes ws pauses, sum_list (map wav_samples ws) + 24000 * sum_list pauses div 1000)))"

section \<open>Nothing is lost\<close>

abbreviation visible :: "ustr \<Rightarrow> ustr" where
  "visible t \<equiv> filter (\<lambda>c. \<not> py_isspace c) t"

lemma space32 [simp]: "py_isspace 32" by (simp add: py_isspace_def)

lemma visible_join [simp]: "visible (join_spaces ws) = visible (concat ws)"
  by (induction ws rule: join_spaces.induct) simp_all

lemma visible_take_drop: "visible (take n t) @ visible (drop n t) = visible t"
  by (metis append_take_drop_id filter_append)

lemma visible_words: "visible (concat (py_words t)) = visible t"
proof (induction t rule: py_words.induct)
  case (1 t)
  show ?case
  proof (cases "dropWhile py_isspace t")
    case Nil
    then have "visible t = []" by (metis dropWhile_eq_Nil_conv filter_False)
    then show ?thesis unfolding py_words.simps [of t] Nil by simp
  next
    case (Cons c cs)
    have "visible t = visible (c # cs)" by (metis Cons filter_not_dropWhile)
    moreover have "\<not> py_isspace c" by (metis Cons hd_dropWhile list.distinct(1) list.sel(1))
    moreover have "visible cs = takeWhile (\<lambda>x. \<not> py_isspace x) cs @ visible (dropWhile (\<lambda>x. \<not> py_isspace x) cs)"
      by (metis filter_append filter_True set_takeWhileD takeWhile_dropWhile_id)
    moreover have "visible (takeWhile (\<lambda>x. \<not> py_isspace x) cs) = takeWhile (\<lambda>x. \<not> py_isspace x) cs"
      by (metis filter_True set_takeWhileD)
    ultimately show ?thesis using 1 [OF Cons] Cons by (subst py_words.simps) simp
  qed
qed

lemma visible_normalize: "visible (normalize_text t) = visible t"
  by (simp add: normalize_text_def visible_words)

lemma visible_blank: "ustrip t = [] \<Longrightarrow> visible t = []"
  by (metis filter.simps(1) filter_not_strip)

lemma visible_flush: "visible (concat (fst (flush st))) = visible (concat (fst st) @ snd st)" "snd (flush st) = []"
  by (auto simp: flush_def visible_blank split: prod.split)

lemma visible_cut: "visible (concat (fst (cut_at n (segs, x))) @ snd (cut_at n (segs, x))) = visible (concat segs @ x)"
  by (simp add: cut_at_def visible_take_drop [of n x, symmetric] visible_blank)

lemma visible_scan_char:
  "visible (concat (fst (scan_char lower isdigit cjk limit c st)) @ snd (scan_char lower isdigit cjk limit c st))
   = visible (concat (fst st) @ snd st @ [fst c])"
proof -
  obtain ch nx segs cur where *: "c = (ch, nx)" "st = (segs, cur)" by (cases c, cases st) auto
  let ?x = "cur @ [ch]"
  have "scan_char lower isdigit cjk limit (ch, nx) (segs, cur)
      \<in> {(segs, ?x), flush (segs, ?x), cut_at (upto_soft ?x) (segs, ?x)}"
    by (simp add: scan_char_def Let_def)
  then show ?thesis using visible_flush [of "(segs, ?x)"] visible_cut [of "upto_soft ?x" segs ?x] by (auto simp: *)
qed

lemma visible_scan: "visible (concat (scan_text lower isdigit cjk limit t)) = visible t"
proof -
  let ?f = "scan_char lower isdigit cjk limit"
  have "visible (concat (fst (fold ?f cs st)) @ snd (fold ?f cs st)) = visible (concat (fst st) @ snd st @ map fst cs)" for cs st
  proof (induction cs arbitrary: st)
    case (Cons c cs)
    show ?case using Cons [of "?f c st"] visible_scan_char [of lower isdigit cjk limit c st] by simp
  qed simp
  moreover have "map fst (with_next t) = t" by (cases t) (simp_all add: with_next_def)
  ultimately show ?thesis by (simp add: scan_text_def visible_flush)
qed

lemma visible_pack_words: "visible (concat (pack_words limit buf ws)) = visible (concat buf @ concat ws)"
  by (induction limit buf ws rule: pack_words.induct) auto

lemma visible_split_on: "visible (concat (split_on 32 p)) = visible p"
  by (induction p) (auto split: list.split)

lemma visible_pack: "visible (concat (concat (map (pack_part limit) segs))) = visible (concat segs)"
  by (induction segs) (simp_all add: pack_part_def visible_pack_words visible_split_on)

lemma visible_merge: "visible (concat (merge_parts limit parts)) = visible (concat parts)"
proof -
  have "visible (concat (rev (merge_part limit p ms))) = visible (concat (rev ms) @ p)" for p ms
    by (auto simp: merge_part_def Let_def split: list.split)
  then have "visible (concat (rev (fold (merge_part limit) parts ms))) = visible (concat (rev ms) @ concat parts)" for ms
    by (induction parts arbitrary: ms) simp_all
  then show ?thesis by (simp add: merge_parts_def)
qed

text \<open>
  The segments a text is split into, read one after the other, have exactly its visible
  characters in their order, for every limit, in every script; the split fails only on an
  environment limit that is no number.
\<close>

theorem split_says_everything:
  "(case split_tts_text lower isdigit env given text of
      Some segs \<Rightarrow> visible (concat segs) = visible text
    | None \<Rightarrow> given = None \<and> segment_limit env None (contains_cjk (normalize_text text)) = None)"
  using visible_normalize [of "text"]
  by (cases given)
     (auto simp: split_tts_text_def split_with_limit_def segment_limit_def Let_def visible_merge visible_scan visible_pack
       split: option.splits)

text \<open>Periods are no break: the list of abbreviations is never consulted, and an English text is
  cut in the middle of a word where it reaches the limit.\<close>

theorem periods_never_break:
  "split_tts_text lower isdigit env given t = split_tts_text lower' isdigit' env given t"
proof -
  have dot: "x \<in> set hard_breaks \<Longrightarrow> (x = 46) = False" for x by (auto simp: hard_breaks_def)
  have "scan_char lower isdigit cjk limit = scan_char lower' isdigit' cjk limit" for cjk limit
    by (intro ext) (simp add: scan_char_def dot Let_def cong: if_cong split: prod.split)
  then show ?thesis by (simp add: split_tts_text_def split_with_limit_def scan_text_def Let_def)
qed

theorem words_are_cut:
  "split_with_limit lower isdigit 8 (u ''abcdefg hijklm'') = map u [''abcdefg'', ''h'', ''ijklm'']"
  by (simp add: split_with_limit_def contains_cjk_def chinese_char_def japanese_char_def korean_char_def scan_text_def
      with_next_def scan_char_def hard_breaks_def soft_breaks_def upto_soft_def flush_def cut_at_def strip_by_def strip_while_def lstrip_by_def
      py_isspace_def pack_part_def merge_parts_def merge_part_def only_breaks_def Let_def u_def)

text \<open>White space inside a text with Chinese characters does not count while it is at the end of
  the segment, so the hard limit is exceeded.\<close>

theorem blanks_exceed_the_limit:
  "split_with_limit lower isdigit 8 ([20320, 32, 32, 32, 32, 32, 32, 32, 32, 32, 22909]) = [[20320, 32, 32, 32, 32, 32, 32, 32, 32, 32, 22909]]"
  by (simp add: split_with_limit_def contains_cjk_def chinese_char_def japanese_char_def korean_char_def scan_text_def
      with_next_def scan_char_def hard_breaks_def soft_breaks_def upto_soft_def flush_def cut_at_def strip_by_def strip_while_def lstrip_by_def
      py_isspace_def pack_part_def merge_parts_def merge_part_def only_breaks_def Let_def u_def)

section \<open>The audio of several segments\<close>

definition mono24 :: wav_format where
  "mono24 = \<lparr>wf_channels = 1, wf_width = 2, wf_rate = 24000, wf_comp = ''NONE''\<rparr>"

definition good_part :: "wav option \<Rightarrow> bool" where
  "good_part w = (case w of None \<Rightarrow> False | Some x \<Rightarrow> wv_format x = mono24 \<and> even (length (wv_frames x)))"

lemma silence_length: "length (silence mono24 ms) = 48 * ms"
proof -
  have "24000 * ms div 1000 = 24 * ms" by simp
  then show ?thesis by (simp add: silence_def mono24_def)
qed

lemma concat_frames_length:
  "\<forall>w \<in> set ws. wv_format w = mono24 \<Longrightarrow> ws \<noteq> [] \<Longrightarrow> length ws = Suc (length ps) \<Longrightarrow>
     \<exists>fs. concat_frames mono24 ps ws = Some fs
        \<and> length fs = sum_list (map (\<lambda>w. length (wv_frames w)) ws) + 48 * sum_list ps"
proof (induction ws arbitrary: ps)
  case (Cons w ws)
  show ?case
  proof (cases ws)
    case Nil
    then show ?thesis using Cons.prems by simp
  next
    case (Cons v vs)
    then obtain p qs where p: "ps = p # qs" using Cons.prems by (cases ps) auto
    have f: "wv_format w = mono24" and rest: "\<forall>w \<in> set ws. wv_format w = mono24" "length ws = Suc (length qs)"
      using Cons.prems p by simp_all
    obtain fs where "concat_frames mono24 qs ws = Some fs"
        "length fs = sum_list (map (\<lambda>w. length (wv_frames w)) ws) + 48 * sum_list qs"
      using Cons.IH [OF rest(1) _ rest(2)] Cons by blast
    then show ?thesis using Cons p f by (simp add: silence_length)
  qed
qed simp

lemma parts_good:
  "\<forall>s \<in> set segs. \<exists>w. single s = Inr w \<and> good_part w \<Longrightarrow>
     \<exists>ws. synthesize_parts single segs = Inr (map Some ws) \<and> length ws = length segs
        \<and> (\<forall>w \<in> set ws. wv_format w = mono24 \<and> even (length (wv_frames w)))"
proof (induction segs)
  case (Cons s segs)
  from Cons obtain ws where ws: "synthesize_parts single segs = Inr (map Some ws)" "length ws = length segs"
      "\<forall>w \<in> set ws. wv_format w = mono24 \<and> even (length (wv_frames w))" by auto
  from Cons.prems obtain w where w: "single s = Inr w" "good_part w" by (meson list.set_intros(1))
  from w(2) obtain x where "w = Some x" "wv_format x = mono24" "even (length (wv_frames x))"
    by (cases w) (simp_all add: good_part_def)
  with w(1) have x: "single s = Inr (Some x)" "wv_format x = mono24" "even (length (wv_frames x))" by simp_all
  show ?case by (intro exI [of _ "x # ws"]) (use ws x in simp)
qed simp

lemma half_sum: "\<forall>w \<in> set ws. even (length (wv_frames w)) \<Longrightarrow>
    sum_list (map (\<lambda>w. length (wv_frames w)) ws) = 2 * sum_list (map (\<lambda>w. length (wv_frames w) div 2) ws)"
  by (induction ws) auto

lemma some_parts: "[w. Some w \<leftarrow> map Some ws] = ws"
  by (induction ws) simp_all

text \<open>
  When every segment of a text gives audio in the worker's format, the segments are joined into
  one file in that format, with the pauses, and the number of samples reported is the number
  in the file.
\<close>

theorem reported_samples_are_there:
  assumes "segs \<noteq> []" "\<forall>s \<in> set segs. \<exists>w. single s = Inr w \<and> good_part w"
  shows "\<exists>w. synthesize_segments pause hard_pause single segs = Inr (Audio w, wav_samples (Some w)) \<and> wv_format w = mono24"
proof -
  obtain ws where ws: "synthesize_parts single segs = Inr (map Some ws)" "length ws = length segs"
      "\<forall>w \<in> set ws. wv_format w = mono24 \<and> even (length (wv_frames w))" using parts_good [OF assms(2)] by blast
  define ps where "ps = map (segment_pause_ms pause hard_pause) (butlast segs)"
  have len: "length ws = Suc (length ps)" using assms(1) ws(2) by (simp add: ps_def)
  obtain fs where fs: "concat_frames mono24 ps ws = Some fs"
      "length fs = sum_list (map (\<lambda>w. length (wv_frames w)) ws) + 48 * sum_list ps"
    using concat_frames_length [of ws ps] ws(3) len by (metis length_0_conv nat.distinct(1))
  have samples: "sum_list (map wav_samples (map Some ws)) = sum_list (map (\<lambda>w. length (wv_frames w) div 2) ws)"
    using ws(3) by (induction ws) (auto simp: wav_samples_def mono24_def)
  have total: "length fs div 2 = sum_list (map (\<lambda>w. length (wv_frames w) div 2) ws) + 24000 * sum_list ps div 1000"
    using half_sum [of ws] ws(3) fs(2) by simp
  obtain x xs where x: "ws = x # xs" using len by (cases ws) auto
  show ?thesis
  proof (cases xs)
    case Nil
    then have "ps = []" using len x by simp
    then show ?thesis using ws(1,3) x Nil ps_def
      by (auto simp: synthesize_segments_def concat_wav_bytes_def wav_samples_def mono24_def)
  next
    case (Cons y ys)
    have "concat_wav_bytes (map Some ws) ps = Audio \<lparr>wv_format = mono24, wv_frames = fs\<rparr>"
      unfolding concat_wav_bytes_def some_parts using ws(3) x Cons fs(1) by (simp del: concat_frames.simps)
    then show ?thesis using ws(1) samples total
      by (simp add: synthesize_segments_def ps_def [symmetric] Let_def wav_samples_def mono24_def del: map_map)
  qed
qed

theorem reported_samples_are_there_witness:
  "\<exists>w. synthesize_segments 80 120 (\<lambda>s. Inr (Some \<lparr>wv_format = mono24, wv_frames = [1, 0, 2, 0]\<rparr>) :: unit + wav option)
      [u ''one,'', u ''two''] = Inr (Audio w, wav_samples (Some w)) \<and> wv_format w = mono24"
  by (rule reported_samples_are_there) (simp_all add: good_part_def)

text \<open>Pauses are matched with the files that are there, not with the segments they belong to, and
  those of an absent file are still counted.\<close>

theorem absent_segment_shifts_pauses:
  "synthesize_segments 80 120
     (\<lambda>s. Inr (if s = u ''a!'' then None else Some \<lparr>wv_format = mono24, wv_frames = []\<rparr>) :: unit + wav option)
     [u ''a!'', u ''b'', u ''c'']
   = Inr (Audio \<lparr>wv_format = mono24, wv_frames = silence mono24 120\<rparr>, 2880)"
  by (simp add: synthesize_segments_def concat_wav_bytes_def wav_samples_def segment_pause_ms_def ends_in_def u_def
      py_isspace_def strip_while_def mono24_def Let_def)

end
