(* ===== verification/Edge_Tts.thy ===== *)
theory Edge_Tts
  imports Edge_Tts_Text Capability Tts_Speakers
begin

text \<open>
  The EdgeLLM synthesiser, \<open>app/backends/jetson/trt_edge_llm_tts.py\<close>: what the environment makes of
  a request, the loop over the worker's events with its retry, streaming and file synthesis,
  and the life of the worker process. The worker's events, the file system and the process
  table are inputs; sampling parameters and timings are passed through and left out. In the
  product mode every operation is handed to another backend, which is not modelled here. The
  segments of a text are those of \<open>split_tts_text\<close>, one where segmentation is off.
\<close>

section \<open>The environment\<close>

type_synonym environ = "string \<rightharpoonup> string"

fun env_first :: "environ \<Rightarrow> string list \<Rightarrow> string option \<Rightarrow> string option" where
  "env_first env [] def = def"
| "env_first env (n # ns) def =
     (case env n of Some (c # cs) \<Rightarrow> Some (c # cs) | _ \<Rightarrow> env_first env ns def)"

definition env_get :: "environ \<Rightarrow> string \<Rightarrow> string \<Rightarrow> string" where
  "env_get env n def = (case env n of None \<Rightarrow> def | Some v \<Rightarrow> v)"

definition env_flag :: "environ \<Rightarrow> string \<Rightarrow> bool \<Rightarrow> bool" where
  "env_flag env n def = (case env n of None \<Rightarrow> def | Some v \<Rightarrow> py_lower v \<notin> set [''0'', ''false'', ''no'', ''off''])"

definition underscores :: "string \<Rightarrow> string" where
  "underscores s = map (\<lambda>c. if c = CHR ''-'' then CHR ''_'' else c) s"

definition qwen3_runtime_profile :: "environ \<Rightarrow> string" where
  "qwen3_runtime_profile env =
     underscores (py_lower (sstrip (env_get env ''EDGE_LLM_QWEN3_PROFILE'' (env_get env ''OVS_QWEN3_PROFILE'' ''highperf''))))"

definition qwen3_highperf_enabled :: "environ \<Rightarrow> bool" where
  "qwen3_highperf_enabled env \<longleftrightarrow> qwen3_runtime_profile env \<in> set [''highperf'', ''perf'', ''performance'', ''v2v'']"

definition stateful_enabled :: "environ \<Rightarrow> bool" where
  "stateful_enabled env = env_flag env ''EDGE_LLM_TTS_STATEFUL_CODE2WAV'' (qwen3_highperf_enabled env)"

definition tts_perf_profile :: "environ \<Rightarrow> string" where
  "tts_perf_profile env = py_lower (sstrip (env_get env ''EDGE_LLM_TTS_PERF_PROFILE'' ''quality''))"

definition tts_fast_profile :: "string \<Rightarrow> bool" where
  "tts_fast_profile p \<longleftrightarrow> p \<in> set [''fast'', ''v2v'', ''low_latency'']"

definition backend_mode :: "environ \<Rightarrow> string" where
  "backend_mode env =
     underscores (py_lower (sstrip (case env_first env [''OVS_TTS_BACKEND'', ''EDGE_LLM_TTS_BACKEND''] (Some ''edgellm_worker'') of
                                      Some v \<Rightarrow> v | None \<Rightarrow> [])))"

definition use_worker :: "environ \<Rightarrow> bool" where
  "use_worker env \<longleftrightarrow> py_lower (env_get env ''EDGE_LLM_TTS_WORKER'' ''1'') \<notin> set [''0'', ''false'', ''no'']"

definition supports_hot_reload :: "environ \<Rightarrow> string option \<Rightarrow> bool" where
  "supports_hot_reload env resolved =
     ((case resolved of Some (c # cs) \<Rightarrow> c # cs | _ \<Rightarrow> backend_mode env) \<notin> set [''product_explicit_kv'', ''explicit_kv''])"

text \<open>\<open>concurrency_capability\<close>. The profile, when it is an object: its \<open>tts_worker_concurrency\<close>, and the
  \<open>worker_concurrency\<close> of its \<open>tts_backend_config\<close> when that is an object.\<close>

definition py_int_of :: "pyval \<Rightarrow> int option" where
  "py_int_of v = (case v of PNone \<Rightarrow> None | PBool b \<Rightarrow> Some (if b then 1 else 0) | PInt i \<Rightarrow> Some i | PStr s \<Rightarrow> py_int s)"

definition edge_capability :: "environ \<Rightarrow> (pyval \<times> pyval option) option \<Rightarrow> concurrency_capability" where
  "edge_capability env profile =
     (let profile_val = (case profile of
                           None \<Rightarrow> PNone
                         | Some (PNone, Some v) \<Rightarrow> v
                         | Some (v, _) \<Rightarrow> v);
          n = (case env ''OVS_TTS_WORKER_CONCURRENCY'' of
                 Some v \<Rightarrow> (case py_int v of Some i \<Rightarrow> i | None \<Rightarrow> 1)
               | None \<Rightarrow> (case py_int_of profile_val of Some i \<Rightarrow> i | None \<Rightarrow> 1));
          m = max 1 n
      in \<lparr>supports_parallel = 1 < m, max_concurrent = Some m, is_stateful = True, requires_exclusive_device = True,
          scaling_mode = ''single_runtime_multiplex'', vram_mb_per_slot = None\<rparr>)"

text \<open>The instance reads its concurrency from the environment alone.\<close>

definition worker_concurrency :: "environ \<Rightarrow> int option" where
  "worker_concurrency env = map_option (max 1) (py_int (env_get env ''OVS_TTS_WORKER_CONCURRENCY'' ''1''))"

section \<open>A request\<close>

record frame_plan =
  fp_first :: int
  fp_chunk :: int
  fp_growth :: int
  fp_max :: int
  fp_adaptive :: bool

definition profile_defaults :: "string \<Rightarrow> frame_plan" where
  "profile_defaults p =
     (if p \<in> set [''v2v'', ''voice_to_voice'', ''eos_to_first_audio''] then
        \<lparr>fp_first = 1, fp_chunk = 97, fp_growth = 0, fp_max = 97, fp_adaptive = False\<rparr>
      else if p \<in> set [''instant_feedback'', ''low_latency''] then
        \<lparr>fp_first = 1, fp_chunk = 25, fp_growth = 50, fp_max = 150, fp_adaptive = True\<rparr>
      else if p \<in> set [''playback'', ''smooth'', ''buffered''] then
        \<lparr>fp_first = 20, fp_chunk = 20, fp_growth = 30, fp_max = 120, fp_adaptive = True\<rparr>
      else \<lparr>fp_first = 50, fp_chunk = 97, fp_growth = 0, fp_max = 97, fp_adaptive = False\<rparr>)"

definition frame_defaults :: "environ \<Rightarrow> string option \<Rightarrow> frame_plan" where
  "frame_defaults env profile =
     (if stateful_enabled env then
        \<lparr>fp_first = (if tts_fast_profile (tts_perf_profile env) then 4
                     else if tts_perf_profile env = ''balanced'' then 6 else 7),
         fp_chunk = 10, fp_growth = 0, fp_max = 10, fp_adaptive = False\<rparr>
      else profile_defaults (py_lower (case profile of Some p \<Rightarrow> p
                                       | None \<Rightarrow> env_get env ''EDGE_LLM_TTS_STREAMING_PROFILE'' ''continuous_playback'')))"

text \<open>The caller's own settings; the environment's number is read (and may raise) even when the
  caller gave one.\<close>

record plan_request =
  pr_profile :: "string option"
  pr_first :: "int option"
  pr_chunk :: "int option"
  pr_adaptive :: "bool option"
  pr_max :: "int option"
  pr_growth :: "int option"

definition plan_int :: "environ \<Rightarrow> string \<Rightarrow> int \<Rightarrow> int option \<Rightarrow> int option" where
  "plan_int env n def given =
     (case (case env n of None \<Rightarrow> Some def | Some v \<Rightarrow> py_int v) of
        None \<Rightarrow> None
      | Some i \<Rightarrow> Some (case given of Some g \<Rightarrow> g | None \<Rightarrow> i))"

definition frame_plan_for :: "environ \<Rightarrow> plan_request \<Rightarrow> frame_plan option" where
  "frame_plan_for env r =
     (let d = frame_defaults env (pr_profile r);
          adaptive = (case pr_adaptive r of
                        Some b \<Rightarrow> b
                      | None \<Rightarrow> py_lower (env_get env ''EDGE_LLM_TTS_ADAPTIVE_CHUNKS'' (if fp_adaptive d then ''1'' else ''0''))
                                 \<notin> set [''0'', ''false'', ''no''])
      in case (plan_int env ''EDGE_LLM_TTS_FIRST_CHUNK_FRAMES'' (fp_first d) (pr_first r),
               plan_int env ''EDGE_LLM_TTS_CHUNK_FRAMES'' (fp_chunk d) (pr_chunk r),
               plan_int env ''EDGE_LLM_TTS_MAX_CHUNK_FRAMES'' (fp_max d) (pr_max r),
               plan_int env ''EDGE_LLM_TTS_CHUNK_GROWTH_FRAMES'' (fp_growth d) (pr_growth r)) of
           (Some a, Some b, Some c, Some g) \<Rightarrow>
             Some \<lparr>fp_first = a, fp_chunk = b, fp_growth = g, fp_max = c, fp_adaptive = adaptive\<rparr>
         | _ \<Rightarrow> None)"

text \<open>\<open>_resolve_voice_kwargs\<close>: a keyword is absent, or present with a value that may be \<open>None\<close>.\<close>

definition requested_speaker :: "int option option \<Rightarrow> int option option \<Rightarrow> int option" where
  "requested_speaker speaker_id sid =
     (case speaker_id of Some v \<Rightarrow> v | None \<Rightarrow> (case sid of Some v \<Rightarrow> v | None \<Rightarrow> None))"

definition resolve_voice_kwargs ::
  "string \<Rightarrow> 8 word list option \<Rightarrow> int option option \<Rightarrow> int option option \<Rightarrow> tts_store \<Rightarrow> (speaker_error + voice) \<times> tts_store" where
  "resolve_voice_kwargs model emb speaker_id sid st = resolve_speaker_kwargs True emb (requested_speaker speaker_id sid) model st"

record tts_request =
  rq_text :: ustr
  rq_language :: string
  rq_plan :: frame_plan
  rq_embedding :: "ustr option"
  rq_speaker_id :: "int option"
  rq_speaker :: "ustr option"

text \<open>An embedding (if not empty) goes in Base64, a preset by id and name.\<close>

definition add_voice :: "voice \<Rightarrow> tts_request \<Rightarrow> tts_request" where
  "add_voice v r =
     (case v of
        NoVoice \<Rightarrow> r
      | DirectVoice bs \<Rightarrow> if bs = [] then r else r\<lparr>rq_embedding := Some (b64encode bs)\<rparr>
      | CloneVoice sid bs \<Rightarrow> if bs = [] then r\<lparr>rq_speaker_id := Some sid\<rparr> else r\<lparr>rq_embedding := Some (b64encode bs)\<rparr>
      | PresetVoice sid name \<Rightarrow> r\<lparr>rq_speaker_id := Some sid, rq_speaker := Some name\<rparr>)"

datatype tts_error =
    SpeakerError speaker_error | BadNumber | WorkerFailed | WorkerExited | NoEvents | NoOutputFile | BadRate | BadEmbedding
  | BinaryFailed | NoResponses | NoAudioNoCodes | NotPreloaded

definition build_request ::
  "environ \<Rightarrow> string \<Rightarrow> ustr \<Rightarrow> string option \<Rightarrow> plan_request \<Rightarrow> 8 word list option \<Rightarrow> int option option \<Rightarrow> int option option
     \<Rightarrow> tts_store \<Rightarrow> (tts_error + tts_request) \<times> tts_store" where
  "build_request env model text language pr emb speaker_id sid st =
     (case frame_plan_for env pr of
        None \<Rightarrow> (Inl BadNumber, st)
      | Some plan \<Rightarrow>
          (case resolve_voice_kwargs model emb speaker_id sid st of
             (Inl e, st1) \<Rightarrow> (Inl (SpeakerError e), st1)
           | (Inr v, st1) \<Rightarrow>
               (Inr (add_voice v \<lparr>rq_text = text,
                       rq_language = (case language of Some (c # cs) \<Rightarrow> c # cs | _ \<Rightarrow> detect_language text),
                       rq_plan = plan, rq_embedding = None, rq_speaker_id = None, rq_speaker = None\<rparr>), st1)))"

section \<open>The events of a request\<close>

record tts_event =
  te_kind :: string
  te_ok :: bool
  te_base64 :: bool
  te_audio :: "nat list"
  te_file :: "nat list option"
  te_wav :: bool
  te_rate :: "int option"
  te_output :: "wav option option"

text \<open>How the loop over the events ends: by itself, with an acknowledged cancel, by wanting a retry,
  by an exception, or because the consumer closed the generator after so many chunks, in
  which case the worker is told.\<close>

datatype loop_end = Ended | WasCancelled | RetryEmpty | LoopRaised tts_error | Abandoned

datatype event_source = SourceEnd | SourceExit

definition chunk_of :: "tts_event \<Rightarrow> nat list option" where
  "chunk_of e =
     (if te_kind e \<noteq> ''chunk'' then None
      else if te_base64 e then Some (te_audio e)
      else map_option (\<lambda>p. if te_wav e \<and> 44 < length p then drop 44 p else p) (te_file e))"

fun run_events ::
  "bool \<Rightarrow> bool \<Rightarrow> nat option \<Rightarrow> nat \<Rightarrow> tts_event list \<Rightarrow> event_source \<Rightarrow> nat list list \<times> loop_end" where
  "run_events retry stateful budget emitted [] src =
     ([], case src of SourceEnd \<Rightarrow> Ended | SourceExit \<Rightarrow> LoopRaised WorkerExited)"
| "run_events retry stateful budget emitted (e # es) src =
     (if te_kind e = ''cancelled'' then ([], WasCancelled)
      else if \<not> te_ok e then ([], LoopRaised WorkerFailed)
      else if te_kind e = ''done'' then ([], if retry \<and> stateful \<and> emitted = 0 then RetryEmpty else Ended)
      else (case chunk_of e of
              None \<Rightarrow> run_events retry stateful budget emitted es src
            | Some c \<Rightarrow>
                (if budget = Some (emitted + 1) then ([c], Abandoned)
                 else (case run_events retry stateful budget (emitted + 1) es src of (cs, end_) \<Rightarrow> (c # cs, end_)))))"

text \<open>\<open>_generate_streaming_single\<close>: after an empty result the worker is restarted (which may raise)
  and the request is made once more.\<close>

record attempt =
  at_events :: "tts_event list"
  at_source :: event_source

definition stream_single :: "bool \<Rightarrow> nat option \<Rightarrow> attempt \<Rightarrow> tts_error option \<Rightarrow> attempt \<Rightarrow> nat list list \<times> loop_end \<times> nat" where
  "stream_single stateful budget a1 restart a2 =
     (case run_events True stateful budget 0 (at_events a1) (at_source a1) of
        (cs, RetryEmpty) \<Rightarrow>
          (case restart of
             Some e \<Rightarrow> (cs, LoopRaised e, 1)
           | None \<Rightarrow> (case run_events False stateful budget 0 (at_events a2) (at_source a2) of (cs2, end2) \<Rightarrow> (cs @ cs2, end2, 1)))
      | (cs, end_) \<Rightarrow> (cs, end_, 0))"

text \<open>What a whole single request says when it is consumed to its end.\<close>

definition stream_result :: "nat list list \<times> loop_end \<times> nat \<Rightarrow> tts_error + nat list" where
  "stream_result r = (case r of (cs, LoopRaised e, n) \<Rightarrow> Inl e | (cs, _, n) \<Rightarrow> Inr (concat cs))"

text \<open>The \<open>done\<close> event the loop stopped at; what it says is merged into the caller's \<open>meta_out\<close>, the
  retry's over the first attempt's.\<close>

fun done_event :: "tts_event list \<Rightarrow> tts_event option" where
  "done_event [] = None"
| "done_event (e # es) =
     (if te_kind e = ''cancelled'' \<or> \<not> te_ok e then None
      else if te_kind e = ''done'' then Some e
      else done_event es)"

definition meta_rate :: "tts_event option \<Rightarrow> int option \<Rightarrow> int option" where
  "meta_rate e old = (case e of None \<Rightarrow> old | Some d \<Rightarrow> (case te_rate d of None \<Rightarrow> old | Some r \<Rightarrow> Some r))"

section \<open>Streaming and files\<close>

text \<open>
  What happens to the request for one text: whether building it or starting the worker raises,
  what the worker answers, what a restart raises and what the new worker answers, and, where
  the worker is not used, what the binary leaves.
\<close>

record binary_run =
  bn_ok :: bool
  bn_responses :: "(wav option option \<times> bool) list"

record reply =
  rp_refused :: "tts_error option"
  rp_first :: attempt
  rp_restart :: "tts_error option"
  rp_second :: attempt
  rp_binary :: binary_run

definition single_audio :: "bool \<Rightarrow> reply \<Rightarrow> tts_error + nat list" where
  "single_audio stateful a =
     (case rp_refused a of
        Some e \<Rightarrow> Inl e
      | None \<Rightarrow> stream_result (stream_single stateful None (rp_first a) (rp_restart a) (rp_second a)))"

definition single_rate :: "bool \<Rightarrow> reply \<Rightarrow> int" where
  "single_rate stateful a =
     (let r1 = meta_rate (done_event (at_events (rp_first a))) None;
          r2 = (if snd (run_events True stateful None 0 (at_events (rp_first a)) (at_source (rp_first a))) = RetryEmpty
                then meta_rate (done_event (at_events (rp_second a))) r1 else r1)
      in case r2 of None \<Rightarrow> 24000 | Some r \<Rightarrow> r)"

text \<open>\<open>generate_streaming\<close>: the segments one after the other, and a raise ends it.\<close>

fun stream_segments :: "(ustr \<Rightarrow> tts_error + nat list) \<Rightarrow> ustr list \<Rightarrow> nat list \<times> tts_error option" where
  "stream_segments single [] = ([], None)"
| "stream_segments single (s # ss) =
     (case single s of
        Inl e \<Rightarrow> ([], Some e)
      | Inr pcm \<Rightarrow> (case stream_segments single ss of (rest, e) \<Rightarrow> (pcm @ rest, e)))"

definition generate_streaming :: "bool \<Rightarrow> (ustr \<Rightarrow> reply) \<Rightarrow> ustr list option \<Rightarrow> ustr \<Rightarrow> nat list \<times> tts_error option" where
  "generate_streaming stateful answer segments text =
     (case segments of
        None \<Rightarrow> ([], Some BadNumber)
      | Some segs \<Rightarrow> stream_segments (\<lambda>s. single_audio stateful (answer s)) (if 1 < length segs then segs else [text]))"

text \<open>\<open>_pcm16_to_wav\<close>: mono, 16 bits, at the given rate, which has to be positive.\<close>

definition pcm16_format :: "int \<Rightarrow> wav_format" where
  "pcm16_format rate = \<lparr>wf_channels = 1, wf_width = 2, wf_rate = nat rate, wf_comp = ''NONE''\<rparr>"

lemma pcm16_default: "pcm16_format 24000 = mono24"
  by (simp add: pcm16_format_def mono24_def)

definition pcm16_to_wav :: "nat list \<Rightarrow> int \<Rightarrow> tts_error + wav" where
  "pcm16_to_wav pcm rate =
     (if rate \<le> 0 then Inl BadRate else Inr \<lparr>wv_format = pcm16_format rate, wv_frames = pcm\<rparr>)"

text \<open>\<open>_synthesize_worker_via_stream\<close>: the PCM of a single streamed request, at the rate its
  \<open>done\<close> event says.\<close>

definition synthesize_via_stream :: "reply \<Rightarrow> tts_error + wav option" where
  "synthesize_via_stream a =
     (case single_audio True a of
        Inl e \<Rightarrow> Inl e
      | Inr pcm \<Rightarrow> (case pcm16_to_wav pcm (single_rate True a) of Inl e \<Rightarrow> Inl e | Inr w \<Rightarrow> Inr (Some w)))"

text \<open>\<open>_synthesize_worker\<close>: with a stateful vocoder by the stream; otherwise the worker writes a file,
  which the last event names.\<close>

definition synthesize_worker :: "bool \<Rightarrow> reply \<Rightarrow> tts_error + wav option" where
  "synthesize_worker stateful a =
     (if stateful then synthesize_via_stream a
      else case rp_refused a of
             Some e \<Rightarrow> Inl e
           | None \<Rightarrow>
               if at_source (rp_first a) = SourceExit then Inl WorkerExited
               else if at_events (rp_first a) = [] then Inl NoEvents
               else (let response = last (at_events (rp_first a)) in
                     if \<not> te_ok response then Inl WorkerFailed
                     else (case te_output response of None \<Rightarrow> Inl NoOutputFile | Some w \<Rightarrow> Inr w)))"

text \<open>The one-shot binary: the audio file of its first response, or no audio when there are codes.\<close>

definition synthesize_oneshot :: "reply \<Rightarrow> tts_error + wav option" where
  "synthesize_oneshot a =
     (case rp_refused a of
        Some e \<Rightarrow> Inl e
      | None \<Rightarrow>
          if \<not> bn_ok (rp_binary a) then Inl BinaryFailed
          else (case bn_responses (rp_binary a) of
                  [] \<Rightarrow> Inl NoResponses
                | (Some w, rvq) # rs \<Rightarrow> Inr w
                | (None, rvq) # rs \<Rightarrow> if rvq then Inr None else Inl NoAudioNoCodes))"

definition synthesize_single :: "bool \<Rightarrow> bool \<Rightarrow> reply \<Rightarrow> tts_error + wav option" where
  "synthesize_single worker stateful a = (if worker then synthesize_worker stateful a else synthesize_oneshot a)"

text \<open>\<open>synthesize\<close> joins the segments' files.\<close>

definition synthesize ::
  "bool \<Rightarrow> bool \<Rightarrow> bool \<Rightarrow> int \<Rightarrow> int \<Rightarrow> (ustr \<Rightarrow> reply) \<Rightarrow> ustr list option \<Rightarrow> ustr \<Rightarrow> tts_error + concat_result" where
  "synthesize ready worker stateful pause hard_pause answer segments text =
     (if \<not> ready then Inl NotPreloaded
      else case segments of
        None \<Rightarrow> Inl BadNumber
      | Some segs \<Rightarrow>
          if 1 < length segs
          then (case synthesize_segments pause hard_pause (\<lambda>s. synthesize_single worker stateful (answer s)) segs of
                  Inl e \<Rightarrow> Inl e | Inr (r, n) \<Rightarrow> Inr r)
          else (case synthesize_single worker stateful (answer text) of
                  Inl e \<Rightarrow> Inl e | Inr None \<Rightarrow> Inr NoAudio | Inr (Some w) \<Rightarrow> Inr (Audio w)))"

definition clone_voice :: "8 word list \<Rightarrow> (8 word list \<Rightarrow> tts_error + concat_result) \<Rightarrow> tts_error + concat_result" where
  "clone_voice emb synth = (if length emb mod 4 \<noteq> 0 then Inl BadEmbedding else synth emb)"

section \<open>The worker process\<close>

text \<open>
  \<open>lc_current\<close> is \<open>_worker\<close>, \<open>lc_io\<close> the process \<open>_worker_io\<close> talks to, \<open>lc_alive\<close> the processes
  that run and hold their memory. Starting a worker takes time: \<open>lc_starting\<close> is the holder of
  \<open>_worker_lock\<close> that has spawned a process and waits for its first line. Once past
  \<open>_ensure_worker\<close> a request waits for the semaphore of the \<open>WorkerIO\<close> it was given
  (\<open>lc_waiting\<close>), then it is in its event loop (\<open>lc_held\<close>), both with the process they talk to.
  A new process says it is ready, ends, or says something else and stays.
\<close>

datatype starter = ForRequest nat | ForRetry nat

record lifecycle =
  lc_current :: "nat option"
  lc_io :: "nat option"
  lc_alive :: "nat list"
  lc_next :: nat
  lc_starting :: "(starter \<times> nat) option"
  lc_waiting :: "(nat \<times> nat) list"
  lc_held :: "(nat \<times> nat) list"

definition fresh_lifecycle :: lifecycle where
  "fresh_lifecycle = \<lparr>lc_current = None, lc_io = None, lc_alive = [], lc_next = 0, lc_starting = None, lc_waiting = [], lc_held = []\<rparr>"

datatype spawn = SpawnReady | SpawnEnded | SpawnNotReady

definition drop_request :: "nat \<Rightarrow> lifecycle \<Rightarrow> lifecycle" where
  "drop_request r s = s\<lparr>lc_held := [x \<leftarrow> lc_held s. fst x \<noteq> r]\<rparr>"

text \<open>What follows \<open>_ensure_worker\<close>: a request takes the \<open>WorkerIO\<close> it finds (without one the
  assertion fails), a retry leaves its old request.\<close>

definition ensured :: "starter \<Rightarrow> lifecycle \<Rightarrow> lifecycle" where
  "ensured who s =
     (case who of
        ForRequest r \<Rightarrow> (case lc_io s of None \<Rightarrow> s | Some q \<Rightarrow> s\<lparr>lc_waiting := (r, q) # lc_waiting s\<rparr>)
      | ForRetry r \<Rightarrow> drop_request r s)"

definition not_ensured :: "starter \<Rightarrow> lifecycle \<Rightarrow> lifecycle" where
  "not_ensured who s = (case who of ForRequest r \<Rightarrow> s | ForRetry r \<Rightarrow> drop_request r s)"

definition current_runs :: "lifecycle \<Rightarrow> bool" where
  "current_runs s = (case lc_current s of None \<Rightarrow> False | Some p \<Rightarrow> p \<in> set (lc_alive s))"

definition ensure_worker :: "starter \<Rightarrow> lifecycle \<Rightarrow> lifecycle" where
  "ensure_worker who s =
     (if current_runs s then ensured who s
      else (let p = lc_next s
            in s\<lparr>lc_current := Some p, lc_next := p + 1, lc_alive := p # lc_alive s, lc_starting := Some (who, p)\<rparr>))"

text \<open>The first line of a new process. A failed start raises and leaves \<open>_worker\<close> as it is. The
  \<open>WorkerIO\<close> is made for what \<open>_worker\<close> is by now: if a request has cleared it meanwhile, it has
  no process and serves nobody, as if there were none.\<close>

definition first_line :: "spawn \<Rightarrow> lifecycle \<Rightarrow> lifecycle" where
  "first_line sp s =
     (case lc_starting s of
        None \<Rightarrow> s
      | Some (who, p) \<Rightarrow>
          (let s1 = s\<lparr>lc_starting := None\<rparr> in
           case sp of
             SpawnReady \<Rightarrow> ensured who (s1\<lparr>lc_io := lc_current s1\<rparr>)
           | SpawnEnded \<Rightarrow> not_ensured who (s1\<lparr>lc_alive := removeAll p (lc_alive s1)\<rparr>)
           | SpawnNotReady \<Rightarrow> not_ensured who s1))"

definition kill_process :: "nat option \<Rightarrow> lifecycle \<Rightarrow> lifecycle" where
  "kill_process p s = (case p of None \<Rightarrow> s | Some q \<Rightarrow> s\<lparr>lc_alive := removeAll q (lc_alive s)\<rparr>)"

definition restart_worker_locked :: "starter \<Rightarrow> lifecycle \<Rightarrow> lifecycle" where
  "restart_worker_locked who s =
     ensure_worker who (kill_process (lc_current s) (s\<lparr>lc_current := None, lc_io := None\<rparr>))"

definition unload_worker :: "lifecycle \<Rightarrow> lifecycle" where
  "unload_worker s = kill_process (lc_current s) (s\<lparr>lc_current := None, lc_io := None\<rparr>)"

definition begin_request :: "nat \<Rightarrow> lifecycle \<Rightarrow> lifecycle" where
  "begin_request r s = ensure_worker (ForRequest r) s"

text \<open>The semaphore of the \<open>WorkerIO\<close> the request was given.\<close>

definition enter_loop :: "nat \<Rightarrow> nat \<Rightarrow> lifecycle \<Rightarrow> lifecycle" where
  "enter_loop n r s =
     (case map_of (lc_waiting s) r of
        None \<Rightarrow> s
      | Some q \<Rightarrow>
          if length [x \<leftarrow> lc_held s. snd x = q] < n
          then s\<lparr>lc_waiting := [x \<leftarrow> lc_waiting s. fst x \<noteq> r], lc_held := (r, q) # lc_held s\<rparr>
          else s)"

text \<open>A request that sees its process go clears both fields, without the lock and whatever they
  hold by then.\<close>

definition see_exit :: "nat \<Rightarrow> lifecycle \<Rightarrow> lifecycle" where
  "see_exit r s = (drop_request r s)\<lparr>lc_current := None, lc_io := None\<rparr>"

text \<open>After an empty result: restart, and leave; the retry begins as a request of its own.\<close>

definition retry_empty :: "nat \<Rightarrow> lifecycle \<Rightarrow> lifecycle" where
  "retry_empty r s = restart_worker_locked (ForRetry r) s"

datatype lc_event = Begin nat | FirstLine spawn | Enter nat | Crash nat | SeeExit nat | EmptyDone nat | Finish nat | Unload

text \<open>Beginning, restarting and unloading take \<open>_worker_lock\<close>, so they wait for a start under way; an
  exit is seen by a request whose process is gone. A request may end at any time once it is in
  its loop. (\<open>preload\<close> starts the worker before the backend serves, as a request that then ends would.)\<close>

fun lc_step :: "nat \<Rightarrow> lc_event \<Rightarrow> lifecycle \<Rightarrow> lifecycle" where
  "lc_step n (Begin r) s =
     (if lc_starting s = None \<and> r \<notin> fst ` set (lc_waiting s @ lc_held s) then begin_request r s else s)"
| "lc_step n (FirstLine sp) s = first_line sp s"
| "lc_step n (Enter r) s = enter_loop n r s"
| "lc_step n (Crash p) s = kill_process (Some p) s"
| "lc_step n (SeeExit r) s =
     (case map_of (lc_held s) r of
        None \<Rightarrow> s
      | Some p \<Rightarrow> if p \<in> set (lc_alive s) then s else see_exit r s)"
| "lc_step n (EmptyDone r) s =
     (if lc_starting s \<noteq> None \<or> map_of (lc_held s) r = None then s else retry_empty r s)"
| "lc_step n (Finish r) s = drop_request r s"
| "lc_step n Unload s = (if lc_starting s = None then unload_worker s else s)"

text \<open>The processes that run without the backend knowing of them, and the exits noticed after the
  worker had been replaced.\<close>

definition orphans :: "lifecycle \<Rightarrow> nat list" where
  "orphans s = [p \<leftarrow> lc_alive s. lc_current s \<noteq> Some p]"

definition late_exit :: "lc_event \<Rightarrow> lifecycle \<Rightarrow> bool" where
  "late_exit e s =
     (case e of
        SeeExit r \<Rightarrow> (case map_of (lc_held s) r of None \<Rightarrow> False | Some p \<Rightarrow> p \<notin> set (lc_alive s) \<and> current_runs s)
      | _ \<Rightarrow> False)"

fun late_exits :: "nat \<Rightarrow> lc_event list \<Rightarrow> lifecycle \<Rightarrow> nat" where
  "late_exits n [] s = 0"
| "late_exits n (e # es) s = (if late_exit e s then 1 else 0) + late_exits n es (lc_step n e s)"

section \<open>Orphans come from late exits only\<close>

definition numbered :: "lifecycle \<Rightarrow> bool" where
  "numbered s \<longleftrightarrow> distinct (lc_alive s) \<and> (\<forall>p \<in> set (lc_alive s). p < lc_next s)"

text \<open>A step that leaves the processes alone, or only ends some.\<close>

lemma orphans_mono:
  assumes "numbered s" "lc_current s' = lc_current s" "lc_next s' = lc_next s" "lc_alive s' = [p \<leftarrow> lc_alive s. P p]"
  shows "numbered s' \<and> length (orphans s') \<le> length (orphans s)"
proof -
  have "[p \<leftarrow> [p \<leftarrow> lc_alive s. P p]. lc_current s \<noteq> Some p] = [p \<leftarrow> [p \<leftarrow> lc_alive s. lc_current s \<noteq> Some p]. P p]"
    by (simp add: conj_commute)
  then show ?thesis using assms by (auto simp: numbered_def orphans_def simp del: filter_filter)
qed

lemma orphans_same:
  "numbered s \<Longrightarrow> lc_current s' = lc_current s \<Longrightarrow> lc_next s' = lc_next s \<Longrightarrow> lc_alive s' = lc_alive s \<Longrightarrow>
     numbered s' \<and> length (orphans s') \<le> length (orphans s)"
  by (simp add: numbered_def orphans_def)

lemma follow_fields [simp]:
  "lc_current (ensured who s) = lc_current s" "lc_next (ensured who s) = lc_next s" "lc_alive (ensured who s) = lc_alive s"
  "lc_current (not_ensured who s) = lc_current s" "lc_next (not_ensured who s) = lc_next s" "lc_alive (not_ensured who s) = lc_alive s"
  by (simp_all add: ensured_def not_ensured_def drop_request_def split: starter.split option.split)

lemma idle_orphans: "\<not> current_runs s \<Longrightarrow> orphans s = lc_alive s"
  by (auto simp: orphans_def current_runs_def intro!: filter_True split: option.splits)

lemma ensure_orphans:
  assumes "numbered s"
  shows "numbered (ensure_worker who s) \<and> length (orphans (ensure_worker who s)) \<le> length (orphans s)"
proof (cases "current_runs s")
  case True
  then show ?thesis by (simp add: ensure_worker_def) (rule orphans_same [OF assms], simp_all)
next
  case False
  have "numbered (ensure_worker who s)" using assms False by (auto simp: ensure_worker_def numbered_def Let_def)
  moreover have "length (orphans (ensure_worker who s)) \<le> length (lc_alive s)"
    using False by (simp add: ensure_worker_def orphans_def Let_def)
  ultimately show ?thesis by (simp add: idle_orphans [OF False])
qed

lemma forget_killed:
  assumes "numbered s"
  shows "numbered (kill_process (lc_current s) (s\<lparr>lc_current := None, lc_io := None\<rparr>)) \<and>
    length (orphans (kill_process (lc_current s) (s\<lparr>lc_current := None, lc_io := None\<rparr>))) \<le> length (orphans s)"
  using assms
  by (auto simp: kill_process_def orphans_def numbered_def removeAll_filter_not_eq eq_commute split: option.split)

lemma lc_step_orphans:
  assumes "numbered s"
  shows "numbered (lc_step n e s) \<and> length (orphans (lc_step n e s)) \<le> length (orphans s) + (if late_exit e s then 1 else 0)"
proof (cases e)
  case (Begin r)
  then show ?thesis using ensure_orphans [OF assms] assms by (auto simp: begin_request_def le_SucI)
next
  case (FirstLine sp)
  have "numbered (first_line sp s) \<and> length (orphans (first_line sp s)) \<le> length (orphans s)"
  proof (cases "lc_starting s")
    case (Some x)
    then obtain who p where x: "lc_starting s = Some (who, p)" by fastforce
    show ?thesis
      by (rule orphans_mono [OF assms, where P = "\<lambda>q. sp = SpawnEnded \<longrightarrow> q \<noteq> p"])
        (cases sp; simp add: first_line_def x Let_def removeAll_filter_not_eq eq_commute)+
  qed (use assms in \<open>simp add: first_line_def\<close>)
  then show ?thesis using FirstLine by simp
next
  case (Enter r)
  have "numbered (enter_loop n r s) \<and> length (orphans (enter_loop n r s)) \<le> length (orphans s)"
    by (rule orphans_same [OF assms]) (simp_all add: enter_loop_def split: option.split)
  then show ?thesis using Enter by simp
next
  case (Crash p)
  have "numbered (kill_process (Some p) s) \<and> length (orphans (kill_process (Some p) s)) \<le> length (orphans s)"
    by (rule orphans_mono [OF assms, where P = "\<lambda>q. q \<noteq> p"])
      (simp_all add: kill_process_def removeAll_filter_not_eq eq_commute)
  then show ?thesis using Crash by simp
next
  case (SeeExit r)
  have "length (lc_alive s) \<le> length (orphans s) + (if current_runs s then 1 else 0)"
  proof (cases "current_runs s")
    case True
    then obtain c where c: "lc_current s = Some c" "c \<in> set (lc_alive s)" by (auto simp: current_runs_def split: option.splits)
    then have "orphans s = remove1 c (lc_alive s)"
      using assms by (auto simp: orphans_def numbered_def distinct_remove1_removeAll removeAll_filter_not_eq intro!: filter_cong)
    then show ?thesis using c True by (simp add: length_remove1)
  qed (simp add: idle_orphans)
  then show ?thesis
    using assms SeeExit
    by (auto simp: see_exit_def drop_request_def late_exit_def numbered_def split: option.split)
       (simp_all add: orphans_def)
next
  case (EmptyDone r)
  show ?thesis
  proof (cases "lc_starting s \<noteq> None \<or> map_of (lc_held s) r = None")
    case False
    note k = forget_killed [OF assms]
    have "numbered (retry_empty r s) \<and> length (orphans (retry_empty r s)) \<le> length (orphans s)"
      using ensure_orphans [OF conjunct1 [OF k], of "ForRetry r"] k by (auto simp: retry_empty_def restart_worker_locked_def)
    then show ?thesis using EmptyDone False by auto
  qed (use EmptyDone assms in auto)
next
  case (Finish r)
  then show ?thesis using assms by (simp add: drop_request_def numbered_def orphans_def)
next
  case Unload
  then show ?thesis using assms forget_killed [OF assms] by (auto simp: unload_worker_def)
qed

text \<open>The semaphores.\<close>

definition admitted :: "nat \<Rightarrow> lifecycle \<Rightarrow> bool" where
  "admitted n s \<longleftrightarrow> (\<forall>q. length [x \<leftarrow> lc_held s. snd x = q] \<le> n)"

lemma filter_filter_length: "length [x \<leftarrow> xs. P x \<and> Q x] \<le> length [x \<leftarrow> xs. Q x]"
  by (induction xs) auto

lemma admitted_same: "admitted n s \<Longrightarrow> lc_held s' = lc_held s \<Longrightarrow> admitted n s'"
  by (simp add: admitted_def)

lemma admitted_drop: "admitted n s \<Longrightarrow> lc_held s' = [x \<leftarrow> lc_held s. fst x \<noteq> r] \<Longrightarrow> admitted n s'"
  by (auto simp: admitted_def intro: le_trans [OF filter_filter_length])

lemma held_fields:
  "lc_held (kill_process q s) = lc_held s"
  "lc_held (ensured who s) = (case who of ForRequest r \<Rightarrow> lc_held s | ForRetry r \<Rightarrow> [x \<leftarrow> lc_held s. fst x \<noteq> r])"
  "lc_held (not_ensured who s) = (case who of ForRequest r \<Rightarrow> lc_held s | ForRetry r \<Rightarrow> [x \<leftarrow> lc_held s. fst x \<noteq> r])"
  by (simp_all add: kill_process_def drop_request_def ensured_def not_ensured_def split: option.split starter.split)

lemma admitted_follow:
  assumes "admitted n s" "lc_held s' = lc_held s"
  shows "admitted n (ensured who s')" "admitted n (not_ensured who s')"
  using assms by (cases who; auto intro: admitted_drop [OF assms(1)] admitted_same [OF assms(1)] simp: held_fields)+

lemma lc_step_admitted:
  assumes "admitted n s"
  shows "admitted n (lc_step n e s)"
proof (cases e)
  case (Enter r)
  then show ?thesis using assms by (auto simp: enter_loop_def admitted_def split: option.split)
qed (use assms in \<open>auto intro: admitted_drop [OF assms] admitted_same [OF assms] admitted_follow [OF assms] simp: held_fields begin_request_def ensure_worker_def first_line_def see_exit_def
      retry_empty_def restart_worker_locked_def unload_worker_def drop_request_def Let_def
      split: option.split spawn.split starter.split\<close>)

text \<open>
  C9: whatever the number of slots, over any sequence of requests, starts that fail half-way,
  crashes, retries after an empty result and unloads, there are at most as many worker processes
  running without the backend knowing of them as there were requests that noticed the exit of
  their worker after it had been replaced; in particular none if no request did. And no worker
  ever has more requests in its event loop than it has slots.
\<close>

theorem orphans_are_late_exits:
  "length (orphans (fold (lc_step n) es fresh_lifecycle)) \<le> late_exits n es fresh_lifecycle \<and>
   length [x \<leftarrow> lc_held (fold (lc_step n) es fresh_lifecycle). snd x = q] \<le> n"
proof -
  have "length (orphans (fold (lc_step n) es s)) \<le> length (orphans s) + late_exits n es s" if "numbered s" for s
    using that
  proof (induction es arbitrary: s)
    case (Cons e es)
    show ?case using Cons.IH [of "lc_step n e s"] lc_step_orphans [OF Cons.prems, of n e] by (auto simp del: lc_step.simps split: if_splits)
  qed simp
  moreover have "admitted n (fold (lc_step n) es s)" if "admitted n s" for s
    using that by (induction es arbitrary: s) (auto intro: lc_step_admitted simp del: lc_step.simps)
  ultimately show ?thesis
    by (auto simp: numbered_def admitted_def orphans_def fresh_lifecycle_def dest: meta_spec [of _ fresh_lifecycle])
qed

lemmas lc_run = fresh_lifecycle_def begin_request_def ensure_worker_def first_line_def ensured_def not_ensured_def enter_loop_def
  current_runs_def kill_process_def see_exit_def drop_request_def retry_empty_def restart_worker_locked_def orphans_def Let_def

text \<open>With one slot already: the worker crashes, another request starts a new one, and only then does
  the first notice; it forgets the new worker, and the next request starts a third process.\<close>

theorem late_exit_orphans_new_worker:
  "let s = fold (lc_step 1) [Begin 0, FirstLine SpawnReady, Enter 0, Crash 0, Begin 1, FirstLine SpawnReady, SeeExit 0,
       Begin 2, FirstLine SpawnReady] fresh_lifecycle
   in lc_alive s = [2, 1] \<and> lc_current s = Some 2"
  by (simp add: lc_run)

text \<open>With two slots without any crash: one request retries after an empty result and restarts the
  worker, the other sees the old process go and forgets the new one.\<close>

theorem restart_orphans_new_worker:
  "let s = fold (lc_step 2) [Begin 0, FirstLine SpawnReady, Begin 1, Enter 0, Enter 1, EmptyDone 0, FirstLine SpawnReady, SeeExit 1,
       Begin 2, FirstLine SpawnReady] fresh_lifecycle
   in lc_alive s = [2, 1] \<and> lc_current s = Some 2"
  by (simp add: lc_run numeral_2_eq_2)

text \<open>A worker whose first line is not the ready event stays, and no request ever starts again.\<close>

theorem unready_worker_blocks:
  "let s = fold (lc_step n) (Begin 0 # FirstLine SpawnNotReady # map Begin rs) fresh_lifecycle
   in lc_waiting s = [] \<and> lc_held s = [] \<and> lc_alive s = [0]"
proof -
  define stuck where "stuck = (\<lambda>s :: lifecycle. lc_current s = Some 0 \<and> lc_alive s = [0] \<and> lc_io s = None \<and> lc_starting s = None
    \<and> lc_held s = [] \<and> lc_waiting s = [])"
  have step: "stuck (lc_step n (Begin r) s)" if "stuck s" for r s
    using that by (auto simp: stuck_def begin_request_def ensure_worker_def current_runs_def ensured_def)
  have run: "stuck (fold (lc_step n) (map Begin rs) s)" if "stuck s" for s
    using that by (induction rs arbitrary: s) (auto simp del: lc_step.simps intro: step)
  have "stuck (lc_step n (FirstLine SpawnNotReady) (lc_step n (Begin 0) fresh_lifecycle))"
    by (simp add: stuck_def lc_run)
  from run [OF this] show ?thesis by (simp add: stuck_def del: lc_step.simps)
qed

section \<open>The stream and the file\<close>

lemma retry_is_empty: "snd (run_events retry stateful budget n es src) = RetryEmpty \<Longrightarrow> fst (run_events retry stateful budget n es src) = [] \<and> n = 0"
proof (induction retry stateful budget n es src rule: run_events.induct)
  case (2 retry stateful budget emitted e es src)
  then show ?case by (auto split: if_splits option.splits prod.splits)
qed (simp split: event_source.splits)

lemma no_second_retry: "snd (run_events False stateful budget n es src) \<noteq> RetryEmpty"
  by (induction False stateful budget n es src rule: run_events.induct) (auto split: if_splits option.splits prod.splits event_source.splits)

lemma empty_either_way:
  "run_events True stateful budget n es src = ([], RetryEmpty) \<Longrightarrow> fst (run_events False stateful budget n es src) = []"
  by (induction True stateful budget n es src rule: run_events.induct) (auto split: if_splits option.splits prod.splits event_source.splits)

text \<open>A retry never repeats audio, and there is one at most: the chunks are those of the first
  attempt, or the first had none and they are those of the second.\<close>

theorem retry_repeats_nothing:
  "(case stream_single stateful budget a1 restart a2 of (cs, e, n) \<Rightarrow>
      e \<noteq> RetryEmpty \<and> n \<le> 1
      \<and> cs = fst (run_events (n = 0) stateful budget 0 (at_events (if n = 0 \<or> restart \<noteq> None then a1 else a2))
                    (at_source (if n = 0 \<or> restart \<noteq> None then a1 else a2))) )"
proof -
  obtain cs e where r: "run_events True stateful budget 0 (at_events a1) (at_source a1) = (cs, e)" by (meson surj_pair)
  obtain cs2 e2 where r2: "run_events False stateful budget 0 (at_events a2) (at_source a2) = (cs2, e2)" by (meson surj_pair)
  have e2: "e2 \<noteq> RetryEmpty" using no_second_retry [of stateful budget 0 "at_events a2" "at_source a2"] r2 by simp
  show ?thesis
  proof (cases "e = RetryEmpty")
    case True
    then have cs: "cs = []" using retry_is_empty [of True stateful budget 0 "at_events a1" "at_source a1"] r by simp
    have "fst (run_events False stateful budget 0 (at_events a1) (at_source a1)) = []"
      if "run_events True stateful budget 0 es src = ([], RetryEmpty)" "es = at_events a1" "src = at_source a1" for es src
      using that empty_either_way [of stateful budget 0 es src] by simp
    then show ?thesis using r r2 e2 True cs by (auto simp: stream_single_def split: option.splits)
  next
    case False
    then show ?thesis using r by (auto simp: stream_single_def split: loop_end.splits)
  qed
qed

text \<open>Files of one format are joined with the pauses between them.\<close>

lemma concat_frames_interleave:
  "xs \<noteq> [] \<Longrightarrow> (\<And>x. x \<in> set xs \<Longrightarrow> wv_format (w x) = f) \<Longrightarrow>
     concat_frames f (map p (butlast xs)) (map w xs)
     = Some (concat (map (\<lambda>x. wv_frames (w x) @ silence f (p x)) (butlast xs)) @ wv_frames (w (last xs)))"
proof (induction xs)
  case (Cons x xs)
  show ?case
  proof (cases xs)
    case (Cons y ys)
    then show ?thesis using Cons.IH Cons.prems by simp
  qed (use Cons.prems in simp)
qed simp

text \<open>
  C8: let the backend be loaded and use the worker with a stateful vocoder, and let every segment of
  a text of several segments be answered the same way to both endpoints, with whole samples and a
  positive rate, the same for all. Then the audio of \<open>/tts/stream\<close> is that of the segments one
  after the other, and the file \<open>synthesize\<close> returns is at the worker's rate and has the same
  audio, with each segment but the last followed by its pause and nothing else.
\<close>

theorem stream_and_file_agree:
  assumes "1 < length segs" and "0 < rate"
    and "\<forall>s \<in> set segs. single_audio True (answer s) = Inr (pcm s) \<and> even (length (pcm s)) \<and> single_rate True (answer s) = rate"
  shows "generate_streaming True answer (Some segs) text = (concat (map pcm segs), None) \<and>
    synthesize True True True pause hard_pause answer (Some segs) text
      = Inr (Audio \<lparr>wv_format = pcm16_format rate,
          wv_frames = concat (map (\<lambda>s. pcm s @ silence (pcm16_format rate) (segment_pause_ms pause hard_pause s)) (butlast segs)) @ pcm (last segs)\<rparr>)"
proof -
  define w where "w = (\<lambda>s. \<lparr>wv_format = pcm16_format rate, wv_frames = pcm s\<rparr>)"
  define joined where "joined =
    concat (map (\<lambda>s. pcm s @ silence (pcm16_format rate) (segment_pause_ms pause hard_pause s)) (butlast segs)) @ pcm (last segs)"
  have "stream_segments (\<lambda>s. single_audio True (answer s)) ss = (concat (map pcm ss), None)" if "set ss \<subseteq> set segs" for ss
    using that assms(3) by (induction ss) auto
  from this [of segs] have stream: "generate_streaming True answer (Some segs) text = (concat (map pcm segs), None)"
    using assms(1) by (simp add: generate_streaming_def)
  have parts: "synthesize_parts (\<lambda>s. synthesize_single True True (answer s)) ss = Inr (map Some (map w ss))" if "set ss \<subseteq> set segs" for ss
    using that assms(2,3)
    by (induction ss) (auto simp: synthesize_single_def synthesize_worker_def synthesize_via_stream_def pcm16_to_wav_def w_def)
  obtain x y zs where x: "segs = x # y # zs" using assms(1) by (cases segs; cases "tl segs") auto
  then have ne: "segs \<noteq> []" by simp
  have "concat_frames (pcm16_format rate) (map (segment_pause_ms pause hard_pause) (butlast segs)) (map w segs) = Some joined"
    using concat_frames_interleave [OF ne, of w "pcm16_format rate" "segment_pause_ms pause hard_pause"] by (simp add: w_def joined_def)
  then have "concat_wav_bytes (map Some (map w segs)) (map (segment_pause_ms pause hard_pause) (butlast segs))
      = Audio \<lparr>wv_format = pcm16_format rate, wv_frames = joined\<rparr>"
    unfolding concat_wav_bytes_def some_parts by (simp add: x w_def del: concat_frames.simps)
  then have "synthesize True True True pause hard_pause answer (Some segs) text
      = Inr (Audio \<lparr>wv_format = pcm16_format rate, wv_frames = joined\<rparr>)"
    using assms(1) parts [of segs] by (simp add: synthesize_def synthesize_segments_def Let_def del: map_map)
  with stream show ?thesis by (simp add: joined_def)
qed

definition sample_reply :: reply where
  "sample_reply =
     \<lparr>rp_refused = None,
      rp_first = \<lparr>at_events =
          [\<lparr>te_kind = ''chunk'', te_ok = True, te_base64 = True, te_audio = [1, 0], te_file = None, te_wav = False, te_rate = None, te_output = None\<rparr>,
           \<lparr>te_kind = ''done'', te_ok = True, te_base64 = False, te_audio = [], te_file = None, te_wav = False, te_rate = Some 16000, te_output = None\<rparr>],
        at_source = SourceEnd\<rparr>,
      rp_restart = None, rp_second = \<lparr>at_events = [], at_source = SourceEnd\<rparr>, rp_binary = \<lparr>bn_ok = False, bn_responses = []\<rparr>\<rparr>"

theorem stream_and_file_agree_witness:
  "generate_streaming True (\<lambda>s. sample_reply) (Some [u ''one,'', u ''two'']) (u ''one, two'') = ([1, 0, 1, 0], None) \<and>
   synthesize True True True 80 120 (\<lambda>s. sample_reply) (Some [u ''one,'', u ''two'']) (u ''one, two'')
   = Inr (Audio \<lparr>wv_format = pcm16_format 16000, wv_frames = [1, 0] @ replicate 2560 0 @ [1, 0]\<rparr>)"
proof -
  have a: "single_audio True sample_reply = Inr [1, 0] \<and> even (length ([1, 0] :: nat list)) \<and> single_rate True sample_reply = 16000"
    by (simp add: sample_reply_def single_audio_def single_rate_def stream_single_def stream_result_def chunk_of_def meta_rate_def)
  have "silence (pcm16_format 16000) (segment_pause_ms 80 120 (u ''one,'')) = replicate 2560 0"
    by (simp add: silence_def pcm16_format_def segment_pause_ms_def ends_in_def u_def py_isspace_def strip_while_def)
  then show ?thesis
    using stream_and_file_agree [of "[u ''one,'', u ''two'']" 16000 "\<lambda>s. sample_reply" "\<lambda>s. [1, 0]" "u ''one, two''" 80 120] a
    by simp
qed

text \<open>Segments whose answers disagree on the rate cannot be joined, though they are streamed; and
  without a stateful vocoder the file's format is whatever the worker wrote.\<close>

lemma mixed_rates_refused:
  assumes "r1 \<noteq> r2" "0 < r1" "0 < r2" "single_audio True a1 = Inr p1" "single_rate True a1 = r1" "single_audio True a2 = Inr p2"
    "single_rate True a2 = r2" "s1 \<noteq> s2"
  shows "synthesize True True True pause hard_pause (\<lambda>s. if s = s1 then a1 else a2) (Some [s1, s2]) text = Inr FormatError"
    "generate_streaming True (\<lambda>s. if s = s1 then a1 else a2) (Some [s1, s2]) text = (p1 @ p2, None)"
  using assms
  by (simp_all add: synthesize_def synthesize_segments_def synthesize_single_def synthesize_worker_def synthesize_via_stream_def
      pcm16_to_wav_def concat_wav_bytes_def pcm16_format_def generate_streaming_def)

text \<open>The alias \<open>sid\<close> works when streaming, where no \<open>speaker_id\<close> is passed, but not in \<open>synthesize\<close>,
  which always passes one.\<close>

theorem alias_ignored_for_files:
  "requested_speaker None (Some (Some 7)) = Some 7" "requested_speaker (Some None) (Some (Some 7)) = None"
  by (simp_all add: requested_speaker_def)

text \<open>A profile's concurrency is announced but not given to the worker.\<close>

theorem profile_concurrency_not_used:
  "max_concurrent (edge_capability Map.empty (Some (PInt 4, None))) = Some 4" "worker_concurrency Map.empty = Some 1"
  by (simp_all add: edge_capability_def py_int_of_def worker_concurrency_def env_get_def py_int_def strip_by_def sspace_def Let_def digit_val_def py_isspace_def)

end
