(* ===== verification/Asr_Service.thy ===== *)
theory Asr_Service
  imports Vad Session_Limiter Backend_Manager Api_Auth Tts_Speakers Qwen3_Decode
begin

text \<open>
  The recognition endpoints of \<open>app/main.py\<close>: \<open>POST /asr\<close> and \<open>WebSocket /asr/stream\<close> with its handler
  \<open>_asr_stream_backend\<close>. A connection is one coroutine, so its handler is a function of the messages it
  receives. The recognition stream is a parameter (its operations may raise), as are the voice
  detector, JSON and the conversion of bytes to samples. A message sent to a client that has
  left is lost. Metrics and the request's log context are left out.
\<close>

section \<open>What a connection works with\<close>

type_synonym failure = string

record ('s, 'a) asr_backend =
  ab_create :: "nat \<Rightarrow> 's option"
  ab_accept :: "'a list \<Rightarrow> 's \<Rightarrow> failure option \<times> 's"
  ab_prepare :: "'s \<Rightarrow> failure option \<times> 's"
  ab_finalize :: "'s \<Rightarrow> (failure + ustr \<times> ustr option) \<times> 's"
  ab_force :: "('s \<Rightarrow> (failure + ustr) \<times> 's) option"
  ab_partial :: "'s \<Rightarrow> ustr \<times> bool"
  ab_has_close :: bool

datatype asr_frame =
    ResetFrame
  | FinalText ustr "ustr option" bool
  | VadEndpoint
  | PartialText ustr
  | ErrorFrame failure
  | NoStreaming

text \<open>A received message: its text and its bytes, each absent, \<open>None\<close> or a value. A disconnect has
  neither.\<close>

record asr_message =
  am_text :: "ustr option"
  am_bytes :: "nat list option option"
  am_disconnect :: bool

record ('s, 'v) asr_conn =
  sc_stream :: 's
  sc_id :: nat
  sc_created :: nat
  sc_vad :: "'v option"
  sc_sent :: "asr_frame list"
  sc_closed :: "nat list"
  sc_gone :: bool
  sc_finals :: nat

datatype progress = Going | Stopped | Raised failure

definition send_frame :: "asr_frame \<Rightarrow> ('s, 'v) asr_conn \<Rightarrow> ('s, 'v) asr_conn" where
  "send_frame f c = (if sc_gone c then c else c\<lparr>sc_sent := sc_sent c @ [f]\<rparr>)"

definition close_stream :: "('s, 'a) asr_backend \<Rightarrow> ('s, 'v) asr_conn \<Rightarrow> ('s, 'v) asr_conn" where
  "close_stream b c = (if ab_has_close b then c\<lparr>sc_closed := sc_closed c @ [sc_id c]\<rparr> else c)"

text \<open>\<open>prepare_finalize\<close> and \<open>finalize\<close>, with the frame to send.\<close>

definition final_frame :: "bool \<Rightarrow> ustr \<times> ustr option \<Rightarrow> asr_frame" where
  "final_frame vad r = FinalText (fst r) (if snd r = Some [] then None else snd r) vad"

definition run_finalize ::
  "('s, 'a) asr_backend \<Rightarrow> ('s, 'v) asr_conn \<Rightarrow> (failure + ustr \<times> ustr option) \<times> ('s, 'v) asr_conn" where
  "run_finalize b c =
     (case ab_prepare b (sc_stream c) of
        (Some e, st) \<Rightarrow> (Inl e, c\<lparr>sc_stream := st\<rparr>)
      | (None, st) \<Rightarrow>
          (case ab_finalize b st of
             (r, st1) \<Rightarrow> (r, c\<lparr>sc_stream := st1, sc_finals := sc_finals c + 1\<rparr>)))"

section \<open>Messages\<close>

definition reset_stream :: "('s, 'a) asr_backend \<Rightarrow> ('s, 'v) asr_conn \<Rightarrow> progress \<times> ('s, 'v) asr_conn" where
  "reset_stream b c =
     (let c1 = close_stream b c in
      case ab_create b (sc_created c1) of
        None \<Rightarrow> (Raised ''CreateError'', c1)
      | Some st \<Rightarrow>
          (Going, send_frame ResetFrame (c1\<lparr>sc_stream := st, sc_id := sc_created c1, sc_created := sc_created c1 + 1\<rparr>)))"

definition end_utterance :: "('s, 'a) asr_backend \<Rightarrow> ('s, 'v) asr_conn \<Rightarrow> progress \<times> ('s, 'v) asr_conn" where
  "end_utterance b c =
     (case ab_force b of
        Some force \<Rightarrow>
          (case force (sc_stream c) of
             (Inl e, st) \<Rightarrow> (Raised e, c\<lparr>sc_stream := st\<rparr>)
           | (Inr t, st) \<Rightarrow> (Going, send_frame (final_frame False (t, None)) (c\<lparr>sc_stream := st\<rparr>)))
      | None \<Rightarrow>
          (case run_finalize b c of
             (Inl e, c1) \<Rightarrow> (Raised e, c1)
           | (Inr r, c1) \<Rightarrow> (Going, send_frame (final_frame False r) c1)))"

text \<open>\<open>(cmd.get("type") or "").lower()\<close> raises on a truthy value that is no text.\<close>

definition is_eou :: "fields \<Rightarrow> failure + bool" where
  "is_eou cmd =
     (case map_of cmd ''type'' of
        None \<Rightarrow> Inr False
      | Some (VStr t) \<Rightarrow> Inr (ascii_lower t = u ''eou'')
      | Some v \<Rightarrow> if json_truthy v then Inl ''AttributeError'' else Inr False)"

definition handle_command :: "('s, 'a) asr_backend \<Rightarrow> json option \<Rightarrow> ('s, 'v) asr_conn \<Rightarrow> progress \<times> ('s, 'v) asr_conn" where
  "handle_command b parsed c =
     (case parsed of
        None \<Rightarrow> (Going, c)
      | Some (VObj cmd) \<Rightarrow>
          if map_of cmd ''command'' = Some (VStr (u ''reset'')) then reset_stream b c
          else if map_of cmd ''command'' = Some (VStr (u ''end_utterance'')) then end_utterance b c
          else (case is_eou cmd of
                  Inl e \<Rightarrow> (Raised e, c)
                | Inr eou \<Rightarrow> if eou then end_utterance b c else (Going, c))
      | Some _ \<Rightarrow> (Raised ''AttributeError'', c))"

definition end_of_audio :: "('s, 'a) asr_backend \<Rightarrow> ('s, 'v) asr_conn \<Rightarrow> progress \<times> ('s, 'v) asr_conn" where
  "end_of_audio b c =
     (case run_finalize b c of
        (Inl e, c1) \<Rightarrow> (Raised e, c1)
      | (Inr r, c1) \<Rightarrow> (Stopped, send_frame (final_frame False r) c1))"

definition vad_end :: "('s, 'a) asr_backend \<Rightarrow> ('s, 'v) asr_conn \<Rightarrow> progress \<times> ('s, 'v) asr_conn" where
  "vad_end b c =
     (case run_finalize b (send_frame VadEndpoint c) of
        (Inl e, c1) \<Rightarrow> (Raised e, c1)
      | (Inr r, c1) \<Rightarrow> (Stopped, send_frame (final_frame True r) c1))"

definition tell_partial :: "('s, 'a) asr_backend \<Rightarrow> ('s, 'v) asr_conn \<Rightarrow> ('s, 'v) asr_conn" where
  "tell_partial b c =
     (case ab_partial b (sc_stream c) of
        (t, endpoint) \<Rightarrow>
          if t = [] then c
          else if endpoint then send_frame (FinalText t None False) c else send_frame (PartialText t) c)"

definition handle_audio ::
  "('a list \<Rightarrow> 'v \<Rightarrow> vad_event option \<times> 'v) \<Rightarrow> ('s, 'a) asr_backend \<Rightarrow> 'a list \<Rightarrow> ('s, 'v) asr_conn \<Rightarrow> progress \<times> ('s, 'v) asr_conn" where
  "handle_audio process b samples c =
     (case ab_accept b samples (sc_stream c) of
        (Some e, st) \<Rightarrow> (Raised e, c\<lparr>sc_stream := st\<rparr>)
      | (None, st) \<Rightarrow>
          (let c1 = c\<lparr>sc_stream := st\<rparr> in
           case sc_vad c1 of
             None \<Rightarrow> (Going, tell_partial b c1)
           | Some v \<Rightarrow>
               (case process samples v of
                  (ev, v1) \<Rightarrow>
                    (let c2 = c1\<lparr>sc_vad := Some v1\<rparr>
                     in if ev = Some SpeechEnd then vad_end b c2 else (Going, tell_partial b c2)))))"

text \<open>\<open>loads\<close> is \<open>json.loads\<close>; \<open>pcm\<close> makes samples of bytes, \<open>None\<close> for an odd number of them. A message
  without a \<open>bytes\<close> key counts as empty bytes, which are the end of the audio.\<close>

definition handle_message ::
  "(ustr \<Rightarrow> json option) \<Rightarrow> (nat list \<Rightarrow> 'a list option) \<Rightarrow> ('a list \<Rightarrow> 'v \<Rightarrow> vad_event option \<times> 'v)
    \<Rightarrow> ('s, 'a) asr_backend \<Rightarrow> asr_message \<Rightarrow> ('s, 'v) asr_conn \<Rightarrow> progress \<times> ('s, 'v) asr_conn" where
  "handle_message loads pcm process b msg c0 =
     (let c = c0\<lparr>sc_gone := sc_gone c0 \<or> am_disconnect msg\<rparr> in
      case am_text msg of
        Some (x # xs) \<Rightarrow> handle_command b (loads (x # xs)) c
      | _ \<Rightarrow>
          (case am_bytes msg of
             Some None \<Rightarrow> (Stopped, c)
           | None \<Rightarrow> end_of_audio b c
           | Some (Some []) \<Rightarrow> end_of_audio b c
           | Some (Some (y # ys)) \<Rightarrow>
               (case pcm (y # ys) of
                  None \<Rightarrow> (Raised ''ValueError'', c)
                | Some samples \<Rightarrow> handle_audio process b samples c)))"

fun receive_loop ::
  "(ustr \<Rightarrow> json option) \<Rightarrow> (nat list \<Rightarrow> 'a list option) \<Rightarrow> ('a list \<Rightarrow> 'v \<Rightarrow> vad_event option \<times> 'v)
    \<Rightarrow> ('s, 'a) asr_backend \<Rightarrow> asr_message list \<Rightarrow> ('s, 'v) asr_conn \<Rightarrow> progress \<times> ('s, 'v) asr_conn" where
  "receive_loop loads pcm process b [] c = (Going, c)"
| "receive_loop loads pcm process b (m # ms) c =
     (case handle_message loads pcm process b m c of
        (Going, c1) \<Rightarrow> receive_loop loads pcm process b ms c1
      | r \<Rightarrow> r)"

text \<open>The \<open>except\<close> and \<open>finally\<close> clauses; a handler that still waits is ended by a cancellation.\<close>

definition finish_stream :: "('s, 'a) asr_backend \<Rightarrow> progress \<times> ('s, 'v) asr_conn \<Rightarrow> ('s, 'v) asr_conn" where
  "finish_stream b r =
     (case r of
        (Raised e, c) \<Rightarrow> close_stream b (send_frame (ErrorFrame e) c)
      | (_, c) \<Rightarrow> close_stream b c)"

text \<open>\<open>_asr_stream_backend\<close>; the first \<open>create_stream\<close> stands before the \<open>try\<close>.\<close>

definition asr_stream_backend ::
  "(ustr \<Rightarrow> json option) \<Rightarrow> (nat list \<Rightarrow> 'a list option) \<Rightarrow> ('a list \<Rightarrow> 'v \<Rightarrow> vad_event option \<times> 'v)
    \<Rightarrow> ('s, 'a) asr_backend \<Rightarrow> 'v option \<Rightarrow> asr_message list \<Rightarrow> (failure + ('s, 'v) asr_conn)" where
  "asr_stream_backend loads pcm process b vad msgs =
     (case ab_create b 0 of
        None \<Rightarrow> Inl ''CreateError''
      | Some st \<Rightarrow>
          Inr (finish_stream b (receive_loop loads pcm process b msgs
            \<lparr>sc_stream = st, sc_id = 0, sc_created = 1, sc_vad = vad, sc_sent = [], sc_closed = [], sc_gone = False, sc_finals = 0\<rparr>)))"

section \<open>The endpoint\<close>

definition default_vad_backend :: "string option \<Rightarrow> string" where
  "default_vad_backend env =
     (let s = sstrip (case env of Some (c # cs) \<Rightarrow> c # cs | _ \<Rightarrow> ''silero'') in if s = [] then ''silero'' else s)"

definition default_vad_silence_ms :: "string option \<Rightarrow> int" where
  "default_vad_silence_ms env =
     (case py_int (case env of Some (c # cs) \<Rightarrow> c # cs | _ \<Rightarrow> ''400'') of None \<Rightarrow> 400 | Some n \<Rightarrow> max 0 n)"

definition wants_vad :: "string option \<Rightarrow> string option \<Rightarrow> bool" where
  "wants_vad query env =
     (let b = (case query of Some q \<Rightarrow> q | None \<Rightarrow> default_vad_backend env)
      in b \<noteq> [] \<and> b \<notin> set [''none'', ''off'', ''disabled''])"

datatype call_end = AuthFailed | NotAdmitted int | SetupRaised | NoBackend | Served

text \<open>\<open>asr_stream\<close>: the key, the slot, the registration with the manager of the recogniser if it is
  ready, the backend (whose checks may raise: \<open>None\<close>), and the handler, whatever its end. What
  the handler does to the limiter and the manager in the meantime is the rest of the process
  (\<open>meanwhile\<close>).\<close>

definition asr_stream ::
  "auth_result \<Rightarrow> nat \<Rightarrow> bool option \<Rightarrow> (limiter \<times> backend_manager option \<Rightarrow> limiter \<times> backend_manager option)
     \<Rightarrow> limiter \<times> backend_manager option \<Rightarrow> call_end \<times> (limiter \<times> backend_manager option)" where
  "asr_stream auth handle usable meanwhile s =
     (if auth \<noteq> Admitted then (AuthFailed, s)
      else (case try_acquire_ws True True (Some (fst s)) of
              (Inr tok, Some lim) \<Rightarrow>
                (let ready = (case snd s of None \<Rightarrow> False | Some m \<Rightarrow> is_ready m);
                     mgr = (if ready then map_option (register_ws handle) (snd s) else snd s)
                 in case usable of
                      None \<Rightarrow> (SetupRaised, (lim, mgr))
                    | Some ok \<Rightarrow>
                        (case meanwhile (lim, mgr) of
                           (lim1, mgr1) \<Rightarrow>
                             (if ok then Served else NoBackend,
                              (release True tok lim1, if ready then map_option (unregister_ws handle) mgr1 else mgr1))))
            | (Inl (WsClose code _), Some lim) \<Rightarrow> (NotAdmitted code, (lim, snd s))
            | (_, None) \<Rightarrow> (NotAdmitted 1011, s)))"

text \<open>\<open>_asr_impl\<close>: through the manager when it is ready, else on the backend that is there.\<close>

datatype asr_answer = Transcript ustr "ustr option" | AsrUnavailable | AsrRaised

definition asr_impl ::
  "(nat list \<Rightarrow> (ustr \<times> ustr option) option) \<Rightarrow> nat list \<Rightarrow> bool \<Rightarrow> backend_manager option \<Rightarrow> asr_answer \<times> backend_manager option" where
  "asr_impl transcribe audio backend_ready mgr =
     (let answer = (case transcribe audio of None \<Rightarrow> AsrRaised | Some (t, l) \<Rightarrow> Transcript t l) in
      case mgr of
        Some m \<Rightarrow>
          (if is_ready m
           then (case Backend_Manager.acquire m of
                   (Inl e, m1) \<Rightarrow> (AsrRaised, Some m1)
                 | (Inr b, m1) \<Rightarrow> (answer, Some (release_request (length (bm_inflight m)) m1)))
           else (if backend_ready then answer else AsrUnavailable, mgr))
      | None \<Rightarrow> (if backend_ready then answer else AsrUnavailable, None))"

section \<open>Every stream is closed\<close>

definition books_kept :: "('s, 'a) asr_backend \<Rightarrow> ('s, 'v) asr_conn \<Rightarrow> bool" where
  "books_kept b c \<longleftrightarrow> sc_created c = Suc (sc_id c) \<and> sc_closed c = (if ab_has_close b then [0..<sc_id c] else [])"

definition books_after :: "('s, 'a) asr_backend \<Rightarrow> progress \<times> ('s, 'v) asr_conn \<Rightarrow> bool" where
  "books_after b r \<longleftrightarrow>
     books_kept b (snd r)
     \<or> (\<exists>e. fst r = Raised e) \<and> ab_create b (sc_created (snd r)) = None \<and> sc_created (snd r) = Suc (sc_id (snd r))
        \<and> sc_closed (snd r) = (if ab_has_close b then [0..<sc_created (snd r)] else [])"

lemma send_frame_books [simp]:
  "books_kept b (send_frame f c) = books_kept b c" "sc_vad (send_frame f c) = sc_vad c" "sc_stream (send_frame f c) = sc_stream c"
  "sc_gone (send_frame f c) = sc_gone c"
  by (simp_all add: books_kept_def send_frame_def)

lemma books_updates [simp]:
  "books_kept b (c\<lparr>sc_stream := st\<rparr>) = books_kept b c" "books_kept b (c\<lparr>sc_vad := v\<rparr>) = books_kept b c"
  "books_kept b (c\<lparr>sc_gone := g\<rparr>) = books_kept b c"
  by (simp_all add: books_kept_def)

lemma finalize_frame_books:
  assumes "run_finalize b c = (r, c1)"
  shows "books_kept b c1 = books_kept b c" "sc_sent c1 = sc_sent c" "sc_gone c1 = sc_gone c"
  using assms by (auto simp: run_finalize_def books_kept_def split: prod.splits option.splits)

lemma kept_after: "books_kept b (snd r) \<Longrightarrow> books_after b r"
  by (simp add: books_after_def)

lemma handle_books:
  assumes "books_kept b c"
  shows "books_after b (handle_message loads pcm process b m c)"
proof -
  define c' where "c' = c\<lparr>sc_gone := sc_gone c \<or> am_disconnect m\<rparr>"
  have k: "books_kept b c'" using assms by (simp add: c'_def)
  note kept = kept_after
  have fin: "books_after b (case run_finalize b x of (Inl e, c1) \<Rightarrow> (Raised e, c1) | (Inr r, c1) \<Rightarrow> (p, send_frame (f r) c1))"
    if "books_kept b x" for x p f
    using that finalize_frame_books(1) [of b x] by (intro kept) (auto split: prod.splits sum.splits)
  have end_: "books_after b (end_of_audio b c')" "books_after b (vad_end b x)" if "books_kept b x" for x
    using k that by (auto simp: end_of_audio_def vad_end_def intro: fin)
  have eou: "books_after b (end_utterance b c')"
    using k fin [OF k] by (auto simp: end_utterance_def intro: kept split: option.splits prod.splits sum.splits)
  have reset: "books_after b (reset_stream b c')"
    using k by (auto simp: reset_stream_def books_after_def close_stream_def Let_def books_kept_def send_frame_def split: option.splits)
  have cmd: "books_after b (handle_command b parsed c')" for parsed
    using reset eou k by (auto simp: handle_command_def intro: kept split: option.splits json.splits sum.splits)
  have tell: "books_kept b (tell_partial b x) = books_kept b x" for x by (simp add: tell_partial_def split: prod.split)
  have audio: "books_after b (handle_audio process b samples c')" for samples
    unfolding handle_audio_def
    using k by (auto simp: Let_def tell intro: kept end_(2) split: option.splits prod.splits)
  show ?thesis
    unfolding handle_message_def Let_def c'_def [symmetric]
    using cmd audio end_(1) [OF k] k by (auto intro: kept split: option.splits list.splits)
qed

lemma loop_books: "books_kept b c \<Longrightarrow> books_after b (receive_loop loads pcm process b ms c)"
proof (induction ms arbitrary: c)
  case (Cons m ms)
  obtain p c1 where h: "handle_message loads pcm process b m c = (p, c1)" by (meson surj_pair)
  then show ?case using handle_books [OF Cons.prems, of loads pcm process m] Cons.IH [of c1]
    by (cases p) (auto simp: books_after_def)
qed (simp add: books_after_def)

text \<open>
  C13: whatever a client sends and whatever its stream raises, every recognition stream the
  connection opened is closed when the handler ends, in order, each once; only when a reset
  could not open a new stream the last one is closed a second time.
\<close>

theorem streams_are_closed:
  assumes "asr_stream_backend loads pcm process b vad msgs = Inr c" "ab_has_close b"
  shows "sc_closed c = [0..<sc_created c]
    \<or> ab_create b (sc_created c) = None \<and> sc_closed c = [0..<sc_created c] @ [sc_created c - 1]"
proof -
  obtain st where "ab_create b 0 = Some st" using assms(1) by (auto simp: asr_stream_backend_def split: option.splits)
  define c0 where "c0 = \<lparr>sc_stream = st, sc_id = 0, sc_created = 1, sc_vad = vad, sc_sent = [], sc_closed = [], sc_gone = False, sc_finals = 0\<rparr>"
  obtain p c1 where l: "receive_loop loads pcm process b msgs c0 = (p, c1)" by (meson surj_pair)
  have c: "c = finish_stream b (p, c1)"
    using assms(1) \<open>ab_create b 0 = Some st\<close> l by (simp add: asr_stream_backend_def c0_def)
  have "books_after b (p, c1)" using loop_books [of b c0] l by (metis books_kept_def c0_def asr_conn.select_convs(2,3,6) One_nat_def upt_0 upt_rec less_irrefl)
  then show ?thesis
    using assms(2) unfolding c
    by (cases p) (auto simp: books_after_def books_kept_def finish_stream_def close_stream_def send_frame_def)
qed

text \<open>A backend that answers every chunk, can open one stream only and hears a reset.\<close>

definition one_stream :: "(nat, nat) asr_backend" where
  "one_stream = \<lparr>ab_create = (\<lambda>n. if n = 0 then Some 0 else None), ab_accept = (\<lambda>x s. (None, s + length x)),
    ab_prepare = (\<lambda>s. (None, s)), ab_finalize = (\<lambda>s. (Inr ([], None), s)), ab_force = None,
    ab_partial = (\<lambda>s. ([], False)), ab_has_close = True\<rparr>"

definition reset_message :: asr_message where
  "reset_message = \<lparr>am_text = Some [123], am_bytes = Some None, am_disconnect = False\<rparr>"

definition end_message :: asr_message where
  "end_message = \<lparr>am_text = None, am_bytes = Some (Some []), am_disconnect = False\<rparr>"

lemmas one_stream_run = asr_stream_backend_def one_stream_def reset_message_def end_message_def handle_message_def
  handle_command_def reset_stream_def close_stream_def finish_stream_def send_frame_def end_of_audio_def run_finalize_def
  final_frame_def Let_def

lemma streams_are_closed_witness:
  "(case asr_stream_backend (\<lambda>_. Some (VObj [(''command'', VStr (u ''reset''))])) Some (\<lambda>_ (v :: unit). (None, v))
      one_stream None [reset_message, end_message] of
      Inr c \<Rightarrow> sc_closed c = [0..<sc_created c]
        \<or> ab_create one_stream (sc_created c) = None \<and> sc_closed c = [0..<sc_created c] @ [sc_created c - 1]
    | Inl _ \<Rightarrow> False)"
proof -
  have "isl (asr_stream_backend (\<lambda>_. Some (VObj [(''command'', VStr (u ''reset''))])) Some (\<lambda>_ (v :: unit). (None, v))
      one_stream None [reset_message, end_message]) = False" "ab_has_close one_stream"
    by (simp_all add: asr_stream_backend_def one_stream_def)
  then show ?thesis
    by (auto split: sum.split dest!: streams_are_closed)
qed

section \<open>What a client sees\<close>

text \<open>A connection hears at most one final that ends it: the loop stops at the end of the audio, at a
  disconnect and at the first silence the voice detector reports.\<close>

lemma command_goes_on: "handle_command b p x \<noteq> (Stopped, c1)"
  by (auto simp: handle_command_def reset_stream_def end_utterance_def Let_def
      split: option.split json.split sum.split prod.split)

lemma stopped_by_final:
  assumes "handle_message loads pcm process b m c = (Stopped, c1)" "\<not> sc_gone c1"
  shows "am_bytes m = Some None \<and> sc_sent c1 = sc_sent c \<or> (\<exists>r vad. last (sc_sent c1) = final_frame vad r \<and> sc_sent c1 \<noteq> [])"
proof -
  have fin: "(\<exists>r vad. last (sc_sent c1) = final_frame vad r \<and> sc_sent c1 \<noteq> [])"
    if "(case run_finalize b x of (Inl e, c1) \<Rightarrow> (Raised e, c1) | (Inr r, c1) \<Rightarrow> (Stopped, send_frame (final_frame vad r) c1)) = (Stopped, c1)" for x vad
  proof -
    have "\<exists>a l y. c1 = send_frame (final_frame vad (a, l)) y"
      using that by (cases "run_finalize b x"; cases "fst (run_finalize b x)") auto
    then obtain a l y where "c1 = send_frame (final_frame vad (a, l)) y" by blast
    moreover from this have "\<not> sc_gone y" using assms(2) by simp
    ultimately have "sc_sent c1 = sc_sent y @ [final_frame vad (a, l)]" by (simp add: send_frame_def)
    then show ?thesis by (intro exI [of _ "(a, l)"] exI [of _ vad]) simp
  qed
  have audio: "\<exists>r vad. last (sc_sent c1) = final_frame vad r \<and> sc_sent c1 \<noteq> []"
    if "handle_audio process b samples x = (Stopped, c1)" for samples x
    using that fin by (auto simp: handle_audio_def vad_end_def Let_def split: prod.splits option.splits if_splits)
  let ?x = "c\<lparr>sc_gone := sc_gone c \<or> am_disconnect m\<rparr>"
  show ?thesis
  proof (cases "\<exists>x xs. am_text m = Some (x # xs)")
    case True
    then show ?thesis using assms(1) by (auto simp: handle_message_def command_goes_on)
  next
    case False
    show ?thesis
    proof (cases "am_bytes m")
      case (Some d)
      show ?thesis
      proof (cases d)
        case None
        then show ?thesis using False Some assms by (auto simp: handle_message_def Let_def split: option.splits list.splits)
      next
        case (Some ys)
        then show ?thesis using False \<open>am_bytes m = Some d\<close> assms(1) fin audio
          by (fastforce simp: handle_message_def Let_def end_of_audio_def split: option.splits list.splits)
      qed
    next
      case None
      then show ?thesis using False assms(1) fin
        by (fastforce simp: handle_message_def Let_def end_of_audio_def split: option.splits list.splits)
    qed
  qed
qed

section \<open>Departures\<close>

text \<open>A disconnect has no \<open>bytes\<close> key, so it is taken for the end of the audio and the whole
  utterance is still decoded for nobody.\<close>

lemma disconnect_still_decodes:
  assumes "am_text m = None" "am_bytes m = None" "am_disconnect m" "fst (ab_prepare b (sc_stream c)) = None"
  shows "sc_finals (snd (handle_message loads pcm process b m c)) = sc_finals c + 1"
    "sc_sent (snd (handle_message loads pcm process b m c)) = sc_sent c"
  using assms
  by (auto simp: handle_message_def end_of_audio_def run_finalize_def send_frame_def Let_def split: prod.split sum.split)

text \<open>An empty text frame ends the audio too.\<close>

lemma empty_text_ends_audio:
  assumes "am_text m = Some []" "am_bytes m = None" "\<not> am_disconnect m"
  shows "handle_message loads pcm process b m c = end_of_audio b c"
proof -
  have "c\<lparr>sc_gone := sc_gone c\<rparr> = c" by simp
  with assms show ?thesis by (simp add: handle_message_def)
qed

text \<open>A text frame that is JSON but no object ends the session; one that is no JSON is ignored.\<close>

lemma list_command_ends_session:
  assumes "am_text m = Some (x # xs)" "loads (x # xs) = Some v" "\<nexists>cmd. v = VObj cmd"
  shows "fst (handle_message loads pcm process b m c) = Raised ''AttributeError''"
  using assms by (auto simp: handle_message_def handle_command_def Let_def split: json.split)

text \<open>A reset opens a new stream but keeps the detector: speech it heard before the reset still ends
  the session at the next silence.\<close>

lemma reset_keeps_vad: "sc_vad (snd (reset_stream b c)) = sc_vad c"
  by (simp add: reset_stream_def close_stream_def send_frame_def Let_def split: option.split)

text \<open>On a stream that accumulates its audio an \<open>end_utterance\<close> clears nothing: the next final repeats
  the audio of the utterance before.\<close>

definition accumulating :: "('a list \<Rightarrow> ustr) \<Rightarrow> ('a accumulator, 'a) asr_backend" where
  "accumulating transcribe = \<lparr>ab_create = (\<lambda>_. Some \<lparr>ac_chunks = [], ac_cancelled = False, ac_cache = []\<rparr>),
     ab_accept = (\<lambda>x s. (None, accumulator_accept x s)), ab_prepare = (\<lambda>s. (None, s)),
     ab_finalize = (\<lambda>s. (Inr (accumulator_finalize transcribe s, None), s)), ab_force = None,
     ab_partial = (\<lambda>_. ([], False)), ab_has_close = False\<rparr>"

lemma end_utterance_repeats_audio:
  assumes "\<not> ac_cancelled (sc_stream c)" "ac_chunks (sc_stream c) \<noteq> []" "sc_vad c = None" "\<not> sc_gone c"
  shows "sc_sent (snd (end_utterance (accumulating transcribe)
           (snd (handle_audio process (accumulating transcribe) x (snd (end_utterance (accumulating transcribe) c)))))) =
    sc_sent c @ [FinalText (transcribe (concat (ac_chunks (sc_stream c)))) None False,
                 FinalText (transcribe (concat (ac_chunks (sc_stream c)) @ x)) None False]"
  using assms
  by (simp add: accumulating_def end_utterance_def run_finalize_def handle_audio_def accumulator_accept_def Let_def
      accumulator_finalize_def send_frame_def final_frame_def tell_partial_def)

text \<open>What raises between the admission and the \<open>try\<close> keeps the slot; every other end gives it back.\<close>

lemma setup_raise_keeps_slot:
  assumes "active lim < limit lim"
  shows "fst (asr_stream Admitted h None meanwhile (lim, mgr)) = SetupRaised"
    "active (fst (snd (asr_stream Admitted h None meanwhile (lim, mgr)))) = active lim + 1"
  using assms by (simp_all add: asr_stream_def try_acquire_ws_def try_acquire_def Let_def)

lemma served_gives_slot_back:
  assumes "asr_stream auth h usable meanwhile (lim, mgr) = (e, (lim1, mgr1))" "e = Served \<or> e = NoBackend"
  shows "length (tokens lim) \<notin> live_tokens lim1"
  using assms
  by (auto simp: asr_stream_def try_acquire_ws_def try_acquire_def Let_def split: if_splits option.splits prod.splits)

lemma refused_takes_no_slot:
  assumes "asr_stream auth h usable meanwhile (lim, mgr) = (e, (lim1, mgr1))" "e = AuthFailed \<or> (\<exists>code. e = NotAdmitted code)"
  shows "active lim1 = active lim \<and> tokens lim1 = tokens lim \<and> mgr1 = mgr"
  using assms
  by (auto simp: asr_stream_def try_acquire_ws_def try_acquire_def Let_def split: if_splits option.splits prod.splits)

text \<open>The request's count at the manager is given back, whatever the transcription does.\<close>

lemma asr_request_leaves_manager: "snd (asr_impl transcribe audio ready mgr) = mgr"
proof -
  have [simp]: "drop_nth (length xs) (xs @ [x]) = xs" for xs :: "backend list" and x
    by (induction xs) (simp_all add: drop_nth_def)
  show ?thesis
    by (auto simp: asr_impl_def Backend_Manager.acquire_def release_request_def Let_def split: option.split)
qed

text \<open>While the manager drains for a reload its gate is closed, but the endpoints then take the backend that is
  still there: a stream is served without being registered, so the reload neither counts nor
  closes it, and an upload is transcribed uncounted.\<close>

lemma drain_serves_unregistered:
  assumes "bm_state m = DRAINING" "active lim < limit lim"
    "try_acquire_ws True True (Some lim) = (Inr tok, Some lim1)" "meanwhile (lim1, Some m) = (lim2, mgr2)"
  shows "asr_stream Admitted h (Some True) meanwhile (lim, Some m) = (Served, (release True tok lim2, mgr2))"
  using assms by (simp add: asr_stream_def is_ready_def)

lemma drain_transcribes_uncounted:
  assumes "bm_state m = DRAINING" "transcribe audio = Some (t, l)"
  shows "asr_impl transcribe audio True (Some m) = (Transcript t l, Some m)"
    "fst (Backend_Manager.acquire m) = Inl (BackendUnavailable DRAINING)"
  using assms by (auto simp: asr_impl_def is_ready_def Backend_Manager.acquire_def split: option.split)

end
