(* ===== verification/Service_Health.thy ===== *)
theory Service_Health
  imports Asr_Service
begin

text \<open>
  Around the endpoints of \<open>app/main.py\<close>: the size of the executor of streaming synthesis, what the start-up
  leaves of backends and managers, the factories through which the managers share the
  module's backends, and the readiness probe. Imports, warm-up, downloads and the log are
  left out; whether building or loading a backend raises is an argument.
\<close>

section \<open>The executor of streaming synthesis\<close>

record executor =
  ex_workers :: "int option"
  ex_resolved :: bool

definition no_executor :: executor where
  "no_executor = \<lparr>ex_workers = None, ex_resolved = False\<rparr>"

text \<open>\<open>name\<close> is the lower-case name of the synthesiser, empty while it is not ready.\<close>

definition resolve_tts_stream_max_workers :: "environ \<Rightarrow> registry \<Rightarrow> profile \<Rightarrow> string \<Rightarrow> int \<times> string option \<times> string" where
  "resolve_tts_stream_max_workers os_env tts_reg profile name = resolve_executor_for_tts os_env tts_reg profile name None"

definition get_tts_stream_executor :: "environ \<Rightarrow> registry \<Rightarrow> profile \<Rightarrow> string \<Rightarrow> executor \<Rightarrow> int \<times> executor" where
  "get_tts_stream_executor os_env tts_reg profile name ex =
     (let answer = resolve_tts_stream_max_workers os_env tts_reg profile name;
          ex1 = (if ex_workers ex \<noteq> None \<and> \<not> ex_resolved ex \<and> name \<noteq> []
                 then \<lparr>ex_workers = Some (fst answer), ex_resolved = True\<rparr> else ex);
          ex2 = (if ex_workers ex1 = None
                 then \<lparr>ex_workers = Some (fst answer), ex_resolved = (fst (snd answer) \<noteq> None)\<rparr> else ex1)
      in (the (ex_workers ex2), ex2))"

text \<open>Once a synthesiser is ready the executor has the size the resolver gives it, and keeps it: a reload that
  brings another synthesiser or another profile changes nothing.\<close>

lemma executor_name: "fst (snd (resolve_tts_stream_max_workers os_env tts_reg profile name)) = None \<longleftrightarrow> name = []"
  by (simp add: resolve_tts_stream_max_workers_def resolve_executor_for_tts_def Let_def py_lower_def)

lemma executor_follows_first_backend:
  assumes "name \<noteq> []" "\<not> ex_resolved ex" "get_tts_stream_executor os_env tts_reg profile name ex = (n, ex1)"
  shows "n = fst (resolve_executor_for_tts os_env tts_reg profile name None)" "ex_resolved ex1"
    "get_tts_stream_executor os_env2 tts_reg2 profile2 name2 ex1 = (n, ex1)"
  using assms executor_name [of os_env tts_reg profile name]
  by (auto simp: get_tts_stream_executor_def Let_def resolve_tts_stream_max_workers_def split: if_splits)

section \<open>The module's backends and the managers\<close>

text \<open>\<open>_asr_backend\<close> or \<open>tts_service._backend\<close>: none, or one that is ready or not.\<close>

type_synonym shared = "bool option"

definition shared_factory :: "bool \<Rightarrow> shared \<Rightarrow> bool \<times> shared" where
  "shared_factory create_ok b = (case b of None \<Rightarrow> if create_ok then (True, Some False) else (False, None) | Some r \<Rightarrow> (True, Some r))"

definition shared_preloader :: "bool \<Rightarrow> shared \<Rightarrow> bool \<times> shared" where
  "shared_preloader preload_ok b =
     (case b of None \<Rightarrow> (False, None) | Some r \<Rightarrow> if r then (True, Some True) else (preload_ok, Some preload_ok))"

definition shared_unloader :: "shared \<Rightarrow> shared" where
  "shared_unloader b = None"

text \<open>What a manager's build does to the shared backend, with the outcome as the manager sees it.\<close>

definition shared_build :: "bool \<Rightarrow> bool \<Rightarrow> bool \<Rightarrow> shared \<Rightarrow> build_outcome \<times> shared" where
  "shared_build create_ok preload_ok hot b =
     (case shared_factory create_ok b of
        (False, b1) \<Rightarrow> (\<lparr>bo_factory_ok = False, bo_preload_ok = False, bo_hot = hot\<rparr>, b1)
      | (True, b1) \<Rightarrow>
          (case shared_preloader preload_ok b1 of
             (ok, b2) \<Rightarrow> (\<lparr>bo_factory_ok = True, bo_preload_ok = ok, bo_hot = hot\<rparr>, b2)))"

text \<open>The ASR part of \<open>startup\<close> goes on whatever is raised; the TTS part lets it through (\<open>None\<close>).\<close>

definition startup_asr :: "bool \<Rightarrow> bool \<Rightarrow> shared" where
  "startup_asr create_ok preload_ok = (if create_ok then Some preload_ok else None)"

definition startup_tts :: "bool \<Rightarrow> bool \<Rightarrow> bool \<Rightarrow> bool \<Rightarrow> shared option" where
  "startup_tts configured lazy create_ok preload_ok =
     (if \<not> configured \<or> lazy then Some None
      else if create_ok \<and> preload_ok then Some (Some True) else None)"

definition lazy_tts :: "environ \<Rightarrow> bool" where
  "lazy_tts env = (py_lower (env_get env ''LAZY_TTS'') \<in> set [''1'', ''true'', ''yes''])"

definition is_configured :: "profile \<Rightarrow> bool" where
  "is_configured p = truthy (dget (p_top p) ''tts_backend'')"

text \<open>\<open>_initial_profile_ref\<close>: the first of the three variables that is not empty.\<close>

definition initial_profile_ref :: "environ \<Rightarrow> string option" where
  "initial_profile_ref env =
     (if env_get env ''OVS_PROFILE_JSON'' \<noteq> [] then env ''OVS_PROFILE_JSON''
      else if env_get env ''OVS_PROFILE'' \<noteq> [] then env ''OVS_PROFILE'' else env ''OVS_PROFILE_DEFAULT'')"

record managers =
  mg_asr :: backend_manager
  mg_tts :: backend_manager
  mg_asr_shared :: shared
  mg_tts_shared :: shared

text \<open>The wiring at the end of \<open>startup\<close>; a raise of the first start leaves the second undone.\<close>

definition wire_managers ::
  "bool \<Rightarrow> bool \<Rightarrow> bool \<Rightarrow> bool \<Rightarrow> loader \<Rightarrow> backend_manager \<Rightarrow> backend_manager \<Rightarrow> shared \<Rightarrow> shared \<Rightarrow> managers" where
  "wire_managers configured retry_ok asr_hot tts_hot ld asr tts ba bt =
     (let (started, asr1, ba1) =
            (if ba = None then (True, asr, ba)
             else (case shared_build True retry_ok asr_hot ba of
                     (bo, b) \<Rightarrow> (case start bo ld asr of (r, m) \<Rightarrow> (r = Started, m, b))))
      in if \<not> started then \<lparr>mg_asr = asr1, mg_tts = tts, mg_asr_shared = ba1, mg_tts_shared = bt\<rparr>
         else if configured \<and> bt = Some True
         then (case shared_build True True tts_hot bt of
                 (bo, b) \<Rightarrow> (case start bo ld tts of (_, m) \<Rightarrow>
                   \<lparr>mg_asr = asr1, mg_tts = m, mg_asr_shared = ba1, mg_tts_shared = b\<rparr>))
         else \<lparr>mg_asr = asr1, mg_tts = tts, mg_asr_shared = ba1, mg_tts_shared = bt\<rparr>)"

section \<open>Readiness\<close>

definition metrics_requires_key :: "environ \<Rightarrow> bool" where
  "metrics_requires_key env =
     (py_lower (sstrip (env_get env ''OVS_METRICS_REQUIRE_KEY'')) \<in> set [''1'', ''true'', ''yes'', ''on''])"

datatype not_ready =
    ManagerUnavailable
  | ManagerNotReady
  | LimiterMissing
  | SessionsFull
  | WatchdogFailed

definition add_reason :: "not_ready \<Rightarrow> not_ready list \<Rightarrow> not_ready list" where
  "add_reason r rs = (if r \<in> set rs then rs else rs @ [r])"

definition manager_reason :: "bool \<Rightarrow> backend_manager option \<Rightarrow> not_ready list \<Rightarrow> not_ready list" where
  "manager_reason required mgr rs =
     (if \<not> required then rs
      else (case mgr of
              None \<Rightarrow> add_reason ManagerUnavailable rs
            | Some m \<Rightarrow> if is_ready m then rs else add_reason ManagerNotReady rs))"

text \<open>\<open>readyz\<close>: no reason is a 200. \<open>ok\<close> is the watchdog's flag, \<open>None\<close> if reading it raises.\<close>

definition readyz ::
  "environ \<Rightarrow> profile \<Rightarrow> shared \<Rightarrow> backend_manager option \<Rightarrow> backend_manager option \<Rightarrow> limiter option \<Rightarrow> bool option \<Rightarrow> not_ready list" where
  "readyz env profile asr asr_mgr tts_mgr lim ok =
     (let rs = manager_reason (asr \<noteq> None) asr_mgr [];
          rs1 = manager_reason (is_configured profile \<and> \<not> lazy_tts env) tts_mgr rs;
          rs2 = (case lim of None \<Rightarrow> rs1 @ [LimiterMissing] | Some l \<Rightarrow> if available l \<le> 0 then rs1 @ [SessionsFull] else rs1)
      in if ok = Some True then rs2 else rs2 @ [WatchdogFailed])"

section \<open>A ready service serves\<close>

lemma ready_manager_serves:
  "is_ready m \<Longrightarrow> \<exists>b. bm_current m = Some b \<and> Backend_Manager.acquire m = (Inr b, m\<lparr>bm_inflight := bm_inflight m @ [b]\<rparr>)"
  by (auto simp: is_ready_def Backend_Manager.acquire_def)

lemma no_reason: "manager_reason req mgr rs = [] \<longleftrightarrow> rs = [] \<and> (req \<longrightarrow> (\<exists>m. mgr = Some m \<and> is_ready m))"
  by (auto simp: manager_reason_def add_reason_def split: option.split)

lemma readyz_Nil:
  "readyz env profile asr asr_mgr tts_mgr lim ok = [] \<longleftrightarrow>
     (asr \<noteq> None \<longrightarrow> (\<exists>m. asr_mgr = Some m \<and> is_ready m))
     \<and> (is_configured profile \<and> \<not> lazy_tts env \<longrightarrow> (\<exists>m. tts_mgr = Some m \<and> is_ready m))
     \<and> (\<exists>l. lim = Some l \<and> 0 < available l) \<and> ok = Some True"
  by (auto simp: readyz_def Let_def no_reason split: option.split)

text \<open>
  When the readiness probe answers 200 the next request is served: it gets an admission slot, and
  each manager the probe requires hands out a backend that is in service.
\<close>

theorem ready_service_serves:
  assumes "readyz env profile asr asr_mgr tts_mgr (Some lim) ok = []"
  shows "fst (try_acquire True lim) \<noteq> None
    \<and> (asr \<noteq> None \<longrightarrow> (\<exists>m b. asr_mgr = Some m \<and> bm_current m = Some b \<and> fst (Backend_Manager.acquire m) = Inr b))
    \<and> (is_configured profile \<and> \<not> lazy_tts env \<longrightarrow>
        (\<exists>m b. tts_mgr = Some m \<and> bm_current m = Some b \<and> fst (Backend_Manager.acquire m) = Inr b))
    \<and> ok = Some True"
proof -
  have r: "asr \<noteq> None \<longrightarrow> (\<exists>m. asr_mgr = Some m \<and> is_ready m)"
    "is_configured profile \<and> \<not> lazy_tts env \<longrightarrow> (\<exists>m. tts_mgr = Some m \<and> is_ready m)"
    "0 < available lim" "ok = Some True"
    using assms by (auto simp: readyz_Nil)
  have "fst (try_acquire True lim) \<noteq> None" using r(3) by (simp add: available_def try_acquire_def Let_def)
  with r show ?thesis by (metis fst_conv ready_manager_serves)
qed

section \<open>Departures\<close>

text \<open>Two ways in which the service reports itself ready without a recogniser, though the docstring says
  that one is always required: it could not be created at start-up, or a reload and its
  rollback both failed before creating one.\<close>

lemma ready_without_recogniser:
  "readyz env profile (startup_asr False preload_ok) asr_mgr tts_mgr lim ok = readyz env profile None None tts_mgr lim ok"
  by (simp add: startup_asr_def readyz_def manager_reason_def)

lemma ready_after_failed_reload:
  assumes "reload_finish load tier drained o_new o_back f ld m = (ReloadFailed, ld1, m1)"
    "0 < available lim" "\<not> is_configured profile"
  shows "bm_state m1 = FAILED" "snd (shared_build False True hot (shared_unloader b)) = None"
    "readyz env profile None (Some m1) tts_mgr (Some lim) (Some True) = []"
proof -
  show "bm_state m1 = FAILED"
    using assms(1) by (auto simp: reload_finish_def rollback_def Let_def split: prod.splits sum.splits)
  show "snd (shared_build False True hot (shared_unloader b)) = None"
    by (simp add: shared_build_def shared_factory_def shared_unloader_def)
  show "readyz env profile None (Some m1) tts_mgr (Some lim) (Some True) = []"
    using assms(2,3) by (auto simp: readyz_Nil)
qed

text \<open>A recogniser that fails to load twice keeps the synthesiser's manager from being started.\<close>

lemma failed_recogniser_holds_back_synthesis:
  assumes "bm_state asr = INIT"
  shows "mg_tts (wire_managers configured False hot_asr hot_tts ld asr tts (Some False) bt) = tts"
    "bm_state (mg_asr (wire_managers configured False hot_asr hot_tts ld asr tts (Some False) bt)) = FAILED"
  using assms by (simp_all add: wire_managers_def shared_build_def shared_factory_def shared_preloader_def start_def build_def Let_def)

end
