(* ===== verification/Paraformer.thy ===== *)
theory Paraformer
  imports Complex_Main Prelude
begin

text \<open>
  The Paraformer recogniser \<open>app/backends/jetson/paraformer_trt.py\<close>: the counts of feature frames, the
  choice of the encoder's profile, continuous integrate-and-fire (CIF), the streaming session and
  the two offline transcriptions. The content of a feature frame, the networks and the resampler are
  parameters; how many frames there are, and which of them the CIF is given, is the code's.
  Floating-point numbers are reals. An embedding is a function from its component.
  \<open>ps_fed\<close> is a ghost field: the absolute numbers of the frames the CIF was given. The unused
  history fields, the timers and the device buffers are left out.
\<close>

section \<open>Frames\<close>

definition chunk_samples :: nat where "chunk_samples = 10720"
definition window_size :: nat where "window_size = 400"
definition hop_size :: nat where "hop_size = 160"
definition num_stacked :: nat where "num_stacked = 7"
definition num_stride :: nat where "num_stride = 6"
definition right_lookahead :: nat where "right_lookahead = 15"
definition max_frames :: nat where "max_frames = 400"

type_synonym embedding = "nat \<Rightarrow> real"

record ('a, 'f, 'c) paraformer =
  pm_zero :: 'a
  pm_zero_frame :: "'f list"
  pm_bank :: "'a list \<Rightarrow> nat \<Rightarrow> 'f"
  pm_resample :: "nat \<Rightarrow> 'a list \<Rightarrow> 'a list"
  pm_network :: "'f list list \<Rightarrow> (nat \<Rightarrow> embedding \<times> real) option"
  pm_decode :: "embedding list \<Rightarrow> embedding list \<Rightarrow> 'c \<Rightarrow> nat list option \<times> 'c"
  pm_cache :: 'c
  pm_tokens :: "ustr list"
  pm_profiles :: "(nat \<times> nat \<times> nat) list"
  pm_preroll_ms :: int

definition fbank_frames :: "nat \<Rightarrow> nat" where
  "fbank_frames n = (max n window_size - window_size) div hop_size + 1"

definition compute_fbank :: "('a, 'f, 'c) paraformer \<Rightarrow> 'a list \<Rightarrow> 'f list" where
  "compute_fbank m audio =
     map (pm_bank m (audio @ replicate (window_size - length audio) (pm_zero m))) [0..<fbank_frames (length audio)]"

definition stack_frames :: "'f list \<Rightarrow> 'f list list" where
  "stack_frames feats =
     (let n = length feats; out_n = (n + num_stride - 1) div num_stride;
          needed = (out_n - 1) * num_stride + num_stacked;
          padded = (if n < needed \<and> feats \<noteq> [] then feats @ replicate (needed - n) (last feats) else feats)
      in map (\<lambda>i. take num_stacked (drop (i * num_stride) padded)) [0..<out_n])"

definition initial_preroll_audio :: "('a, 'f, 'c) paraformer \<Rightarrow> 'a list" where
  "initial_preroll_audio m = (if pm_preroll_ms m \<le> 0 then [] else replicate (nat (16 * pm_preroll_ms m)) (pm_zero m))"

definition add_preroll_silence :: "('a, 'f, 'c) paraformer \<Rightarrow> 'a list \<Rightarrow> 'a list" where
  "add_preroll_silence m audio =
     (if pm_preroll_ms m \<le> 0 \<or> audio = [] then audio else replicate (nat (16 * pm_preroll_ms m)) (pm_zero m) @ audio)"

section \<open>The encoder\<close>

definition select_encoder_profile :: "(nat \<times> nat \<times> nat) list \<Rightarrow> nat \<Rightarrow> nat \<times> nat \<times> nat" where
  "select_encoder_profile profiles n =
     (let ranges = (if profiles = [] then [(0, 40, 400)] else profiles);
          compatible = filter (\<lambda>(_, lo, hi). lo \<le> n \<and> n \<le> hi) ranges;
          pads = filter (\<lambda>(_, lo, _). n < lo) ranges
      in if compatible \<noteq> [] then arg_min_list (\<lambda>(_, lo, hi). int hi - int lo) compatible
         else if pads \<noteq> [] then arg_min_list (\<lambda>(_, lo, _). int lo) pads
         else arg_min_list (\<lambda>(_, _, hi). - int hi) ranges)"

text \<open>The output has a row for every frame given, padded ones included; those are cut off again.\<close>

definition run_encoder :: "('a, 'f, 'c) paraformer \<Rightarrow> 'f list list \<Rightarrow> (embedding \<times> real) list option" where
  "run_encoder m feats =
     (case select_encoder_profile (pm_profiles m) (length feats) of
        (_, lo, hi) \<Rightarrow>
          if hi < length feats then None
          else (let padded = feats @ replicate (lo - length feats) (last feats)
                in case pm_network m padded of
                     None \<Rightarrow> None
                   | Some row \<Rightarrow> Some (take (length feats) (map row [0..<length padded]))))"

definition run_decoder ::
  "('a, 'f, 'c) paraformer \<Rightarrow> embedding list \<Rightarrow> embedding list \<Rightarrow> 'c \<Rightarrow> nat list option \<times> 'c" where
  "run_decoder m enc embeds cache = (if embeds = [] then (Some [], cache) else pm_decode m enc embeds cache)"

section \<open>Continuous integrate-and-fire\<close>

definition cif_threshold :: real where "cif_threshold = 1"
definition cif_tail_threshold :: real where "cif_tail_threshold = 1 / 2"

function fire :: "embedding \<Rightarrow> real \<Rightarrow> embedding \<Rightarrow> embedding list \<times> real \<times> embedding" where
  "fire e w a =
     (if cif_threshold \<le> w
      then (let excess = w - cif_threshold in
            case fire e excess (\<lambda>i. excess * e i) of
              (ts, w1, a1) \<Rightarrow> ((\<lambda>i. (a i - excess * e i) / cif_threshold) # ts, w1, a1))
      else ([], w, a))"
  by pat_completeness auto

termination
proof (relation "measure (\<lambda>(_, w, _). nat \<lfloor>w\<rfloor>)")
  fix w x :: real
  assume "cif_threshold \<le> w" "x = w - cif_threshold"
  then have "\<lfloor>x\<rfloor> = \<lfloor>w\<rfloor> - 1" "1 \<le> \<lfloor>w\<rfloor>" by (simp_all add: cif_threshold_def)
  then show "((e, x, f), e, w, a) \<in> measure (\<lambda>(_, w, _). nat \<lfloor>w\<rfloor>)" for e f a :: embedding
    by simp
qed simp

declare fire.simps [simp del]

fun cif :: "(embedding \<times> real) list \<Rightarrow> real \<Rightarrow> embedding \<Rightarrow> embedding list \<times> real \<times> embedding" where
  "cif [] w a = ([], w, a)"
| "cif ((e, alpha) # rows) w a =
     (if alpha \<le> 0 then cif rows w a
      else (case fire e (w + alpha) (\<lambda>i. a i + alpha * e i) of
              (ts, w1, a1) \<Rightarrow> (case cif rows w1 a1 of (us, w2, a2) \<Rightarrow> (ts @ us, w2, a2))))"

section \<open>Text\<close>

definition decode_id :: "ustr list \<Rightarrow> nat \<Rightarrow> ustr" where
  "decode_id tokens i =
     (if i \<in> set [0, 1, 2] \<or> length tokens \<le> i then []
      else let t = tokens ! i in
           if starts_with (u ''<'') t \<and> ends_with (u ''>'') t then []
           else if ends_with (u ''@@'') t then take (length t - 2) t else t)"

definition decode_ids :: "ustr list \<Rightarrow> nat list \<Rightarrow> ustr" where
  "decode_ids tokens ids = concat (map (decode_id tokens) ids)"

section \<open>The streaming session\<close>

record ('a, 'c) pstream =
  ps_buf :: "'a list"
  ps_all :: "'a list"
  ps_prev :: nat
  ps_cif :: nat
  ps_ids :: "nat list"
  ps_partial :: ustr
  ps_endpoint :: bool
  ps_weight :: real
  ps_embed :: embedding
  ps_cache :: 'c
  ps_cancelled :: bool
  ps_final :: ustr
  ps_fed :: "nat list"

definition new_pstream :: "('a, 'f, 'c) paraformer \<Rightarrow> ('a, 'c) pstream" where
  "new_pstream m =
     \<lparr>ps_buf = initial_preroll_audio m, ps_all = [], ps_prev = 0, ps_cif = 0, ps_ids = [], ps_partial = [],
      ps_endpoint = False, ps_weight = 0, ps_embed = (\<lambda>_. 0), ps_cache = pm_cache m, ps_cancelled = False,
      ps_final = [], ps_fed = []\<rparr>"

definition reset_utterance_state :: "('a, 'f, 'c) paraformer \<Rightarrow> ('a, 'c) pstream \<Rightarrow> ('a, 'c) pstream" where
  "reset_utterance_state m s = (new_pstream m)\<lparr>ps_cancelled := ps_cancelled s, ps_final := ps_final s\<rparr>"

text \<open>What decoding adds to the tokens; the decoder updates its cache in place.\<close>

definition add_tokens ::
  "('a, 'f, 'c) paraformer \<Rightarrow> embedding list \<Rightarrow> embedding list \<Rightarrow> ('a, 'c) pstream \<Rightarrow> ('a, 'c) pstream" where
  "add_tokens m enc embeds s =
     (case run_decoder m enc embeds (ps_cache s) of
        (None, c) \<Rightarrow> s\<lparr>ps_cache := c\<rparr>
      | (Some ids, c) \<Rightarrow>
          s\<lparr>ps_cache := c, ps_ids := ps_ids s @ ids, ps_partial := decode_ids (pm_tokens m) (ps_ids s @ ids)\<rparr>)"

text \<open>The CIF over the encoder's rows from \<open>from\<close> up to \<open>till\<close>; the first row is frame \<open>first\<close>.\<close>

definition feed_cif ::
  "('a, 'f, 'c) paraformer \<Rightarrow> (embedding \<times> real) list \<Rightarrow> nat \<Rightarrow> nat \<Rightarrow> nat \<Rightarrow> ('a, 'c) pstream \<Rightarrow> ('a, 'c) pstream" where
  "feed_cif m rows first from till s =
     (case cif (drop from (take till rows)) (ps_weight s) (ps_embed s) of
        (embeds, w, e) \<Rightarrow>
          (let s1 = s\<lparr>ps_weight := w, ps_embed := e, ps_fed := ps_fed s @ map (\<lambda>j. first + j) [from..<min till (length rows)]\<rparr>
           in if embeds = [] then s1 else add_tokens m (map fst rows) embeds s1))"

definition process_one_chunk :: "('a, 'f, 'c) paraformer \<Rightarrow> 'a list \<Rightarrow> ('a, 'c) pstream \<Rightarrow> ('a, 'c) pstream" where
  "process_one_chunk m audio s0 =
     (let s = s0\<lparr>ps_all := ps_all s0 @ audio\<rparr>;
          all_lfr = stack_frames (compute_fbank m (ps_all s)); cur = length all_lfr
      in if cur \<le> ps_prev s then s
         else (let s1 = s\<lparr>ps_prev := cur\<rparr>; feats = (if cur \<le> max_frames then all_lfr else drop (cur - max_frames) all_lfr)
               in case run_encoder m feats of
                    None \<Rightarrow> s1
                  | Some rows \<Rightarrow>
                      (let cif_end = length rows - right_lookahead; cif_start = ps_cif s1
                       in if cif_end \<le> cif_start then s1
                          else feed_cif m rows (cur - length rows) cif_start cif_end (s1\<lparr>ps_cif := cif_end\<rparr>))))"

function process_chunks :: "('a, 'f, 'c) paraformer \<Rightarrow> ('a, 'c) pstream \<Rightarrow> ('a, 'c) pstream" where
  "process_chunks m s =
     (if chunk_samples \<le> length (ps_buf s)
      then process_chunks m (process_one_chunk m (take chunk_samples (ps_buf s)) (s\<lparr>ps_buf := drop chunk_samples (ps_buf s)\<rparr>))
      else s)"
  by pat_completeness auto

lemma add_tokens_frame [simp]:
  "ps_buf (add_tokens m enc embeds s) = ps_buf s" "ps_all (add_tokens m enc embeds s) = ps_all s"
  "ps_prev (add_tokens m enc embeds s) = ps_prev s" "ps_cif (add_tokens m enc embeds s) = ps_cif s"
  "ps_fed (add_tokens m enc embeds s) = ps_fed s" "ps_cancelled (add_tokens m enc embeds s) = ps_cancelled s"
  "ps_weight (add_tokens m enc embeds s) = ps_weight s" "ps_endpoint (add_tokens m enc embeds s) = ps_endpoint s"
  by (simp_all add: add_tokens_def split: prod.split option.split)

lemma feed_cif_frame [simp]:
  "ps_buf (feed_cif m rows first from till s) = ps_buf s" "ps_all (feed_cif m rows first from till s) = ps_all s"
  "ps_prev (feed_cif m rows first from till s) = ps_prev s" "ps_cif (feed_cif m rows first from till s) = ps_cif s"
  "ps_cancelled (feed_cif m rows first from till s) = ps_cancelled s"
  "ps_endpoint (feed_cif m rows first from till s) = ps_endpoint s"
  "ps_fed (feed_cif m rows first from till s) = ps_fed s @ map (\<lambda>j. first + j) [from..<min till (length rows)]"
  by (simp_all add: feed_cif_def Let_def split: prod.split)

lemma process_one_chunk_frame [simp]:
  "ps_buf (process_one_chunk m audio s) = ps_buf s" "ps_all (process_one_chunk m audio s) = ps_all s @ audio"
  "ps_cancelled (process_one_chunk m audio s) = ps_cancelled s" "ps_endpoint (process_one_chunk m audio s) = ps_endpoint s"
  by (simp_all add: process_one_chunk_def Let_def split: option.split)

termination process_chunks
  by (relation "measure (\<lambda>(m, s). length (ps_buf s))") (auto simp: chunk_samples_def)

declare process_chunks.simps [simp del]

definition accept_waveform :: "('a, 'f, 'c) paraformer \<Rightarrow> nat \<Rightarrow> 'a list \<Rightarrow> ('a, 'c) pstream \<Rightarrow> ('a, 'c) pstream" where
  "accept_waveform m rate samples s =
     (if ps_cancelled s then s
      else process_chunks m (s\<lparr>ps_buf := ps_buf s @ (if rate \<noteq> 16000 then pm_resample m rate samples else samples)\<rparr>))"

definition get_partial :: "('a, 'f, 'c) paraformer \<Rightarrow> ('a, 'c) pstream \<Rightarrow> (ustr \<times> bool) \<times> ('a, 'c) pstream" where
  "get_partial m s = ((ps_partial s, ps_endpoint s), if ps_endpoint s then reset_utterance_state m s else s)"

definition cancel_and_finalize :: "('a, 'c) pstream \<Rightarrow> ('a, 'c) pstream" where
  "cancel_and_finalize s =
     (if ps_cancelled s then s else s\<lparr>ps_final := ps_partial s, ps_cancelled := True, ps_buf := []\<rparr>)"

definition flush_cif_tail :: "('a, 'f, 'c) paraformer \<Rightarrow> ('a, 'c) pstream \<Rightarrow> ('a, 'c) pstream" where
  "flush_cif_tail m s =
     (if cif_tail_threshold \<le> ps_weight s
      then add_tokens m [\<lambda>_. 0] [\<lambda>i. ps_embed s i / ps_weight s] s else s)"

text \<open>The first half of \<open>finalize\<close>: the rest of the audio and every frame not yet heard.\<close>

definition drain_audio :: "('a, 'f, 'c) paraformer \<Rightarrow> ('a, 'c) pstream \<Rightarrow> ('a, 'c) pstream" where
  "drain_audio m s0 =
     (let s = s0\<lparr>ps_all := ps_all s0 @ ps_buf s0\<rparr>;
          s2 = (if length (ps_all s) < window_size then s
                else (let all_lfr = stack_frames (compute_fbank m (ps_all s)); cur = length all_lfr;
                          feats = (if cur \<le> max_frames then all_lfr else drop (cur - max_frames) all_lfr)
                      in case run_encoder m feats of
                           None \<Rightarrow> s
                         | Some rows \<Rightarrow>
                             (let start = ps_cif s - (cur - length feats)
                              in feed_cif m rows (cur - length feats) start (length rows) (s\<lparr>ps_cif := cur\<rparr>))))
      in s2\<lparr>ps_buf := []\<rparr>)"

definition finalize :: "('a, 'f, 'c) paraformer \<Rightarrow> ('a, 'c) pstream \<Rightarrow> ustr \<times> ('a, 'c) pstream" where
  "finalize m s =
     (if ps_cancelled s then (ps_final s, s)
      else (let s1 = flush_cif_tail m (drain_audio m s) in (ps_partial s1, reset_utterance_state m s1)))"

definition force_endpoint :: "('a, 'f, 'c) paraformer \<Rightarrow> ('a, 'c) pstream \<Rightarrow> ustr \<times> ('a, 'c) pstream" where
  "force_endpoint m s = (let s1 = flush_cif_tail m s in (ps_partial s1, reset_utterance_state m s1))"

datatype 'a pf_op = Accept nat "'a list" | Partial | Cancel | Finalize | Force

fun pf_step :: "('a, 'f, 'c) paraformer \<Rightarrow> 'a pf_op \<Rightarrow> ('a, 'c) pstream \<Rightarrow> ('a, 'c) pstream" where
  "pf_step m (Accept rate x) s = accept_waveform m rate x s"
| "pf_step m Partial s = snd (get_partial m s)"
| "pf_step m Cancel s = cancel_and_finalize s"
| "pf_step m Finalize s = snd (finalize m s)"
| "pf_step m Force s = snd (force_endpoint m s)"

section \<open>Offline transcription\<close>

text \<open>The windows of the features, the last one filled with zero frames.\<close>

definition window_frames :: "'f list list \<Rightarrow> nat" where
  "window_frames feats = min max_frames (max 40 (length feats))"

definition windows :: "('a, 'f, 'c) paraformer \<Rightarrow> 'f list list \<Rightarrow> 'f list list list" where
  "windows m feats =
     (let n = window_frames feats in
      map (\<lambda>i. let w = take n (drop (i * n) feats) in w @ replicate (n - length w) (pm_zero_frame m))
        [0..<(length feats + n - 1) div n])"

fun transcribe_windows ::
  "('a, 'f, 'c) paraformer \<Rightarrow> 'f list list list \<Rightarrow> nat list \<times> real \<times> embedding \<times> 'c \<Rightarrow> nat list \<times> real \<times> embedding \<times> 'c" where
  "transcribe_windows m [] st = st"
| "transcribe_windows m (x # xs) (ids, w, e, c) =
     (case run_encoder m x of
        None \<Rightarrow> transcribe_windows m xs (ids, w, e, c)
      | Some rows \<Rightarrow>
          (case cif rows w e of
             (embeds, w1, e1) \<Rightarrow>
               if embeds = [] then transcribe_windows m xs (ids, w1, e1, c)
               else (case run_decoder m (map fst rows) embeds c of
                       (None, c1) \<Rightarrow> transcribe_windows m xs (ids, w1, e1, c1)
                     | (Some new, c1) \<Rightarrow> transcribe_windows m xs (ids @ new, w1, e1, c1))))"

definition transcribe :: "('a, 'f, 'c) paraformer \<Rightarrow> nat \<Rightarrow> 'a list \<Rightarrow> ustr" where
  "transcribe m rate data0 =
     (let data = add_preroll_silence m (if rate \<noteq> 16000 then pm_resample m rate data0 else data0);
          feats = stack_frames (compute_fbank m data)
      in case transcribe_windows m (windows m feats) ([], 0, \<lambda>_. 0, pm_cache m) of
           (ids, w, e, c) \<Rightarrow>
             decode_ids (pm_tokens m)
               (if cif_tail_threshold \<le> w
                then (case run_decoder m [\<lambda>_. 0] [\<lambda>i. e i / w] c of (None, _) \<Rightarrow> ids | (Some new, _) \<Rightarrow> ids @ new)
                else ids))"

fun transcribe_parts ::
  "('a, 'f, 'c) paraformer \<Rightarrow> 'f list list list \<Rightarrow> ustr list \<times> real \<times> embedding \<times> 'c \<Rightarrow> ustr list \<times> real \<times> embedding \<times> 'c" where
  "transcribe_parts m [] st = st"
| "transcribe_parts m (x # xs) (parts, w, e, c) =
     (case run_encoder m x of
        None \<Rightarrow> transcribe_parts m xs (parts, w, e, c)
      | Some rows \<Rightarrow>
          (case cif rows w e of
             (embeds, w1, e1) \<Rightarrow>
               if embeds = [] then transcribe_parts m xs (parts, w1, e1, c)
               else (case run_decoder m (map fst rows) embeds c of
                       (None, c1) \<Rightarrow> transcribe_parts m xs (parts, w1, e1, c1)
                     | (Some new, c1) \<Rightarrow>
                         (let t = decode_ids (pm_tokens m) new
                          in transcribe_parts m xs (if t \<noteq> [] then parts @ [t] else parts, w1, e1, c1)))))"

definition transcribe_audio :: "('a, 'f, 'c) paraformer \<Rightarrow> 'a list \<Rightarrow> ustr" where
  "transcribe_audio m audio =
     (let feats = stack_frames (compute_fbank m (add_preroll_silence m audio))
      in case transcribe_parts m (windows m feats) ([], 0, \<lambda>_. 0, pm_cache m) of
           (parts, w, e, c) \<Rightarrow>
             concat (if cif_tail_threshold \<le> w
                     then (case run_decoder m [\<lambda>_. 0] [\<lambda>i. e i / w] c of
                             (None, _) \<Rightarrow> parts
                           | (Some new, _) \<Rightarrow>
                               (let t = decode_ids (pm_tokens m) new in if t \<noteq> [] then parts @ [t] else parts))
                     else parts))"

section \<open>The CIF loses no weight\<close>

lemma fire_conserves:
  assumes "0 \<le> w" "fire e w a = (ts, w1, a1)"
  shows "0 \<le> w1" "w1 < cif_threshold" "real (length ts) + w1 = w" "sum_list (map (\<lambda>t. t i) ts) + a1 i = a i"
proof -
  have "0 \<le> w1 \<and> w1 < cif_threshold \<and> real (length ts) + w1 = w \<and> sum_list (map (\<lambda>t. t i) ts) + a1 i = a i"
    using assms
  proof (induction e w a arbitrary: ts w1 a1 rule: fire.induct)
    case (1 e w a)
    show ?case
    proof (cases "cif_threshold \<le> w")
      case True
      obtain us w2 a2 where r: "fire e (w - cif_threshold) (\<lambda>i. (w - cif_threshold) * e i) = (us, w2, a2)"
        by (metis surj_pair)
      have "0 \<le> w2 \<and> w2 < cif_threshold \<and> real (length us) + w2 = w - cif_threshold \<and>
          sum_list (map (\<lambda>t. t i) us) + a2 i = (w - cif_threshold) * e i"
        using "1.IH" [OF True refl _ r] True by simp
      moreover have "(ts, w1, a1) = ((\<lambda>i. a i - (w - cif_threshold) * e i) # us, w2, a2)"
        using "1.prems"(2) True r by (subst (asm) fire.simps) (simp add: Let_def cif_threshold_def)
      ultimately show ?thesis by (simp add: cif_threshold_def)
    next
      case False
      then show ?thesis using "1.prems" by (subst (asm) fire.simps) auto
    qed
  qed
  then show "0 \<le> w1" "w1 < cif_threshold" "real (length ts) + w1 = w" "sum_list (map (\<lambda>t. t i) ts) + a1 i = a i" by auto
qed

lemma cif_append:
  "cif (xs @ ys) w a =
     (case cif xs w a of (ts, w1, a1) \<Rightarrow> case cif ys w1 a1 of (us, w2, a2) \<Rightarrow> (ts @ us, w2, a2))"
  by (induction xs w a rule: cif.induct) (auto split: prod.splits)

text \<open>
  C14: the integrate-and-fire stage keeps its books. Over any rows, the tokens it fires and the
  weight it carries on make up the weight carried in and the positive weights of the rows, the
  carried weight stays under one, and each component of the embeddings sums to the weighted
  frames; however the rows are cut into chunks, the tokens are the same.
\<close>

theorem cif_keeps_its_books:
  assumes "0 \<le> w" "w < 1" "cif rows w a = (ts, w1, a1)"
  shows "0 \<le> w1 \<and> w1 < 1 \<and> real (length ts) + w1 = w + (\<Sum>(e, alpha)\<leftarrow>rows. max 0 alpha)
    \<and> (\<Sum>t\<leftarrow>ts. t i) + a1 i = a i + (\<Sum>(e, alpha)\<leftarrow>rows. max 0 alpha * e i)
    \<and> (\<forall>xs ys. rows = xs @ ys \<longrightarrow>
         (case cif xs w a of (us, w2, a2) \<Rightarrow> case cif ys w2 a2 of (vs, w3, a3) \<Rightarrow> ts = us @ vs \<and> w3 = w1 \<and> a3 = a1))"
proof -
  have "0 \<le> w1 \<and> w1 < 1 \<and> real (length ts) + w1 = w + (\<Sum>(e, alpha)\<leftarrow>rows. max 0 alpha)
    \<and> (\<Sum>t\<leftarrow>ts. t i) + a1 i = a i + (\<Sum>(e, alpha)\<leftarrow>rows. max 0 alpha * e i)"
    using assms
  proof (induction rows w a arbitrary: ts w1 a1 rule: cif.induct)
    case (2 e alpha rows w a)
    show ?case
    proof (cases "alpha \<le> 0")
      case True
      then show ?thesis using 2 by (simp add: max_def)
    next
      case False
      obtain us w2 a2 where f: "fire e (w + alpha) (\<lambda>i. a i + alpha * e i) = (us, w2, a2)" by (metis surj_pair)
      obtain vs w3 a3 where c: "cif rows w2 a2 = (vs, w3, a3)" by (metis surj_pair)
      have b: "0 \<le> w2" "w2 < 1" "real (length us) + w2 = w + alpha" "(\<Sum>t\<leftarrow>us. t i) + a2 i = a i + alpha * e i"
        using fire_conserves(1,2,3) [OF _ f] fire_conserves(4) [OF _ f, of i] 2(3) False by (simp_all add: cif_threshold_def)
      have t: "ts = us @ vs" "w1 = w3" "a1 = a3" using 2(5) False f c by simp_all
      have m: "max 0 alpha = alpha" using False by simp
      have k: "0 \<le> w3 \<and> w3 < 1 \<and> real (length vs) + w3 = w2 + (\<Sum>(e, alpha)\<leftarrow>rows. max 0 alpha)
          \<and> (\<Sum>t\<leftarrow>vs. t i) + a3 i = a2 i + (\<Sum>(e, alpha)\<leftarrow>rows. max 0 alpha * e i)"
        by (rule 2(2) [OF False f [symmetric] refl b(1,2) c])
      show ?thesis using k b(3,4) unfolding t by (simp only: list.map sum_list.Cons prod.case m length_append map_append sum_list_append) auto
    qed
  qed simp
  moreover have "\<forall>xs ys. rows = xs @ ys \<longrightarrow>
         (case cif xs w a of (us, w2, a2) \<Rightarrow> case cif ys w2 a2 of (vs, w3, a3) \<Rightarrow> ts = us @ vs \<and> w3 = w1 \<and> a3 = a1)"
    using assms(3) by (auto simp: cif_append split: prod.splits)
  ultimately show ?thesis by blast
qed

section \<open>The two offline transcriptions agree\<close>

lemma decode_ids_append [simp]: "decode_ids tokens (xs @ ys) = decode_ids tokens xs @ decode_ids tokens ys"
  by (simp add: decode_ids_def)

definition same_text :: "ustr list \<Rightarrow> nat list \<times> 'r \<Rightarrow> ustr list \<times> 'r \<Rightarrow> bool" where
  "same_text tokens x y \<longleftrightarrow> concat (fst y) = decode_ids tokens (fst x) \<and> snd y = snd x"

lemma same_text_if:
  "(b \<Longrightarrow> same_text ts x y) \<Longrightarrow> (\<not> b \<Longrightarrow> same_text ts x1 y1) \<Longrightarrow> same_text ts (if b then x else x1) (if b then y else y1)"
  by simp

lemma parts_are_ids:
  "concat parts = decode_ids (pm_tokens m) ids \<Longrightarrow>
     same_text (pm_tokens m) (transcribe_windows m xs (ids, r)) (transcribe_parts m xs (parts, r))"
proof (induction xs arbitrary: ids parts r)
  case Nil
  then show ?case by (simp add: same_text_def)
next
  case (Cons x xs)
  obtain w e c where r: "r = (w, e, c)" by (rule prod_cases3)
  have k: "concat (if decode_ids (pm_tokens m) new \<noteq> [] then parts @ [decode_ids (pm_tokens m) new] else parts)
      = decode_ids (pm_tokens m) (ids @ new)" for new
    using Cons.prems by simp
  show ?case
    unfolding r using Cons.IH [OF Cons.prems] Cons.IH [OF k]
    by (auto simp only: transcribe_windows.simps transcribe_parts.simps Let_def
        intro!: same_text_if split: option.split prod.split)
qed

theorem transcriptions_agree: "transcribe m 16000 audio = transcribe_audio m audio"
proof -
  let ?xs = "windows m (stack_frames (compute_fbank m (add_preroll_silence m audio)))"
  obtain ids w e c where i: "transcribe_windows m ?xs ([], 0, \<lambda>_. 0, pm_cache m) = (ids, w, e, c)" by (rule prod_cases4)
  obtain parts r where p: "transcribe_parts m ?xs ([], 0, \<lambda>_. 0, pm_cache m) = (parts, r)" by (rule prod.exhaust)
  have "same_text (pm_tokens m) (ids, w, e, c) (parts, r)"
    unfolding i [symmetric] p [symmetric] by (rule parts_are_ids) (simp add: decode_ids_def)
  then have t: "concat parts = decode_ids (pm_tokens m) ids" "r = (w, e, c)" by (simp_all add: same_text_def)
  obtain d c1 where d: "run_decoder m [\<lambda>_. 0] [\<lambda>i. e i / w] c = (d, c1)" by (rule prod.exhaust)
  have "transcribe m 16000 audio =
      decode_ids (pm_tokens m) (if cif_tail_threshold \<le> w then (case d of None \<Rightarrow> ids | Some new \<Rightarrow> ids @ new) else ids)"
    unfolding transcribe_def Let_def by (simp only: i d simp_thms if_False prod.case)
  moreover have "transcribe_audio m audio =
      concat (if cif_tail_threshold \<le> w then (case d of None \<Rightarrow> parts | Some new \<Rightarrow>
        if decode_ids (pm_tokens m) new \<noteq> [] then parts @ [decode_ids (pm_tokens m) new] else parts) else parts)"
    unfolding transcribe_audio_def Let_def by (simp only: p d t(2) prod.case)
  ultimately show ?thesis using t(1) by (simp split: option.split)
qed

section \<open>No frame is lost\<close>

definition lfr_count :: "nat \<Rightarrow> nat" where
  "lfr_count n = (fbank_frames n + 5) div 6"

lemma length_lfr [simp]: "length (stack_frames (compute_fbank m x)) = lfr_count (length x)"
  unfolding stack_frames_def compute_fbank_def lfr_count_def num_stride_def Let_def length_map length_upt
  by (simp only: diff_zero add_diff_assoc numeral_eq_Suc) simp

lemma lfr_mono: "n \<le> k \<Longrightarrow> lfr_count n \<le> lfr_count k"
  unfolding lfr_count_def fbank_frames_def by (intro div_le_mono add_mono diff_le_mono) auto

lemma encoder_rows: "run_encoder m feats = Some rows \<Longrightarrow> length rows = length feats"
  by (auto simp: run_encoder_def Let_def split: prod.splits option.splits if_splits)

text \<open>The encoder runs whenever some profile is long enough.\<close>

lemma profile_is_long_enough:
  assumes "\<forall>(i, lo, hi) \<in> set ps. lo \<le> hi" "\<exists>(i, lo, hi) \<in> set ps. n \<le> hi"
  shows "n \<le> snd (snd (select_encoder_profile ps n))"
proof -
  let ?c = "filter (\<lambda>(_, lo, hi). lo \<le> n \<and> n \<le> hi) ps" and ?p = "filter (\<lambda>(_, lo, _). n < lo) ps"
  have ne: "ps \<noteq> []" using assms(2) by auto
  have ok: "lo \<le> hi" if "(i, lo, hi) \<in> set ps" for i lo hi using assms(1) that by blast
  consider (fits) "?c \<noteq> []" | (pads) "?c = []" "?p \<noteq> []" | (no) "?c = []" "?p = []" by blast
  then show ?thesis
  proof cases
    case fits
    then have "arg_min_list (\<lambda>(_, lo, hi). int hi - int lo) ?c \<in> set ?c" by (rule arg_min_list_in)
    with fits ne show ?thesis by (auto simp: select_encoder_profile_def Let_def)
  next
    case pads
    then have "arg_min_list (\<lambda>(_, lo, _). int lo) ?p \<in> set ?p" by (intro arg_min_list_in)
    then have "n \<le> snd (snd (arg_min_list (\<lambda>(_, lo, _). int lo) ?p))" by (auto dest!: ok)
    with pads ne show ?thesis by (simp add: select_encoder_profile_def Let_def)
  next
    case no
    obtain i lo hi where "(i, lo, hi) \<in> set ps" "n \<le> hi" using assms(2) by auto
    with no show ?thesis by (force simp: filter_empty_conv)
  qed
qed

definition frames_in_order :: "('a, 'c) pstream \<Rightarrow> bool" where
  "frames_in_order s \<longleftrightarrow>
     (lfr_count (length (ps_all s)) \<le> max_frames \<longrightarrow>
        ps_fed s = [0..<ps_cif s] \<and> ps_cif s \<le> lfr_count (length (ps_all s)))"

lemma upt_join: "i \<le> j \<Longrightarrow> j \<le> k \<Longrightarrow> [i..<j] @ [j..<k] = [i..<k]"
  by (metis le_add_diff_inverse upt_add_eq_append)

lemma chunk_in_order:
  assumes "frames_in_order s"
  shows "frames_in_order (process_one_chunk m audio s)"
proof -
  let ?n = "lfr_count (length (ps_all s @ audio))"
  have le: "lfr_count (length (ps_all s)) \<le> ?n" by (rule lfr_mono) simp
  show ?thesis
  proof (cases "?n \<le> max_frames")
    case False
    then show ?thesis by (simp add: frames_in_order_def)
  next
    case True
    then have old: "ps_fed s = [0..<ps_cif s]" "ps_cif s \<le> ?n" using assms le by (auto simp: frames_in_order_def)
    have [simp]: "map ((+) 0) xs = xs" for xs :: "nat list" by (induction xs) simp_all
    have join: "[0..<i] @ [i..<j] = [0..<j]" if "i < j" for i j :: nat using that upt_join [of 0 i j] by simp
    show ?thesis
      using True old
      by (auto simp: frames_in_order_def process_one_chunk_def Let_def join dest!: encoder_rows split: option.splits)
  qed
qed

lemma chunks_in_order:
  "frames_in_order s \<Longrightarrow> frames_in_order (process_chunks m s)
     \<and> ps_all (process_chunks m s) @ ps_buf (process_chunks m s) = ps_all s @ ps_buf s
     \<and> ps_cancelled (process_chunks m s) = ps_cancelled s \<and> ps_endpoint (process_chunks m s) = ps_endpoint s"
proof (induction m s rule: process_chunks.induct)
  case (1 m s)
  show ?case
  proof (cases "chunk_samples \<le> length (ps_buf s)")
    case True
    let ?s = "process_one_chunk m (take chunk_samples (ps_buf s)) (s\<lparr>ps_buf := drop chunk_samples (ps_buf s)\<rparr>)"
    have "frames_in_order (s\<lparr>ps_buf := drop chunk_samples (ps_buf s)\<rparr>)" using 1(2) by (simp add: frames_in_order_def)
    then have "frames_in_order ?s" by (rule chunk_in_order)
    from 1(1) [OF True this] show ?thesis using True by (subst (1 2 3 4 5) process_chunks.simps) simp
  next
    case False
    with 1(2) show ?thesis by (subst (1 2 3 4 5) process_chunks.simps) simp
  qed
qed

text \<open>The audio of the utterance under way: the pre-roll and what came since the last final.\<close>

fun utterance_step :: "('a, 'f, 'c) paraformer \<Rightarrow> 'a pf_op \<Rightarrow> 'a list \<Rightarrow> 'a list" where
  "utterance_step m (Accept rate x) a = a @ (if rate \<noteq> 16000 then pm_resample m rate x else x)"
| "utterance_step m Finalize a = initial_preroll_audio m"
| "utterance_step m Force a = initial_preroll_audio m"
| "utterance_step m _ a = a"

definition utterance :: "('a, 'f, 'c) paraformer \<Rightarrow> 'a pf_op list \<Rightarrow> 'a list" where
  "utterance m ops = fold (utterance_step m) ops (initial_preroll_audio m)"

lemma fresh_in_order: "frames_in_order (new_pstream m)"
  by (simp add: frames_in_order_def new_pstream_def)

lemma final_frames [simp]:
  "ps_cancelled (flush_cif_tail m s) = ps_cancelled s" "ps_cancelled (drain_audio m s) = ps_cancelled s"
  by (simp_all add: flush_cif_tail_def drain_audio_def Let_def split: option.split)

lemma reset_in_order: "frames_in_order (reset_utterance_state m s)"
  using fresh_in_order [of m] by (simp add: reset_utterance_state_def frames_in_order_def)

lemma step_in_order:
  assumes "frames_in_order s" "ps_all s @ ps_buf s = a" "\<not> ps_cancelled s" "\<not> ps_endpoint s" "op \<noteq> Cancel"
  shows "frames_in_order (pf_step m op s)
    \<and> ps_all (pf_step m op s) @ ps_buf (pf_step m op s) = utterance_step m op a
    \<and> \<not> ps_cancelled (pf_step m op s) \<and> \<not> ps_endpoint (pf_step m op s)"
proof -
  show ?thesis
  proof (cases op)
    case (Accept rate x)
    have o: "frames_in_order (s\<lparr>ps_buf := b\<rparr>)" for b using assms(1) by (simp add: frames_in_order_def)
    show ?thesis using chunks_in_order [OF o] assms(2-4) Accept by (auto simp: accept_waveform_def)
  next
    case Finalize
    then show ?thesis using assms(3) reset_in_order [of m]
      by (simp add: finalize_def Let_def) (simp add: reset_utterance_state_def new_pstream_def)
  next
    case Force
    then show ?thesis using assms(3) reset_in_order [of m]
      by (simp add: force_endpoint_def Let_def) (simp add: reset_utterance_state_def new_pstream_def)
  qed (use assms in \<open>simp_all add: get_partial_def\<close>)
qed

lemma run_in_order:
  assumes "Cancel \<notin> set ops"
  shows "frames_in_order (fold (pf_step m) ops (new_pstream m))
    \<and> ps_all (fold (pf_step m) ops (new_pstream m)) @ ps_buf (fold (pf_step m) ops (new_pstream m)) = utterance m ops
    \<and> \<not> ps_cancelled (fold (pf_step m) ops (new_pstream m)) \<and> \<not> ps_endpoint (fold (pf_step m) ops (new_pstream m))"
  using assms
proof (induction ops rule: rev_induct)
  case Nil
  then show ?case using fresh_in_order [of m] by (simp add: utterance_def new_pstream_def)
next
  case (snoc op ops)
  then have "op \<noteq> Cancel" by auto
  with snoc show ?case using step_in_order [of "fold (pf_step m) ops (new_pstream m)" "utterance m ops" op m]
    by (simp add: utterance_def)
qed

text \<open>
  C11: an utterance of at most 24 seconds (400 frames) and at least one feature window (400 samples),
  in a session that was never cancelled, ended by \<open>finalize\<close> with an encoder that answers its last
  call, is heard whole: the audio is the pre-roll and all that was accepted since the last final,
  and the CIF was given every feature frame of it exactly once and in order, whatever the chunks
  and however often the encoder failed on the way. (An utterance ended by \<open>force_endpoint\<close> may lose
  its last frames: \<open>short_word_is_lost\<close>.)
\<close>

theorem every_frame_is_heard_once:
  assumes "Cancel \<notin> set ops" "window_size \<le> length (utterance m ops)" "lfr_count (length (utterance m ops)) \<le> max_frames"
    "run_encoder m (stack_frames (compute_fbank m (utterance m ops))) \<noteq> None"
  shows "ps_all (drain_audio m (fold (pf_step m) ops (new_pstream m))) = utterance m ops
    \<and> ps_fed (drain_audio m (fold (pf_step m) ops (new_pstream m))) = [0..<lfr_count (length (utterance m ops))]"
proof -
  define s where "s = fold (pf_step m) ops (new_pstream m)"
  have s: "frames_in_order s" "ps_all s @ ps_buf s = utterance m ops"
    using run_in_order [OF assms(1), of m] by (simp_all add: s_def)
  obtain rows where r: "run_encoder m (stack_frames (compute_fbank m (utterance m ops))) = Some rows" using assms(4) by auto
  have "lfr_count (length (ps_all s)) \<le> lfr_count (length (utterance m ops))" unfolding s(2) [symmetric] by (rule lfr_mono) simp
  then have f: "ps_fed s = [0..<ps_cif s]" "ps_cif s \<le> lfr_count (length (utterance m ops))"
    using s(1) assms(3) by (auto simp: frames_in_order_def)
  show ?thesis
    unfolding s_def [symmetric]
    using assms(2,3) r f encoder_rows [OF r] upt_join [of 0 "ps_cif s" "lfr_count (length (utterance m ops))"]
    by (simp add: drain_audio_def Let_def s(2) not_less [symmetric])
qed

text \<open>A model whose networks answer: one component of weight a quarter a frame, no text.\<close>

definition quiet_model :: "(nat, nat, nat) paraformer" where
  "quiet_model = \<lparr>pm_zero = 0, pm_zero_frame = [], pm_bank = (\<lambda>_ i. i), pm_resample = (\<lambda>_ x. x),
     pm_network = (\<lambda>_. Some (\<lambda>_. (\<lambda>_. 0, 1 / 4))), pm_decode = (\<lambda>_ embeds c. (Some (replicate (length embeds) 0), c)),
     pm_cache = 0, pm_tokens = [], pm_profiles = [], pm_preroll_ms = 100\<rparr>"

lemma every_frame_is_heard_once_witness:
  "ps_all (drain_audio quiet_model (fold (pf_step quiet_model) [Accept 16000 [1, 2, 3], Partial] (new_pstream quiet_model)))
      = replicate 1600 0 @ [1, 2, 3]
    \<and> ps_fed (drain_audio quiet_model (fold (pf_step quiet_model) [Accept 16000 [1, 2, 3], Partial] (new_pstream quiet_model)))
      = [0, 1]"
proof -
  have a: "utterance quiet_model [Accept 16000 [1, 2, 3], Partial] = replicate 1600 0 @ [1, 2, 3]"
    by (simp add: utterance_def quiet_model_def initial_preroll_audio_def)
  have n: "lfr_count (length (replicate 1600 (0 :: nat) @ [1, 2, 3])) = 2"
    by (simp add: lfr_count_def fbank_frames_def window_size_def hop_size_def)
  have "run_encoder quiet_model (stack_frames (compute_fbank quiet_model (replicate 1600 0 @ [1, 2, 3]))) \<noteq> None"
    unfolding run_encoder_def length_lfr n
    by (simp add: quiet_model_def select_encoder_profile_def Let_def)
  then show ?thesis
    using every_frame_is_heard_once [of "[Accept 16000 [1, 2, 3], Partial]" quiet_model] n
    unfolding a by (simp add: window_size_def max_frames_def upt_rec)
qed

lemma cif_keeps_its_books_witness:
  "real (length (fst (cif [(\<lambda>_. 1, 3 / 4), (\<lambda>_. 2, 3 / 2)] 0 (\<lambda>_. 0))))
     + fst (snd (cif [(\<lambda>_. 1, 3 / 4), (\<lambda>_. 2, 3 / 2)] 0 (\<lambda>_. 0))) = 9 / 4"
proof -
  obtain ts w a where c: "cif [(\<lambda>_. 1, 3 / 4), (\<lambda>_. 2, 3 / 2)] 0 (\<lambda>_. 0) = (ts, w, a)" by (rule prod_cases3)
  have "real (length ts) + w = 9 / 4" using cif_keeps_its_books [OF _ _ c] by (simp add: max_def)
  then show ?thesis by (simp only: c fst_conv snd_conv)
qed

section \<open>Departures\<close>

text \<open>An \<open>end_utterance\<close> flushes the carried weight only: the audio short of a chunk and the frames
  kept back for their right context are thrown away with the utterance.\<close>

lemma force_endpoint_ignores_buffer: "fst (force_endpoint m (s\<lparr>ps_buf := b, ps_all := x\<rparr>)) = fst (force_endpoint m s)"
  by (simp add: force_endpoint_def flush_cif_tail_def add_tokens_def Let_def split: option.split prod.split)

lemma short_word_is_lost:
  assumes "length (initial_preroll_audio m @ x) < chunk_samples"
  shows "fst (force_endpoint m (accept_waveform m 16000 x (new_pstream m))) = []"
  using assms by (simp add: accept_waveform_def process_chunks.simps new_pstream_def force_endpoint_def flush_cif_tail_def
      cif_tail_threshold_def)

text \<open>The endpoint flag is cleared by the call that sets it: \<open>get_partial\<close> never reports one.\<close>

lemma endpoint_never_reported:
  assumes "Cancel \<notin> set ops"
  shows "\<not> snd (fst (get_partial m (fold (pf_step m) ops (new_pstream m))))"
  using run_in_order [OF assms, of m] by (simp add: get_partial_def)

text \<open>Beyond the encoder's 400 frames its rows are numbered from the window, while the position kept is
  absolute. The first longer window skips frames, then no chunk is heard until the end,
  and what lies before the last window is lost.\<close>

lemma window_shift_skips_frames:
  assumes "max_frames < lfr_count (length (ps_all s @ audio))" "ps_prev s < lfr_count (length (ps_all s @ audio))"
  shows "ps_fed (process_one_chunk m audio s) = ps_fed s \<or>
    ps_fed (process_one_chunk m audio s) =
      ps_fed s @ map (\<lambda>j. lfr_count (length (ps_all s @ audio)) - max_frames + j) [ps_cif s..<max_frames - right_lookahead]"
proof -
  let ?n = "lfr_count (length (ps_all s @ audio))"
  have "length rows = max_frames" if "run_encoder m (drop (?n - max_frames) (stack_frames (compute_fbank m (ps_all s @ audio)))) = Some rows" for rows
    using encoder_rows [OF that] assms(1) by simp
  then show ?thesis
    using assms by (auto simp: process_one_chunk_def Let_def right_lookahead_def split: option.split)
qed

lemma long_utterance_goes_quiet:
  assumes "max_frames - right_lookahead \<le> ps_cif s"
  shows "ps_partial (process_one_chunk m audio s) = ps_partial s" "ps_cif (process_one_chunk m audio s) = ps_cif s"
proof -
  let ?lfr = "stack_frames (compute_fbank m (ps_all s @ audio))"
  have l: "length (if length ?lfr \<le> max_frames then ?lfr else drop (length ?lfr - max_frames) ?lfr) \<le> max_frames" by simp
  have "length rows - right_lookahead \<le> ps_cif s"
    if "run_encoder m (if length ?lfr \<le> max_frames then ?lfr else drop (length ?lfr - max_frames) ?lfr) = Some rows" for rows
    using encoder_rows [OF that] l assms by linarith
  then show "ps_partial (process_one_chunk m audio s) = ps_partial s" "ps_cif (process_one_chunk m audio s) = ps_cif s"
    by (auto simp: process_one_chunk_def Let_def simp del: length_lfr split: option.split)
qed

lemma long_utterance_loses_its_middle:
  assumes "run_encoder m (drop (n - max_frames) (stack_frames (compute_fbank m (ps_all s @ ps_buf s)))) \<noteq> None"
    "n = lfr_count (length (ps_all s @ ps_buf s))" "max_frames + ps_cif s < n" "window_size \<le> length (ps_all s @ ps_buf s)"
  shows "ps_fed (drain_audio m s) = ps_fed s @ [n - max_frames..<n]"
proof -
  obtain rows where r: "run_encoder m (drop (n - max_frames) (stack_frames (compute_fbank m (ps_all s @ ps_buf s)))) = Some rows"
    using assms(1) by auto
  have l: "length rows = max_frames" using encoder_rows [OF r] assms(2,3) by simp
  have shift: "map (\<lambda>j. k + j) [0..<i] = [k..<k + i]" for k i :: nat
    by (induction i) simp_all
  show ?thesis using r l assms(2-4) shift [of "n - max_frames" max_frames] by (simp add: drain_audio_def Let_def)
qed

end
