(* ===== verification/Cuda_Pool.thy ===== *)
theory Cuda_Pool
  imports Prelude
begin

text \<open>
  The device memory of the TensorRT synthesisers: \<open>CudaMemoryPool\<close> of \<open>app/backends/jetson/matcha_trt.py\<close>,
  used by Matcha and Kokoro. What the CUDA runtime answers (a pointer or an error) is an argument
  of each call. \<open>dv_live\<close> is a ghost field, the blocks the runtime has given to this pool
  and not got back, and so is \<open>mp_given\<close>, the blocks the pool has handed out since it was last
  emptied. The copies and the telemetry log are left out.
\<close>

section \<open>The pool\<close>

type_synonym block = "nat \<times> nat"

record mem_pool =
  mp_stream :: "nat option"
  mp_allocations :: "nat list"
  mp_initialized :: bool
  mp_arena_size :: "nat option"
  mp_arena :: "nat option"
  mp_offset :: nat
  mp_overflow :: "nat list"
  mp_peak :: nat
  mp_overflow_count :: nat
  mp_overflow_bytes :: nat
  dv_live :: "block list"
  dv_streams :: "nat list"
  mp_given :: "block list"

definition new_pool :: "nat option \<Rightarrow> mem_pool" where
  "new_pool arena =
     \<lparr>mp_stream = None, mp_allocations = [], mp_initialized = False, mp_arena_size = arena, mp_arena = None,
      mp_offset = 0, mp_overflow = [], mp_peak = 0, mp_overflow_count = 0, mp_overflow_bytes = 0,
      dv_live = [], dv_streams = [], mp_given = []\<rparr>"

text \<open>The answers of the runtime to one call of \<open>allocate\<close>: the stream, the arena, the block. \<open>None\<close> is an
  error.\<close>

record cuda_answers =
  ca_stream :: "nat option"
  ca_arena :: "nat option"
  ca_block :: "nat option"

datatype pool_error = StreamCreateFailed | ArenaFailed | OverflowFailed | MallocFailed

definition init_cuda :: "cuda_answers \<Rightarrow> mem_pool \<Rightarrow> pool_error option \<times> mem_pool" where
  "init_cuda ca p =
     (if mp_initialized p then (None, p)
      else (case ca_stream ca of
              None \<Rightarrow> (Some StreamCreateFailed, p)
            | Some h \<Rightarrow> (None, p\<lparr>mp_stream := Some h, mp_initialized := True, dv_streams := h # dv_streams p\<rparr>)))"

definition ensure_arena :: "cuda_answers \<Rightarrow> mem_pool \<Rightarrow> pool_error option \<times> mem_pool" where
  "ensure_arena ca p =
     (case mp_arena_size p of
        None \<Rightarrow> (None, p)
      | Some n \<Rightarrow>
          if mp_arena p \<noteq> None then (None, p)
          else (case ca_arena ca of
                  None \<Rightarrow> (Some ArenaFailed, p)
                | Some a \<Rightarrow> (None, p\<lparr>mp_arena := Some a, dv_live := (a, n) # dv_live p\<rparr>)))"

definition aligned :: "nat \<Rightarrow> nat" where
  "aligned n = (n + 255) div 256 * 256"

definition allocate :: "cuda_answers \<Rightarrow> nat \<Rightarrow> mem_pool \<Rightarrow> (pool_error + nat) \<times> mem_pool" where
  "allocate ca size_bytes p0 =
     (case init_cuda ca p0 of
        (Some e, p) \<Rightarrow> (Inl e, p)
      | (None, p) \<Rightarrow>
          (case mp_arena_size p of
             Some n \<Rightarrow>
               (case ensure_arena ca p of
                  (Some e, p1) \<Rightarrow> (Inl e, p1)
                | (None, p1) \<Rightarrow>
                    if mp_offset p1 + aligned size_bytes \<le> n
                    then (let ptr = the (mp_arena p1) + mp_offset p1; off = mp_offset p1 + aligned size_bytes
                          in (Inr ptr, p1\<lparr>mp_offset := off, mp_peak := max (mp_peak p1) off,
                                          mp_given := (ptr, size_bytes) # mp_given p1\<rparr>))
                    else (case ca_block ca of
                            None \<Rightarrow> (Inl OverflowFailed, p1)
                          | Some ptr \<Rightarrow>
                              (Inr ptr, p1\<lparr>mp_overflow := mp_overflow p1 @ [ptr], mp_overflow_count := mp_overflow_count p1 + 1,
                                 mp_overflow_bytes := mp_overflow_bytes p1 + size_bytes,
                                 dv_live := (ptr, size_bytes) # dv_live p1, mp_given := (ptr, size_bytes) # mp_given p1\<rparr>)))
           | None \<Rightarrow>
               (case ca_block ca of
                  None \<Rightarrow> (Inl MallocFailed, p)
                | Some ptr \<Rightarrow>
                    (Inr ptr, p\<lparr>mp_allocations := mp_allocations p @ [ptr], dv_live := (ptr, size_bytes) # dv_live p,
                       mp_given := (ptr, size_bytes) # mp_given p\<rparr>))))"

definition cuda_free :: "nat \<Rightarrow> mem_pool \<Rightarrow> mem_pool" where
  "cuda_free ptr p = p\<lparr>dv_live := filter (\<lambda>b. fst b \<noteq> ptr) (dv_live p)\<rparr>"

definition free_all :: "mem_pool \<Rightarrow> mem_pool" where
  "free_all p =
     (if mp_arena_size p \<noteq> None
      then (fold cuda_free (mp_overflow p) p)\<lparr>mp_offset := 0, mp_overflow := [], mp_given := []\<rparr>
      else (fold cuda_free (mp_allocations p) p)\<lparr>mp_allocations := [], mp_given := []\<rparr>)"

text \<open>\<open>stream_ok\<close>: the runtime destroys the stream; an error is logged and the handle is dropped all the
  same.\<close>

definition destroy :: "bool \<Rightarrow> mem_pool \<Rightarrow> mem_pool" where
  "destroy stream_ok p0 =
     (let p = free_all p0;
          p1 = (case mp_arena p of None \<Rightarrow> p | Some a \<Rightarrow> (cuda_free a p)\<lparr>mp_arena := None, mp_offset := 0\<rparr>);
          p2 = (case mp_stream p1 of
                  None \<Rightarrow> p1
                | Some h \<Rightarrow> p1\<lparr>mp_stream := None, dv_streams := (if stream_ok then remove1 h (dv_streams p1) else dv_streams p1)\<rparr>)
      in p2\<lparr>mp_initialized := False\<rparr>)"

definition stream_handle :: "cuda_answers \<Rightarrow> mem_pool \<Rightarrow> (pool_error + nat) \<times> mem_pool" where
  "stream_handle ca p =
     (case init_cuda ca p of (Some e, p1) \<Rightarrow> (Inl e, p1) | (None, p1) \<Rightarrow> (Inr (the (mp_stream p1)), p1))"

text \<open>\<open>_read_arena_size_bytes\<close>.\<close>

definition read_arena_size_bytes :: "(string \<Rightarrow> string option) \<Rightarrow> string \<Rightarrow> int \<Rightarrow> int" where
  "read_arena_size_bytes env var default_mb =
     (let fallback = (case env ''OVS_CUDA_ARENA_SIZE_MB'' of Some v \<Rightarrow> v | None \<Rightarrow> int_str default_mb);
          raw = (case env var of Some v \<Rightarrow> v | None \<Rightarrow> fallback);
          mb = (case py_int raw of None \<Rightarrow> default_mb | Some n \<Rightarrow> n)
      in max 1 mb * 1024 * 1024)"

datatype pool_event = Allocate cuda_answers nat | FreeAll | Destroy bool | Stream cuda_answers

fun pool_step :: "pool_event \<Rightarrow> mem_pool \<Rightarrow> mem_pool" where
  "pool_step (Allocate ca n) p = snd (allocate ca n p)"
| "pool_step FreeAll p = free_all p"
| "pool_step (Destroy ok) p = destroy ok p"
| "pool_step (Stream ca) p = snd (stream_handle ca p)"

section \<open>Blocks\<close>

definition apart :: "block \<Rightarrow> block \<Rightarrow> bool" where
  "apart a b \<longleftrightarrow> fst a + snd a \<le> fst b \<or> fst b + snd b \<le> fst a"

definition inside :: "block \<Rightarrow> block \<Rightarrow> bool" where
  "inside a b \<longleftrightarrow> fst b \<le> fst a \<and> fst a + snd a \<le> fst b + snd b"

text \<open>The contract of the runtime: a new block is apart from the live ones and has an address of its
  own.\<close>

definition fresh_block :: "nat \<Rightarrow> nat \<Rightarrow> mem_pool \<Rightarrow> bool" where
  "fresh_block ptr n p \<longleftrightarrow> list_all (\<lambda>b. apart (ptr, n) b \<and> fst b \<noteq> ptr) (dv_live p)"

definition honest :: "pool_event \<Rightarrow> mem_pool \<Rightarrow> bool" where
  "honest e p \<longleftrightarrow>
     (case e of
        Allocate ca n \<Rightarrow>
          (let p1 = snd (init_cuda ca p); p2 = snd (ensure_arena ca p1) in
            (mp_arena p1 = None \<longrightarrow> (case (ca_arena ca, mp_arena_size p1) of (Some a, Some k) \<Rightarrow> fresh_block a k p1 | _ \<Rightarrow> True))
            \<and> (case ca_block ca of Some ptr \<Rightarrow> fresh_block ptr n p2 | None \<Rightarrow> True))
      | _ \<Rightarrow> True)"

fun honest_run :: "pool_event list \<Rightarrow> mem_pool \<Rightarrow> bool" where
  "honest_run [] p \<longleftrightarrow> True"
| "honest_run (e # es) p \<longleftrightarrow> honest e p \<and> honest_run es (pool_step e p)"

definition mem_inv :: "mem_pool \<Rightarrow> bool" where
  "mem_inv p \<longleftrightarrow>
     distinct (map fst (dv_live p)) \<and> sorted_wrt apart (dv_live p) \<and> sorted_wrt apart (mp_given p)
     \<and> (case mp_arena_size p of
          Some n \<Rightarrow>
            mp_allocations p = [] \<and> mp_offset p \<le> n \<and> (mp_arena p = None \<longrightarrow> mp_offset p = 0)
            \<and> fst ` set (dv_live p) = set_option (mp_arena p) \<union> set (mp_overflow p)
            \<and> (\<forall>a. mp_arena p = Some a \<longrightarrow> (a, n) \<in> set (dv_live p) \<and> a \<notin> set (mp_overflow p))
            \<and> (\<forall>b \<in> set (mp_given p). (\<exists>a. mp_arena p = Some a \<and> inside b (a, mp_offset p))
                  \<or> (b \<in> set (dv_live p) \<and> fst b \<in> set (mp_overflow p)))
        | None \<Rightarrow> mp_arena p = None \<and> mp_overflow p = [] \<and> fst ` set (dv_live p) = set (mp_allocations p)
            \<and> mp_given p = dv_live p)"

lemma apart_sym: "apart a b \<longleftrightarrow> apart b a"
  by (auto simp: apart_def)

lemma apart_inside: "apart x b \<Longrightarrow> inside a b \<Longrightarrow> apart x a"
  by (auto simp: apart_def inside_def)

lemma apart_of_list: "sorted_wrt apart xs \<Longrightarrow> x \<in> set xs \<Longrightarrow> y \<in> set xs \<Longrightarrow> x \<noteq> y \<Longrightarrow> apart x y"
  by (induction xs) (auto simp: apart_sym)

lemma aligned_ge: "n \<le> aligned n"
proof -
  have "(n + 255) mod 256 \<le> 255" using mod_less_divisor [of 256 "n + 255"] by linarith
  moreover have "aligned n + (n + 255) mod 256 = n + 255" by (simp add: aligned_def)
  ultimately show ?thesis by linarith
qed

lemma cuda_free_fold: "fold cuda_free ps p = p\<lparr>dv_live := filter (\<lambda>b. fst b \<notin> set ps) (dv_live p)\<rparr>"
  by (induction ps arbitrary: p) (auto simp: cuda_free_def intro!: filter_cong)

lemma new_pool_inv: "mem_inv (new_pool arena)"
  by (simp add: mem_inv_def new_pool_def split: option.split)

lemma init_inv [simp]: "mem_inv (snd (init_cuda ca p)) = mem_inv p"
  by (simp add: init_cuda_def mem_inv_def split: option.split)

lemma init_frame [simp]:
  "mp_arena_size (snd (init_cuda ca p)) = mp_arena_size p" "mp_arena (snd (init_cuda ca p)) = mp_arena p"
  "dv_live (snd (init_cuda ca p)) = dv_live p" "mp_given (snd (init_cuda ca p)) = mp_given p"
  by (simp_all add: init_cuda_def split: option.split)

lemma arena_inv:
  assumes "mem_inv p" "mp_arena p = None \<Longrightarrow> (case (ca_arena ca, mp_arena_size p) of (Some a, Some k) \<Rightarrow> fresh_block a k p | _ \<Rightarrow> True)"
  shows "mem_inv (snd (ensure_arena ca p))"
proof (cases "mp_arena p = None \<and> ca_arena ca \<noteq> None \<and> mp_arena_size p \<noteq> None")
  case True
  then obtain a k where a: "ca_arena ca = Some a" "mp_arena_size p = Some k" by auto
  have f: "\<forall>b \<in> set (dv_live p). apart (a, k) b \<and> fst b \<noteq> a"
    using assms(2) True a by (auto simp: fresh_block_def list_all_iff)
  then have new: "a \<notin> fst ` set (dv_live p)" by auto
  moreover have "set (mp_overflow p) = fst ` set (dv_live p)" using assms(1) True a by (simp add: mem_inv_def)
  ultimately show ?thesis using assms(1) True a f by (auto simp: mem_inv_def ensure_arena_def)
next
  case False
  then have "snd (ensure_arena ca p) = p" by (auto simp: ensure_arena_def split: option.split)
  with assms(1) show ?thesis by simp
qed

lemma ensure_frame [simp]:
  "mp_arena_size (snd (ensure_arena ca p)) = mp_arena_size p" "mp_given (snd (ensure_arena ca p)) = mp_given p"
  by (simp_all add: ensure_arena_def split: option.split)

text \<open>A block cut from the arena, and one the runtime gives.\<close>

lemma bump_inv:
  assumes "mem_inv p" "mp_arena_size p = Some n" "mp_arena p = Some a" "mp_offset p + aligned k \<le> n"
  shows "mem_inv (p\<lparr>mp_offset := mp_offset p + aligned k, mp_peak := m, mp_given := (a + mp_offset p, k) # mp_given p\<rparr>)"
proof -
  let ?b = "(a + mp_offset p, k)"
  have ge: "k \<le> aligned k" by (rule aligned_ge)
  have i: "(a, n) \<in> set (dv_live p)" "a \<notin> set (mp_overflow p)" using assms(1-3) by (auto simp: mem_inv_def)
  have "apart ?b b" if "b \<in> set (mp_given p)" for b
  proof -
    consider "inside b (a, mp_offset p)" | "b \<in> set (dv_live p)" "fst b \<in> set (mp_overflow p)"
      using assms(1-3) \<open>b \<in> set (mp_given p)\<close> by (auto simp: mem_inv_def)
    then show ?thesis
    proof cases
      case 1
      then show ?thesis by (auto simp: apart_def inside_def)
    next
      case 2
      then have "b \<noteq> (a, n)" using i(2) by auto
      with 2 have "apart b (a, n)" using i(1) assms(1) apart_of_list [of "dv_live p" b "(a, n)"] by (auto simp: mem_inv_def)
      moreover have "inside ?b (a, n)" using assms(4) ge by (simp add: inside_def)
      ultimately show ?thesis using apart_inside apart_sym by blast
    qed
  qed
  moreover have "inside b (a, mp_offset p + aligned k)" if "inside b (a, mp_offset p)" for b
    using that by (simp add: inside_def)
  moreover have "inside ?b (a, mp_offset p + aligned k)" using ge by (simp add: inside_def)
  ultimately show ?thesis using assms by (auto simp: mem_inv_def)
qed

lemma overflow_inv:
  assumes "mem_inv p" "mp_arena_size p = Some n" "mp_arena p = Some a" "fresh_block ptr k p"
  shows "mem_inv (p\<lparr>mp_overflow := mp_overflow p @ [ptr], mp_overflow_count := c, mp_overflow_bytes := d,
    dv_live := (ptr, k) # dv_live p, mp_given := (ptr, k) # mp_given p\<rparr>)"
proof -
  have f: "\<forall>b \<in> set (dv_live p). apart (ptr, k) b \<and> fst b \<noteq> ptr"
    using assms(4) by (auto simp: fresh_block_def list_all_iff)
  have i: "(a, n) \<in> set (dv_live p)" "mp_offset p \<le> n" using assms(1-3) by (auto simp: mem_inv_def)
  have "apart (ptr, k) b" if "b \<in> set (mp_given p)" for b
  proof -
    consider "inside b (a, mp_offset p)" | "b \<in> set (dv_live p)"
      using assms(1-3) \<open>b \<in> set (mp_given p)\<close> by (auto simp: mem_inv_def)
    then show ?thesis
    proof cases
      case 1
      then have "inside b (a, n)" using i(2) by (simp add: inside_def)
      then show ?thesis using f i(1) apart_inside by blast
    next
      case 2
      then show ?thesis using f by blast
    qed
  qed
  moreover have "ptr \<noteq> a" using f i(1) by fastforce
  moreover have "ptr \<notin> fst ` set (dv_live p)" using f by auto
  ultimately show ?thesis using assms f by (auto simp: mem_inv_def)
qed

lemma malloc_inv:
  assumes "mem_inv p" "mp_arena_size p = None" "fresh_block ptr k p"
  shows "mem_inv (p\<lparr>mp_allocations := mp_allocations p @ [ptr], dv_live := (ptr, k) # dv_live p, mp_given := (ptr, k) # mp_given p\<rparr>)"
proof -
  have f: "\<forall>b \<in> set (dv_live p). apart (ptr, k) b \<and> fst b \<noteq> ptr"
    using assms(3) by (auto simp: fresh_block_def list_all_iff)
  then have "ptr \<notin> fst ` set (dv_live p)" by auto
  with assms(1,2) f show ?thesis by (simp add: mem_inv_def)
qed

lemma allocate_inv:
  assumes "mem_inv p0" "honest (Allocate ca k) p0"
  shows "mem_inv (snd (allocate ca k p0))"
proof -
  obtain e p where i: "init_cuda ca p0 = (e, p)" by (rule prod.exhaust)
  obtain e1 p1 where a: "ensure_arena ca p = (e1, p1)" by (rule prod.exhaust)
  have p: "mem_inv p" using assms(1) init_inv [of ca p0] i by simp
  have h: "mp_arena p = None \<Longrightarrow> (case (ca_arena ca, mp_arena_size p) of (Some a, Some k) \<Rightarrow> fresh_block a k p | _ \<Rightarrow> True)"
    "\<And>ptr. ca_block ca = Some ptr \<Longrightarrow> fresh_block ptr k p1"
    using assms(2) i a by (auto simp: honest_def Let_def)
  have p1: "mem_inv p1" using arena_inv [OF p h(1)] a by simp
  show ?thesis
  proof (cases "e = None")
    case False
    then show ?thesis using i p by (auto simp: allocate_def)
  next
    case True
    show ?thesis
    proof (cases "mp_arena_size p")
      case None
      then have "p1 = p" using a by (simp add: ensure_arena_def)
      then show ?thesis using True None i p malloc_inv [OF p None] h(2)
        by (auto simp: allocate_def split: option.split)
    next
      case (Some n)
      show ?thesis
      proof (cases "e1 = None")
        case False
        then show ?thesis using True Some i a p1 by (auto simp: allocate_def)
      next
        case e1: True
        obtain x where x: "mp_arena p1 = Some x" using e1 a Some by (auto simp: ensure_arena_def split: option.splits if_splits)
        have n: "mp_arena_size p1 = Some n" using Some ensure_frame(1) [of ca p] a by simp
        show ?thesis
          using True Some e1 i a p1 bump_inv [OF p1 n x, of k] overflow_inv [OF p1 n x] h(2)
          by (auto simp: allocate_def x Let_def split: option.split)
      qed
    qed
  qed
qed

lemma free_all_inv:
  assumes "mem_inv p"
  shows "mem_inv (free_all p)" "mp_given (free_all p) = []" "mp_arena_size (free_all p) = mp_arena_size p"
    "mp_overflow (free_all p) = []" "mp_allocations (free_all p) = []" "mp_arena (free_all p) = mp_arena p"
proof -
  have keep: "filter (\<lambda>b. fst b \<notin> set (mp_allocations p)) (dv_live p) = []" if "mp_arena_size p = None"
    using assms that by (auto simp: mem_inv_def filter_empty_conv)
  have stays: "x \<in> fst ` {b \<in> set xs. fst b \<notin> S}" if "(x, n) \<in> set xs" "x \<notin> S" for x n S and xs :: "block list"
    using that by force
  show "mem_inv (free_all p)"
    using assms keep
    by (auto simp: mem_inv_def free_all_def cuda_free_fold distinct_map_filter sorted_wrt_filter intro: stays split: option.splits)
  show "mp_allocations (free_all p) = []" "mp_overflow (free_all p) = []"
    using assms by (auto simp: mem_inv_def free_all_def cuda_free_fold split: option.splits)
qed (simp_all add: free_all_def cuda_free_fold)

lemma destroy_frees:
  assumes "mem_inv p"
  shows "mem_inv (destroy ok p) \<and> dv_live (destroy ok p) = []"
proof -
  let ?p = "free_all p"
  have f: "mem_inv ?p" "mp_given ?p = []" "mp_overflow ?p = []" "mp_allocations ?p = []"
    by (simp_all add: free_all_inv [OF assms])
  have "dv_live (case mp_arena ?p of None \<Rightarrow> ?p | Some a \<Rightarrow> (cuda_free a ?p)\<lparr>mp_arena := None, mp_offset := 0\<rparr>) = []"
    using f by (cases "mp_arena_size ?p"; cases "mp_arena ?p") (auto simp: mem_inv_def cuda_free_def filter_empty_conv)
  moreover have "mem_inv (case mp_arena ?p of None \<Rightarrow> ?p | Some a \<Rightarrow> (cuda_free a ?p)\<lparr>mp_arena := None, mp_offset := 0\<rparr>)"
    using f calculation by (cases "mp_arena_size ?p"; cases "mp_arena ?p") (auto simp: mem_inv_def cuda_free_def)
  ultimately show ?thesis
    by (auto simp: destroy_def Let_def mem_inv_def split: option.split)
qed

lemma step_mem_inv:
  assumes "mem_inv p" "honest e p"
  shows "mem_inv (pool_step e p)"
proof (cases e)
  case (Stream ca)
  obtain x q where i: "init_cuda ca p = (x, q)" by (rule prod.exhaust)
  then have "mem_inv q" using assms(1) init_inv [of ca p] by simp
  then show ?thesis using Stream i by (cases x) (simp_all add: stream_handle_def)
qed (use assms in \<open>simp_all add: allocate_inv free_all_inv destroy_frees\<close>)

lemma run_mem_inv: "honest_run es p \<Longrightarrow> mem_inv p \<Longrightarrow> mem_inv (fold pool_step es p)"
  by (induction es arbitrary: p) (auto simp: step_mem_inv)

lemma given_is_live:
  assumes "mem_inv p" "b \<in> set (mp_given p)"
  shows "\<exists>c \<in> set (dv_live p). inside b c"
proof -
  have "b \<in> set (dv_live p) \<or> (\<exists>a n. (a, n) \<in> set (dv_live p) \<and> inside b (a, mp_offset p) \<and> mp_offset p \<le> n)"
  proof (cases "mp_arena_size p")
    case None
    then show ?thesis using assms by (simp add: mem_inv_def)
  next
    case (Some n)
    have given: "(\<exists>a. mp_arena p = Some a \<and> inside b (a, mp_offset p)) \<or> b \<in> set (dv_live p)"
      and arena: "\<And>a. mp_arena p = Some a \<Longrightarrow> (a, n) \<in> set (dv_live p)" and "mp_offset p \<le> n"
      using assms Some by (simp_all add: mem_inv_def) blast
    then show ?thesis by blast
  qed
  then consider (live) "b \<in> set (dv_live p)"
    | (arena) a n where "(a, n) \<in> set (dv_live p)" "inside b (a, mp_offset p)" "mp_offset p \<le> n" by blast
  then show ?thesis
  proof cases
    case live
    then show ?thesis by (auto simp: inside_def intro!: bexI [of _ b])
  next
    case arena
    then show ?thesis by (auto simp: inside_def intro!: bexI [of _ "(a, n)"])
  qed
qed

text \<open>
  C12: the pool keeps its memory apart. As long as the runtime gives it blocks of their own, over
  any sequence of allocations, failures, resets and teardowns, the blocks handed out since the
  last reset never overlap, whether they come from the arena or beside it, each lies in memory
  that has not been given back, and a teardown gives everything back.
\<close>

theorem pool_blocks_never_overlap:
  assumes "honest_run es (new_pool arena)"
  shows "sorted_wrt apart (mp_given (fold pool_step es (new_pool arena)))
    \<and> list_all (\<lambda>b. list_ex (inside b) (dv_live (fold pool_step es (new_pool arena)))) (mp_given (fold pool_step es (new_pool arena)))
    \<and> dv_live (destroy ok (fold pool_step es (new_pool arena))) = []"
proof -
  define p where "p = fold pool_step es (new_pool arena)"
  have p: "mem_inv p" unfolding p_def by (rule run_mem_inv [OF assms new_pool_inv])
  have "\<exists>c \<in> set (dv_live p). inside b c" if b: "b \<in> set (mp_given p)" for b
    by (rule given_is_live [OF p b])
  then show ?thesis
    unfolding p_def [symmetric] using p destroy_frees [OF p, of ok]
    by (auto simp: mem_inv_def list_all_iff list_ex_iff)
qed

text \<open>An arena of a kilobyte: two blocks fit, the third goes beside it, and after a reset the arena is used again.\<close>

definition runtime :: "nat \<Rightarrow> cuda_answers" where
  "runtime ptr = \<lparr>ca_stream = Some 1, ca_arena = Some 4096, ca_block = Some ptr\<rparr>"

definition pool_story :: "pool_event list" where
  "pool_story = [Allocate (runtime 65536) 300, Allocate (runtime 65536) 500, Allocate (runtime 65536) 700]"

lemma pool_blocks_never_overlap_witness:
  "honest_run pool_story (new_pool (Some 1024))
    \<and> mp_given (fold pool_step pool_story (new_pool (Some 1024))) = [(65536, 700), (4608, 500), (4096, 300)]
    \<and> sorted_wrt apart (mp_given (fold pool_step pool_story (new_pool (Some 1024))))
    \<and> dv_live (destroy True (fold pool_step pool_story (new_pool (Some 1024)))) = []"
proof -
  have h: "honest_run pool_story (new_pool (Some 1024))"
    by (simp add: pool_story_def runtime_def new_pool_def honest_def init_cuda_def ensure_arena_def allocate_def aligned_def
        fresh_block_def apart_def Let_def)
  have "mp_given (fold pool_step pool_story (new_pool (Some 1024))) = [(65536, 700), (4608, 500), (4096, 300)]"
    by (simp add: pool_story_def runtime_def new_pool_def init_cuda_def ensure_arena_def allocate_def aligned_def Let_def)
  then show ?thesis using h pool_blocks_never_overlap [OF h] by blast
qed

end
