(* ===== verification/Kokoro.thy ===== *)
theory Kokoro
  imports Edge_Tts_Text
begin

text \<open>
  The Kokoro synthesiser \<open>app/backends/jetson/kokoro_trt.py\<close>: its tokens, the splitting of a text into segments
  that fit the engine, the synthesis of one segment with the choice of the bucket and the CPU fallback,
  and the streaming of their audio. The phonemizer, the token table, the networks and \<open>str.lower\<close>
  are parameters. The state is what a request can change: the runtime mode. Timings and the
  context slots, which a request borrows and puts back, are left out. PCM is a list of samples: the
  recoding of the joined segments to floating point and back is left out.
\<close>

section \<open>Tokens\<close>

record 'a kokoro_nets =
  kn_phonemize :: "ustr \<Rightarrow> ustr list list"
  kn_lower :: "ustr \<Rightarrow> ustr"
  kn_token :: "nat \<Rightarrow> nat option"
  kn_frames :: "nat list \<Rightarrow> nat \<Rightarrow> nat"
  kn_run :: "string \<Rightarrow> bool \<Rightarrow> nat list \<Rightarrow> nat \<Rightarrow> 'a list"
  kn_zero :: 'a

definition append_tokens :: "'a kokoro_nets \<Rightarrow> ustr \<Rightarrow> nat list" where
  "append_tokens k t = List.map_filter (kn_token k) t"

fun sentence_tokens :: "'a kokoro_nets \<Rightarrow> bool \<Rightarrow> ustr list list \<Rightarrow> nat list" where
  "sentence_tokens k first [] = []"
| "sentence_tokens k first (ps # ss) =
     (if first then [] else append_tokens k [32]) @ append_tokens k (concat ps) @ sentence_tokens k False ss"

text \<open>\<open>re.sub(r"\s+", " ", t)\<close>.\<close>

fun collapse_spaces :: "bool \<Rightarrow> ustr \<Rightarrow> ustr" where
  "collapse_spaces after [] = []"
| "collapse_spaces after (c # cs) =
     (if py_isspace c then (if after then [] else [32]) @ collapse_spaces True cs else c # collapse_spaces False cs)"

definition text_to_token_ids :: "'a kokoro_nets \<Rightarrow> ustr \<Rightarrow> nat list" where
  "text_to_token_ids k text0 =
     (let t = ustrip text0 in
      if t = [] then []
      else (let ids = sentence_tokens k True (kn_phonemize k t)
            in if ids \<noteq> [] then ids else append_tokens k (collapse_spaces False (kn_lower k t))))"

section \<open>Segments\<close>

definition sentence_ends :: "nat list" where "sentence_ends = [46, 33, 63, 59, 58]"

text \<open>\<open>re.split(r"(?<=[.!?;:])\s+", text)\<close>.\<close>

function split_sentences :: "ustr \<Rightarrow> ustr \<Rightarrow> ustr list" where
  "split_sentences cur [] = [cur]"
| "split_sentences cur (c # cs) =
     (if py_isspace c \<and> cur \<noteq> [] \<and> last cur \<in> set sentence_ends
      then cur # split_sentences [] (dropWhile py_isspace cs) else split_sentences (cur @ [c]) cs)"
  by pat_completeness auto
termination
  by (relation "measure (\<lambda>(_, cs). length cs)") (auto simp: less_Suc_eq_le length_dropWhile_le)

fun split_long_word :: "(ustr \<Rightarrow> nat) \<Rightarrow> nat \<Rightarrow> ustr \<Rightarrow> ustr \<Rightarrow> ustr list" where
  "split_long_word count n cur [] = (if cur = [] then [] else [cur])"
| "split_long_word count n cur (c # cs) =
     (if cur \<noteq> [] \<and> n < count (cur @ [c]) then cur # split_long_word count n [c] cs
      else split_long_word count n (cur @ [c]) cs)"

fun pack_by_count :: "(ustr \<Rightarrow> nat) \<Rightarrow> nat \<Rightarrow> ustr list \<Rightarrow> ustr list \<Rightarrow> ustr list" where
  "pack_by_count count n cur [] = (if cur = [] then [] else [join_spaces cur])"
| "pack_by_count count n cur (w # ws) =
     (let full = cur \<noteq> [] \<and> n < count (join_spaces (cur @ [w]));
          out = (if full then [join_spaces cur] else []);
          cur1 = (if full then [w] else cur @ [w]); t = join_spaces cur1
      in if t \<noteq> [] \<and> n < count t then out @ split_long_word count n [] t @ pack_by_count count n [] ws
         else out @ pack_by_count count n cur1 ws)"

definition split_text_by_token_count :: "(ustr \<Rightarrow> nat) \<Rightarrow> nat \<Rightarrow> ustr \<Rightarrow> ustr list" where
  "split_text_by_token_count count n text =
     (if count text \<le> n then [text]
      else if py_words text = [] then [text] else pack_by_count count n [] (py_words text))"

text \<open>\<open>given\<close> is the limit asked for, \<open>None\<close> if there is none or it is no number.\<close>

definition split_stream_text :: "(ustr \<Rightarrow> nat) \<Rightarrow> int \<Rightarrow> int option \<Rightarrow> ustr \<Rightarrow> ustr list" where
  "split_stream_text count dflt given text0 =
     (let t = join_spaces (py_words text0) in
      if t = [] then []
      else (let n = (case given of None \<Rightarrow> dflt | Some k \<Rightarrow> k) in
            if n \<le> 0 then [t]
            else (let parts0 = filter (\<lambda>p. p \<noteq> []) (map ustrip (split_sentences [] t));
                      parts = (if parts0 = [] then [t] else parts0);
                      segs = concat (map (split_text_by_token_count count (nat (max 16 n))) parts)
                  in if segs = [] then [t] else segs)))"

section \<open>Synthesis\<close>

record kokoro =
  kk_mode :: string
  kk_fixed :: "nat option"
  kk_min :: "nat option"
  kk_max :: "nat option"
  kk_long :: bool

record kokoro_config =
  kc_max_tokens :: nat
  kc_default_sid :: nat
  kc_voices_size :: nat
  kc_segment_tokens :: int
  kc_synth_limit :: "string option"
  kc_synth_segment :: bool
  kc_stream_segment :: bool
  kc_cpu_fallback :: bool
  kc_chunk_ms :: "string option"
  kc_onnx :: bool

datatype kokoro_error = StyleOutOfRange | ShapeMismatch | OnnxMissing | BadLimit

record 'a spoken =
  sp_pcm :: "'a list"
  sp_tokens :: "nat option"
  sp_truncated :: bool
  sp_segments :: "nat option"

definition trt_split :: "kokoro \<Rightarrow> bool" where
  "trt_split s \<longleftrightarrow> kk_mode s \<in> set [''hybrid'', ''split_generator'']"

text \<open>\<open>(self._hybrid_max_seq_len or 128) - 2\<close>, at least one.\<close>

definition engine_tokens :: "kokoro \<Rightarrow> nat" where
  "engine_tokens s = max 1 ((case kk_max s of None \<Rightarrow> 128 | Some 0 \<Rightarrow> 128 | Some n \<Rightarrow> n) - 2)"

definition style_bytes :: nat where "style_bytes = 522240"

definition load_style :: "kokoro_config \<Rightarrow> nat \<Rightarrow> nat \<Rightarrow> nat option" where
  "load_style cfg sid n =
     (let idx = min 509 n
      in if kc_voices_size cfg < sid * style_bytes + idx * 1024 + 1024 then None else Some (sid * 510 + idx))"

definition pad_ids :: "kokoro \<Rightarrow> nat list \<Rightarrow> nat list" where
  "pad_ids s ids =
     (if trt_split s
      then (case kk_fixed s of
              Some n \<Rightarrow> if n \<noteq> 0 then ids @ replicate (n - length ids) 0 else
                  (case kk_min s of Some k \<Rightarrow> ids @ replicate (k - length ids) 0 | None \<Rightarrow> ids)
            | None \<Rightarrow> (case kk_min s of Some k \<Rightarrow> ids @ replicate (k - length ids) 0 | None \<Rightarrow> ids))
      else ids)"

text \<open>The long bucket or the short one, or none.\<close>

definition select_split_bucket :: "kokoro \<Rightarrow> nat \<Rightarrow> bool option" where
  "select_split_bucket s frames =
     (if frames \<le> 256 then Some False else if frames \<le> 512 \<and> kk_long s then Some True else None)"

definition load_ort :: "kokoro_config \<Rightarrow> kokoro \<Rightarrow> kokoro_error option \<times> kokoro" where
  "load_ort cfg s = (if kc_onnx cfg then (None, s\<lparr>kk_mode := ''ort_cpu''\<rparr>) else (Some OnnxMissing, s))"

definition synthesize_one ::
  "'a kokoro_nets \<Rightarrow> kokoro_config \<Rightarrow> nat option \<Rightarrow> ustr \<Rightarrow> kokoro \<Rightarrow> (kokoro_error + 'a spoken) \<times> kokoro" where
  "synthesize_one k cfg speaker text s =
     (let token_ids = text_to_token_ids k text; sid = (case speaker of None \<Rightarrow> kc_default_sid cfg | Some i \<Rightarrow> i) in
      if token_ids = [] then (Inr \<lparr>sp_pcm = replicate 2400 (kn_zero k), sp_tokens = None, sp_truncated = False, sp_segments = None\<rparr>, s)
      else (let limit = (if trt_split s then engine_tokens s else kc_max_tokens cfg); kept = take limit token_ids;
                ids = pad_ids s ([0] @ kept @ [0]);
                answer = (\<lambda>audio. Inr \<lparr>sp_pcm = audio, sp_tokens = Some (length kept), sp_truncated = (limit < length token_ids),
                                      sp_segments = None\<rparr>)
            in case load_style cfg sid (length kept) of
                 None \<Rightarrow> (Inl StyleOutOfRange, s)
               | Some style \<Rightarrow>
                   if kk_mode s = ''split_generator'' then
                     (case select_split_bucket s (kn_frames k ids style) of
                        Some long \<Rightarrow> (answer (kn_run k (kk_mode s) long ids style), s)
                      | None \<Rightarrow>
                          if \<not> kc_cpu_fallback cfg then (Inl ShapeMismatch, s)
                          else (case load_ort cfg s of
                                  (Some e, s1) \<Rightarrow> (Inl e, s1)
                                | (None, s1) \<Rightarrow> (answer (kn_run k ''ort_cpu'' False ids style), s1)))
                   else (answer (kn_run k (if kk_mode s \<in> set [''engine'', ''hybrid''] then kk_mode s else ''ort_cpu'') False ids style), s)))"

fun synthesize_all ::
  "'a kokoro_nets \<Rightarrow> kokoro_config \<Rightarrow> nat option \<Rightarrow> ustr list \<Rightarrow> kokoro \<Rightarrow> (kokoro_error + 'a spoken list) \<times> kokoro" where
  "synthesize_all k cfg speaker [] s = (Inr [], s)"
| "synthesize_all k cfg speaker (t # ts) s =
     (case synthesize_one k cfg speaker t s of
        (Inl e, s1) \<Rightarrow> (Inl e, s1)
      | (Inr x, s1) \<Rightarrow>
          (case synthesize_all k cfg speaker ts s1 of
             (Inl e, s2) \<Rightarrow> (Inl e, s2)
           | (Inr xs, s2) \<Rightarrow> (Inr (x # xs), s2)))"

definition token_count :: "'a kokoro_nets \<Rightarrow> ustr \<Rightarrow> nat" where
  "token_count k t = length (text_to_token_ids k t)"

definition synthesize_segments ::
  "'a kokoro_nets \<Rightarrow> kokoro_config \<Rightarrow> int \<Rightarrow> nat option \<Rightarrow> ustr \<Rightarrow> kokoro \<Rightarrow> (kokoro_error + 'a spoken) \<times> kokoro" where
  "synthesize_segments k cfg limit speaker text s =
     (let segs = split_stream_text (token_count k) (kc_segment_tokens cfg) (Some limit) text in
      case synthesize_all k cfg speaker segs s of
        (Inl e, s1) \<Rightarrow> (Inl e, s1)
      | (Inr xs, s1) \<Rightarrow>
          (Inr \<lparr>sp_pcm = concat (map sp_pcm xs), sp_tokens = Some (\<Sum>x\<leftarrow>xs. case sp_tokens x of None \<Rightarrow> 0 | Some n \<Rightarrow> n),
                sp_truncated = False, sp_segments = Some (length segs)\<rparr>, s1))"

definition synthesize ::
  "'a kokoro_nets \<Rightarrow> kokoro_config \<Rightarrow> nat option \<Rightarrow> ustr \<Rightarrow> kokoro \<Rightarrow> (kokoro_error + 'a spoken) \<times> kokoro" where
  "synthesize k cfg speaker text s =
     (if kc_synth_segment cfg \<and> trt_split s \<and> engine_tokens s < token_count k text
      then (case (case kc_synth_limit cfg of None \<Rightarrow> Some (kc_segment_tokens cfg) | Some v \<Rightarrow> py_int v) of
              None \<Rightarrow> (Inl BadLimit, s)
            | Some limit \<Rightarrow> synthesize_segments k cfg limit speaker text s)
      else synthesize_one k cfg speaker text s)"

definition chunk_of_ms :: "string option \<Rightarrow> nat" where
  "chunk_of_ms v =
     (let ms = max 10 (min 200 (case py_int (case v of None \<Rightarrow> ''40'' | Some x \<Rightarrow> x) of None \<Rightarrow> 40 | Some n \<Rightarrow> n))
      in nat (max 1 (24 * ms)))"

function chunks :: "nat \<Rightarrow> 'a list \<Rightarrow> 'a list list" where
  "chunks n xs = (if xs = [] \<or> n = 0 then [] else take n xs # chunks n (drop n xs))"
  by pat_completeness auto
termination by (relation "measure (\<lambda>(_, xs). length xs)") auto

declare chunks.simps [simp del]

text \<open>The generator: the chunks yielded before it ends or raises.\<close>

fun stream_all ::
  "'a kokoro_nets \<Rightarrow> kokoro_config \<Rightarrow> nat option \<Rightarrow> nat \<Rightarrow> ustr list \<Rightarrow> kokoro \<Rightarrow> 'a list list \<times> kokoro_error option \<times> kokoro" where
  "stream_all k cfg speaker n [] s = ([], None, s)"
| "stream_all k cfg speaker n (t # ts) s =
     (case synthesize k cfg speaker t s of
        (Inl e, s1) \<Rightarrow> ([], Some e, s1)
      | (Inr x, s1) \<Rightarrow> (case stream_all k cfg speaker n ts s1 of (out, e, s2) \<Rightarrow> (chunks n (sp_pcm x) @ out, e, s2)))"

definition generate_streaming ::
  "'a kokoro_nets \<Rightarrow> kokoro_config \<Rightarrow> nat option \<Rightarrow> bool \<Rightarrow> int option \<Rightarrow> ustr \<Rightarrow> kokoro \<Rightarrow> 'a list list \<times> kokoro_error option \<times> kokoro" where
  "generate_streaming k cfg speaker segment_text segment_max text s =
     stream_all k cfg speaker (chunk_of_ms (kc_chunk_ms cfg))
       (if kc_stream_segment cfg \<and> segment_text
        then split_stream_text (token_count k) (kc_segment_tokens cfg) segment_max text else [text]) s"

section \<open>Nothing is lost, and everything fits\<close>

lemma visible_sentences: "visible (concat (split_sentences cur t)) = visible (cur @ t)"
proof (induction cur t rule: split_sentences.induct)
  case (2 cur c cs)
  have "visible (dropWhile py_isspace cs) = visible cs" by (metis filter_not_dropWhile)
  with 2 show ?case by simp
qed simp

lemma visible_strips: "visible (concat (filter (\<lambda>p. p \<noteq> []) (map ustrip ps))) = visible (concat ps)"
  by (induction ps) (auto simp: visible_blank)

lemma visible_long_word: "concat (split_long_word count n cur t) = cur @ t"
  by (induction count n cur t rule: split_long_word.induct) auto

lemma visible_pack_by_count: "visible (concat (pack_by_count count n cur ws)) = visible (concat cur @ concat ws)"
  by (induction count n cur ws rule: pack_by_count.induct) (auto simp: Let_def visible_long_word)

definition fits :: "(ustr \<Rightarrow> nat) \<Rightarrow> nat \<Rightarrow> ustr \<Rightarrow> bool" where
  "fits count n t \<longleftrightarrow> count t \<le> n \<or> length t = 1"

lemma long_word_fits:
  "cur = [] \<or> fits count n cur \<Longrightarrow> list_all (fits count n) (split_long_word count n cur t)"
  by (induction count n cur t rule: split_long_word.induct) (auto simp: fits_def)

lemma pack_fits:
  "cur = [] \<or> count (join_spaces cur) \<le> n \<Longrightarrow> count [] \<le> n \<Longrightarrow> list_all (fits count n) (pack_by_count count n cur ws)"
proof (induction count n cur ws rule: pack_by_count.induct)
  case (2 count n cur w ws)
  have long: "list_all (fits count n) (split_long_word count n [] t)" for t by (rule long_word_fits) simp
  have old: "cur \<noteq> [] \<Longrightarrow> fits count n (join_spaces cur)" using 2(3) by (simp add: fits_def)
  show ?case using 2 long old by (auto simp: Let_def)
qed (auto simp: fits_def)

lemma no_words: "visible t = [] \<Longrightarrow> py_words t = []"
proof -
  assume "visible t = []"
  then have d: "dropWhile py_isspace t = []" by (auto simp: filter_empty_conv dropWhile_eq_Nil_conv)
  show "py_words t = []" unfolding py_words.simps [of t] d by simp
qed

lemma no_visible: "visible t = [] \<longleftrightarrow> ustrip t = []"
  by (auto simp: strip_by_Nil_iff filter_empty_conv)

text \<open>
  C16: the segments Kokoro makes of a text have exactly its visible characters in their order, and with a
  positive limit each has at most that many tokens (at least sixteen) or is a single
  character, for every token count that gives an empty text none.
\<close>

theorem kokoro_segments_fit:
  assumes "count [] = 0"
  shows "visible (concat (split_stream_text count dflt given text)) = visible text
    \<and> (0 < (case given of None \<Rightarrow> dflt | Some n \<Rightarrow> n) \<longrightarrow>
        list_all (fits count (nat (max 16 (case given of None \<Rightarrow> dflt | Some n \<Rightarrow> n)))) (split_stream_text count dflt given text))"
proof -
  define t where "t = join_spaces (py_words text)"
  define n where "n = (case given of None \<Rightarrow> dflt | Some n \<Rightarrow> n)"
  define parts where "parts = filter (\<lambda>p. p \<noteq> []) (map ustrip (split_sentences [] t))"
  let ?split = "split_text_by_token_count count (nat (max 16 n))"
  let ?parts = "if parts = [] then [t] else parts"
  have t: "visible t = visible text" by (simp add: t_def visible_words)
  have one: "visible (concat (?split p)) = visible p" for p
    by (simp add: split_text_by_token_count_def visible_pack_by_count visible_words)
  have many: "visible (concat (concat (map ?split ps))) = visible (concat ps)" for ps
    by (induction ps) (simp_all add: one)
  have parts: "visible (concat ?parts) = visible t"
    using visible_strips [of "split_sentences [] t"] visible_sentences [of "[]" t] by (auto simp: parts_def)
  have blank: "t = []" if "visible t = []"
  proof -
    have "py_words text = []" by (rule no_words) (use t that in simp)
    then show ?thesis by (simp add: t_def)
  qed
  have seen: "t = [] \<or> (\<forall>p \<in> set ?parts. visible p \<noteq> [])"
  proof -
    have "visible (ustrip q) \<noteq> []" if "ustrip q \<noteq> []" for q
      using that no_visible [of q] by simp
    then show ?thesis using blank by (auto simp: parts_def)
  qed
  have fit: "list_all (fits count (nat (max 16 n))) (?split p)" if "visible p \<noteq> []" for p
    using that assms pack_fits [of "[]" count "nat (max 16 n)" "py_words p"] visible_words [of p]
    by (auto simp: split_text_by_token_count_def fits_def)
  then have "t = [] \<or> (\<forall>p \<in> set ?parts. list_all (fits count (nat (max 16 n))) (?split p))"
    using seen by blast
  then have "t = [] \<or> list_all (fits count (nat (max 16 n))) (concat (map ?split ?parts))"
    unfolding list_all_iff set_concat set_map by blast
  moreover have "t = [] \<or> concat (map ?split ?parts) \<noteq> []"
  proof (rule disjCI)
    assume "\<not> concat (map ?split ?parts) \<noteq> []"
    then have "visible t = []" using many [of ?parts] parts by (metis concat.simps(1) filter.simps(1))
    then show "t = []" by (rule blank)
  qed
  moreover have "visible (concat (concat (map ?split ?parts))) = visible text" using t many [of ?parts] parts by simp
  moreover define segs where "segs = concat (map ?split ?parts)"
  ultimately have segs: "t = [] \<or> list_all (fits count (nat (max 16 n))) segs" "t = [] \<or> segs \<noteq> []"
    "visible (concat segs) = visible text" by simp_all
  have "split_stream_text count dflt given text = (if t = [] then [] else if n \<le> 0 then [t] else if segs = [] then [t] else segs)"
    unfolding split_stream_text_def Let_def t_def [symmetric] n_def [symmetric] parts_def [symmetric] segs_def [symmetric] by simp
  then show ?thesis
    using segs t unfolding n_def [symmetric] by auto
qed

text \<open>Each word counts a token per character; a long word is cut into characters' runs.\<close>

lemma kokoro_segments_fit_witness:
  "visible (concat (split_stream_text length 16 None (u ''One two. Three''))) = u ''Onetwo.Three''
    \<and> list_all (fits length 16) (split_stream_text length 16 None (u ''One two. Three''))"
proof -
  have "visible (u ''One two. Three'') = u ''Onetwo.Three''" by (simp add: u_def py_isspace_def)
  then show ?thesis using kokoro_segments_fit [of length 16 None "u ''One two. Three''"] by simp
qed

text \<open>So a segmented synthesis truncates nothing when the limit is within the engine's.\<close>

lemma fitting_segment_is_whole:
  assumes "token_count k t \<le> engine_tokens s" "trt_split s" "synthesize_one k cfg speaker t s = (Inr x, s1)"
  shows "\<not> sp_truncated x"
proof -
  have "length (text_to_token_ids k t) \<le> engine_tokens s" using assms(1) by (simp add: token_count_def)
  with assms(2,3) show ?thesis
    by (auto simp: synthesize_one_def Let_def not_less split: if_splits option.splits prod.splits)
qed

text \<open>The stream is the audio of the segments in order.\<close>

lemma concat_chunks: "0 < n \<Longrightarrow> concat (chunks n xs) = xs"
  by (induction n xs rule: chunks.induct) (subst chunks.simps, auto)

lemma chunk_positive: "0 < chunk_of_ms v"
  by (simp add: chunk_of_ms_def Let_def)

fun spoken_pcm :: "'a kokoro_nets \<Rightarrow> kokoro_config \<Rightarrow> nat option \<Rightarrow> ustr list \<Rightarrow> kokoro \<Rightarrow> 'a list" where
  "spoken_pcm k cfg speaker [] s = []"
| "spoken_pcm k cfg speaker (t # ts) s =
     (case synthesize k cfg speaker t s of
        (Inl e, s1) \<Rightarrow> []
      | (Inr x, s1) \<Rightarrow> sp_pcm x @ spoken_pcm k cfg speaker ts s1)"

lemma stream_is_the_segments: "0 < n \<Longrightarrow> concat (fst (stream_all k cfg speaker n ts s)) = spoken_pcm k cfg speaker ts s"
proof (induction ts arbitrary: s)
  case (Cons t ts)
  obtain r s1 where r: "synthesize k cfg speaker t s = (r, s1)" by (rule prod.exhaust)
  obtain out e s2 where "stream_all k cfg speaker n ts s1 = (out, e, s2)" by (rule prod_cases3)
  then show ?case using Cons.IH [of s1] Cons.prems r by (cases r) (simp_all add: concat_chunks)
qed simp

section \<open>Departures\<close>

text \<open>One segment whose audio outgrows the buckets loads the CPU model, which sets the runtime mode: from
  then on no request of the process uses TensorRT again.\<close>

lemma synthesize_one_mode:
  "synthesize_one k cfg speaker t s = (r, s1) \<Longrightarrow> s1 = s \<or> s1 = s\<lparr>kk_mode := ''ort_cpu''\<rparr>"
  by (auto simp: synthesize_one_def load_ort_def Let_def split: if_splits option.splits)

lemma one_long_segment_ends_tensorrt:
  assumes "kk_mode s = ''split_generator''" "kc_cpu_fallback cfg" "kc_onnx cfg" "text_to_token_ids k t \<noteq> []"
    "load_style cfg (case speaker of None \<Rightarrow> kc_default_sid cfg | Some i \<Rightarrow> i) (length (take (engine_tokens s) (text_to_token_ids k t))) = Some style"
    "select_split_bucket s (kn_frames k (pad_ids s ([0] @ take (engine_tokens s) (text_to_token_ids k t) @ [0])) style) = None"
  shows "kk_mode (snd (synthesize_one k cfg speaker t s)) = ''ort_cpu''"
  using assms by (auto simp: synthesize_one_def load_ort_def trt_split_def Let_def)

lemma cpu_mode_is_forever:
  assumes "kk_mode s = ''ort_cpu''"
  shows "snd (synthesize k cfg speaker t s) = s"
  using assms by (auto simp: synthesize_def trt_split_def synthesize_one_def Let_def split: option.split)

text \<open>A segmented synthesis reports that nothing was cut even when a segment was: the limit of a segment is at
  least sixteen tokens and comes from another variable than the engine's.\<close>

lemma segments_report_no_cut:
  "synthesize_segments k cfg limit speaker t s = (Inr x, s1) \<Longrightarrow> \<not> sp_truncated x"
  by (auto simp: synthesize_segments_def Let_def split: prod.splits sum.splits)

lemma long_segment_is_cut:
  assumes "engine_tokens s < token_count k t" "trt_split s" "synthesize_one k cfg speaker t s = (Inr x, s1)" "text_to_token_ids k t \<noteq> []"
  shows "sp_tokens x = Some (engine_tokens s)" "sp_truncated x"
  using assms by (auto simp: synthesize_one_def token_count_def Let_def split: if_splits option.splits prod.splits)

end
